(* ===== verification/Prelude.thy ===== *)
theory Prelude
  imports Main "HOL-Library.List_Lexorder" "HOL-Library.Char_ord"
begin

text \<open>
  What every component of the development shares: Rust's ordered collections
  (\<open>BTreeMap\<close> and \<open>BTreeSet\<close>) as sorted lists, the interface their clients rely on,
  the byte-string operations of \<open>str\<close> the migration engine uses, and generic list
  lemmas. A Rust \<open>String\<close> is the list of its UTF-8 bytes (\<^typ>\<open>string\<close>), so the
  list order of \<open>List_Lexorder\<close> over the byte order of \<open>Char_ord\<close> is Rust's \<open>Ord\<close> on
  strings.
\<close>

named_theorems schema_defs \<open>definitions unfolded together by the component proofs\<close>

section \<open>Ordered maps\<close>

text \<open>
  The contract of \<open>BTreeMap<K, V>\<close> as its clients use it: lookup after insert and
  remove, and iteration in strictly ascending key order.
\<close>

locale ord_map =
  fixes empty :: "'m"
    and get :: "'m \<Rightarrow> 'k::linorder \<Rightarrow> 'v option"
    and put :: "'k \<Rightarrow> 'v \<Rightarrow> 'm \<Rightarrow> 'm"
    and del :: "'k \<Rightarrow> 'm \<Rightarrow> 'm"
    and entries :: "'m \<Rightarrow> ('k \<times> 'v) list"
    and ok :: "'m \<Rightarrow> bool"
  assumes ok_empty: "ok empty"
    and ok_put: "ok m \<Longrightarrow> ok (put k v m)"
    and ok_del: "ok m \<Longrightarrow> ok (del k m)"
    and get_empty: "get empty k = None"
    and get_put: "ok m \<Longrightarrow> get (put k v m) k' = (if k' = k then Some v else get m k')"
    and get_del: "ok m \<Longrightarrow> get (del k m) k' = (if k' = k then None else get m k')"
    and entries_sorted: "ok m \<Longrightarrow> sorted_wrt (<) (map fst (entries m))"
    and entries_get: "ok m \<Longrightarrow> (k, v) \<in> set (entries m) \<longleftrightarrow> get m k = Some v"
begin

lemma distinct_keys: "ok m \<Longrightarrow> distinct (map fst (entries m))"
  using entries_sorted strict_sorted_iff by blast

lemma key_iff: "ok m \<Longrightarrow> k \<in> fst ` set (entries m) \<longleftrightarrow> get m k \<noteq> None"
  using entries_get by (force simp: image_iff split_paired_Ex)

text \<open>Collecting an iterator of pairs: later pairs replace earlier ones.\<close>

definition collect :: "('k \<times> 'v) list \<Rightarrow> 'm" where
  "collect kvs = foldl (\<lambda>m (k, v). put k v m) empty kvs"

lemma collect_Nil: "collect [] = empty"
  by (simp add: collect_def)

lemma collect_snoc: "collect (kvs @ [(k, v)]) = put k v (collect kvs)"
  by (simp add: collect_def)

lemma ok_collect: "ok (collect kvs)"
  by (induction kvs rule: rev_induct) (auto simp: collect_Nil collect_snoc ok_empty ok_put)

lemma get_collect: "get (collect kvs) k = map_of (rev kvs) k"
  by (induction kvs rule: rev_induct)
    (auto simp: collect_Nil collect_snoc get_empty get_put ok_collect)

lemma get_collect_distinct:
  assumes "distinct (map fst kvs)"
  shows "get (collect kvs) k = map_of kvs k"
  using assms by (metis get_collect map_of_inject_set set_rev distinct_rev rev_map)

lemma entries_eqI:
  assumes "ok m" "ok m'" and "\<And>k. get m k = get m' k"
  shows "entries m = entries m'"
proof -
  have eq: "set (entries m) = set (entries m')"
    using assms by (auto simp: entries_get)
  have s: "sorted (map fst (entries m))" "sorted (map fst (entries m'))"
    and d: "distinct (map fst (entries m))" "distinct (map fst (entries m'))"
    using assms(1,2) entries_sorted strict_sorted_iff by blast+
  have "inj_on fst (set (entries m) \<union> set (entries m'))"
    using d eq by (simp add: distinct_map)
  then show ?thesis
    using s d eq by (intro map_sorted_distinct_set_unique)
qed

end

text \<open>The model of \<open>BTreeMap\<close>: an association list with strictly ascending keys.\<close>

type_synonym ('k, 'v) btree = "('k \<times> 'v) list"

definition bt_ok :: "('k::linorder, 'v) btree \<Rightarrow> bool" where
  "bt_ok m \<longleftrightarrow> sorted_wrt (<) (map fst m)"

definition bt_get :: "('k, 'v) btree \<Rightarrow> 'k \<Rightarrow> 'v option" where
  "bt_get m k = map_of m k"

definition bt_has :: "('k, 'v) btree \<Rightarrow> 'k \<Rightarrow> bool" where
  "bt_has m k = (bt_get m k \<noteq> None)"

fun bt_put :: "'k::linorder \<Rightarrow> 'v \<Rightarrow> ('k, 'v) btree \<Rightarrow> ('k, 'v) btree" where
  "bt_put k v [] = [(k, v)]"
| "bt_put k v ((k', v') # m) =
     (if k < k' then (k, v) # (k', v') # m
      else if k = k' then (k, v) # m
      else (k', v') # bt_put k v m)"

definition bt_del :: "'k \<Rightarrow> ('k, 'v) btree \<Rightarrow> ('k, 'v) btree" where
  "bt_del k m = filter (\<lambda>(k', _). k' \<noteq> k) m"

definition bt_keys :: "('k, 'v) btree \<Rightarrow> 'k list" where
  "bt_keys m = map fst m"

definition bt_values :: "('k, 'v) btree \<Rightarrow> 'v list" where
  "bt_values m = map snd m"

definition bt_collect :: "('k::linorder \<times> 'v) list \<Rightarrow> ('k, 'v) btree" where
  "bt_collect kvs = foldl (\<lambda>m (k, v). bt_put k v m) [] kvs"

lemma set_bt_put_keys: "fst ` set (bt_put k v m) = insert k (fst ` set m)"
  by (induction k v m rule: bt_put.induct) auto

lemma bt_ok_put: "bt_ok m \<Longrightarrow> bt_ok (bt_put k v m)"
  unfolding bt_ok_def
proof (induction k v m rule: bt_put.induct)
  case (2 k v k' v' m)
  then show ?case
    using set_bt_put_keys[of k v m] by (auto simp flip: set_map dest: less_trans)
qed simp

lemma bt_ok_distinct: "bt_ok m \<Longrightarrow> distinct (map fst m)"
  by (simp add: bt_ok_def strict_sorted_iff)

lemma map_of_bt_put: "bt_ok m \<Longrightarrow> map_of (bt_put k v m) = (map_of m)(k \<mapsto> v)"
proof (induction k v m rule: bt_put.induct)
  case (2 k v k' v' m)
  then show ?case by (auto simp: bt_ok_def fun_eq_iff)
qed auto

lemma bt_ok_del: "bt_ok m \<Longrightarrow> bt_ok (bt_del k m)"
  unfolding bt_ok_def bt_del_def
  by (induction m) (auto simp: sorted_wrt_filter split: prod.splits)

lemma map_of_bt_del: "map_of (bt_del k m) = (map_of m)(k := None)"
  by (induction m) (auto simp: bt_del_def fun_eq_iff split: prod.splits)

interpretation bt: ord_map "[]" bt_get bt_put bt_del "\<lambda>m. m" bt_ok
  rewrites "ord_map.collect [] bt_put = bt_collect"
proof -
  show *: "ord_map [] bt_get bt_put bt_del (\<lambda>m. m) bt_ok"
    by unfold_locales
      (auto simp: bt_get_def map_of_bt_put map_of_bt_del bt_ok_put bt_ok_del bt_ok_distinct
        simp flip: bt_ok_def, simp_all add: bt_ok_def)
  show "ord_map.collect [] bt_put = bt_collect"
    by (rule ext) (simp add: ord_map.collect_def [OF *] bt_collect_def)
qed

lemma bt_ok_Nil [simp]: "bt_ok []"
  by (simp add: bt_ok_def)

lemma bt_keys_bt_get: "k \<in> set (bt_keys m) \<longleftrightarrow> bt_get m k \<noteq> None"
  by (force simp: bt_keys_def bt_get_def map_of_eq_None_iff)

lemma bt_has_iff: "bt_has m k \<longleftrightarrow> k \<in> set (bt_keys m)"
  by (simp add: bt_has_def bt_keys_bt_get)

section \<open>Ordered sets\<close>

text \<open>The model of \<open>BTreeSet\<close>: a strictly ascending list.\<close>

definition bs_ok :: "'a::linorder list \<Rightarrow> bool" where
  "bs_ok s \<longleftrightarrow> sorted_wrt (<) s"

definition bs_put :: "'a::linorder \<Rightarrow> 'a list \<Rightarrow> 'a list" where
  "bs_put x s = insort_insert x s"

definition bs_del :: "'a \<Rightarrow> 'a list \<Rightarrow> 'a list" where
  "bs_del x s = filter (\<lambda>y. y \<noteq> x) s"

definition bs_collect :: "'a::linorder list \<Rightarrow> 'a list" where
  "bs_collect xs = sort (remdups xs)"

lemma bs_ok_Nil [simp]: "bs_ok []"
  by (simp add: bs_ok_def)

lemma set_bs_put [simp]: "set (bs_put x s) = insert x (set s)"
  by (simp add: bs_put_def set_insort_insert)

lemma set_bs_del [simp]: "set (bs_del x s) = set s - {x}"
  by (auto simp: bs_del_def)

lemma set_bs_collect [simp]: "set (bs_collect xs) = set xs"
  by (simp add: bs_collect_def)

lemma bs_ok_put: "bs_ok s \<Longrightarrow> bs_ok (bs_put x s)"
  by (simp add: bs_ok_def bs_put_def strict_sorted_iff sorted_insort_insert distinct_insort_insert)

lemma bs_ok_del: "bs_ok s \<Longrightarrow> bs_ok (bs_del x s)"
  by (simp add: bs_ok_def bs_del_def sorted_wrt_filter)

lemma bs_ok_collect: "bs_ok (bs_collect xs)"
  by (simp add: bs_ok_def bs_collect_def strict_sorted_iff)

lemma bs_ok_unique: "bs_ok s \<Longrightarrow> bs_ok t \<Longrightarrow> set s = set t \<Longrightarrow> s = t"
  by (simp add: bs_ok_def strict_sorted_equal)

section \<open>Equality as a trait\<close>

text \<open>
  \<open>PartialEq\<close> with \<open>Eq\<close>: the contract a hand-written \<open>eq\<close> must meet, and the
  \<open>eq\<close> that \<open>#[derive(PartialEq)]\<close> builds from it for vectors.
\<close>

locale eq_trait =
  fixes eq :: "'a \<Rightarrow> 'a \<Rightarrow> bool"
  assumes eq_refl: "eq x x"
    and eq_sym: "eq x y \<Longrightarrow> eq y x"
    and eq_trans: "eq x y \<Longrightarrow> eq y z \<Longrightarrow> eq x z"
begin

lemma equivp_eq: "equivp eq"
  by (rule equivpI) (auto intro!: reflpI sympI transpI intro: eq_refl eq_sym eq_trans)

lemma vec_refl: "list_all2 eq xs xs"
  by (simp add: list.rel_refl eq_refl)

lemma vec_sym: "list_all2 eq xs ys \<Longrightarrow> list_all2 eq ys xs"
  by (metis list_all2_conv_all_nth eq_sym)

lemma vec_trans: "list_all2 eq xs ys \<Longrightarrow> list_all2 eq ys zs \<Longrightarrow> list_all2 eq xs zs"
  by (rule list_all2_trans [of eq eq eq]) (auto intro: eq_trans)

lemma vec_length: "list_all2 eq xs ys \<Longrightarrow> length xs = length ys"
  by (rule list_all2_lengthD)

end

section \<open>Label tables\<close>

text \<open>
  The engine keeps every database enum twice: as a Rust enum and as a label in a SQL
  CHECK constraint, tied by a slice of pairs that both conversions scan from the front.
  The contract of such a slice, and what the two scans promise under it.
\<close>

definition label_of :: "('v \<times> string) list \<Rightarrow> 'v \<Rightarrow> string option" where
  "label_of tab v = map_option snd (find (\<lambda>(v', _). v' = v) tab)"

definition variant_of :: "('v \<times> string) list \<Rightarrow> string \<Rightarrow> 'v option" where
  "variant_of tab l = map_option fst (find (\<lambda>(_, l'). l' = l) tab)"

lemma label_of_map_of: "label_of tab v = map_of tab v"
  by (induction tab) (auto simp: label_of_def)

lemma variant_of_map_of: "variant_of tab l = map_of (map prod.swap tab) l"
  by (induction tab) (auto simp: variant_of_def)

locale label_table =
  fixes tab :: "('v \<times> string) list"
  assumes covers: "v \<in> fst ` set tab"
    and distinct_variants: "distinct (map fst tab)"
    and distinct_labels: "distinct (map snd tab)"
begin

lemma label_of_iff: "label_of tab v = Some l \<longleftrightarrow> (v, l) \<in> set tab"
  by (simp add: label_of_map_of distinct_variants)

lemma variant_of_iff: "variant_of tab l = Some v \<longleftrightarrow> (v, l) \<in> set tab"
proof -
  have "distinct (map fst (map prod.swap tab))"
    using distinct_labels by (simp add: comp_def)
  then show ?thesis
    by (auto simp: variant_of_map_of)
qed

lemma label_not_None: "label_of tab v \<noteq> None"
  using covers [of v] by (simp add: label_of_map_of map_of_eq_None_iff)

lemma roundtrip: "label_of tab v = Some l \<longleftrightarrow> variant_of tab l = Some v"
  by (simp add: label_of_iff variant_of_iff)

lemma label_inj: "label_of tab v = label_of tab w \<Longrightarrow> v = w"
  using label_not_None [of v] roundtrip by (metis not_Some_eq option.inject)

lemma variant_of_None: "variant_of tab l = None \<longleftrightarrow> l \<notin> snd ` set tab"
  by (force simp: variant_of_map_of map_of_eq_None_iff)

end

section \<open>Lists\<close>

lemma set_map_filter: "set (List.map_filter f xs) = {y. \<exists>x\<in>set xs. f x = Some y}"
  by (force simp: List.map_filter_def)

end
