(* ===== verification/Rust_Str.thy ===== *)
theory Rust_Str
  imports Prelude "HOL-Library.Word"
begin

text \<open>
  The operations of Rust's \<open>str\<close> and \<open>u8\<close> that the modelled code calls, on UTF-8 byte
  strings: ASCII case folding, prefixes, trimming of Unicode white space (its UTF-8
  encodings), splitting, and \<open>parse::<u32>\<close>.
\<close>

type_synonym u16 = "16 word"
type_synonym u32 = "32 word"
type_synonym u64 = "64 word"
type_synonym i32 = "32 word"
type_synonym i64 = "64 word"

definition byte :: "char \<Rightarrow> nat" where
  "byte c = of_char c"

definition is_ascii_digit :: "char \<Rightarrow> bool" where
  "is_ascii_digit c \<longleftrightarrow> 48 \<le> byte c \<and> byte c \<le> 57"

definition is_ascii_alpha :: "char \<Rightarrow> bool" where
  "is_ascii_alpha c \<longleftrightarrow> (65 \<le> byte c \<and> byte c \<le> 90) \<or> (97 \<le> byte c \<and> byte c \<le> 122)"

definition is_ascii_alphanumeric :: "char \<Rightarrow> bool" where
  "is_ascii_alphanumeric c \<longleftrightarrow> is_ascii_alpha c \<or> is_ascii_digit c"

definition to_ascii_lower_byte :: "char \<Rightarrow> char" where
  "to_ascii_lower_byte c =
     (if 65 \<le> byte c \<and> byte c \<le> 90 then char_of (byte c + 32) else c)"

definition to_ascii_lowercase :: "string \<Rightarrow> string" where
  "to_ascii_lowercase s = map to_ascii_lower_byte s"

definition eq_ignore_ascii_case :: "string \<Rightarrow> string \<Rightarrow> bool" where
  "eq_ignore_ascii_case s t \<longleftrightarrow> to_ascii_lowercase s = to_ascii_lowercase t"

fun strip_prefix :: "string \<Rightarrow> string \<Rightarrow> string option" where
  "strip_prefix [] s = Some s"
| "strip_prefix (p # ps) [] = None"
| "strip_prefix (p # ps) (c # cs) = (if p = c then strip_prefix ps cs else None)"

text \<open>The UTF-8 encodings of the code points with the White\_Space property.\<close>

definition utf8_whitespace :: "string list" where
  "utf8_whitespace =
     [[CHR 0x09], [CHR 0x0A], [CHR 0x0B], [CHR 0x0C], [CHR 0x0D], [CHR 0x20],
      [CHR 0xC2, CHR 0x85], [CHR 0xC2, CHR 0xA0], [CHR 0xE1, CHR 0x9A, CHR 0x80],
      [CHR 0xE2, CHR 0x80, CHR 0x80], [CHR 0xE2, CHR 0x80, CHR 0x81],
      [CHR 0xE2, CHR 0x80, CHR 0x82], [CHR 0xE2, CHR 0x80, CHR 0x83],
      [CHR 0xE2, CHR 0x80, CHR 0x84], [CHR 0xE2, CHR 0x80, CHR 0x85],
      [CHR 0xE2, CHR 0x80, CHR 0x86], [CHR 0xE2, CHR 0x80, CHR 0x87],
      [CHR 0xE2, CHR 0x80, CHR 0x88], [CHR 0xE2, CHR 0x80, CHR 0x89],
      [CHR 0xE2, CHR 0x80, CHR 0x8A], [CHR 0xE2, CHR 0x80, CHR 0xA8],
      [CHR 0xE2, CHR 0x80, CHR 0xA9], [CHR 0xE2, CHR 0x80, CHR 0xAF],
      [CHR 0xE2, CHR 0x81, CHR 0x9F], [CHR 0xE3, CHR 0x80, CHR 0x80]]"

fun strip_first :: "string list \<Rightarrow> string \<Rightarrow> string option" where
  "strip_first [] s = None"
| "strip_first (w # ws) s =
     (case strip_prefix w s of Some r \<Rightarrow> Some r | None \<Rightarrow> strip_first ws s)"

lemma strip_prefix_length: "strip_prefix p s = Some r \<Longrightarrow> length s = length p + length r"
  by (induction p s rule: strip_prefix.induct) (auto split: if_splits)

lemma strip_prefix_Some: "strip_prefix p s = Some r \<longleftrightarrow> s = p @ r"
  by (induction p s rule: strip_prefix.induct) auto

lemma strip_first_shorter:
  "[] \<notin> set ws \<Longrightarrow> strip_first ws s = Some r \<Longrightarrow> length r < length s"
  by (induction ws) (auto split: option.splits dest!: strip_prefix_length)

function strip_all :: "string list \<Rightarrow> string \<Rightarrow> string" where
  "strip_all ws s =
     (if [] \<in> set ws then s
      else case strip_first ws s of None \<Rightarrow> s | Some r \<Rightarrow> strip_all ws r)"
  by pat_completeness auto
termination
  by (relation "measure (\<lambda>(ws, s). length s)") (auto dest: strip_first_shorter)

declare strip_all.simps [simp del]

definition trim_start :: "string \<Rightarrow> string" where
  "trim_start s = strip_all utf8_whitespace s"

definition trim_end :: "string \<Rightarrow> string" where
  "trim_end s = rev (strip_all (map rev utf8_whitespace) (rev s))"

definition trim :: "string \<Rightarrow> string" where
  "trim s = trim_end (trim_start s)"

text \<open>Splitting at a one-byte separator; the result is never empty.\<close>

fun split_at :: "char \<Rightarrow> string \<Rightarrow> string list" where
  "split_at c [] = [[]]"
| "split_at c (x # xs) =
     (if x = c then [] # split_at c xs
      else case split_at c xs of [] \<Rightarrow> [[x]] | y # ys \<Rightarrow> (x # y) # ys)"

lemma split_at_not_Nil: "split_at c s \<noteq> []"
  by (induction s) (auto split: list.splits)

text \<open>
  \<open>str::parse::<u32>\<close>: an optional plus sign, then at least one digit; a value that
  does not fit is an error.
\<close>

definition digits_value :: "string \<Rightarrow> nat" where
  "digits_value s = foldl (\<lambda>n c. 10 * n + (byte c - 48)) 0 s"

definition parse_u32 :: "string \<Rightarrow> u32 option" where
  "parse_u32 s =
     (let d = (case s of [] \<Rightarrow> [] | c # cs \<Rightarrow> if c = CHR ''+'' then cs else s)
      in if d = [] \<or> \<not> list_all is_ascii_digit d then None
         else if digits_value d < 2 ^ 32 then Some (of_nat (digits_value d)) else None)"

text \<open>Evaluation of the parse on integers; the bound \<open>2 ^ 32\<close> is out of reach of unary numbers.\<close>

lemma digits_value_int:
  "int (foldl (\<lambda>n c. 10 * n + (byte c - 48)) k s) = foldl (\<lambda>n c. 10 * n + int (byte c - 48)) (int k) s"
proof (induction s arbitrary: k)
  case (Cons c s)
  show ?case using Cons.IH [of "10 * k + (byte c - 48)"] by simp
qed simp

lemma parse_u32_code [code]:
  "parse_u32 s =
     (let d = (case s of [] \<Rightarrow> [] | c # cs \<Rightarrow> if c = CHR ''+'' then cs else s)
      in if d = [] \<or> \<not> list_all is_ascii_digit d then None
         else let n = foldl (\<lambda>n c. 10 * n + int (byte c - 48)) 0 d
           in if n < 4294967296 then Some (of_int n) else None)"
proof -
  have "(if digits_value d < 2 ^ 32 then Some (of_nat (digits_value d)) else None)
      = (let n = foldl (\<lambda>n c. 10 * n + int (byte c - 48)) 0 d
         in if n < 4294967296 then Some (of_int n :: u32) else None)" for d
    using digits_value_int [of 0 d, symmetric]
      of_nat_less_iff [of "digits_value d" 4294967296, where 'a = int]
    by (simp add: digits_value_def Let_def)
  then show ?thesis by (simp only: parse_u32_def)
qed

definition saturating_sub :: "u32 \<Rightarrow> u32 \<Rightarrow> u32" where
  "saturating_sub a b = (if b \<le> a then a - b else 0)"

lemma unat_saturating_sub: "unat (saturating_sub a b) = unat a - unat b"
  by (simp add: saturating_sub_def unat_sub_if' word_le_nat_alt)

lemma to_ascii_lower_byte_idem [simp]:
  "to_ascii_lower_byte (to_ascii_lower_byte c) = to_ascii_lower_byte c"
  by (simp add: to_ascii_lower_byte_def byte_def)

lemma to_ascii_lowercase_idem [simp]:
  "to_ascii_lowercase (to_ascii_lowercase s) = to_ascii_lowercase s"
  by (simp add: to_ascii_lowercase_def comp_def)

text \<open>Whether \<open>needle\<close> occurs in a string (\<open>str::contains\<close>).\<close>

fun contains_str :: "string \<Rightarrow> string \<Rightarrow> bool" where
  "contains_str needle [] = (needle = [])"
| "contains_str needle (c # cs) =
     (strip_prefix needle (c # cs) \<noteq> None \<or> contains_str needle cs)"

lemma contains_str_iff: "contains_str n s \<longleftrightarrow> (\<exists>a b. s = a @ n @ b)"
proof (induction s)
  case (Cons c cs)
  show ?case
  proof
    assume "contains_str n (c # cs)"
    then consider r where "c # cs = n @ r" | "contains_str n cs"
      by (auto simp: strip_prefix_Some)
    then show "\<exists>a b. c # cs = a @ n @ b"
      by cases (metis append_Nil, metis Cons.IH append_Cons)
  next
    assume "\<exists>a b. c # cs = a @ n @ b"
    then obtain a b where ab: "c # cs = a @ n @ b" by blast
    show "contains_str n (c # cs)"
    proof (cases a)
      case Nil
      with ab show ?thesis by (metis append_Nil contains_str.simps(2) option.discI strip_prefix_Some)
    next
      case (Cons x xs)
      with ab Cons.IH show ?thesis by auto
    qed
  qed
qed auto

end
