(* ===== verification/Schema.thy ===== *)
theory Schema
  imports Rust_Str
begin

text \<open>
  The owned schema model of \<open>djogi/src/migrate/schema.rs\<close>: one record per struct, one
  datatype per enum, fields in the source's order. A field name carries the initial of
  its struct, because Isabelle's record fields share one name space. The hand-written
  equality of \<open>ColumnSchema\<close>, which ignores the operator's type-change hint, and the
  derived equalities built on it are definitions of their own.
\<close>

section \<open>Enums\<close>

datatype OnDeleteSchema = Restrict | Cascade | SetNull | SetDefault | NoAction

datatype RelationKindSchema = ForeignKey | OneToOne

datatype IdentityKindSchema = ByDefault | Always

definition sql_clause :: "IdentityKindSchema \<Rightarrow> string" where
  "sql_clause k =
     (case k of
        ByDefault \<Rightarrow> ''GENERATED BY DEFAULT AS IDENTITY''
      | Always \<Rightarrow> ''GENERATED ALWAYS AS IDENTITY'')"

datatype IndexTypeSchema = BTree | Gin | Gist | Hash | Spgist | Brin

datatype IndexOrderSchema = Asc | Desc

datatype IndexNullsOrderSchema = NullsDefault | NullsFirst | NullsLast

datatype IndexKindSchema = NonUnique | UniqueConstraint | UniqueIndex

datatype PartitionSchema =
    RangePartition (part_column: string)
  | HashPartition (part_column: string) (partitions: u16)

datatype OnlineSafetyClassification =
    OnlineSafe | FastLockDestructiveGuarded | ExpandContract | OfflineOnly

section \<open>Structs\<close>

record ForeignKeySchema =
  fk_deferrable :: bool
  fk_initially_deferred :: bool
  fk_on_delete :: OnDeleteSchema
  fk_ref_column :: string
  fk_ref_table :: string

record GeneratedColumnSchema =
  g_expression :: string
  g_stored :: bool

record ExclusionElementSchema =
  xe_expr :: string
  xe_with_operator :: string

record ExclusionConstraintSchema =
  x_deferrable :: bool
  x_elements :: "ExclusionElementSchema list"
  x_extension_dependency :: "string option"
  x_initially_deferred :: bool
  x_name :: string
  x_using :: string
  x_where_clause :: "string option"

record IndexColumnSchema =
  ic_name :: string
  ic_nulls :: IndexNullsOrderSchema
  ic_opclass :: "string option"
  ic_order :: IndexOrderSchema

datatype IndexTargetSchema =
    Columns "IndexColumnSchema list"
  | Expression string

record IndexSchema =
  i_extension_dependency :: "string option"
  i_include :: "string list"
  i_index_type :: IndexTypeSchema
  i_kind :: IndexKindSchema
  i_name :: string
  i_nulls_not_distinct :: bool
  i_predicate :: "string option"
  i_requires_out_of_transaction :: bool
  i_table :: string
  i_target :: IndexTargetSchema

record FtsSchema =
  fts_column :: string
  fts_dictionary :: string
  fts_source :: string

record CustomPkKindSchema =
  cpk_default_sql :: string
  cpk_sql_type :: string
  cpk_type_name :: string

datatype PkKindSchema =
    HeerId | HeerIdRecencyBiased | RanjId | RanjIdRecencyBiased
  | Serial | Composite | NoPk | Custom CustomPkKindSchema

record PrimaryKeySchema =
  pk_columns :: "string list"
  pk_kind :: PkKindSchema

record EnumSchema =
  e_name :: string
  e_variants :: "string list"

record ColumnSchema =
  c_check :: "string option"
  c_codec :: "string option"
  c_comment :: "string option"
  c_default_sql :: "string option"
  c_foreign_key :: "ForeignKeySchema option"
  c_generated :: "GeneratedColumnSchema option"
  c_identity :: "IdentityKindSchema option"
  c_index_type :: "IndexTypeSchema option"
  c_indexed :: bool
  c_max_length :: "u32 option"
  c_name :: string
  c_nullable :: bool
  c_on_delete :: "OnDeleteSchema option"
  c_outbox_exclude :: bool
  c_rationale :: "string option"
  c_relation_kind :: "RelationKindSchema option"
  c_renamed_from :: "string option"
  c_sequence_within :: "string option"
  c_sql_type :: string
  c_unique :: bool
  c_type_change_using :: "string option"

record TableSchema =
  t_app :: "string option"
  t_columns :: "ColumnSchema list"
  t_exclusion_constraints :: "ExclusionConstraintSchema list"
  t_fts :: "FtsSchema option"
  t_is_through :: bool
  t_moved_from_app :: "string option"
  t_partition :: "PartitionSchema option"
  t_primary_key :: PrimaryKeySchema
  t_rationale :: "string option"
  t_renamed_from :: "string option"
  t_rls_enabled :: bool
  t_storage_params :: "string option"
  t_table :: string
  t_table_comment :: "string option"
  t_tablespace :: "string option"
  t_tenant_key :: "string option"

record AppliedSchema =
  s_djogi_version :: string
  s_enums :: "(string, EnumSchema) btree"
  s_format_version :: string
  s_generated_at :: string
  s_indexes :: "IndexSchema list"
  s_models :: "(string, TableSchema) btree"
  s_registered_apps :: "string list"

definition SNAPSHOT_FORMAT_VERSION :: string where
  "SNAPSHOT_FORMAT_VERSION = ''1''"

section \<open>Equality\<close>

definition column_eq :: "ColumnSchema \<Rightarrow> ColumnSchema \<Rightarrow> bool" where
  "column_eq a b \<longleftrightarrow>
     c_check a = c_check b
     \<and> c_codec a = c_codec b
     \<and> c_comment a = c_comment b
     \<and> c_default_sql a = c_default_sql b
     \<and> c_foreign_key a = c_foreign_key b
     \<and> c_generated a = c_generated b
     \<and> c_identity a = c_identity b
     \<and> c_index_type a = c_index_type b
     \<and> c_indexed a = c_indexed b
     \<and> c_max_length a = c_max_length b
     \<and> c_name a = c_name b
     \<and> c_nullable a = c_nullable b
     \<and> c_on_delete a = c_on_delete b
     \<and> c_outbox_exclude a = c_outbox_exclude b
     \<and> c_rationale a = c_rationale b
     \<and> c_relation_kind a = c_relation_kind b
     \<and> c_renamed_from a = c_renamed_from b
     \<and> c_sequence_within a = c_sequence_within b
     \<and> c_sql_type a = c_sql_type b
     \<and> c_unique a = c_unique b"

definition table_eq :: "TableSchema \<Rightarrow> TableSchema \<Rightarrow> bool" where
  "table_eq a b \<longleftrightarrow>
     t_app a = t_app b
     \<and> list_all2 column_eq (t_columns a) (t_columns b)
     \<and> t_exclusion_constraints a = t_exclusion_constraints b
     \<and> t_fts a = t_fts b
     \<and> t_is_through a = t_is_through b
     \<and> t_moved_from_app a = t_moved_from_app b
     \<and> t_partition a = t_partition b
     \<and> t_primary_key a = t_primary_key b
     \<and> t_rationale a = t_rationale b
     \<and> t_renamed_from a = t_renamed_from b
     \<and> t_rls_enabled a = t_rls_enabled b
     \<and> t_storage_params a = t_storage_params b
     \<and> t_table a = t_table b
     \<and> t_table_comment a = t_table_comment b
     \<and> t_tablespace a = t_tablespace b
     \<and> t_tenant_key a = t_tenant_key b"

definition schema_eq :: "AppliedSchema \<Rightarrow> AppliedSchema \<Rightarrow> bool" where
  "schema_eq a b \<longleftrightarrow>
     s_djogi_version a = s_djogi_version b
     \<and> s_enums a = s_enums b
     \<and> s_format_version a = s_format_version b
     \<and> s_generated_at a = s_generated_at b
     \<and> s_indexes a = s_indexes b
     \<and> list_all2 (\<lambda>(k, t) (k', t'). k = k' \<and> table_eq t t') (s_models a) (s_models b)
     \<and> s_registered_apps a = s_registered_apps b"

text \<open>
  The one slot \<^const>\<open>column_eq\<close> skips is \<^const>\<open>c_type_change_using\<close>: two columns are
  equal for the engine exactly when they agree after that slot is cleared.
\<close>

lemma column_eq_iff:
  "column_eq a b \<longleftrightarrow> a\<lparr>c_type_change_using := None\<rparr> = b\<lparr>c_type_change_using := None\<rparr>"
  by (cases a; cases b) (simp add: column_eq_def)

interpretation col_eq: eq_trait column_eq
  by unfold_locales (simp_all add: column_eq_iff)

interpretation tab_eq: eq_trait table_eq
proof
  fix x y z :: TableSchema
  show "table_eq x x" by (simp add: table_eq_def col_eq.vec_refl)
  show "table_eq x y \<Longrightarrow> table_eq y x" by (simp add: table_eq_def col_eq.vec_sym)
  show "table_eq x y \<Longrightarrow> table_eq y z \<Longrightarrow> table_eq x z"
    by (auto simp: table_eq_def intro: col_eq.vec_trans)
qed

interpretation entry_eq: eq_trait "\<lambda>(k :: string, t) (k', t'). k = k' \<and> table_eq t t'"
  by unfold_locales (auto intro: tab_eq.eq_refl tab_eq.eq_sym tab_eq.eq_trans)

interpretation sch_eq: eq_trait schema_eq
proof
  fix x y z :: AppliedSchema
  show "schema_eq x x" by (simp add: schema_eq_def entry_eq.vec_refl)
  show "schema_eq x y \<Longrightarrow> schema_eq y x" by (auto simp: schema_eq_def intro: entry_eq.vec_sym)
  show "schema_eq x y \<Longrightarrow> schema_eq y z \<Longrightarrow> schema_eq x z"
    by (auto simp: schema_eq_def intro: entry_eq.vec_trans)
qed

section \<open>Buckets\<close>

text \<open>
  \<open>BucketKey\<close> of \<open>projection.rs\<close> derives \<open>Ord\<close>: database first, then app label.
\<close>

datatype BucketKey = BucketKey (database: string) (app: string)

instantiation BucketKey :: linorder
begin

definition less_eq_BucketKey :: "BucketKey \<Rightarrow> BucketKey \<Rightarrow> bool" where
  "less_eq_BucketKey a b \<longleftrightarrow>
     database a < database b \<or> database a = database b \<and> app a \<le> app b"

definition less_BucketKey :: "BucketKey \<Rightarrow> BucketKey \<Rightarrow> bool" where
  "less_BucketKey a b \<longleftrightarrow>
     database a < database b \<or> database a = database b \<and> app a < app b"

instance
  by standard
    (auto simp: less_eq_BucketKey_def less_BucketKey_def intro: BucketKey.expand)

end

section \<open>Default values\<close>

text \<open>
  A schema whose maps are in key order and file every table and enum under its own name:
  the shape the projection builds.
\<close>

definition schema_ok :: "AppliedSchema \<Rightarrow> bool" where
  "schema_ok s \<longleftrightarrow>
     bt_ok (s_models s) \<and> bt_ok (s_enums s)
     \<and> (\<forall>(k, t) \<in> set (s_models s). k = t_table t)
     \<and> (\<forall>(k, e) \<in> set (s_enums s). k = e_name e)"

definition empty_schema :: AppliedSchema where
  "empty_schema =
     \<lparr>s_djogi_version = '''', s_enums = [], s_format_version = SNAPSHOT_FORMAT_VERSION,
      s_generated_at = '''', s_indexes = [], s_models = [], s_registered_apps = []\<rparr>"

lemma schema_ok_empty: "schema_ok empty_schema"
  by (simp add: schema_ok_def empty_schema_def)

end
