(* ===== verification/Diff_Types.thy ===== *)
theory Diff_Types
  imports Schema
begin

text \<open>
  The vocabulary of \<open>djogi/src/migrate/diff.rs\<close>: the operations a delta is made of, the
  PK-flip payloads, the delta-level classification and the differ's errors. A delta is
  classified by the worst severity among its operations.
\<close>

section \<open>Operations\<close>

datatype ColumnChange =
    SetNullable bool
  | SetDefault "string option"
  | ChangeType (ct_from: string) (ct_to: string) (ct_using: "string option")
  | CodecChange (from_codec: "string option") (to_codec: "string option")
  | SetCheck (ck_from: "string option") (ck_to: "string option")
  | SetUnique bool
  | SetIndexed bool
  | SetGenerated (gen_from: "GeneratedColumnSchema option") (gen_to: "GeneratedColumnSchema option")
  | SetComment (cm_from: "string option") (cm_to: "string option")
  | SetIdentity (id_from: "IdentityKindSchema option") (id_to: "IdentityKindSchema option")

datatype EnumVariantAnchorKind = Before | After

record EnumVariantAnchor =
  a_variant :: string
  a_kind :: EnumVariantAnchorKind

datatype PkFlipJoinTableOption = OptionA | OptionB

definition from_config_char :: "char \<Rightarrow> PkFlipJoinTableOption" where
  "from_config_char c = (if c = CHR ''B'' \<or> c = CHR ''b'' then OptionB else OptionA)"

datatype PkFlipDirection = AscToDesc | DescToAsc

datatype PkFlipFamily = Heer | Ranj

record PkFlipChild =
  ch_table :: string
  ch_fk_column :: string
  ch_fk_constraint_name :: string
  ch_on_delete :: OnDeleteSchema
  ch_fk_deferrable :: bool
  ch_fk_initially_deferred :: bool
  ch_fk_nullable :: bool
  ch_fk_unique :: bool
  ch_family :: PkFlipFamily
  ch_cycle_flag :: bool

record PkFlipSelfFk =
  sf_fk_columns :: "string list"
  sf_fk_constraint_names :: "string list"
  sf_fk_deferrable :: "bool list"
  sf_fk_initially_deferred :: "bool list"

record PkFlipJoinTable =
  jt_table :: string
  jt_fk_to_parent_column :: string
  jt_fk_to_parent_constraint :: string
  jt_fk_to_parent_deferrable :: bool
  jt_fk_to_parent_initially_deferred :: bool
  jt_fk_to_partner_column :: "string option"
  jt_fk_to_partner_constraint :: "string option"
  jt_fk_to_partner_table :: "string option"
  jt_fk_to_partner_deferrable :: bool
  jt_fk_to_partner_initially_deferred :: bool
  jt_family :: PkFlipFamily

record PkFlipCycle =
  cy_peer_table :: string
  cy_peer_fk_column :: string
  cy_self_fk_column :: string

record PkFlipPartitionedMeta =
  pm_partition :: PartitionSchema

record PkTypeFlipGroup =
  pg_parent_table :: string
  pg_parent_from :: PkKindSchema
  pg_parent_to :: PkKindSchema
  pg_direction :: PkFlipDirection
  pg_children :: "PkFlipChild list"
  pg_self_fk :: "PkFlipSelfFk option"
  pg_join_tables :: "PkFlipJoinTable list"
  pg_cycles :: "PkFlipCycle list"
  pg_partitioned_parent :: "PkFlipPartitionedMeta option"
  pg_co_destructive :: bool
  pg_co_lossy :: bool
  pg_join_table_option :: PkFlipJoinTableOption

datatype SchemaOperation =
    AddTable TableSchema
  | DropTable string
  | RenameTable string string
  | AddColumn string ColumnSchema
  | DropColumn string string
  | RenameColumn string string string
  | AlterColumn string string ColumnChange
  | AddForeignKey string string ForeignKeySchema
  | DropForeignKey string string ForeignKeySchema
  | AddIndex IndexSchema
  | DropIndex IndexSchema
  | AddExclusionConstraint string ExclusionConstraintSchema
  | DropExclusionConstraint string string ExclusionConstraintSchema
  | AddEnum EnumSchema
  | DropEnum string
  | AddEnumVariant string string "EnumVariantAnchor option"
  | PkTypeFlip string PkKindSchema PkKindSchema
  | PkTypeFlipGroup PkTypeFlipGroup
  | PkTypeFlipMultiGroup "PkTypeFlipGroup list"
  | RenameApp string string
  | MoveModelBetweenApps string string string
  | SetTableComment string "string option" "string option"
  | SetStorageParams string "string option" "string option"
  | SetTablespace string "string option" "string option"
  | Unsupported string

text \<open>
  \<open>PkFlipError\<close> of \<open>pk_flip.rs\<close>, carried by the differ's error type.
\<close>

datatype PkFlipError =
  MalformedSelfFkMetadata (mf_parent: string) (mf_columns: nat) (mf_names: nat)
    (mf_deferrable: nat) (mf_initially: nat)

datatype DiffError =
    PkFlipCascadeDepthExceeded (de_parent: string) (de_chain: "string list") (de_max_depth: nat)
  | PartitionedMultiParentClusterUnsupported (de_partitioned: "string list") (de_partners: "string list")
  | PkFlipMalformedSelfFkMetadata PkFlipError

section \<open>Classification\<close>

datatype Classification =
    NoOp
  | Additive
  | Reversible
  | Destructive
  | Lossy
  | ClsUnsupported string
  | ClsPkTypeFlip (co_destructive: bool) (co_lossy: bool)

record SchemaDelta =
  d_bucket :: BucketKey
  d_operations :: "SchemaOperation list"
  d_classification :: Classification

datatype Severity = SevAdditive | SevReversible | SevDestructive | SevLossy

fun severity_rank :: "Severity \<Rightarrow> nat" where
  "severity_rank SevAdditive = 0"
| "severity_rank SevReversible = 1"
| "severity_rank SevDestructive = 2"
| "severity_rank SevLossy = 3"

instantiation Severity :: linorder
begin

definition less_eq_Severity :: "Severity \<Rightarrow> Severity \<Rightarrow> bool" where
  "less_eq_Severity a b \<longleftrightarrow> severity_rank a \<le> severity_rank b"

definition less_Severity :: "Severity \<Rightarrow> Severity \<Rightarrow> bool" where
  "less_Severity a b \<longleftrightarrow> severity_rank a < severity_rank b"

instance
proof
  fix x y :: Severity
  show "x \<le> y \<Longrightarrow> y \<le> x \<Longrightarrow> x = y"
    by (cases x; cases y) (simp_all add: less_eq_Severity_def)
qed (auto simp: less_eq_Severity_def less_Severity_def)

end

fun severity_of :: "SchemaOperation \<Rightarrow> Severity" where
  "severity_of (RenameTable _ _) = SevReversible"
| "severity_of (RenameColumn _ _ _) = SevReversible"
| "severity_of (RenameApp _ _) = SevReversible"
| "severity_of (MoveModelBetweenApps _ _ _) = SevReversible"
| "severity_of (DropTable _) = SevDestructive"
| "severity_of (DropColumn _ _) = SevDestructive"
| "severity_of (DropEnum _) = SevDestructive"
| "severity_of (DropIndex _) = SevDestructive"
| "severity_of (DropForeignKey _ _ _) = SevDestructive"
| "severity_of (AlterColumn _ _ change) =
     (if change = SetNullable False then SevLossy else SevAdditive)"
| "severity_of (AddColumn _ column) =
     (if \<not> c_nullable column \<and> c_default_sql column = None \<and> c_generated column = None
      then SevLossy else SevAdditive)"
| "severity_of (DropExclusionConstraint _ _ _) = SevDestructive"
| "severity_of _ = SevAdditive"

fun first_unsupported :: "SchemaOperation list \<Rightarrow> string option" where
  "first_unsupported [] = None"
| "first_unsupported (Unsupported reason # ops) = Some reason"
| "first_unsupported (op # ops) = first_unsupported ops"

fun is_pk_flip_op :: "SchemaOperation \<Rightarrow> bool" where
  "is_pk_flip_op (PkTypeFlip _ _ _) = True"
| "is_pk_flip_op (PkTypeFlipGroup _) = True"
| "is_pk_flip_op (PkTypeFlipMultiGroup _) = True"
| "is_pk_flip_op _ = False"

definition severity_class :: "Severity \<Rightarrow> Classification" where
  "severity_class s =
     (case s of SevAdditive \<Rightarrow> Additive | SevReversible \<Rightarrow> Reversible
      | SevDestructive \<Rightarrow> Destructive | SevLossy \<Rightarrow> Lossy)"

definition classify :: "SchemaOperation list \<Rightarrow> Classification" where
  "classify ops =
     (if ops = [] then NoOp
      else case first_unsupported ops of
        Some reason \<Rightarrow> ClsUnsupported reason
      | None \<Rightarrow>
          if list_ex is_pk_flip_op ops
          then ClsPkTypeFlip (list_ex (\<lambda>op. severity_of op = SevDestructive) ops)
                             (list_ex (\<lambda>op. severity_of op = SevLossy) ops)
          else severity_class (fold (\<lambda>op m. max m (severity_of op)) ops SevAdditive))"

lemma first_unsupported_None:
  "first_unsupported ops = None \<longleftrightarrow> (\<forall>r. Unsupported r \<notin> set ops)"
proof (induction ops)
  case (Cons op ops)
  then show ?case by (cases op) auto
qed simp

lemma first_unsupported_Some:
  "first_unsupported ops = Some r \<Longrightarrow> Unsupported r \<in> set ops"
proof (induction ops)
  case (Cons op ops)
  then show ?case by (cases op) auto
qed simp

lemma fold_max_severity:
  "fold (\<lambda>op m. max m (severity_of op)) ops s = Max (insert s (severity_of ` set ops))"
proof -
  have "(\<lambda>op m. max m (severity_of op)) = (\<lambda>op. max (severity_of op))"
    by (intro ext) (rule max.commute)
  then have "fold (\<lambda>op m. max m (severity_of op)) ops s = fold max (map severity_of ops) s"
    by (simp add: fold_map comp_def)
  also have "\<dots> = Max (set (s # map severity_of ops))"
    by (simp only: Max.set_eq_fold)
  finally show ?thesis by simp
qed

lemma severity_ge_Additive: "SevAdditive \<le> s"
  by (simp add: less_eq_Severity_def)

lemma fold_max_severity_ne:
  "ops \<noteq> [] \<Longrightarrow> fold (\<lambda>op m. max m (severity_of op)) ops SevAdditive
     = Max (severity_of ` set ops)"
  by (simp add: fold_max_severity severity_ge_Additive max_absorb2)

lemma severity_class_inj: "severity_class s = severity_class s' \<longleftrightarrow> s = s'"
  by (cases s; cases s') (simp_all add: severity_class_def)

lemma classify_plain:
  assumes "ops \<noteq> []" "first_unsupported ops = None" "\<not> list_ex is_pk_flip_op ops"
  shows "classify ops = severity_class (Max (severity_of ` set ops))"
  using assms by (simp add: classify_def fold_max_severity_ne)

end
