(* ===== verification/Diff_Table.thy ===== *)
theory Diff_Table
  imports Diff_Types
begin

text \<open>
  The per-table differ of \<open>diff.rs\<close>: columns, foreign keys, the primary key, exclusion
  constraints and table metadata. A function of the source that pushes onto
  \<open>ops: &mut Vec<SchemaOperation>\<close> is a function returning the operations it pushes.
\<close>

section \<open>Debug output\<close>

text \<open>
  The derived \<open>Debug\<close> output of a primary key, as the refusal message embeds it. A string
  is escaped as Rust escapes ASCII; bytes above 127 are copied.
\<close>

definition hex_digit :: "nat \<Rightarrow> char" where
  "hex_digit n = (if n < 10 then char_of (48 + n) else char_of (87 + n))"

definition debug_byte :: "char \<Rightarrow> string" where
  "debug_byte c =
     (if c = CHR 0x22 then [CHR 0x5C, CHR 0x22]
      else if c = CHR 0x5C then [CHR 0x5C, CHR 0x5C]
      else if c = CHR 0x0A then [CHR 0x5C, CHR ''n'']
      else if c = CHR 0x0D then [CHR 0x5C, CHR ''r'']
      else if c = CHR 0x09 then [CHR 0x5C, CHR ''t'']
      else if byte c = 0 then [CHR 0x5C, CHR ''0'']
      else if byte c < 16 then [CHR 0x5C] @ ''u{'' @ [hex_digit (byte c)] @ ''}''
      else if byte c < 32 \<or> byte c = 127
      then [CHR 0x5C] @ ''u{'' @ [hex_digit (byte c div 16), hex_digit (byte c mod 16)] @ ''}''
      else [c])"

definition debug_str :: "string \<Rightarrow> string" where
  "debug_str s = [CHR 0x22] @ concat (map debug_byte s) @ [CHR 0x22]"

fun join_str :: "string \<Rightarrow> string list \<Rightarrow> string" where
  "join_str sep [] = []"
| "join_str sep [s] = s"
| "join_str sep (s # ss) = s @ sep @ join_str sep ss"

definition debug_custom_pk :: "CustomPkKindSchema \<Rightarrow> string" where
  "debug_custom_pk c =
     ''CustomPkKindSchema { default_sql: '' @ debug_str (cpk_default_sql c)
     @ '', sql_type: '' @ debug_str (cpk_sql_type c)
     @ '', type_name: '' @ debug_str (cpk_type_name c) @ '' }''"

fun debug_pk_kind :: "PkKindSchema \<Rightarrow> string" where
  "debug_pk_kind HeerId = ''HeerId''"
| "debug_pk_kind HeerIdRecencyBiased = ''HeerIdRecencyBiased''"
| "debug_pk_kind RanjId = ''RanjId''"
| "debug_pk_kind RanjIdRecencyBiased = ''RanjIdRecencyBiased''"
| "debug_pk_kind Serial = ''Serial''"
| "debug_pk_kind Composite = ''Composite''"
| "debug_pk_kind NoPk = ''None''"
| "debug_pk_kind (Custom c) = ''Custom('' @ debug_custom_pk c @ '')''"

definition debug_pk :: "PrimaryKeySchema \<Rightarrow> string" where
  "debug_pk p =
     ''PrimaryKeySchema { columns: ['' @ join_str '', '' (map debug_str (pk_columns p))
     @ ''], kind: '' @ debug_pk_kind (pk_kind p) @ '' }''"

definition arrow :: string where
  "arrow = [CHR 0xE2, CHR 0x86, CHR 0x92]"

definition both_arrow :: string where
  "both_arrow = [CHR 0xE2, CHR 0x86, CHR 0x94]"

definition section_sign :: string where
  "section_sign = [CHR 0xC2, CHR 0xA7]"

definition tick :: "string \<Rightarrow> string" where
  "tick s = [CHR 0x60] @ s @ [CHR 0x60]"

section \<open>Altering one column\<close>

text \<open>
  The block that pushes \<open>AlterColumn\<close> operations: in this order the CHECK drop that must
  precede a type change, the type or codec change, nullability, default, the CHECK
  transition, uniqueness, generated expression, identity and comment.
\<close>

definition check_transition :: "string option \<Rightarrow> string option \<Rightarrow> ColumnChange list" where
  "check_transition b a =
     (case (b, a) of
        (None, None) \<Rightarrow> []
      | (Some bc, Some ac) \<Rightarrow>
          if bc = ac then [] else [SetCheck (Some bc) None, SetCheck None (Some ac)]
      | (None, Some ac) \<Rightarrow> [SetCheck None (Some ac)]
      | (Some bc, None) \<Rightarrow> [SetCheck (Some bc) None])"

definition column_changes :: "ColumnSchema \<Rightarrow> ColumnSchema \<Rightarrow> ColumnChange list" where
  "column_changes before after =
     (let type_changed = (c_sql_type before \<noteq> c_sql_type after);
          codec_changed = (c_codec before \<noteq> c_codec after)
      in (if type_changed \<and> \<not> codec_changed \<and> c_check before \<noteq> None
          then [SetCheck (c_check before) None] else [])
       @ (if type_changed \<and> \<not> codec_changed
          then [ChangeType (c_sql_type before) (c_sql_type after) (c_type_change_using after)]
          else [])
       @ (if codec_changed then [CodecChange (c_codec before) (c_codec after)] else [])
       @ (if c_nullable before \<noteq> c_nullable after then [SetNullable (c_nullable after)] else [])
       @ (if c_default_sql before \<noteq> c_default_sql after
          then [SetDefault (c_default_sql after)] else [])
       @ (if type_changed \<and> \<not> codec_changed \<and> c_check before \<noteq> None
          then (case c_check after of
                  Some check \<Rightarrow> [SetCheck None (Some check)]
                | None \<Rightarrow> [])
          else check_transition (c_check before) (c_check after))
       @ (if c_unique before \<noteq> c_unique after then [SetUnique (c_unique after)] else [])
       @ (if c_generated before \<noteq> c_generated after
          then [SetGenerated (c_generated before) (c_generated after)] else [])
       @ (if c_identity before \<noteq> c_identity after
          then [SetIdentity (c_identity before) (c_identity after)] else [])
       @ (if c_comment before \<noteq> c_comment after
          then [SetComment (c_comment before) (c_comment after)] else []))"

definition foreign_key_changes ::
  "string \<Rightarrow> ColumnSchema \<Rightarrow> ColumnSchema \<Rightarrow> SchemaOperation list" where
  "foreign_key_changes table before after =
     (case (c_foreign_key before, c_foreign_key after) of
        (None, Some fk) \<Rightarrow> [AddForeignKey table (c_name after) fk]
      | (Some b_fk, None) \<Rightarrow> [DropForeignKey table (c_name after) b_fk]
      | (Some b_fk, Some a_fk) \<Rightarrow>
          if b_fk \<noteq> a_fk
          then [DropForeignKey table (c_name after) b_fk,
                AddForeignKey table (c_name after) a_fk]
          else []
      | (None, None) \<Rightarrow> [])"

definition emit_alter_column ::
  "TableSchema \<Rightarrow> ColumnSchema \<Rightarrow> ColumnSchema \<Rightarrow> SchemaOperation list" where
  "emit_alter_column parent before after =
     map (AlterColumn (t_table parent) (c_name after)) (column_changes before after)
     @ foreign_key_changes (t_table parent) before after"

section \<open>Columns of a table\<close>

definition cols_by_name :: "ColumnSchema list \<Rightarrow> (string, ColumnSchema) btree" where
  "cols_by_name cs = bt_collect (map (\<lambda>c. (c_name c, c)) cs)"

definition column_rename_targets ::
  "(string, ColumnSchema) btree \<Rightarrow> (string, ColumnSchema) btree \<Rightarrow> (string, string) btree" where
  "column_rename_targets before_cols after_cols =
     bt_collect (List.map_filter
       (\<lambda>c. case c_renamed_from c of
              Some prev \<Rightarrow> if bt_has before_cols prev then Some (prev, c_name c) else None
            | None \<Rightarrow> None)
       (bt_values after_cols))"

definition diff_columns_in_table ::
  "TableSchema \<Rightarrow> TableSchema \<Rightarrow> SchemaOperation list \<times> (string, string) btree" where
  "diff_columns_in_table before after =
     (let before_cols = cols_by_name (t_columns before);
          after_cols = cols_by_name (t_columns after);
          targets = column_rename_targets before_cols after_cols;
          renamed_destinations = bt_values targets;
          drops = map (DropColumn (t_table after))
            (filter (\<lambda>old. \<not> bt_has after_cols old \<and> \<not> bt_has targets old)
               (bt_keys before_cols));
          adds = map (AddColumn (t_table after))
            (filter (\<lambda>c. \<not> bt_has before_cols (c_name c)
                        \<and> c_name c \<notin> set renamed_destinations)
               (t_columns after));
          renames = concat (map (\<lambda>(from, to).
              RenameColumn (t_table after) from to
              # emit_alter_column after (the (bt_get before_cols from)) (the (bt_get after_cols to)))
            targets);
          alters = concat (map (\<lambda>(name, ac).
              case bt_get before_cols name of
                None \<Rightarrow> []
              | Some bc \<Rightarrow> if column_eq bc ac then [] else emit_alter_column after bc ac)
            after_cols)
      in (drops @ adds @ renames @ alters, targets))"

section \<open>Primary key\<close>

definition is_pk_kind_flip :: "PkKindSchema \<Rightarrow> PkKindSchema \<Rightarrow> bool" where
  "is_pk_kind_flip before after \<longleftrightarrow>
     (before = HeerId \<and> after = HeerIdRecencyBiased)
     \<or> (before = HeerIdRecencyBiased \<and> after = HeerId)
     \<or> (before = RanjId \<and> after = RanjIdRecencyBiased)
     \<or> (before = RanjIdRecencyBiased \<and> after = RanjId)"

fun is_custom_pk :: "PkKindSchema \<Rightarrow> bool" where
  "is_custom_pk (Custom _) = True"
| "is_custom_pk _ = False"

fun describe_pk_kind :: "PkKindSchema \<Rightarrow> string" where
  "describe_pk_kind (Custom c) =
     ''Custom(type_name = '' @ tick (cpk_type_name c) @ '', sql_type = '' @ tick (cpk_sql_type c)
     @ '', default_sql = '' @ tick (cpk_default_sql c) @ '')''"
| "describe_pk_kind other = debug_pk_kind other"

definition custom_pk_unsupported_reason ::
  "string \<Rightarrow> PkKindSchema \<Rightarrow> PkKindSchema \<Rightarrow> string" where
  "custom_pk_unsupported_reason table before after =
     (let bucket =
        (if is_custom_pk before \<and> is_custom_pk after then ''custom-to-custom''
         else if is_custom_pk before then ''custom-to-built-in''
         else if is_custom_pk after then ''built-in-to-custom''
         else ''non-custom'')
      in ''table '' @ tick table @ '': primary key change involves a '' @ tick ''djogi::primary_key!''
       @ '' custom newtype ('' @ bucket @ '': '' @ describe_pk_kind before @ '' '' @ arrow @ '' ''
       @ describe_pk_kind after @ '') and is not auto-supported in v0.1.0. The ''
       @ tick ''pk_flip'' @ '' family only ships migration playbooks for the four ''
       @ ''built-in asc'' @ both_arrow @ ''desc pairs (HeerId '' @ both_arrow
       @ '' HeerIdRecencyBiased, RanjId '' @ both_arrow
       @ '' RanjIdRecencyBiased); transitions involving a custom ''
       @ ''PK newtype must be hand-written so the operator can decide on ''
       @ ''the value-preserving cast and the FK cascade strategy. See ''
       @ tick ''docs/spec/migrations.md'' @ '' '' @ section_sign
       @ ''10.10a for the v0.1.0 support matrix and rationale.'')"

definition diff_pk_in_table ::
  "TableSchema \<Rightarrow> TableSchema \<Rightarrow> (string, string) btree \<Rightarrow> SchemaOperation list" where
  "diff_pk_in_table before after column_renames =
     (let bp = t_primary_key before; ap = t_primary_key after;
          normalised_before =
            map (\<lambda>c. case bt_get column_renames c of Some c' \<Rightarrow> c' | None \<Rightarrow> c) (pk_columns bp)
      in if bp = ap then []
         else if normalised_before = pk_columns ap \<and> is_pk_kind_flip (pk_kind bp) (pk_kind ap)
         then [PkTypeFlip (t_table after) (pk_kind bp) (pk_kind ap)]
         else if is_custom_pk (pk_kind bp) \<or> is_custom_pk (pk_kind ap)
         then [Unsupported (custom_pk_unsupported_reason (t_table after) (pk_kind bp) (pk_kind ap))]
         else [Unsupported
           (''table '' @ tick (t_table after) @ '': primary key change is not auto-supported (''
            @ debug_pk bp @ '' '' @ arrow @ '' '' @ debug_pk ap
            @ ''). Recognised auto-flips: HeerId '' @ both_arrow
            @ '' HeerIdRecencyBiased, RanjId '' @ both_arrow @ '' RanjIdRecencyBiased ''
            @ ''with identical column lists. Hand-write this migration.'')])"

section \<open>App moves, exclusion constraints, metadata\<close>

definition diff_app_move_in_table :: "TableSchema \<Rightarrow> TableSchema \<Rightarrow> SchemaOperation list" where
  "diff_app_move_in_table before after =
     (if t_app before = t_app after then []
      else [MoveModelBetweenApps (t_table after)
              (case t_app before of Some a \<Rightarrow> a | None \<Rightarrow> [])
              (case t_app after of Some a \<Rightarrow> a | None \<Rightarrow> [])])"

definition excl_by_name ::
  "ExclusionConstraintSchema list \<Rightarrow> (string, ExclusionConstraintSchema) btree" where
  "excl_by_name xs = bt_collect (map (\<lambda>e. (x_name e, e)) xs)"

definition diff_exclusion_constraints_in_table ::
  "TableSchema \<Rightarrow> TableSchema \<Rightarrow> SchemaOperation list" where
  "diff_exclusion_constraints_in_table before after =
     (let before_by_name = excl_by_name (t_exclusion_constraints before);
          after_by_name = excl_by_name (t_exclusion_constraints after)
      in concat (map (\<lambda>(name, be).
           if bt_has after_by_name name then []
           else [DropExclusionConstraint (t_table after) name be]) before_by_name)
       @ concat (map (\<lambda>(name, ae).
           case bt_get before_by_name name of
             Some be \<Rightarrow>
               if be = ae then []
               else [DropExclusionConstraint (t_table after) name be,
                     AddExclusionConstraint (t_table after) ae]
           | None \<Rightarrow> [AddExclusionConstraint (t_table after) ae]) after_by_name))"

definition diff_table_metadata_in_table ::
  "TableSchema \<Rightarrow> TableSchema \<Rightarrow> SchemaOperation list" where
  "diff_table_metadata_in_table before after =
     (if t_table_comment before \<noteq> t_table_comment after
      then [SetTableComment (t_table after) (t_table_comment before) (t_table_comment after)]
      else [])
     @ (if t_storage_params before \<noteq> t_storage_params after
        then [SetStorageParams (t_table after) (t_storage_params before) (t_storage_params after)]
        else [])
     @ (if t_tablespace before \<noteq> t_tablespace after
        then [SetTablespace (t_table after) (t_tablespace before) (t_tablespace after)]
        else [])"

end
