(* ===== verification/Ddl_Spec.thy ===== *)
theory Ddl_Spec
  imports Diff_Table
begin

text \<open>
  What the differ promises, stated against a specification of the database: the columns
  of one table as a partial map, and the effect of each operation's DDL on it, which fails
  (\<^const>\<open>None\<close>) where Postgres rejects the statement: dropping a constraint that is not
  there, adding one that is, changing a type under a CHECK that still mentions the old
  type, creating a column twice. The differ's operations, run from the old columns in the
  order it emits them, never fail and end in the new columns.
\<close>

section \<open>The effect of an operation\<close>

fun apply_change :: "ColumnChange \<Rightarrow> ColumnSchema \<Rightarrow> ColumnSchema option" where
  "apply_change (SetNullable b) c = Some (c\<lparr>c_nullable := b\<rparr>)"
| "apply_change (SetDefault d) c = Some (c\<lparr>c_default_sql := d\<rparr>)"
| "apply_change (ChangeType f t u) c =
     (if c_sql_type c = f \<and> c_check c = None then Some (c\<lparr>c_sql_type := t\<rparr>) else None)"
| "apply_change (CodecChange f t) c =
     (if c_codec c = f then Some (c\<lparr>c_codec := t\<rparr>) else None)"
| "apply_change (SetCheck f t) c =
     (if c_check c = f then Some (c\<lparr>c_check := t\<rparr>) else None)"
| "apply_change (SetUnique b) c =
     (if c_unique c \<noteq> b then Some (c\<lparr>c_unique := b\<rparr>) else None)"
| "apply_change (SetIndexed b) c = Some (c\<lparr>c_indexed := b\<rparr>)"
| "apply_change (SetGenerated f t) c =
     (if c_generated c = f then Some (c\<lparr>c_generated := t\<rparr>) else None)"
| "apply_change (SetComment f t) c =
     (if c_comment c = f then Some (c\<lparr>c_comment := t\<rparr>) else None)"
| "apply_change (SetIdentity f t) c =
     (if c_identity c = f then Some (c\<lparr>c_identity := t\<rparr>) else None)"

fun column_op :: "SchemaOperation \<Rightarrow> ColumnSchema \<Rightarrow> ColumnSchema option" where
  "column_op (AlterColumn _ _ ch) c = apply_change ch c"
| "column_op (AddForeignKey _ _ fk) c =
     (if c_foreign_key c = None then Some (c\<lparr>c_foreign_key := Some fk\<rparr>) else None)"
| "column_op (DropForeignKey _ _ fk) c =
     (if c_foreign_key c = Some fk then Some (c\<lparr>c_foreign_key := None\<rparr>) else None)"
| "column_op _ c = Some c"

type_synonym columns = "string \<rightharpoonup> ColumnSchema"

definition on_column ::
  "string \<Rightarrow> (ColumnSchema \<Rightarrow> ColumnSchema option) \<Rightarrow> columns \<Rightarrow> columns option" where
  "on_column n f m =
     (case m n of
        None \<Rightarrow> None
      | Some c \<Rightarrow> (case f c of None \<Rightarrow> None | Some c' \<Rightarrow> Some (m(n \<mapsto> c'))))"

fun ddl_step :: "SchemaOperation \<Rightarrow> columns \<Rightarrow> columns option" where
  "ddl_step (AddColumn _ c) m =
     (if m (c_name c) = None then Some (m(c_name c \<mapsto> c)) else None)"
| "ddl_step (DropColumn _ n) m = (if m n = None then None else Some (m(n := None)))"
| "ddl_step (RenameColumn _ f t) m =
     (case m f of
        None \<Rightarrow> None
      | Some c \<Rightarrow> if m t = None then Some (m(f := None, t \<mapsto> c\<lparr>c_name := t\<rparr>)) else None)"
| "ddl_step (AlterColumn t n ch) m = on_column n (column_op (AlterColumn t n ch)) m"
| "ddl_step (AddForeignKey t n fk) m = on_column n (column_op (AddForeignKey t n fk)) m"
| "ddl_step (DropForeignKey t n fk) m = on_column n (column_op (DropForeignKey t n fk)) m"
| "ddl_step _ m = Some m"

fun run :: "('op \<Rightarrow> 's \<Rightarrow> 's option) \<Rightarrow> 'op list \<Rightarrow> 's \<Rightarrow> 's option" where
  "run step [] s = Some s"
| "run step (op # ops) s = (case step op s of None \<Rightarrow> None | Some s' \<Rightarrow> run step ops s')"

lemma run_append:
  "run step (xs @ ys) s = (case run step xs s of None \<Rightarrow> None | Some s' \<Rightarrow> run step ys s')"
  by (induction xs arbitrary: s) (auto split: option.splits)

lemma run_if: "run step (if b then xs else ys) s = (if b then run step xs s else run step ys s)"
  by simp

section \<open>One column\<close>

text \<open>The column the differ steers to: \<open>after\<close>'s DDL attributes on the old column.\<close>

definition evolved :: "ColumnSchema \<Rightarrow> ColumnSchema \<Rightarrow> ColumnSchema" where
  "evolved b a =
     b\<lparr>c_sql_type := (if c_codec b = c_codec a then c_sql_type a else c_sql_type b),
       c_codec := c_codec a, c_nullable := c_nullable a, c_default_sql := c_default_sql a,
       c_check := c_check a, c_unique := c_unique a, c_generated := c_generated a,
       c_identity := c_identity a, c_comment := c_comment a\<rparr>"

lemma run_check_transition:
  "c_check c = b \<Longrightarrow> run apply_change (check_transition b a) c = Some (c\<lparr>c_check := a\<rparr>)"
  by (cases c) (auto simp: check_transition_def split: option.splits)

lemma run_column_changes: "run apply_change (column_changes b a) b = Some (evolved b a)"
proof -
  let ?r = "run apply_change"
  let ?tc = "c_sql_type b \<noteq> c_sql_type a" and ?cc = "c_codec b \<noteq> c_codec a"
  let ?st = "if ?cc then c_sql_type b else c_sql_type a"
  let ?dropped = "?tc \<and> \<not> ?cc \<and> c_check b \<noteq> None"
  let ?b1 = "b\<lparr>c_check := (if ?dropped then None else c_check b)\<rparr>"
  let ?b2 = "?b1\<lparr>c_sql_type := ?st\<rparr>"
  let ?b3 = "?b2\<lparr>c_codec := c_codec a\<rparr>"
  let ?b5 = "?b3\<lparr>c_nullable := c_nullable a, c_default_sql := c_default_sql a\<rparr>"
  let ?b6 = "?b5\<lparr>c_check := c_check a\<rparr>"
  have 1: "?r (if ?dropped then [SetCheck (c_check b) None] else []) b = Some ?b1"
    by simp
  have 2: "?r (if ?tc \<and> \<not> ?cc
      then [ChangeType (c_sql_type b) (c_sql_type a) (c_type_change_using a)] else []) ?b1
      = Some ?b2"
    by auto
  have 3: "?r (if ?cc then [CodecChange (c_codec b) (c_codec a)] else []) ?b2 = Some ?b3"
    by simp
  have 4: "?r (if c_nullable b \<noteq> c_nullable a then [SetNullable (c_nullable a)] else []) ?b3
      = Some (?b3\<lparr>c_nullable := c_nullable a\<rparr>)"
    by simp
  have 5: "?r (if c_default_sql b \<noteq> c_default_sql a then [SetDefault (c_default_sql a)] else [])
      (?b3\<lparr>c_nullable := c_nullable a\<rparr>) = Some ?b5"
    by simp
  have 6: "?r (if ?dropped
      then (case c_check a of Some check \<Rightarrow> [SetCheck None (Some check)] | None \<Rightarrow> [])
      else check_transition (c_check b) (c_check a)) ?b5 = Some ?b6"
  proof (cases ?dropped)
    case True
    then show ?thesis by (cases "c_check a") simp_all
  next
    case False
    then have "c_check ?b5 = c_check b" by auto
    from run_check_transition [OF this, of "c_check a"] False show ?thesis
      by (simp only: if_False)
  qed
  show ?thesis
    unfolding column_changes_def Let_def run_append
    by (simp only: 1 2 3 4 5 6 option.case) (simp add: evolved_def run_append)
qed

lemma run_map_alter:
  "run column_op (map (AlterColumn t n) chs) c = run apply_change chs c"
  by (induction chs arbitrary: c) (auto split: option.splits)

lemma run_foreign_key_changes:
  "c_foreign_key c = c_foreign_key b \<Longrightarrow>
   run column_op (foreign_key_changes t b a) c = Some (c\<lparr>c_foreign_key := c_foreign_key a\<rparr>)"
  by (auto simp: foreign_key_changes_def split: option.splits)

lemma run_emit_alter_column:
  "run column_op (emit_alter_column p b a) b
     = Some ((evolved b a)\<lparr>c_foreign_key := c_foreign_key a\<rparr>)"
  by (simp add: emit_alter_column_def run_append run_map_alter run_column_changes
      run_foreign_key_changes evolved_def)

section \<open>All columns of a table\<close>

definition steer :: "ColumnSchema \<Rightarrow> ColumnSchema \<Rightarrow> ColumnSchema" where
  "steer b a = (evolved b a)\<lparr>c_foreign_key := c_foreign_key a\<rparr>"

lemma column_op_name:
  "column_op op (c\<lparr>c_name := n\<rparr>) = map_option (\<lambda>c. c\<lparr>c_name := n\<rparr>) (column_op op c)"
proof (cases op)
  case (AlterColumn t k ch)
  then show ?thesis by (cases ch) auto
qed auto

lemma run_column_op_name:
  "run column_op ops (c\<lparr>c_name := n\<rparr>) = map_option (\<lambda>c. c\<lparr>c_name := n\<rparr>) (run column_op ops c)"
  by (induction ops arbitrary: c) (auto simp: column_op_name split: option.splits)

fun on_name :: "string \<Rightarrow> SchemaOperation \<Rightarrow> bool" where
  "on_name n (AlterColumn _ k _) = (k = n)"
| "on_name n (AddForeignKey _ k _) = (k = n)"
| "on_name n (DropForeignKey _ k _) = (k = n)"
| "on_name n _ = False"

lemma ddl_step_on_name: "on_name n op \<Longrightarrow> ddl_step op m = on_column n (column_op op) m"
  by (cases op) auto

lemma run_on_name:
  "\<forall>op\<in>set ops. on_name n op \<Longrightarrow> m n = Some c \<Longrightarrow>
   run ddl_step ops m = map_option (\<lambda>c'. m(n \<mapsto> c')) (run column_op ops c)"
proof (induction ops arbitrary: m c)
  case Nil
  then show ?case by (auto simp: fun_eq_iff)
next
  case (Cons op ops)
  then have step: "ddl_step op m = map_option (\<lambda>c'. m(n \<mapsto> c')) (column_op op c)"
    by (auto simp: ddl_step_on_name on_column_def split: option.splits)
  show ?case
  proof (cases "column_op op c")
    case (Some c1)
    have "run ddl_step ops (m(n \<mapsto> c1))
        = map_option (\<lambda>c'. (m(n \<mapsto> c1))(n \<mapsto> c')) (run column_op ops c1)"
      using Cons.prems by (intro Cons.IH) auto
    with Some step show ?thesis by (simp del: fun_upd_apply)
  qed (simp add: step)
qed

lemma on_name_emit_alter: "\<forall>op\<in>set (emit_alter_column p b a). on_name (c_name a) op"
  by (auto simp: emit_alter_column_def foreign_key_changes_def split: option.splits)

lemma run_emit_alter_on:
  assumes "m (c_name a) = Some (b\<lparr>c_name := n\<rparr>)"
  shows "run ddl_step (emit_alter_column p b a) m = Some (m(c_name a \<mapsto> (steer b a)\<lparr>c_name := n\<rparr>))"
  using run_on_name [where m = m and n = "c_name a", OF on_name_emit_alter assms]
  by (simp add: run_column_op_name run_emit_alter_column steer_def)

lemma run_drops:
  "distinct ns \<Longrightarrow> \<forall>n\<in>set ns. m n \<noteq> None \<Longrightarrow>
   run ddl_step (map (DropColumn t) ns) m = Some (\<lambda>n. if n \<in> set ns then None else m n)"
proof (induction ns arbitrary: m)
  case (Cons k ns)
  from Cons.prems have "run ddl_step (map (DropColumn t) ns) (m(k := None))
      = Some (\<lambda>n. if n \<in> set ns then None else (m(k := None)) n)"
    by (intro Cons.IH) auto
  with Cons.prems show ?case by (auto simp: fun_eq_iff)
qed simp

lemma run_adds:
  "distinct (map c_name cs) \<Longrightarrow> \<forall>c\<in>set cs. m (c_name c) = None \<Longrightarrow>
   run ddl_step (map (AddColumn t) cs) m
     = Some (\<lambda>n. case map_of (map (\<lambda>c. (c_name c, c)) cs) n of Some c \<Rightarrow> Some c | None \<Rightarrow> m n)"
proof (induction cs arbitrary: m)
  case (Cons c cs)
  have nin: "c_name d \<noteq> c_name c" if "d \<in> set cs" for d
    using Cons.prems(1) that by (auto simp: rev_image_eqI)
  have none: "map_of (map (\<lambda>c. (c_name c, c)) cs) (c_name c) = None"
    using Cons.prems(1) by (auto simp: map_of_eq_None_iff)
  from Cons.prems have "run ddl_step (map (AddColumn t) cs) (m(c_name c \<mapsto> c))
      = Some (\<lambda>n. case map_of (map (\<lambda>c. (c_name c, c)) cs) n of Some c \<Rightarrow> Some c
          | None \<Rightarrow> (m(c_name c \<mapsto> c)) n)"
    by (intro Cons.IH) (auto simp: nin)
  with Cons.prems none show ?case by (auto simp: fun_eq_iff split: option.splits)
qed simp

definition rename_ops ::
  "TableSchema \<Rightarrow> (string \<Rightarrow> ColumnSchema) \<Rightarrow> (string \<Rightarrow> ColumnSchema) \<Rightarrow>
   (string \<times> string) list \<Rightarrow> SchemaOperation list" where
  "rename_ops after B A T =
     concat (map (\<lambda>(f, t). RenameColumn (t_table after) f t # emit_alter_column after (B f) (A t)) T)"

lemma run_renames:
  assumes "distinct (map fst T)" "distinct (map snd T)"
    and "\<forall>(f, t)\<in>set T. m f = Some (B f) \<and> m t = None \<and> c_name (A t) = t"
  shows "run ddl_step (rename_ops after B A T) m
     = Some (\<lambda>n. if n \<in> fst ` set T then None
                  else case map_of (map prod.swap T) n of
                    Some f \<Rightarrow> Some ((steer (B f) (A n))\<lparr>c_name := n\<rparr>) | None \<Rightarrow> m n)"
  using assms
proof (induction T arbitrary: m)
  case Nil
  then show ?case by (simp add: rename_ops_def)
next
  case (Cons p T)
  obtain f t where p: "p = (f, t)" by (cases p)
  from Cons.prems p have m: "m f = Some (B f)" "m t = None" "c_name (A t) = t" by auto
  then have ft: "f \<noteq> t" by auto
  let ?m1 = "m(f := None, t \<mapsto> (B f)\<lparr>c_name := t\<rparr>)"
  let ?m2 = "m(f := None, t \<mapsto> (steer (B f) (A t))\<lparr>c_name := t\<rparr>)"
  have "run ddl_step (emit_alter_column after (B f) (A t)) ?m1 = Some ?m2"
    using run_emit_alter_on [where m = ?m1 and a = "A t" and b = "B f" and n = t] m(3) by simp
  then have step: "run ddl_step (rename_ops after B A (p # T)) m
      = run ddl_step (rename_ops after B A T) ?m2"
    using m p by (simp add: rename_ops_def run_append)
  have tf: "t \<notin> fst ` set T" "f \<notin> snd ` set T"
    using Cons.prems(3) m by fastforce+
  have "\<forall>(f', t')\<in>set T. ?m2 f' = Some (B f') \<and> ?m2 t' = None \<and> c_name (A t') = t'"
    using Cons.prems p tf ft by (auto simp: image_iff split: prod.splits)
  with Cons.IH Cons.prems(1,2) have IH: "run ddl_step (rename_ops after B A T) ?m2
     = Some (\<lambda>n. if n \<in> fst ` set T then None
                  else case map_of (map prod.swap T) n of
                    Some f \<Rightarrow> Some ((steer (B f) (A n))\<lparr>c_name := n\<rparr>) | None \<Rightarrow> ?m2 n)"
    by simp
  have none: "map_of (map prod.swap T) t = None" "map_of (map prod.swap T) f = None"
    using Cons.prems(2) p tf by (auto simp: map_of_eq_None_iff image_iff)
  show ?case
    unfolding step IH using p ft tf none
    by (auto simp: fun_eq_iff split: option.splits)
qed

definition alter_ops ::
  "TableSchema \<Rightarrow> (string \<Rightarrow> ColumnSchema option) \<Rightarrow> (string \<times> ColumnSchema) list \<Rightarrow>
   SchemaOperation list" where
  "alter_ops after B acs =
     concat (map (\<lambda>(name, ac).
       case B name of
         None \<Rightarrow> []
       | Some bc \<Rightarrow> if column_eq bc ac then [] else emit_alter_column after bc ac) acs)"

definition settled :: "ColumnSchema \<Rightarrow> ColumnSchema \<Rightarrow> ColumnSchema" where
  "settled b a = (if column_eq b a then b else (steer b a)\<lparr>c_name := c_name b\<rparr>)"

lemma run_alters:
  assumes "distinct (map fst acs)"
    and "\<forall>(n, a)\<in>set acs. c_name a = n \<and> (\<forall>b. B n = Some b \<longrightarrow> m n = Some b)"
  shows "run ddl_step (alter_ops after B acs) m
     = Some (\<lambda>n. case map_of acs n of
                    None \<Rightarrow> m n
                  | Some a \<Rightarrow> (case B n of None \<Rightarrow> m n | Some b \<Rightarrow> Some (settled b a)))"
  using assms
proof (induction acs arbitrary: m)
  case Nil
  then show ?case by (simp add: alter_ops_def)
next
  case (Cons p acs)
  obtain k a where p: "p = (k, a)" by (cases p)
  let ?m1 = "case B k of None \<Rightarrow> m | Some b \<Rightarrow> m(k \<mapsto> settled b a)"
  have ka: "c_name a = k" using Cons.prems p by auto
  have one: "run ddl_step (alter_ops after B [p]) m = Some ?m1"
  proof (cases "B k")
    case None
    then show ?thesis by (simp add: alter_ops_def p)
  next
    case (Some b)
    then have "m k = Some b" using Cons.prems p by auto
    then have "m (c_name a) = Some (b\<lparr>c_name := c_name b\<rparr>)" using ka by simp
    from run_emit_alter_on [where m = m, OF this] Some p ka \<open>m k = Some b\<close> show ?thesis
      by (auto simp: alter_ops_def settled_def fun_upd_idem)
  qed
  have "alter_ops after B (p # acs) = alter_ops after B [p] @ alter_ops after B acs"
    by (simp add: alter_ops_def)
  then have step: "run ddl_step (alter_ops after B (p # acs)) m
      = run ddl_step (alter_ops after B acs) ?m1"
    by (simp only: run_append one option.case)
  have k: "map_of acs k = None" using Cons.prems(1) p by (simp add: map_of_eq_None_iff)
  have other: "?m1 n = m n" if "n \<noteq> k" for n
    using that by (simp split: option.split)
  have "c_name a = n \<and> (\<forall>b. B n = Some b \<longrightarrow> ?m1 n = Some b)" if na: "(n, a) \<in> set acs" for n a
  proof -
    have "n \<noteq> k" using na Cons.prems(1) p by force
    then show ?thesis using na Cons.prems(2) other by auto
  qed
  then have "\<forall>(n, a)\<in>set acs. c_name a = n \<and> (\<forall>b. B n = Some b \<longrightarrow> ?m1 n = Some b)"
    by blast
  with Cons.IH Cons.prems(1) have IH: "run ddl_step (alter_ops after B acs) ?m1
     = Some (\<lambda>n. case map_of acs n of
                    None \<Rightarrow> ?m1 n
                  | Some a \<Rightarrow> (case B n of None \<Rightarrow> ?m1 n | Some b \<Rightarrow> Some (settled b a)))"
    by simp
  show ?case
    unfolding step IH
  proof (intro arg_cong [where f = Some] ext)
    fix n
    show "(case map_of acs n of None \<Rightarrow> ?m1 n
        | Some a \<Rightarrow> (case B n of None \<Rightarrow> ?m1 n | Some b \<Rightarrow> Some (settled b a)))
      = (case map_of (p # acs) n of None \<Rightarrow> m n
        | Some a \<Rightarrow> (case B n of None \<Rightarrow> m n | Some b \<Rightarrow> Some (settled b a)))"
      using p k other [of n] by (cases "n = k"; cases "B n") (simp_all split: option.split)
  qed
qed

section \<open>The differ's column pass as a whole\<close>

lemma bt_collect_entry: "(k, v) \<in> set (bt_collect kvs) \<Longrightarrow> (k, v) \<in> set kvs"
  using bt.entries_get [OF bt.ok_collect, of k v kvs] bt.get_collect [of kvs k]
  by (metis map_of_SomeD set_rev)

lemma cols_by_name_ok: "bt_ok (cols_by_name cs)"
  by (simp add: cols_by_name_def bt.ok_collect)

lemma cols_by_name_get: "bt_get (cols_by_name cs) n = Some c \<Longrightarrow> c_name c = n \<and> c \<in> set cs"
  using bt.get_collect [of "map (\<lambda>c. (c_name c, c)) cs" n]
  by (auto simp: cols_by_name_def dest!: map_of_SomeD)

lemma cols_by_name_map_of:
  "distinct (map c_name cs) \<Longrightarrow>
   bt_get (cols_by_name cs) n = map_of (map (\<lambda>c. (c_name c, c)) cs) n"
  by (simp add: cols_by_name_def bt.get_collect_distinct comp_def)

lemma rename_target_facts:
  assumes "(f, t) \<in> set (column_rename_targets bc ac)" "bt_ok ac"
    and "\<And>n c. bt_get ac n = Some c \<Longrightarrow> c_name c = n"
  shows "bt_has bc f \<and> (\<exists>a. bt_get ac t = Some a \<and> c_name a = t \<and> c_renamed_from a = Some f)"
proof -
  from bt_collect_entry [OF assms(1) [unfolded column_rename_targets_def]]
  obtain k a where "(k, a) \<in> set ac" "c_renamed_from a = Some f" "bt_has bc f" "t = c_name a"
    by (auto simp: map_filter_def bt_values_def split: option.splits if_splits)
  then show ?thesis
    using bt.entries_get [OF assms(2)] assms(3) by blast
qed

lemma rename_targets_distinct:
  assumes "bt_ok ac" "\<And>n c. bt_get ac n = Some c \<Longrightarrow> c_name c = n"
  shows "distinct (map fst (column_rename_targets bc ac))"
    and "distinct (map snd (column_rename_targets bc ac))"
proof -
  let ?T = "column_rename_targets bc ac"
  show d: "distinct (map fst ?T)"
    unfolding column_rename_targets_def by (rule bt.distinct_keys [OF bt.ok_collect])
  have "f = f'" if "(f, t) \<in> set ?T" "(f', t) \<in> set ?T" for f f' t
    using rename_target_facts [OF that(1) assms] rename_target_facts [OF that(2) assms] by auto
  then have "inj_on snd (set ?T)" by (auto simp: inj_on_def)
  with d show "distinct (map snd ?T)" by (simp add: distinct_map)
qed

text \<open>
  The differ can only be right when a rename does not collide: the column names of the
  new table are distinct, a rename's source is not a column of the new table, and its
  destination is not a column of the old one.
\<close>

definition rename_clean :: "TableSchema \<Rightarrow> TableSchema \<Rightarrow> bool" where
  "rename_clean before after \<longleftrightarrow>
     distinct (map c_name (t_columns after))
     \<and> (\<forall>(f, t) \<in> set (snd (diff_columns_in_table before after)).
          \<not> bt_has (cols_by_name (t_columns before)) t
          \<and> \<not> bt_has (cols_by_name (t_columns after)) f)"

definition final_columns :: "TableSchema \<Rightarrow> TableSchema \<Rightarrow> columns" where
  "final_columns before after n =
     (let bc = cols_by_name (t_columns before); ac = cols_by_name (t_columns after)
      in case bt_get ac n of
           None \<Rightarrow> None
         | Some a \<Rightarrow>
             (case bt_get bc n of
                Some b \<Rightarrow> Some (settled b a)
              | None \<Rightarrow>
                  (case map_of (map prod.swap (column_rename_targets bc ac)) n of
                     Some f \<Rightarrow> Some ((steer (the (bt_get bc f)) a)\<lparr>c_name := n\<rparr>)
                   | None \<Rightarrow> Some a)))"

lemma diff_columns_ops:
  "fst (diff_columns_in_table before after) =
     (let bc = cols_by_name (t_columns before); ac = cols_by_name (t_columns after);
          T = column_rename_targets bc ac
      in map (DropColumn (t_table after))
           (filter (\<lambda>old. \<not> bt_has ac old \<and> \<not> bt_has T old) (bt_keys bc))
       @ map (AddColumn (t_table after))
           (filter (\<lambda>c. \<not> bt_has bc (c_name c) \<and> c_name c \<notin> snd ` set T) (t_columns after))
       @ rename_ops after (\<lambda>f. the (bt_get bc f)) (\<lambda>t. the (bt_get ac t)) T
       @ alter_ops after (bt_get bc) ac)"
  by (simp add: diff_columns_in_table_def Let_def rename_ops_def alter_ops_def bt_values_def)

lemma map_of_filter_name:
  "map_of (map (\<lambda>c. (c_name c, c)) (filter (\<lambda>c. P (c_name c)) xs)) n
     = (if P n then map_of (map (\<lambda>c. (c_name c, c)) xs) n else None)"
  by (induction xs) auto

lemma run_diff_columns:
  assumes clean: "rename_clean before after"
  shows "run ddl_step (fst (diff_columns_in_table before after))
           (bt_get (cols_by_name (t_columns before)))
         = Some (final_columns before after)"
proof -
  define bc where "bc = cols_by_name (t_columns before)"
  define ac where "ac = cols_by_name (t_columns after)"
  define T where "T = column_rename_targets bc ac"
  define B where "B = (\<lambda>f. the (bt_get bc f))"
  define A where "A = (\<lambda>t. the (bt_get ac t))"
  define ns where "ns = filter (\<lambda>old. \<not> bt_has ac old \<and> \<not> bt_has T old) (bt_keys bc)"
  define cs where "cs = filter (\<lambda>c. \<not> bt_has bc (c_name c) \<and> c_name c \<notin> snd ` set T) (t_columns after)"
  have ok: "bt_ok bc" "bt_ok ac" "bt_ok T"
    by (simp_all add: bc_def ac_def T_def cols_by_name_ok column_rename_targets_def bt.ok_collect)
  have nb: "bt_get bc n = Some c \<Longrightarrow> c_name c = n" and na: "bt_get ac n = Some c \<Longrightarrow> c_name c = n" for n c
    using cols_by_name_get by (auto simp: bc_def ac_def)
  have dn: "distinct (map c_name (t_columns after))"
    and cl: "\<And>f t. (f, t) \<in> set T \<Longrightarrow> bt_get bc t = None \<and> bt_get ac f = None"
    using clean by (auto simp: rename_clean_def T_def bc_def ac_def diff_columns_in_table_def
        Let_def bt_has_def)
  have Tf: "\<exists>b a. bt_get bc f = Some b \<and> bt_get ac t = Some a \<and> c_name a = t"
    if "(f, t) \<in> set T" for f t
    using rename_target_facts [OF that [unfolded T_def] ok(2) na] by (auto simp: bt_has_def)
  have dT: "distinct (map fst T)" "distinct (map snd T)"
    using rename_targets_distinct [OF ok(2) na] by (auto simp: T_def)
  have Thas: "bt_has T n \<longleftrightarrow> n \<in> fst ` set T" for n
    by (simp add: bt_has_iff bt_keys_def)
  define m1 where "m1 = (\<lambda>n. if n \<in> set ns then None else bt_get bc n)"
  define m2 where "m2 = (\<lambda>n. case map_of (map (\<lambda>c. (c_name c, c)) cs) n of
      Some c \<Rightarrow> Some c | None \<Rightarrow> m1 n)"
  define m3 where "m3 = (\<lambda>n. if n \<in> fst ` set T then None
      else case map_of (map prod.swap T) n of
        Some f \<Rightarrow> Some ((steer (B f) (A n))\<lparr>c_name := n\<rparr>) | None \<Rightarrow> m2 n)"
  have ns_mem: "n \<in> set ns \<longleftrightarrow> bt_get bc n \<noteq> None \<and> bt_get ac n = None \<and> n \<notin> fst ` set T" for n
    using bt_has_def [of ac n] by (auto simp: ns_def bt_keys_bt_get Thas)
  have s1: "run ddl_step (map (DropColumn (t_table after)) ns) (bt_get bc) = Some m1"
    unfolding m1_def
    by (rule run_drops)
      (use bt.distinct_keys [OF ok(1)] ns_mem in \<open>auto simp: ns_def bt_keys_def\<close>)
  have cs_get: "map_of (map (\<lambda>c. (c_name c, c)) cs) n
      = (if bt_get bc n = None \<and> n \<notin> snd ` set T then bt_get ac n else None)" for n
    using map_of_filter_name [of "\<lambda>k. \<not> bt_has bc k \<and> k \<notin> snd ` set T" "t_columns after" n]
    by (simp add: cs_def bt_has_def ac_def cols_by_name_map_of [OF dn])
  have s2: "run ddl_step (map (AddColumn (t_table after)) cs) m1 = Some m2"
    unfolding m2_def
    by (rule run_adds) (use dn in \<open>auto simp: cs_def m1_def bt_has_def distinct_map_filter\<close>)
  have m2_T: "m2 f = Some (B f) \<and> m2 t = None \<and> c_name (A t) = t" if "(f, t) \<in> set T" for f t
  proof -
    from Tf [OF that] obtain b a where ba: "bt_get bc f = Some b" "bt_get ac t = Some a" "c_name a = t"
      by blast
    have "f \<in> fst ` set T" "t \<in> snd ` set T" using that by force+
    then show ?thesis
      using ba cl [OF that] by (simp add: m2_def cs_get m1_def ns_mem B_def A_def)
  qed
  have s3: "run ddl_step (rename_ops after B A T) m2 = Some m3"
    unfolding m3_def by (rule run_renames) (use dT m2_T in auto)
  have swap: "map_of (map prod.swap T) n = Some f \<longleftrightarrow> (f, n) \<in> set T" for n f
  proof -
    have "distinct (map fst (map prod.swap T))" using dT(2) by (simp add: comp_def)
    then show ?thesis by auto
  qed
  have keep: "m3 n = Some b" if "bt_get ac n = Some a" "bt_get bc n = Some b" for n a b
  proof -
    have "n \<notin> fst ` set T" "map_of (map prod.swap T) n = None"
      using that cl swap by (fastforce, metis option.distinct(1) not_None_eq)
    then show ?thesis
      using that by (simp add: m3_def m2_def cs_get m1_def ns_mem)
  qed
  have s4: "run ddl_step (alter_ops after (bt_get bc) ac) m3
     = Some (\<lambda>n. case map_of ac n of
                    None \<Rightarrow> m3 n
                  | Some a \<Rightarrow> (case bt_get bc n of None \<Rightarrow> m3 n | Some b \<Rightarrow> Some (settled b a)))"
    by (rule run_alters)
      (use bt.distinct_keys [OF ok(2)] bt.entries_get [OF ok(2)] na keep in auto)
  have final: "(case map_of ac n of
                    None \<Rightarrow> m3 n
                  | Some a \<Rightarrow> (case bt_get bc n of None \<Rightarrow> m3 n | Some b \<Rightarrow> Some (settled b a)))
      = final_columns before after n" for n
  proof (cases "bt_get ac n")
    case None
    then have "map_of (map prod.swap T) n = None"
      using swap Tf by (metis not_Some_eq option.distinct(1))
    with None have "m3 n = None"
      by (auto simp: m3_def m2_def cs_get m1_def ns_mem)
    with None show ?thesis
      by (simp add: final_columns_def bt_get_def flip: bc_def ac_def)
  next
    case (Some a)
    show ?thesis
    proof (cases "bt_get bc n")
      case None
      then have nT: "n \<notin> fst ` set T" using Tf by fastforce
      have "m3 n = (case map_of (map prod.swap T) n of
          Some f \<Rightarrow> Some ((steer (B f) a)\<lparr>c_name := n\<rparr>) | None \<Rightarrow> Some a)"
      proof (cases "map_of (map prod.swap T) n")
        case None
        then have "\<And>f. (f, n) \<notin> set T" using swap [of n] by simp
        then have "n \<notin> snd ` set T" by force
        with nT None Some \<open>bt_get bc n = None\<close> show ?thesis
          by (simp add: m3_def m2_def cs_get)
      next
        case (Some f)
        with nT \<open>bt_get ac n = Some a\<close> show ?thesis by (simp add: m3_def A_def)
      qed
      moreover have "final_columns before after n = (case map_of (map prod.swap T) n of
          Some f \<Rightarrow> Some ((steer (B f) a)\<lparr>c_name := n\<rparr>) | None \<Rightarrow> Some a)"
        using Some None unfolding B_def T_def
        by (simp add: final_columns_def flip: bc_def ac_def)
      ultimately show ?thesis using Some None by (simp flip: bt_get_def)
    next
      case (Some b)
      with \<open>bt_get ac n = Some a\<close> show ?thesis
        by (simp add: final_columns_def flip: bc_def ac_def bt_get_def)
    qed
  qed
  show ?thesis
    unfolding diff_columns_ops Let_def
    using s1 s2 s3 s4 final
    by (simp add: run_append flip: bc_def ac_def T_def ns_def cs_def B_def A_def)
qed

section \<open>What the database stores\<close>

text \<open>
  The attributes of a column that its DDL carries. The slots left out are the engine's own
  bookkeeping: they never reach the database.
\<close>

record ColumnDdl =
  dc_name :: string
  dc_sql_type :: string
  dc_codec :: "string option"
  dc_nullable :: bool
  dc_default :: "string option"
  dc_check :: "string option"
  dc_unique :: bool
  dc_generated :: "GeneratedColumnSchema option"
  dc_identity :: "IdentityKindSchema option"
  dc_comment :: "string option"
  dc_foreign_key :: "ForeignKeySchema option"

definition ddl_view :: "ColumnSchema \<Rightarrow> ColumnDdl" where
  "ddl_view c =
     \<lparr>dc_name = c_name c, dc_sql_type = c_sql_type c, dc_codec = c_codec c,
      dc_nullable = c_nullable c, dc_default = c_default_sql c, dc_check = c_check c,
      dc_unique = c_unique c, dc_generated = c_generated c, dc_identity = c_identity c,
      dc_comment = c_comment c, dc_foreign_key = c_foreign_key c\<rparr>"

lemma ddl_view_column_eq: "column_eq b a \<Longrightarrow> ddl_view b = ddl_view a"
  by (simp add: column_eq_def ddl_view_def)

text \<open>
  What a column must come to. A codec transition owns the storage type of its column: its rows
  are re-encoded by hand, so the type stays.
\<close>

definition expected_ddl :: "ColumnSchema option \<Rightarrow> ColumnSchema \<Rightarrow> ColumnDdl" where
  "expected_ddl old a =
     (case old of
        Some b \<Rightarrow> if c_codec b = c_codec a then ddl_view a else (ddl_view a)\<lparr>dc_sql_type := c_sql_type b\<rparr>
      | None \<Rightarrow> ddl_view a)"

text \<open>The old column behind a new name: the one of that name, or the one renamed to it.\<close>

definition old_column :: "TableSchema \<Rightarrow> TableSchema \<Rightarrow> string \<Rightarrow> ColumnSchema option" where
  "old_column before after n =
     (let bc = cols_by_name (t_columns before)
      in case bt_get bc n of
           Some b \<Rightarrow> Some b
         | None \<Rightarrow> Option.bind (map_of (map prod.swap (snd (diff_columns_in_table before after))) n) (bt_get bc))"

lemma ddl_view_steer:
  "c_name a = n \<Longrightarrow> ddl_view ((steer b a)\<lparr>c_name := n\<rparr>) = expected_ddl (Some b) a"
  by (simp add: ddl_view_def expected_ddl_def steer_def evolved_def)

lemma ddl_view_settled:
  "c_name b = c_name a \<Longrightarrow> ddl_view (settled b a) = expected_ddl (Some b) a"
  using ddl_view_steer [of a "c_name b" b]
  by (simp add: settled_def expected_ddl_def ddl_view_column_eq) (simp add: column_eq_def)

lemma diff_columns_renames:
  "snd (diff_columns_in_table before after)
    = column_rename_targets (cols_by_name (t_columns before)) (cols_by_name (t_columns after))"
  by (simp add: diff_columns_in_table_def Let_def)

lemma final_columns_view:
  "map_option ddl_view (final_columns before after n)
    = map_option (expected_ddl (old_column before after n)) (bt_get (cols_by_name (t_columns after)) n)"
proof -
  let ?bc = "cols_by_name (t_columns before)" and ?ac = "cols_by_name (t_columns after)"
  let ?T = "column_rename_targets ?bc ?ac"
  show ?thesis
  proof (cases "bt_get ?ac n")
    case None
    then show ?thesis by (simp add: final_columns_def)
  next
    case a: (Some a)
    note an = cols_by_name_get [OF a]
    show ?thesis
    proof (cases "bt_get ?bc n")
      case (Some b)
      with cols_by_name_get [OF Some] an a show ?thesis
        by (simp add: final_columns_def old_column_def ddl_view_settled)
    next
      case None
      show ?thesis
      proof (cases "map_of (map prod.swap ?T) n")
        case (Some f)
        then have "(f, n) \<in> set ?T" by (auto dest!: map_of_SomeD)
        from rename_target_facts [OF this cols_by_name_ok] cols_by_name_get
        have "bt_has ?bc f" by blast
        then obtain b where "bt_get ?bc f = Some b" by (auto simp: bt_has_def)
        with Some None a an show ?thesis
          by (simp add: final_columns_def old_column_def diff_columns_renames ddl_view_steer)
      qed (simp add: final_columns_def old_column_def diff_columns_renames expected_ddl_def a None)
    qed
  qed
qed

text \<open>
  C1: if the new table's column names are distinct and no rename collides (its source is not a
  column of the new table, its destination not one of the old), executing the column operations
  the differ emits for the table, in their order, succeeds from the old columns and ends with
  the columns of the new table and no others. Each has every attribute that DDL on a column
  controls (name, type, codec, nullability, default, check, uniqueness, generation, identity,
  comment, foreign key) as in the new table, except that a column whose codec changes keeps its
  old type.
\<close>

theorem column_ops_reach_models:
  assumes "rename_clean before after"
  shows "\<exists>m. run ddl_step (fst (diff_columns_in_table before after))
           (bt_get (cols_by_name (t_columns before))) = Some m
    \<and> (\<forall>n. map_option ddl_view (m n)
            = map_option (expected_ddl (old_column before after n)) (bt_get (cols_by_name (t_columns after)) n))"
  using run_diff_columns [OF assms] final_columns_view by blast

text \<open>
  for one column of any kind, the alterations emitted run without
  failing and give it the new nullability, default, check, uniqueness, generation, identity,
  comment, foreign key and codec; the type changes unless the codec does, which owns its own
  re-encoding.
\<close>

lemma alter_column_reaches:
  "\<exists>c. run column_op (emit_alter_column parent before after) before = Some c
    \<and> c_nullable c = c_nullable after \<and> c_default_sql c = c_default_sql after
    \<and> c_check c = c_check after \<and> c_unique c = c_unique after
    \<and> c_generated c = c_generated after \<and> c_identity c = c_identity after
    \<and> c_comment c = c_comment after \<and> c_foreign_key c = c_foreign_key after
    \<and> c_codec c = c_codec after
    \<and> c_sql_type c = (if c_codec before = c_codec after then c_sql_type after else c_sql_type before)"
  by (simp add: run_emit_alter_column evolved_def)

end
