(* ===== verification/Keyed_Diff.thy ===== *)
theory Keyed_Diff
  imports Ddl_Spec
begin

text \<open>
  The contract that the differ's passes over named objects share (indexes of a bucket,
  exclusion constraints of a table): an object is dropped and added as a whole, a changed
  object is dropped and added again, and the database refuses to add a name twice or to
  drop what is not there. The interpretations on the two passes are here and in
  \<open>Diff_Schema\<close>.
\<close>

lemma mem_map_of: "k \<in> fst ` set xs \<longleftrightarrow> map_of xs k \<noteq> None"
  by (simp add: map_of_eq_None_iff)

lemma bt_get_map_of: "bt_get m = map_of m"
  by (rule ext) (simp add: bt_get_def)

locale keyed_diff =
  fixes key :: "'v \<Rightarrow> string"
    and add :: "'v \<Rightarrow> 'op"
    and drop :: "'v \<Rightarrow> 'op"
    and step :: "'op \<Rightarrow> (string \<rightharpoonup> 'v) \<Rightarrow> (string \<rightharpoonup> 'v) option"
    and same :: "'v \<Rightarrow> 'v \<Rightarrow> bool"
  assumes step_add: "m (key v) = None \<Longrightarrow> step (add v) m = Some (m(key v \<mapsto> v))"
    and step_drop: "m (key v) = Some v \<Longrightarrow> step (drop v) m = Some (m(key v := None))"
begin

definition replace_pass :: "(string \<rightharpoonup> 'v) \<Rightarrow> (string \<times> 'v) list \<Rightarrow> 'op list" where
  "replace_pass B kvs =
     concat (map (\<lambda>(k, a).
       case B k of
         Some b \<Rightarrow> if same b a then [] else [drop b, add a]
       | None \<Rightarrow> [add a]) kvs)"

definition drop_pass :: "(string \<rightharpoonup> 'v) \<Rightarrow> (string \<times> 'v) list \<Rightarrow> 'op list" where
  "drop_pass A kvs = concat (map (\<lambda>(k, b). if A k \<noteq> None then [] else [drop b]) kvs)"

definition merged :: "(string \<rightharpoonup> 'v) \<Rightarrow> (string \<rightharpoonup> 'v) \<Rightarrow> string \<rightharpoonup> 'v" where
  "merged B A k =
     (case A k of
        None \<Rightarrow> None
      | Some a \<Rightarrow> (case B k of Some b \<Rightarrow> if same b a then Some b else Some a | None \<Rightarrow> Some a))"

lemma run_replace_one:
  assumes "key a = k" "\<forall>b. B k = Some b \<longrightarrow> key b = k" "m k = B k" "A k = Some a"
  shows "run step (replace_pass B [(k, a)]) m = Some (m(k := merged B A k))"
proof (cases "B k")
  case None
  with assms show ?thesis by (simp add: replace_pass_def merged_def step_add)
next
  case (Some b)
  with assms step_add [of "m(k := None)" a] step_drop [of m b] show ?thesis
    by (auto simp: replace_pass_def merged_def fun_upd_idem_iff)
qed

lemma run_replace_pass:
  assumes "distinct (map fst kvs)" "\<forall>k b. B k = Some b \<longrightarrow> key b = k"
    and "\<forall>(k, a)\<in>set kvs. key a = k \<and> m k = B k"
  shows "run step (replace_pass B kvs) m
    = Some (\<lambda>k. if k \<in> fst ` set kvs then merged B (map_of kvs) k else m k)"
  using assms
proof (induction kvs arbitrary: m)
  case Nil
  then show ?case by (simp add: replace_pass_def)
next
  case (Cons p kvs)
  obtain k a where p: "p = (k, a)" by (cases p)
  let ?m = "m(k := merged B (map_of (p # kvs)) k)"
  have one: "run step (replace_pass B [(k, a)]) m = Some ?m"
    using Cons.prems p by (intro run_replace_one) auto
  have nk: "k \<notin> fst ` set kvs" using Cons.prems(1) p by simp
  have "run step (replace_pass B kvs) ?m
      = Some (\<lambda>j. if j \<in> fst ` set kvs then merged B (map_of kvs) j else ?m j)"
    using Cons.prems nk by (intro Cons.IH) (auto simp: rev_image_eqI)
  moreover have "replace_pass B (p # kvs) = replace_pass B [(k, a)] @ replace_pass B kvs"
    by (simp add: replace_pass_def p)
  moreover
  have "merged B (map_of kvs) j = merged B (map_of (p # kvs)) j" if "j \<noteq> k" for j
    using that p by (simp add: merged_def)
  then have "(\<lambda>j. if j \<in> fst ` set kvs then merged B (map_of kvs) j else ?m j)
      = (\<lambda>j. if j \<in> fst ` set (p # kvs) then merged B (map_of (p # kvs)) j else m j)"
    using nk p by (intro ext, rename_tac j, case_tac "j = k") auto
  ultimately show ?case
    using one by (simp only: run_append option.case)
qed

lemma run_drop_pass:
  assumes "distinct (map fst kvs)"
    and "\<forall>(k, b)\<in>set kvs. key b = k \<and> (A k = None \<longrightarrow> m k = Some b)"
  shows "run step (drop_pass A kvs) m
    = Some (\<lambda>k. if k \<in> fst ` set kvs \<and> A k = None then None else m k)"
  using assms
proof (induction kvs arbitrary: m)
  case Nil
  then show ?case by (simp add: drop_pass_def)
next
  case (Cons p kvs)
  obtain k b where p: "p = (k, b)" by (cases p)
  let ?m = "if A k = None then m(k := None) else m"
  have one: "run step (drop_pass A [(k, b)]) m = Some ?m"
    using Cons.prems p step_drop [of m b] by (auto simp: drop_pass_def)
  have nk: "k \<notin> fst ` set kvs" using Cons.prems(1) p by simp
  have "run step (drop_pass A kvs) ?m
      = Some (\<lambda>j. if j \<in> fst ` set kvs \<and> A j = None then None else ?m j)"
    using Cons.prems nk by (intro Cons.IH) (auto simp: rev_image_eqI)
  moreover have "drop_pass A (p # kvs) = drop_pass A [(k, b)] @ drop_pass A kvs"
    by (simp add: drop_pass_def p)
  ultimately show ?case
    using one nk p by (auto simp: run_append fun_eq_iff)
qed

text \<open>Both orders of the two passes end in the merged objects.\<close>

lemma replace_then_drop:
  assumes B: "distinct (map fst bs)" "\<forall>(k, b)\<in>set bs. key b = k"
    and A: "distinct (map fst as)" "\<forall>(k, a)\<in>set as. key a = k"
  shows "run step (replace_pass (map_of bs) as @ drop_pass (map_of as) bs) (map_of bs)
    = Some (merged (map_of bs) (map_of as))"
proof -
  let ?m = "\<lambda>k. if k \<in> fst ` set as then merged (map_of bs) (map_of as) k else map_of bs k"
  have "run step (replace_pass (map_of bs) as) (map_of bs) = Some ?m"
    using A B by (intro run_replace_pass) (auto dest!: map_of_SomeD)
  moreover have "run step (drop_pass (map_of as) bs) ?m
      = Some (\<lambda>k. if k \<in> fst ` set bs \<and> map_of as k = None then None else ?m k)"
    using A B by (intro run_drop_pass) (auto simp: map_of_eq_None_iff)
  moreover have "(if k \<in> fst ` set bs \<and> map_of as k = None then None else ?m k)
      = merged (map_of bs) (map_of as) k" for k
    unfolding mem_map_of by (auto simp: merged_def split: option.splits)
  ultimately show ?thesis by (simp add: run_append)
qed

lemma drop_then_replace:
  assumes B: "distinct (map fst bs)" "\<forall>(k, b)\<in>set bs. key b = k"
    and A: "distinct (map fst as)" "\<forall>(k, a)\<in>set as. key a = k"
  shows "run step (drop_pass (map_of as) bs @ replace_pass (map_of bs) as) (map_of bs)
    = Some (merged (map_of bs) (map_of as))"
proof -
  let ?m = "\<lambda>k. if k \<in> fst ` set bs \<and> map_of as k = None then None else map_of bs k"
  have "run step (drop_pass (map_of as) bs) (map_of bs) = Some ?m"
    using A B by (intro run_drop_pass) auto
  moreover have "run step (replace_pass (map_of bs) as) ?m
      = Some (\<lambda>k. if k \<in> fst ` set as then merged (map_of bs) (map_of as) k else ?m k)"
    using A B by (intro run_replace_pass) (auto simp: mem_map_of [symmetric] rev_image_eqI dest!: map_of_SomeD)
  moreover have "(if k \<in> fst ` set as then merged (map_of bs) (map_of as) k else ?m k)
      = merged (map_of bs) (map_of as) k" for k
    unfolding mem_map_of by (auto simp: merged_def split: option.splits)
  ultimately show ?thesis by (simp add: run_append)
qed

end

lemma bt_collect_keyed:
  assumes "\<And>v. v \<in> set vs \<Longrightarrow> f v = (key v, v)"
  shows "distinct (map fst (bt_collect (map f vs)))"
    and "\<forall>(k, v)\<in>set (bt_collect (map f vs)). key v = k"
  using bt.distinct_keys [OF bt.ok_collect] bt_collect_entry [of _ _ "map f vs"] assms
  by fastforce+

section \<open>Exclusion constraints\<close>

fun excl_step ::
  "SchemaOperation \<Rightarrow> (string \<rightharpoonup> ExclusionConstraintSchema) \<Rightarrow> (string \<rightharpoonup> ExclusionConstraintSchema) option"
where
  "excl_step (AddExclusionConstraint _ x) m =
     (if m (x_name x) = None then Some (m(x_name x \<mapsto> x)) else None)"
| "excl_step (DropExclusionConstraint _ n x) m =
     (if m n = Some x then Some (m(n := None)) else None)"
| "excl_step _ m = Some m"

interpretation excl: keyed_diff x_name "AddExclusionConstraint t"
  "\<lambda>x. DropExclusionConstraint t (x_name x) x" excl_step "(=)" for t :: string
  by unfold_locales simp_all

lemma excl_merged_eq: "excl.merged B A = A"
  by (rule ext) (auto simp: excl.merged_def split: option.splits)

lemma diff_exclusion_passes:
  "diff_exclusion_constraints_in_table before after =
     (let bs = excl_by_name (t_exclusion_constraints before);
          as = excl_by_name (t_exclusion_constraints after); t = t_table after
      in excl.drop_pass t (map_of as) bs @ excl.replace_pass t (map_of bs) as)"
proof -
  note k = bt_collect_keyed(2) [where key = x_name, OF refl]
  have 1: "map (\<lambda>(name, be). if map_of A name \<noteq> None then []
        else [DropExclusionConstraint t name be]) (excl_by_name xs)
      = map (\<lambda>(name, be). if map_of A name \<noteq> None then []
        else [DropExclusionConstraint t (x_name be) be]) (excl_by_name xs)" for t A xs
    using k [of xs] by (auto simp: excl_by_name_def)
  have 2: "x_name b = n" if "map_of (excl_by_name xs) n = Some b" for xs n b
    using map_of_SomeD [OF that] k [of xs] by (auto simp: excl_by_name_def)
  show ?thesis
    unfolding diff_exclusion_constraints_in_table_def excl.drop_pass_def excl.replace_pass_def
      Let_def bt_has_def bt_get_def 1
    by (intro arg_cong2 [where f = "(@)"] refl arg_cong [where f = concat] map_cong)
      (auto split: option.splits dest: 2)
qed

text \<open>
  the exclusion-constraint operations of a table, run on its old
  constraints, always succeed and end with exactly the new constraints: each changed one is
  dropped before it is added again.
\<close>

lemma exclusion_ops_reach_models:
  "run excl_step (diff_exclusion_constraints_in_table before after)
      (bt_get (excl_by_name (t_exclusion_constraints before)))
    = Some (bt_get (excl_by_name (t_exclusion_constraints after)))"
  using excl.drop_then_replace
      [OF bt_collect_keyed [where key = x_name, OF refl] bt_collect_keyed [where key = x_name, OF refl],
        of "t_table after" "t_exclusion_constraints after" "t_exclusion_constraints before"]
  by (simp add: diff_exclusion_passes Let_def excl_by_name_def bt_get_map_of excl_merged_eq)

end
