(* ===== verification/Diff_Schema.thy ===== *)
theory Diff_Schema
  imports Keyed_Diff
begin

text \<open>
  The differ of one bucket (\<open>diff_schemas\<close> in \<open>diff.rs\<close>): tables, then indexes, then
  enums, and the classification of what they emit.
\<close>

section \<open>Indexes\<close>

definition idx_by_name :: "IndexSchema list \<Rightarrow> (string, IndexSchema) btree" where
  "idx_by_name is = bt_collect (map (\<lambda>i. (i_name i, i)) is)"

definition index_logical_eq ::
  "(string, string) btree \<Rightarrow> IndexSchema \<Rightarrow> IndexSchema \<Rightarrow> bool" where
  "index_logical_eq table_rename_targets bi ai \<longleftrightarrow>
     (case bt_get table_rename_targets (i_table bi) of
        Some new_name \<Rightarrow> new_name = i_table ai
      | None \<Rightarrow> i_table bi = i_table ai)
     \<and> i_target bi = i_target ai
     \<and> i_kind bi = i_kind ai
     \<and> i_index_type bi = i_index_type ai
     \<and> i_predicate bi = i_predicate ai
     \<and> i_include bi = i_include ai
     \<and> i_nulls_not_distinct bi = i_nulls_not_distinct ai
     \<and> i_requires_out_of_transaction bi = i_requires_out_of_transaction ai
     \<and> i_extension_dependency bi = i_extension_dependency ai"

definition diff_indexes ::
  "AppliedSchema \<Rightarrow> AppliedSchema \<Rightarrow> (string, string) btree \<Rightarrow> SchemaOperation list" where
  "diff_indexes before after table_rename_targets =
     (let before_idx = idx_by_name (s_indexes before);
          after_idx = idx_by_name (s_indexes after)
      in concat (map (\<lambda>(name, ai).
           case bt_get before_idx name of
             Some bi \<Rightarrow>
               if index_logical_eq table_rename_targets bi ai then []
               else [DropIndex bi, AddIndex ai]
           | None \<Rightarrow> [AddIndex ai]) after_idx)
       @ concat (map (\<lambda>(name, bi).
           if bt_has after_idx name then [] else [DropIndex bi]) before_idx))"

section \<open>Enums\<close>

definition find_in :: "string list \<Rightarrow> string list \<Rightarrow> string option" where
  "find_in vs before_set = find (\<lambda>v. v \<in> set before_set) vs"

definition pick_enum_variant_anchor ::
  "string list \<Rightarrow> nat \<Rightarrow> string list \<Rightarrow> EnumVariantAnchor option" where
  "pick_enum_variant_anchor new_variants pos before_set =
     (case find_in (drop (pos + 1) new_variants) before_set of
        Some v \<Rightarrow> Some \<lparr>a_variant = v, a_kind = Before\<rparr>
      | None \<Rightarrow>
          (case find_in (rev (take pos new_variants)) before_set of
             Some v \<Rightarrow> Some \<lparr>a_variant = v, a_kind = After\<rparr>
           | None \<Rightarrow> None))"

definition added_variants ::
  "string \<Rightarrow> string list \<Rightarrow> string list \<Rightarrow> SchemaOperation list" where
  "added_variants name before_variants after_variants =
     concat (map (\<lambda>(i, v).
         if v \<in> set before_variants then []
         else [AddEnumVariant name v
                 (pick_enum_variant_anchor after_variants i before_variants)])
       (enumerate 0 after_variants))"

definition removed_variants ::
  "string \<Rightarrow> string list \<Rightarrow> string list \<Rightarrow> SchemaOperation list" where
  "removed_variants name before_variants after_variants =
     map (\<lambda>v. Unsupported
         (''enum '' @ tick name @ '': variant '' @ tick v @ '' removed. Postgres has no ''
          @ tick ''DROP VALUE'' @ ''; rebuild the type via a hand-written ''
          @ ''migration (drop dependent columns, drop type, ''
          @ ''recreate type without the variant, add columns back).''))
       (filter (\<lambda>v. v \<notin> set after_variants) before_variants)"

definition diff_enums :: "AppliedSchema \<Rightarrow> AppliedSchema \<Rightarrow> SchemaOperation list" where
  "diff_enums before after =
     concat (map (\<lambda>(name, ae).
         case bt_get (s_enums before) name of
           None \<Rightarrow> [AddEnum ae]
         | Some be \<Rightarrow>
             if be = ae then []
             else added_variants name (e_variants be) (e_variants ae)
                  @ removed_variants name (e_variants be) (e_variants ae))
       (s_enums after))
     @ map DropEnum (filter (\<lambda>name. \<not> bt_has (s_enums after) name) (bt_keys (s_enums before)))"

section \<open>Tables\<close>

definition table_rename_targets :: "AppliedSchema \<Rightarrow> AppliedSchema \<Rightarrow> (string, string) btree" where
  "table_rename_targets before after =
     bt_collect (List.map_filter
       (\<lambda>t. case t_renamed_from t of
              Some prev \<Rightarrow> if bt_has (s_models before) prev then Some (prev, t_table t) else None
            | None \<Rightarrow> None)
       (bt_values (s_models after)))"

definition diff_table_pair :: "TableSchema \<Rightarrow> TableSchema \<Rightarrow> bool \<Rightarrow> SchemaOperation list" where
  "diff_table_pair before_table after_table with_app_move =
     (let (ops, column_renames) = diff_columns_in_table before_table after_table
      in ops
       @ diff_pk_in_table before_table after_table column_renames
       @ (if with_app_move then diff_app_move_in_table before_table after_table else [])
       @ diff_exclusion_constraints_in_table before_table after_table
       @ diff_table_metadata_in_table before_table after_table)"

definition diff_tables ::
  "AppliedSchema \<Rightarrow> AppliedSchema \<Rightarrow> (string, string) btree \<Rightarrow> string list \<Rightarrow>
   SchemaOperation list" where
  "diff_tables before after targets destinations =
     map DropTable
       (filter (\<lambda>old. \<not> bt_has (s_models after) old \<and> \<not> bt_has targets old)
          (bt_keys (s_models before)))
     @ map AddTable
       (filter (\<lambda>t. \<not> bt_has (s_models before) (t_table t) \<and> t_table t \<notin> set destinations)
          (bt_values (s_models after)))
     @ concat (map (\<lambda>(from, to).
         RenameTable from to
         # diff_table_pair (the (bt_get (s_models before) from))
             (the (bt_get (s_models after) to)) False) targets)
     @ concat (map (\<lambda>(name, after_table).
         case bt_get (s_models before) name of
           None \<Rightarrow> []
         | Some before_table \<Rightarrow>
             if table_eq before_table after_table then []
             else diff_table_pair before_table after_table True) (s_models after))"

definition diff_schemas :: "AppliedSchema \<Rightarrow> AppliedSchema \<Rightarrow> BucketKey \<Rightarrow> SchemaDelta" where
  "diff_schemas before after bucket =
     (if schema_eq before after
      then \<lparr>d_bucket = bucket, d_operations = [], d_classification = NoOp\<rparr>
      else let targets = table_rename_targets before after;
               ops = diff_tables before after targets (bt_values targets)
                     @ diff_indexes before after targets
                     @ diff_enums before after
           in \<lparr>d_bucket = bucket, d_operations = ops, d_classification = classify ops\<rparr>)"

lemma classify_Nil [simp]: "classify [] = NoOp"
  by (simp add: classify_def)

lemma diff_schemas_classified:
  "d_classification (diff_schemas b a k) = classify (d_operations (diff_schemas b a k))"
  by (cases "schema_eq b a") (simp_all add: diff_schemas_def Let_def)

section \<open>Adding enum values\<close>

text \<open>
  \<open>ALTER TYPE ... ADD VALUE\<close> on the ordered labels of an enum type: the label must be
  new and the anchor must be there.
\<close>

fun insert_before :: "'a \<Rightarrow> 'a \<Rightarrow> 'a list \<Rightarrow> 'a list" where
  "insert_before v w [] = []"
| "insert_before v w (x # xs) = (if x = w then v # x # xs else x # insert_before v w xs)"

fun insert_after :: "'a \<Rightarrow> 'a \<Rightarrow> 'a list \<Rightarrow> 'a list" where
  "insert_after v w [] = []"
| "insert_after v w (x # xs) = (if x = w then x # v # xs else x # insert_after v w xs)"

fun add_value :: "SchemaOperation \<Rightarrow> string list \<Rightarrow> string list option" where
  "add_value (AddEnumVariant n v anchor) vs =
     (if v \<in> set vs then None
      else case anchor of
        None \<Rightarrow> Some (vs @ [v])
      | Some a \<Rightarrow>
          if a_variant a \<notin> set vs then None
          else Some (case a_kind a of
            Before \<Rightarrow> insert_before v (a_variant a) vs
          | After \<Rightarrow> insert_after v (a_variant a) vs))"
| "add_value _ vs = None"

lemma insert_before_append: "w \<notin> set xs \<Longrightarrow> insert_before v w (xs @ w # ys) = xs @ v # w # ys"
  by (induction xs) auto

lemma insert_after_append: "w \<notin> set xs \<Longrightarrow> insert_after v w (xs @ w # ys) = xs @ w # v # ys"
  by (induction xs) auto

lemma find_in_hd:
  "find_in vs B = (case filter (\<lambda>v. v \<in> set B) vs of [] \<Rightarrow> None | w # _ \<Rightarrow> Some w)"
  by (induction vs) (auto simp: find_in_def)

definition variant_op :: "string \<Rightarrow> string list \<Rightarrow> string list \<Rightarrow> nat \<times> string \<Rightarrow> SchemaOperation list"
  where "variant_op n B as = (\<lambda>(i, v).
     if v \<in> set B then [] else [AddEnumVariant n v (pick_enum_variant_anchor as i B)])"

lemma added_variants_alt: "added_variants n B as = concat (map (variant_op n B as) (enumerate 0 as))"
  by (simp add: added_variants_def variant_op_def)

text \<open>Up to the last old label, every new label lands in its place.\<close>

lemma run_variants_inner:
  assumes "distinct (q @ xs @ zs)" "xs = [] \<or> last xs \<in> set B"
  shows "run add_value (concat (map (variant_op n B (q @ xs @ zs)) (enumerate (length q) xs)))
      (q @ filter (\<lambda>v. v \<in> set B) (xs @ zs))
    = Some (q @ xs @ filter (\<lambda>v. v \<in> set B) zs)"
  using assms
proof (induction xs arbitrary: q)
  case (Cons v xs)
  let ?F = "filter (\<lambda>v. v \<in> set B)"
  let ?s = "q @ ?F ((v # xs) @ zs)" and ?s' = "(q @ [v]) @ ?F (xs @ zs)"
  have IH: "run add_value (concat (map (variant_op n B ((q @ [v]) @ xs @ zs))
        (enumerate (length (q @ [v])) xs))) ?s'
      = Some ((q @ [v]) @ xs @ ?F zs)"
    using Cons.prems by (intro Cons.IH) (auto split: if_splits)
  have step: "run add_value (variant_op n B (q @ (v # xs) @ zs) (length q, v)) ?s = Some ?s'"
  proof (cases "v \<in> set B")
    case True
    then show ?thesis by (simp add: variant_op_def)
  next
    case False
    then have "xs \<noteq> []" "last xs \<in> set B" using Cons.prems(2) by (auto split: if_splits)
    then have "last xs \<in> set (?F (xs @ zs))" by simp
    then obtain w ws where w: "?F (xs @ zs) = w # ws" by (metis empty_iff empty_set neq_Nil_conv)
    then have wmem: "w \<in> set xs \<union> set zs" by (metis filter_eq_ConsD in_set_conv_decomp set_append)
    with Cons.prems(1) have wq: "w \<notin> set q" by auto
    have "pick_enum_variant_anchor (q @ (v # xs) @ zs) (length q) B
        = Some \<lparr>a_variant = w, a_kind = Before\<rparr>"
      by (simp add: pick_enum_variant_anchor_def find_in_hd w [simplified])
    moreover have "v \<notin> set ?s" using False Cons.prems(1) by auto
    moreover have "v \<notin> set (w # ws)"
      using False w [symmetric] by auto
    ultimately show ?thesis
      using False w wq by (simp add: variant_op_def insert_before_append)
  qed
  show ?case
    using step IH by (simp add: run_append)
qed simp

text \<open>Behind it, each new label is put right after that last old label.\<close>

lemma run_variants_tail:
  assumes "distinct (p @ ts @ zs)" "set (ts @ zs) \<inter> set B = {}" "p \<noteq> []" "last p \<in> set B"
  shows "run add_value (concat (map (variant_op n B (p @ ts @ zs)) (enumerate (length (p @ ts)) zs)))
      (p @ rev ts) = Some (p @ rev (ts @ zs))"
  using assms
proof (induction zs arbitrary: ts)
  case (Cons v zs)
  have IH: "run add_value (concat (map (variant_op n B (p @ (ts @ [v]) @ zs))
        (enumerate (length (p @ ts @ [v])) zs))) (p @ rev (ts @ [v]))
      = Some (p @ rev ((ts @ [v]) @ zs))"
    using Cons.prems by (intro Cons.IH) auto
  obtain p' l where p: "p = p' @ [l]" using Cons.prems(3) by (metis rev_exhaust)
  have lB: "l \<in> set B" using Cons.prems(4) p by simp
  have none: "filter (\<lambda>v. v \<in> set B) ts = []" "filter (\<lambda>v. v \<in> set B) zs = []"
    using Cons.prems(2) by (auto simp: filter_empty_conv)
  have "filter (\<lambda>v. v \<in> set B) (rev (p @ ts)) = l # filter (\<lambda>v. v \<in> set B) (rev p')"
    using lB none(1) p by (simp flip: rev_filter)
  then have "pick_enum_variant_anchor (p @ ts @ v # zs) (length (p @ ts)) B
      = Some \<lparr>a_variant = l, a_kind = After\<rparr>"
    by (simp add: pick_enum_variant_anchor_def find_in_hd none(2))
  moreover have "l \<notin> set p'" "v \<notin> set (p @ rev ts)" "v \<notin> set B"
    using Cons.prems p by auto
  ultimately have "run add_value (variant_op n B (p @ ts @ v # zs) (length (p @ ts), v)) (p @ rev ts)
      = Some (p @ rev (ts @ [v]))"
    using p insert_after_append [of l p' v "rev ts"] by (simp add: variant_op_def)
  with IH show ?case by (simp add: run_append)
qed simp

lemma split_last_in:
  "filter (\<lambda>v. v \<in> set B) as \<noteq> [] \<Longrightarrow>
   \<exists>p zs. as = p @ zs \<and> p \<noteq> [] \<and> last p \<in> set B \<and> set zs \<inter> set B = {}"
proof (induction as rule: rev_induct)
  case (snoc x xs)
  show ?case
  proof (cases "x \<in> set B")
    case True
    then show ?thesis by (intro exI [of _ "xs @ [x]"] exI [of _ "[]"]) simp
  next
    case False
    with snoc.prems have "filter (\<lambda>v. v \<in> set B) xs \<noteq> []" by simp
    with snoc.IH obtain p zs where "xs = p @ zs" "p \<noteq> []" "last p \<in> set B" "set zs \<inter> set B = {}"
      by blast
    with False show ?thesis by (intro exI [of _ p] exI [of _ "zs @ [x]"]) auto
  qed
qed simp

text \<open>
  executing the enum values the differ adds, in the order it emits
  them, always succeeds; the labels up to the last old one end up as declared, but the new
  labels behind it end up in reverse, because each is anchored after that same old label.
\<close>

theorem enum_additions_result:
  assumes "distinct as" "filter (\<lambda>v. v \<in> set B) as = B" "B \<noteq> []"
    and as: "as = p @ zs" and "p \<noteq> []" "last p \<in> set B" "set zs \<inter> set B = {}"
  shows "run add_value (added_variants n B as) B = Some (p @ rev zs)"
proof -
  have z: "filter (\<lambda>v. v \<in> set B) zs = []"
    using assms(7) by (auto simp: filter_empty_conv)
  have 1: "run add_value (concat (map (variant_op n B as) (enumerate 0 p))) B = Some p"
    using run_variants_inner [of "[]" p zs B n] assms z by simp
  have 2: "run add_value (concat (map (variant_op n B as) (enumerate (length p) zs))) p
      = Some (p @ rev zs)"
    using run_variants_tail [of p "[]" zs B n] assms by simp
  have "enumerate 0 as = enumerate 0 p @ enumerate (length p) zs"
    by (simp add: as enumerate_append_eq)
  with 1 2 show ?thesis by (simp add: added_variants_alt run_append)
qed

section \<open>Index operations reach the new indexes\<close>

fun idx_step ::
  "SchemaOperation \<Rightarrow> (string \<rightharpoonup> IndexSchema) \<Rightarrow> (string \<rightharpoonup> IndexSchema) option" where
  "idx_step (AddIndex i) m = (if m (i_name i) = None then Some (m(i_name i \<mapsto> i)) else None)"
| "idx_step (DropIndex i) m =
     (if m (i_name i) = Some i then Some (m(i_name i := None)) else None)"
| "idx_step _ m = Some m"

interpretation idx: keyed_diff i_name AddIndex DropIndex idx_step "index_logical_eq T"
  for T :: "(string, string) btree"
  by unfold_locales simp_all

lemma run_diff_indexes:
  "run idx_step (diff_indexes before after T) (bt_get (idx_by_name (s_indexes before)))
    = Some (idx.merged T (bt_get (idx_by_name (s_indexes before)))
                         (bt_get (idx_by_name (s_indexes after))))"
proof -
  have "diff_indexes before after T =
     (let bs = idx_by_name (s_indexes before); as = idx_by_name (s_indexes after)
      in idx.replace_pass T (map_of bs) as @ idx.drop_pass (map_of as) bs)"
    by (simp add: diff_indexes_def idx.replace_pass_def idx.drop_pass_def bt_has_def bt_get_map_of)
  then show ?thesis
    using idx.replace_then_drop
      [OF bt_collect_keyed [where key = i_name, OF refl] bt_collect_keyed [where key = i_name, OF refl],
        of T "s_indexes before" "s_indexes after"]
    by (simp add: Let_def idx_by_name_def bt_get_map_of)
qed

section \<open>What a harmless classification excludes\<close>

lemma classify_worst:
  assumes "classify ops = Additive \<or> classify ops = Reversible" "op \<in> set ops"
  shows "severity_of op \<le> SevReversible"
proof -
  have ne: "ops \<noteq> []" using assms(2) by auto
  have nu: "first_unsupported ops = None" and np: "\<not> list_ex is_pk_flip_op ops"
    using assms(1) ne by (auto simp: classify_def split: option.splits if_splits)
  from classify_plain [OF ne nu np] assms(1)
  have "severity_class (Max (severity_of ` set ops)) \<in> {Additive, Reversible}" by auto
  then have "Max (severity_of ` set ops) \<le> SevReversible"
    by (cases "Max (severity_of ` set ops)") (auto simp: severity_class_def less_eq_Severity_def)
  then show ?thesis
    using assms(2) by (meson List.finite_set Max_ge finite_imageI imageI order_trans)
qed

lemma not_destructive:
  "severity_of op \<le> SevReversible \<Longrightarrow> op \<noteq> DropTable t \<and> op \<noteq> DropColumn t c"
  by (auto simp: less_eq_Severity_def)

lemma dropped_table:
  assumes "\<not> schema_eq b a" "bt_has (s_models b) t" "\<not> bt_has (s_models a) t"
    and "\<not> bt_has (table_rename_targets b a) t"
  shows "DropTable t \<in> set (d_operations (diff_schemas b a k))"
  using assms by (auto simp: diff_schemas_def Let_def diff_tables_def bt_has_iff)

lemma dropped_column:
  assumes "\<not> schema_eq b a" "bt_get (s_models b) t = Some bt" "bt_get (s_models a) t = Some at"
    and "\<not> table_eq bt at"
    and "bt_has (cols_by_name (t_columns bt)) c" "\<not> bt_has (cols_by_name (t_columns at)) c"
    and "\<not> bt_has (snd (diff_columns_in_table bt at)) c" "bt_ok (s_models a)"
  shows "DropColumn (t_table at) c \<in> set (d_operations (diff_schemas b a k))"
proof -
  have "DropColumn (t_table at) c \<in> set (fst (diff_columns_in_table bt at))"
    using assms(5-7) by (auto simp: diff_columns_in_table_def Let_def bt_has_iff)
  then have "DropColumn (t_table at) c \<in> set (diff_table_pair bt at True)"
    by (cases "diff_columns_in_table bt at") (simp add: diff_table_pair_def)
  moreover have "(t, at) \<in> set (s_models a)"
    using assms(3) by (simp add: bt_get_def map_of_SomeD)
  ultimately have "DropColumn (t_table at) c \<in> set (diff_tables b a T D)" for T D
    using assms(2,4) unfolding diff_tables_def
    by (simp only: set_append set_concat set_map Un_iff UN_iff bex_simps image_iff)
      (rule disjI2, rule disjI2, rule disjI2, rule bexI [of _ "(t, at)"], simp_all)
  then show ?thesis
    using assms(1) by (simp add: diff_schemas_def Let_def)
qed

lemma columns_eq_names: "list_all2 column_eq xs ys \<Longrightarrow> map c_name xs = map c_name ys"
  by (induction xs ys rule: list_all2_induct) (simp_all add: column_eq_def)

lemma cols_by_name_has: "bt_has (cols_by_name cs) c \<longleftrightarrow> c \<in> set (map c_name cs)"
  by (auto simp: bt_has_def cols_by_name_def bt.get_collect map_of_eq_None_iff image_iff
      simp flip: rev_map)

lemma table_eq_columns:
  assumes "table_eq x y" "bt_has (cols_by_name (t_columns x)) c"
  shows "bt_has (cols_by_name (t_columns y)) c"
  using assms columns_eq_names [of "t_columns x" "t_columns y"]
  by (simp only: cols_by_name_has table_eq_def)

lemma entries_eq_get:
  fixes m m' :: "(string \<times> TableSchema) list"
  shows "list_all2 (\<lambda>(k, t) (k', t'). k = k' \<and> table_eq t t') m m' \<Longrightarrow> map_of m t = Some x \<Longrightarrow>
    \<exists>y. map_of m' t = Some y \<and> table_eq x y"
  by (induction m m' rule: list_all2_induct) (auto split: if_splits prod.splits)

lemma schema_eq_tables:
  assumes "schema_eq b a" "bt_get (s_models b) t = Some x"
  shows "\<exists>y. bt_get (s_models a) t = Some y \<and> table_eq x y"
  using assms entries_eq_get [of "s_models b" "s_models a" t x]
  by (simp add: schema_eq_def bt_get_def)

lemma severity_class_ne [simp]: "severity_class s \<noteq> NoOp"
  by (cases s) (simp_all add: severity_class_def)

lemma rename_destination:
  assumes "schema_ok a" "bt_get (table_rename_targets b a) t = Some t'"
  shows "\<exists>y. bt_get (s_models a) t' = Some y"
proof -
  have "(t, t') \<in> set (table_rename_targets b a)" using assms(2) by (simp add: bt_get_def map_of_SomeD)
  from bt_collect_entry [OF this [unfolded table_rename_targets_def]]
  obtain y where y: "y \<in> set (bt_values (s_models a))" "t_table y = t'"
    by (fastforce simp: set_map_filter split: option.splits if_splits)
  then obtain k where "(k, y) \<in> set (s_models a)" by (auto simp: bt_values_def)
  moreover from this have "k = t'" using assms(1) y(2) by (auto simp: schema_ok_def)
  ultimately show ?thesis using assms(1) bt.entries_get by (fastforce simp: schema_ok_def)
qed

lemma dropped_renamed_column:
  assumes "\<not> schema_eq b a" "bt_get (s_models b) t = Some x" "bt_get (s_models a) t' = Some y"
    and "bt_get (table_rename_targets b a) t = Some t'"
    and "bt_has (cols_by_name (t_columns x)) c" "\<not> bt_has (cols_by_name (t_columns y)) c"
    and "\<not> bt_has (snd (diff_columns_in_table x y)) c"
  shows "DropColumn (t_table y) c \<in> set (d_operations (diff_schemas b a k))"
proof -
  have "DropColumn (t_table y) c \<in> set (fst (diff_columns_in_table x y))"
    using assms(5-7) by (auto simp: diff_columns_in_table_def Let_def bt_has_iff)
  then have "DropColumn (t_table y) c \<in> set (diff_table_pair x y False)"
    by (cases "diff_columns_in_table x y") (simp add: diff_table_pair_def)
  moreover have "(t, t') \<in> set (table_rename_targets b a)"
    using assms(4) by (simp add: bt_get_def map_of_SomeD)
  ultimately have "DropColumn (t_table y) c \<in> set (diff_tables b a (table_rename_targets b a) D)" for D
    using assms(2,3) unfolding diff_tables_def
    by (simp only: set_append set_concat set_map Un_iff UN_iff bex_simps image_iff)
      (rule disjI2, rule disjI2, rule disjI1, rule bexI [of _ "(t, t')"], simp_all)
  then show ?thesis
    using assms(1) by (simp add: diff_schemas_def Let_def)
qed

lemma harmless_keeps:
  assumes cls: "d_classification (diff_schemas b a k) \<in> {NoOp, Additive, Reversible}"
    and ok: "schema_ok a"
    and t: "bt_get (s_models b) t = Some x"
  shows "bt_has (s_models a) t \<or> bt_has (table_rename_targets b a) t"
    and "bt_get (s_models a) t = Some y \<Longrightarrow> bt_has (cols_by_name (t_columns x)) c \<Longrightarrow>
      bt_has (cols_by_name (t_columns y)) c \<or> bt_has (snd (diff_columns_in_table x y)) c"
    and "bt_get (s_models a) t = None \<Longrightarrow> bt_get (table_rename_targets b a) t = Some t' \<Longrightarrow>
      bt_get (s_models a) t' = Some z \<Longrightarrow> bt_has (cols_by_name (t_columns x)) c \<Longrightarrow>
      bt_has (cols_by_name (t_columns z)) c \<or> bt_has (snd (diff_columns_in_table x z)) c"
proof -
  let ?ops = "d_operations (diff_schemas b a k)"
  have no: "DropTable t \<notin> set ?ops \<and> DropColumn t' c' \<notin> set ?ops" for t t' c'
  proof (cases "?ops = []")
    case False
    then have "classify ?ops = Additive \<or> classify ?ops = Reversible"
      using cls by (auto simp: diff_schemas_classified classify_def split: option.splits if_splits)
    then show ?thesis using classify_worst not_destructive by blast
  qed simp
  show "bt_has (s_models a) t \<or> bt_has (table_rename_targets b a) t"
  proof (cases "schema_eq b a")
    case True
    with schema_eq_tables t show ?thesis by (fastforce simp: bt_has_def)
  next
    case False
    with dropped_table [of b a t k] t no show ?thesis by (auto simp: bt_has_def)
  qed
  show "bt_has (cols_by_name (t_columns z)) c \<or> bt_has (snd (diff_columns_in_table x z)) c"
    if "bt_get (s_models a) t = None" "bt_get (table_rename_targets b a) t = Some t'"
      "bt_get (s_models a) t' = Some z" "bt_has (cols_by_name (t_columns x)) c"
  proof -
    have "\<not> schema_eq b a" using schema_eq_tables t that(1) by fastforce
    with dropped_renamed_column [OF _ t that(3,2,4), of k] no show ?thesis by blast
  qed
  show "bt_has (cols_by_name (t_columns y)) c \<or> bt_has (snd (diff_columns_in_table x y)) c"
    if y: "bt_get (s_models a) t = Some y" and c: "bt_has (cols_by_name (t_columns x)) c"
  proof (cases "table_eq x y")
    case True
    with table_eq_columns c show ?thesis by blast
  next
    case False
    then have "\<not> schema_eq b a" using schema_eq_tables t y by fastforce
    with dropped_column [OF _ t y False c, of k] no ok show ?thesis
      by (auto simp: schema_ok_def)
  qed
qed

text \<open>The table that an old table becomes: the one of its name, or the one renamed from it.\<close>

definition surviving_name :: "AppliedSchema \<Rightarrow> AppliedSchema \<Rightarrow> string \<Rightarrow> string option" where
  "surviving_name b a t = (if bt_has (s_models a) t then Some t else bt_get (table_rename_targets b a) t)"

text \<open>
  C2: if the delta between a schema and a well-formed new one is classified as no-op, additive
  or reversible, every old table is still in the new schema, under its name or under the name it
  was renamed to, and there every column of it still is, under its name or under the name it was
  renamed to.
\<close>

theorem harmless_delta_keeps_data:
  assumes "d_classification (diff_schemas b a k) \<in> {NoOp, Additive, Reversible}"
    and "schema_ok a" "bt_get (s_models b) t = Some x"
  shows "\<exists>t' y. surviving_name b a t = Some t' \<and> bt_get (s_models a) t' = Some y
    \<and> (\<forall>c. bt_has (cols_by_name (t_columns x)) c \<longrightarrow>
         bt_has (cols_by_name (t_columns y)) c \<or> bt_has (snd (diff_columns_in_table x y)) c)"
proof (cases "bt_get (s_models a) t")
  case (Some y)
  with harmless_keeps(2) [OF assms Some] show ?thesis
    by (auto simp: surviving_name_def bt_has_def)
next
  case None
  then obtain t' where t': "bt_get (table_rename_targets b a) t = Some t'"
    using harmless_keeps(1) [OF assms] by (auto simp: bt_has_def)
  then obtain y where y: "bt_get (s_models a) t' = Some y"
    using rename_destination [OF assms(2)] by blast
  moreover have "bt_has (cols_by_name (t_columns y)) c \<or> bt_has (snd (diff_columns_in_table x y)) c"
    if "bt_has (cols_by_name (t_columns x)) c" for c
    using harmless_keeps(3) [OF assms None t' y that] .
  ultimately show ?thesis using None t' by (auto simp: surviving_name_def bt_has_def)
qed

text \<open>
  the index operations of a diff, run on the old indexes, always
  succeed and end with exactly the new index names; under each name stands the new index, or
  an old one that is logically equal to it once table renames are accounted for.
\<close>

theorem index_ops_reach_models:
  "\<exists>m. run idx_step (diff_indexes before after T) (bt_get (idx_by_name (s_indexes before))) = Some m
    \<and> (\<forall>n. case bt_get (idx_by_name (s_indexes after)) n of
             None \<Rightarrow> m n = None
           | Some a \<Rightarrow> m n = Some a
               \<or> (\<exists>b. bt_get (idx_by_name (s_indexes before)) n = Some b
                    \<and> index_logical_eq T b a \<and> m n = Some b))"
  by (auto simp: run_diff_indexes idx.merged_def split: option.split)

end
