(* ===== verification/Toposort.thy ===== *)
theory Toposort
  imports Ddl_Spec "HOL-Library.Multiset"
begin

text \<open>
  \<open>toposort_add_tables\<close> of \<open>djogi/src/migrate/segment.rs\<close>: Kahn's algorithm over the inline
  foreign keys of a batch of new tables, and the follow-up \<open>AddForeignKey\<close> operations it
  emits for the tables left over by a cycle. Every \<open>expect\<close> of the code is the value
  \<^const>\<open>None\<close>; the theory shows that none is reached, that the order creates every
  referenced table first, that no foreign key is lost, and that follow-ups appear exactly
  for cyclic batches.
\<close>

section \<open>The algorithm\<close>

definition batch_by_name :: "TableSchema list \<Rightarrow> (string, TableSchema) btree" where
  "batch_by_name tables = bt_collect (map (\<lambda>t. (t_table t, t)) tables)"

definition table_deps :: "string list \<Rightarrow> string \<Rightarrow> TableSchema \<Rightarrow> string list" where
  "table_deps in_batch name t =
     bs_collect (List.map_filter
       (\<lambda>col. case c_foreign_key col of
                Some fk \<Rightarrow>
                  if fk_ref_table fk \<noteq> name \<and> fk_ref_table fk \<in> set in_batch
                  then Some (fk_ref_table fk) else None
              | None \<Rightarrow> None)
       (t_columns t))"

definition batch_deps :: "(string, TableSchema) btree \<Rightarrow> (string, string list) btree" where
  "batch_deps by_name =
     bt_collect (map (\<lambda>(name, t). (name, table_deps (bs_collect (bt_keys by_name)) name t)) by_name)"

text \<open>
  The reverse edges: one empty set per table, then one insertion per edge, each through
  \<open>get_mut(dependency).expect(..)\<close>.
\<close>

fun insert_edges ::
  "(string \<times> string) list \<Rightarrow> (string, string list) btree \<Rightarrow> (string, string list) btree option" where
  "insert_edges [] reverse = Some reverse"
| "insert_edges ((dependent, dependency) # edges) reverse =
     (case bt_get reverse dependency of
        None \<Rightarrow> None
      | Some s \<Rightarrow> insert_edges edges (bt_put dependency (bs_put dependent s) reverse))"

definition edges_of :: "(string, string list) btree \<Rightarrow> (string \<times> string) list" where
  "edges_of deps = concat (map (\<lambda>(dependent, deps_of). map (\<lambda>d. (dependent, d)) deps_of) deps)"

definition batch_reverse ::
  "(string, TableSchema) btree \<Rightarrow> (string, string list) btree \<Rightarrow> (string, string list) btree option" where
  "batch_reverse by_name deps =
     insert_edges (edges_of deps) (bt_collect (map (\<lambda>name. (name, [])) (bt_keys by_name)))"

text \<open>Releasing one dependent of the table just emitted.\<close>

definition release ::
  "string \<Rightarrow> string \<Rightarrow> (string, string list) btree \<times> string list \<Rightarrow>
   (string, string list) btree \<times> string list" where
  "release next dependent st =
     (case st of (deps, ready) \<Rightarrow>
        (case bt_get deps dependent of
           None \<Rightarrow> (deps, ready)
         | Some d \<Rightarrow>
             let d' = bs_del next d
             in (bt_put dependent d' deps, if d' = [] then bs_put dependent ready else ready)))"

lemma length_bt_del: "bt_get m k = Some v \<Longrightarrow> length (bt_del k m) < length m"
  by (auto simp: bt_del_def bt_get_def intro!: length_filter_less dest!: map_of_SomeD)

function kahn ::
  "(string, string list) btree \<Rightarrow> (string, TableSchema) btree \<Rightarrow> (string, string list) btree \<Rightarrow>
   string list \<Rightarrow> TableSchema list \<Rightarrow> (TableSchema list \<times> (string, TableSchema) btree) option" where
  "kahn reverse by_name deps [] ordered = Some (ordered, by_name)"
| "kahn reverse by_name deps (next # ready) ordered =
     (case bt_get by_name next of
        None \<Rightarrow> None
      | Some t \<Rightarrow>
          let dependents = (case bt_get reverse next of Some s \<Rightarrow> s | None \<Rightarrow> []);
              st = fold (release next) dependents (deps, ready)
          in kahn reverse (bt_del next by_name) (fst st) (snd st) (ordered @ [t]))"
  by pat_completeness auto
termination
  by (relation "measure (\<lambda>(reverse, by_name, deps, ready, ordered). length by_name)")
    (auto dest: length_bt_del)

text \<open>Breaking the tables that are left: their inline keys to each other become follow-ups.\<close>

definition strips :: "string list \<Rightarrow> ColumnSchema \<Rightarrow> bool" where
  "strips cycle_members col =
     (case c_foreign_key col of Some fk \<Rightarrow> fk_ref_table fk \<in> set cycle_members | None \<Rightarrow> False)"

definition strip_table :: "string list \<Rightarrow> TableSchema \<Rightarrow> TableSchema" where
  "strip_table cycle_members t =
     t\<lparr>t_columns := map (\<lambda>col. if strips cycle_members col then col\<lparr>c_foreign_key := None\<rparr> else col)
        (t_columns t)\<rparr>"

definition stripped_fks :: "string list \<Rightarrow> TableSchema \<Rightarrow> SchemaOperation list" where
  "stripped_fks cycle_members t =
     List.map_filter
       (\<lambda>col. case c_foreign_key col of
                Some fk \<Rightarrow>
                  if strips cycle_members col then Some (AddForeignKey (t_table t) (c_name col) fk)
                  else None
              | None \<Rightarrow> None)
       (t_columns t)"

definition toposort_add_tables ::
  "TableSchema list \<Rightarrow> (TableSchema list \<times> SchemaOperation list) option" where
  "toposort_add_tables tables =
     (if tables = [] then Some ([], [])
      else let by_name = batch_by_name tables;
               deps = batch_deps by_name
           in case batch_reverse by_name deps of
                None \<Rightarrow> None
              | Some reverse \<Rightarrow>
                  let ready = map fst (filter (\<lambda>(n, ds). ds = []) deps)
                  in case kahn reverse by_name deps ready [] of
                       None \<Rightarrow> None
                     | Some (ordered, rest) \<Rightarrow>
                         if rest = [] then Some (ordered, [])
                         else let cycle_members = bs_collect (bt_keys rest)
                              in Some (ordered @ map (strip_table cycle_members) (bt_values rest),
                                       concat (map (stripped_fks cycle_members) (bt_values rest))))"

section \<open>The dependency graph\<close>

text \<open>The tables of a batch, and the set of tables each one has to wait for.\<close>

definition needs :: "(string, TableSchema) btree \<Rightarrow> string \<Rightarrow> string set" where
  "needs B n =
     (case bt_get B n of
        None \<Rightarrow> {}
      | Some t \<Rightarrow> {m. m \<noteq> n \<and> m \<in> set (bt_keys B)
                     \<and> (\<exists>c\<in>set (t_columns t). \<exists>fk. c_foreign_key c = Some fk \<and> fk_ref_table fk = m)})"

lemma needs_in_batch: "needs B n \<subseteq> set (bt_keys B)"
  by (auto simp: needs_def split: option.splits)

lemma set_table_deps:
  "set (table_deps (bs_collect (bt_keys B)) n t) =
     {m. m \<noteq> n \<and> m \<in> set (bt_keys B)
       \<and> (\<exists>c\<in>set (t_columns t). \<exists>fk. c_foreign_key c = Some fk \<and> fk_ref_table fk = m)}"
  by (force simp: table_deps_def set_map_filter split: option.splits if_splits)

lemma table_deps_ok: "bs_ok (table_deps b n t)"
  by (simp add: table_deps_def bs_ok_collect)

lemma bt_collect_map_keys:
  assumes "bt_ok B"
  shows "bt_get (bt_collect (map (\<lambda>(n, t). (n, f n t)) B)) n = map_option (f n) (bt_get B n)"
proof -
  have "map fst (map (\<lambda>(n, t). (n, f n t)) B) = map fst B" by auto
  then have "distinct (map fst (map (\<lambda>(n, t). (n, f n t)) B))"
    using bt_ok_distinct [OF assms] by presburger
  then have "bt_get (bt_collect (map (\<lambda>(n, t). (n, f n t)) B)) n
      = map_of (map (\<lambda>(n, t). (n, f n t)) B) n"
    by (rule bt.get_collect_distinct)
  also have "\<dots> = map_option (f n) (bt_get B n)"
    by (induction B) (auto simp: bt_get_def)
  finally show ?thesis .
qed

lemma batch_deps_get:
  assumes "bt_ok B"
  shows "map_option set (bt_get (batch_deps B) n) =
    (if n \<in> set (bt_keys B) then Some (needs B n) else None)"
  using assms
  by (auto simp: batch_deps_def bt_collect_map_keys bt_keys_bt_get needs_def set_table_deps)

lemma batch_deps_ok: "bt_ok (batch_deps B)"
  by (simp add: batch_deps_def bt.ok_collect)

section \<open>The reverse edges are built without a panic\<close>

lemma insert_edges_ok:
  assumes "bt_ok R" "\<forall>(d, n)\<in>set es. bt_get R n \<noteq> None"
  shows "\<exists>R'. insert_edges es R = Some R' \<and>
    (\<forall>n. map_option set (bt_get R' n)
        = map_option (\<lambda>s. set s \<union> {d. (d, n) \<in> set es}) (bt_get R n))"
  using assms
proof (induction es arbitrary: R)
  case Nil
  then show ?case by simp
next
  case (Cons e es)
  obtain d n where e: "e = (d, n)" by force
  obtain s where s: "bt_get R n = Some s" using Cons.prems(2) e by auto
  let ?R = "bt_put n (bs_put d s) R"
  have get: "bt_get ?R k = (if k = n then Some (bs_put d s) else bt_get R k)" for k
    using Cons.prems(1) by (rule bt.get_put)
  have "\<forall>(d, n)\<in>set es. bt_get ?R n \<noteq> None"
    using Cons.prems(2) by (auto simp: get)
  then obtain R' where R': "insert_edges es ?R = Some R'"
    "\<forall>n. map_option set (bt_get R' n)
        = map_option (\<lambda>s. set s \<union> {d. (d, n) \<in> set es}) (bt_get ?R n)"
    using Cons.IH bt.ok_put [OF Cons.prems(1)] by blast
  have "map_option set (bt_get R' k)
        = map_option (\<lambda>s. set s \<union> {d. (d, k) \<in> set (e # es)}) (bt_get R k)" for k
    using R'(2) [rule_format, of k] s by (cases "k = n") (auto simp: get e map_option_case split: option.splits)
  with R'(1) show ?case by (auto simp: e s)
qed

lemma in_edges_of: "(d, n) \<in> set (edges_of m) \<longleftrightarrow> (\<exists>s. (d, s) \<in> set m \<and> n \<in> set s)"
  by (force simp: edges_of_def)

lemma edges_of_batch:
  assumes "bt_ok B"
  shows "(d, n) \<in> set (edges_of (batch_deps B)) \<longleftrightarrow> n \<in> needs B d"
proof -
  have "(d, n) \<in> set (edges_of (batch_deps B)) \<longleftrightarrow> (\<exists>s. bt_get (batch_deps B) d = Some s \<and> n \<in> set s)"
    by (simp add: in_edges_of bt.entries_get [OF batch_deps_ok])
  also have "\<dots> \<longleftrightarrow> n \<in> needs B d"
    using batch_deps_get [OF assms, of d]
    by (auto simp: needs_def bt_keys_bt_get split: if_splits option.splits)
  finally show ?thesis .
qed

lemma batch_reverse_ok:
  assumes "bt_ok B"
  shows "\<exists>R. batch_reverse B (batch_deps B) = Some R \<and>
    (\<forall>n\<in>set (bt_keys B). \<exists>s. bt_get R n = Some s \<and> set s = {d. n \<in> needs B d})"
proof -
  let ?R0 = "bt_collect (map (\<lambda>name. (name, [] :: string list)) (bt_keys B))"
  have R0: "bt_get ?R0 n = (if n \<in> set (bt_keys B) then Some [] else None)" for n
    by (simp add: bt.get_collect rev_map map_of_map_restrict restrict_map_def)
  have "\<forall>(d, n)\<in>set (edges_of (batch_deps B)). bt_get ?R0 n \<noteq> None"
    by (auto simp: edges_of_batch [OF assms] R0 intro: subsetD [OF needs_in_batch])
  from insert_edges_ok [OF bt.ok_collect this] obtain R where
    R: "batch_reverse B (batch_deps B) = Some R" and
    get: "\<And>n. map_option set (bt_get R n)
        = map_option (\<lambda>s. set s \<union> {d. n \<in> needs B d}) (bt_get ?R0 n)"
    by (auto simp: batch_reverse_def edges_of_batch [OF assms])
  have "\<exists>s. bt_get R n = Some s \<and> set s = {d. n \<in> needs B d}" if "n \<in> set (bt_keys B)" for n
    using get [of n] that by (auto simp: R0)
  with R show ?thesis by blast
qed

section \<open>The loop invariant\<close>

abbreviation set_at :: "('k, 'v list) btree \<Rightarrow> 'k \<Rightarrow> 'v set option" where
  "set_at m k \<equiv> map_option set (bt_get m k)"

lemma release_one:
  assumes "bt_ok D" "bs_ok Q" "release next d (D, Q) = (D', Q')"
  shows "bt_ok D'" and "bs_ok Q'"
    and "set_at D' n = map_option (\<lambda>s. if n = d then s - {next} else s) (set_at D n)"
    and "set Q' = set Q \<union> {n. n = d \<and> (\<exists>s. set_at D n = Some s \<and> s \<subseteq> {next})}"
proof -
  have get: "bt_get (bt_put k v D) j = (if j = k then Some v else bt_get D j)" for k v j
    using assms(1) by (rule bt.get_put)
  have nil: "bs_del next s = [] \<longleftrightarrow> set s \<subseteq> {next}" for s
    using set_bs_del [of "next" s] by (metis Diff_eq_empty_iff set_empty)
  show "bt_ok D'" and "bs_ok Q'"
    using assms bt.ok_put bs_ok_put
    by (auto simp: release_def Let_def split: option.splits if_splits)
  show "set_at D' n = map_option (\<lambda>s. if n = d then s - {next} else s) (set_at D n)"
    using assms(3)
    by (cases "bt_get D n"; cases "n = d") (auto simp: release_def Let_def get split: option.splits)
  show "set Q' = set Q \<union> {n. n = d \<and> (\<exists>s. set_at D n = Some s \<and> s \<subseteq> {next})}"
    using assms(3) by (auto simp: release_def Let_def nil split: option.splits if_splits)
qed

lemma release_all:
  assumes "bt_ok D" "bs_ok Q" "fold (release next) ds (D, Q) = (D', Q')"
  shows "bt_ok D' \<and> bs_ok Q'
    \<and> (\<forall>n. set_at D' n = map_option (\<lambda>s. if n \<in> set ds then s - {next} else s) (set_at D n))
    \<and> set Q' = set Q \<union> {n \<in> set ds. \<exists>s. set_at D n = Some s \<and> s \<subseteq> {next}}"
  using assms
proof (induction ds arbitrary: D Q)
  case Nil
  then show ?case by (simp add: option.map_ident)
next
  case (Cons d ds)
  obtain D1 Q1 where 1: "release next d (D, Q) = (D1, Q1)" by force
  note one = release_one [OF Cons.prems(1,2) 1]
  have 2: "fold (release next) ds (D1, Q1) = (D', Q')" using Cons.prems(3) 1 by simp
  note IH = Cons.IH [OF one(1,2) 2]
  have "set_at D' n = map_option (\<lambda>s. if n \<in> set (d # ds) then s - {next} else s) (set_at D n)" for n
    using IH one(3) [of n] by (cases "set_at D n") auto
  moreover have "set Q' = set Q \<union> {n \<in> set (d # ds). \<exists>s. set_at D n = Some s \<and> s \<subseteq> {next}}"
    using IH one(3,4) by (auto split: if_splits)
  ultimately show ?case using IH by blast
qed

text \<open>
  With \<open>P\<close> the names already emitted: the map holds the other tables, each dependency set
  has lost exactly \<open>P\<close>, the ready set is the tables that wait for nothing more, and every
  emitted table came after all it needs.
\<close>

definition topo_prefix :: "(string, TableSchema) btree \<Rightarrow> TableSchema list \<Rightarrow> bool" where
  "topo_prefix B ordered \<longleftrightarrow>
     distinct (map t_table ordered)
     \<and> (\<forall>p t q. ordered = p @ t # q \<longrightarrow>
          bt_get B (t_table t) = Some t \<and> needs B (t_table t) \<subseteq> t_table ` set p)"

definition kahn_inv ::
  "(string, TableSchema) btree \<Rightarrow> (string, TableSchema) btree \<Rightarrow> (string, string list) btree \<Rightarrow>
   string list \<Rightarrow> TableSchema list \<Rightarrow> bool" where
  "kahn_inv B by_name deps ready ordered \<longleftrightarrow>
     (let P = t_table ` set ordered in
       bt_ok by_name \<and> bt_ok deps \<and> bs_ok ready
       \<and> (\<forall>n. bt_get by_name n = (if n \<in> P then None else bt_get B n))
       \<and> (\<forall>n. set_at deps n = (if n \<in> set (bt_keys B) then Some (needs B n - P) else None))
       \<and> set ready = {n \<in> set (bt_keys B). n \<notin> P \<and> needs B n \<subseteq> P}
       \<and> topo_prefix B ordered)"

lemma topo_prefix_at:
  "topo_prefix B (p @ t # q) \<Longrightarrow>
    bt_get B (t_table t) = Some t \<and> needs B (t_table t) \<subseteq> t_table ` set p"
  unfolding topo_prefix_def by blast

lemma topo_prefix_snoc:
  assumes "topo_prefix B ts" "bt_get B (t_table t) = Some t" "needs B (t_table t) \<subseteq> t_table ` set ts"
    and "t_table t \<notin> t_table ` set ts"
  shows "topo_prefix B (ts @ [t])"
proof -
  have "bt_get B (t_table u) = Some u \<and> needs B (t_table u) \<subseteq> t_table ` set p"
    if eq: "ts @ [t] = p @ u # q" for p u q
  proof (cases q rule: rev_cases)
    case Nil
    with eq assms show ?thesis by simp
  next
    case (snoc q' x)
    with eq have "ts = p @ u # q'" by simp
    with assms(1) show ?thesis unfolding topo_prefix_def by blast
  qed
  with assms show ?thesis by (auto simp: topo_prefix_def)
qed

lemma kahn_inv_step:
  assumes inv: "kahn_inv B M D (n # Q) out" and R: "set (case bt_get R n of Some s \<Rightarrow> s | None \<Rightarrow> []) = {d. n \<in> needs B d}"
    and key: "\<And>k t. bt_get B k = Some t \<Longrightarrow> t_table t = k"
  obtains t D' Q' where "bt_get M n = Some t"
    "fold (release n) (case bt_get R n of Some s \<Rightarrow> s | None \<Rightarrow> []) (D, Q) = (D', Q')"
    "kahn_inv B (bt_del n M) D' Q' (out @ [t])"
proof -
  let ?P = "t_table ` set out" and ?ds = "case bt_get R n of Some s \<Rightarrow> s | None \<Rightarrow> []"
  have M: "bt_ok M" "\<And>k. bt_get M k = (if k \<in> ?P then None else bt_get B k)"
    and D: "bt_ok D" "\<And>k. set_at D k = (if k \<in> set (bt_keys B) then Some (needs B k - ?P) else None)"
    and Q: "bs_ok (n # Q)" "set (n # Q) = {k \<in> set (bt_keys B). k \<notin> ?P \<and> needs B k \<subseteq> ?P}"
    and topo: "topo_prefix B out"
    using inv unfolding kahn_inv_def by (simp_all add: Let_def)
  have n: "n \<in> set (bt_keys B)" "n \<notin> ?P" "needs B n \<subseteq> ?P" using Q(2) by auto
  then obtain t where t: "bt_get M n = Some t" "bt_get B n = Some t" "t_table t = n"
    using M(2) [of n] key by (auto simp: bt_keys_bt_get)
  have okQ: "bs_ok Q" and nQ: "n \<notin> set Q" using Q(1) by (auto simp: bs_ok_def)
  obtain D' Q' where f: "fold (release n) ?ds (D, Q) = (D', Q')" by force
  from release_all [OF D(1) okQ f] have *: "bt_ok D'" "bs_ok Q'"
    "\<And>k. set_at D' k = map_option (\<lambda>s. if n \<in> needs B k then s - {n} else s) (set_at D k)"
    "set Q' = set Q \<union> {k. n \<in> needs B k \<and> (\<exists>s. set_at D k = Some s \<and> s \<subseteq> {n})}"
    using R by auto
  have self: "n \<notin> needs B n" by (auto simp: needs_def split: option.splits)
  have P': "t_table ` set (out @ [t]) = insert n ?P" using t(3) by simp
  have "bt_get (bt_del n M) k = (if k \<in> insert n ?P then None else bt_get B k)" for k
    using bt.get_del [OF M(1)] M(2) by simp
  moreover have "set_at D' k = (if k \<in> set (bt_keys B) then Some (needs B k - insert n ?P) else None)" for k
    using *(3) [of k] D(2) [of k] by auto
  moreover have "set Q' = {k \<in> set (bt_keys B). k \<notin> insert n ?P \<and> needs B k \<subseteq> insert n ?P}"
  proof -
    have "set Q = {k \<in> set (bt_keys B). k \<notin> insert n ?P \<and> needs B k \<subseteq> ?P}"
      using Q(2) nQ by auto
    moreover have "k \<notin> ?P" if "n \<in> needs B k" for k
    proof
      assume "k \<in> ?P"
      then obtain p u q where "out = p @ u # q" "t_table u = k" by (auto dest: split_list)
      with topo_prefix_at [of B p u q] topo have "needs B k \<subseteq> t_table ` set p" "t_table ` set p \<subseteq> ?P"
        by auto
      with that n(2) show False by blast
    qed
    ultimately show ?thesis
      using *(4) D(2) self by auto
  qed
  moreover have "topo_prefix B (out @ [t])"
    using topo_prefix_snoc [OF topo] t n by simp
  ultimately have "kahn_inv B (bt_del n M) D' Q' (out @ [t])"
    unfolding kahn_inv_def Let_def P' using *(1,2) bt.ok_del [OF M(1)] by blast
  with t(1) f show ?thesis by (rule that)
qed

lemma kahn_result:
  assumes "kahn_inv B M D Q out"
    and "\<And>n. n \<in> set (bt_keys B) \<Longrightarrow>
      set (case bt_get R n of Some s \<Rightarrow> s | None \<Rightarrow> []) = {d. n \<in> needs B d}"
    and "\<And>k t. bt_get B k = Some t \<Longrightarrow> t_table t = k"
  shows "\<exists>ordered rest D'. kahn R M D Q out = Some (ordered, rest) \<and> kahn_inv B rest D' [] ordered"
  using assms
proof (induction R M D Q out rule: kahn.induct)
  case (2 R M D n Q out)
  have n: "n \<in> set (bt_keys B)"
    using "2.prems"(1) by (auto simp: kahn_inv_def Let_def)
  from kahn_inv_step [OF "2.prems"(1) "2.prems"(2) [OF n] "2.prems"(3)] obtain t D' Q' where
    st: "bt_get M n = Some t"
    "fold (release n) (case bt_get R n of Some s \<Rightarrow> s | None \<Rightarrow> []) (D, Q) = (D', Q')"
    "kahn_inv B (bt_del n M) D' Q' (out @ [t])" by metis
  show ?case
    using "2.IH" [OF st(1) refl refl] st "2.prems"(2,3) by simp
qed auto

lemma batch_ok: "bt_ok (batch_by_name ts)"
  by (simp add: batch_by_name_def bt.ok_collect)

lemma batch_get:
  "bt_get (batch_by_name ts) n = find (\<lambda>t. t_table t = n) (rev ts)"
proof -
  have "map_of (map (\<lambda>t. (t_table t, t)) xs) n = find (\<lambda>t. t_table t = n) xs" for xs
    by (induction xs) auto
  then show ?thesis by (simp add: batch_by_name_def bt.get_collect rev_map)
qed

lemma batch_key: "bt_get (batch_by_name ts) k = Some t \<Longrightarrow> t_table t = k"
  by (auto simp: batch_get find_Some_iff)

lemma batch_keys: "set (bt_keys (batch_by_name ts)) = t_table ` set ts"
  by (auto simp: bt_keys_bt_get batch_get find_None_iff)

text \<open>What the loop leaves: a topological prefix, and tables that all wait for each other.\<close>

lemma kahn_start:
  assumes "B = batch_by_name ts"
  shows "kahn_inv B B (batch_deps B) (map fst (filter (\<lambda>(n, ds). ds = []) (batch_deps B))) []"
proof -
  have B: "bt_ok B" by (simp add: assms batch_ok)
  let ?D = "batch_deps B" and ?Q = "map fst (filter (\<lambda>(n, ds). ds = []) (batch_deps B))"
  have "bs_ok ?Q"
    using batch_deps_ok [of B] unfolding bs_ok_def bt_ok_def
    by (simp add: sorted_wrt_map sorted_wrt_filter)
  moreover have "set ?Q = {n. bt_get ?D n = Some []}"
    by (auto simp flip: bt.entries_get [OF batch_deps_ok]) force
  moreover have "bt_get ?D n = Some [] \<longleftrightarrow> n \<in> set (bt_keys B) \<and> needs B n \<subseteq> {}" for n
    using batch_deps_get [OF B, of n] by (auto split: if_splits)
  ultimately show ?thesis
    using B batch_deps_ok batch_deps_get [OF B] by (simp add: kahn_inv_def topo_prefix_def)
qed

text \<open>The two halves of the loop's result on a batch: the tables it emits and those it leaves.\<close>

definition kahn_batch ::
  "TableSchema list \<Rightarrow> (TableSchema list \<times> (string, TableSchema) btree) option" where
  "kahn_batch ts =
     (let B = batch_by_name ts; D = batch_deps B
      in case batch_reverse B D of
           None \<Rightarrow> None
         | Some R \<Rightarrow> kahn R B D (map fst (filter (\<lambda>(n, ds). ds = []) D)) [])"

abbreviation emitted :: "TableSchema list \<Rightarrow> TableSchema list" where
  "emitted ts \<equiv> fst (the (kahn_batch ts))"

abbreviation stuck :: "TableSchema list \<Rightarrow> (string, TableSchema) btree" where
  "stuck ts \<equiv> snd (the (kahn_batch ts))"

lemma kahn_batch_result:
  "\<exists>D. kahn_batch ts = Some (emitted ts, stuck ts) \<and> kahn_inv (batch_by_name ts) (stuck ts) D [] (emitted ts)"
proof -
  let ?B = "batch_by_name ts"
  obtain R where R: "batch_reverse ?B (batch_deps ?B) = Some R"
    "\<forall>n\<in>set (bt_keys ?B). \<exists>s. bt_get R n = Some s \<and> set s = {d. n \<in> needs ?B d}"
    using batch_reverse_ok [OF batch_ok] by blast
  have R': "n \<in> set (bt_keys ?B) \<Longrightarrow>
      set (case bt_get R n of Some s \<Rightarrow> s | None \<Rightarrow> []) = {d. n \<in> needs ?B d}" for n
    using R(2) by fastforce
  from kahn_result [OF kahn_start [OF refl] R' batch_key] R(1) show ?thesis
    by (fastforce simp: kahn_batch_def Let_def)
qed

lemma stuck_waits:
  assumes "n \<in> set (bt_keys (stuck ts))"
  shows "needs (batch_by_name ts) n \<inter> set (bt_keys (stuck ts)) \<noteq> {}"
proof -
  let ?B = "batch_by_name ts" and ?P = "t_table ` set (emitted ts)"
  obtain D where inv: "kahn_inv ?B (stuck ts) D [] (emitted ts)" using kahn_batch_result by blast
  have get: "\<And>k. bt_get (stuck ts) k = (if k \<in> ?P then None else bt_get ?B k)"
    using inv by (simp add: kahn_inv_def Let_def)
  have keys: "set (bt_keys (stuck ts)) = set (bt_keys ?B) - ?P"
    by (auto simp: bt_keys_bt_get get split: if_splits)
  have "{k \<in> set (bt_keys ?B). k \<notin> ?P \<and> needs ?B k \<subseteq> ?P} = {}"
    using inv unfolding kahn_inv_def Let_def by auto
  with assms keys have "\<not> needs ?B n \<subseteq> ?P" by blast
  with needs_in_batch keys show ?thesis by blast
qed

lemma toposort_parts:
  "toposort_add_tables ts =
     Some (emitted ts @ map (strip_table (bs_collect (bt_keys (stuck ts)))) (bt_values (stuck ts)),
           concat (map (stripped_fks (bs_collect (bt_keys (stuck ts)))) (bt_values (stuck ts))))"
proof -
  obtain k: "kahn_batch ts = Some (emitted ts, stuck ts)" using kahn_batch_result by blast
  show ?thesis
  proof (cases "ts = []")
    case True
    then show ?thesis
      by (simp add: toposort_add_tables_def kahn_batch_def batch_by_name_def batch_deps_def
          batch_reverse_def edges_of_def bt_keys_def bt_values_def bt_collect_def)
  next
    case False
    with k show ?thesis
      by (auto simp: toposort_add_tables_def kahn_batch_def Let_def bt_values_def split: option.splits)
  qed
qed

section \<open>Creating the tables\<close>

text \<open>
  What the database makes of the result: \<open>CREATE TABLE\<close> needs a fresh name and, for each
  inline foreign key, an existing target (or the table itself); \<open>ADD FOREIGN KEY\<close> needs
  both tables. The state is the set of existing tables.
\<close>

definition inline_fks :: "TableSchema \<Rightarrow> (string \<times> string \<times> ForeignKeySchema) list" where
  "inline_fks t =
     List.map_filter (\<lambda>c. map_option (\<lambda>fk. (t_table t, c_name c, fk)) (c_foreign_key c)) (t_columns t)"

fun create_step :: "SchemaOperation \<Rightarrow> string set \<Rightarrow> string set option" where
  "create_step (AddTable t) E =
     (if t_table t \<notin> E \<and> (\<forall>(_, _, fk)\<in>set (inline_fks t). fk_ref_table fk \<in> insert (t_table t) E)
      then Some (insert (t_table t) E) else None)"
| "create_step (AddForeignKey t _ fk) E = (if t \<in> E \<and> fk_ref_table fk \<in> E then Some E else None)"
| "create_step _ E = Some E"

definition fk_of_op :: "SchemaOperation \<Rightarrow> (string \<times> string \<times> ForeignKeySchema) option" where
  "fk_of_op op = (case op of AddForeignKey t c fk \<Rightarrow> Some (t, c, fk) | _ \<Rightarrow> None)"

lemma fk_of_op_fk [simp]: "fk_of_op (AddForeignKey t c fk) = Some (t, c, fk)"
  by (simp add: fk_of_op_def)

lemma in_inline_fks:
  "(a, b, fk) \<in> set (inline_fks t) \<longleftrightarrow>
    a = t_table t \<and> (\<exists>c\<in>set (t_columns t). c_name c = b \<and> c_foreign_key c = Some fk)"
  by (auto simp: inline_fks_def set_map_filter)

lemma strip_table_name [simp]: "t_table (strip_table X t) = t_table t"
  by (simp add: strip_table_def)

lemma map_filter_Cons:
  "List.map_filter f (x # xs) = (case f x of None \<Rightarrow> List.map_filter f xs | Some y \<Rightarrow> y # List.map_filter f xs)"
  by (auto simp: List.map_filter_def split: option.splits)

lemma map_filter_Nil: "List.map_filter f [] = []"
  by (simp add: List.map_filter_def)

lemma strip_split_cols:
  "mset (List.map_filter (\<lambda>c. map_option (\<lambda>fk. (n, c_name c, fk)) (c_foreign_key c))
      (map (\<lambda>col. if strips X col then col\<lparr>c_foreign_key := None\<rparr> else col) cs))
   + mset (List.map_filter fk_of_op (List.map_filter
      (\<lambda>col. case c_foreign_key col of
         Some fk \<Rightarrow> if strips X col then Some (AddForeignKey n (c_name col) fk) else None
       | None \<Rightarrow> None) cs))
   = mset (List.map_filter (\<lambda>c. map_option (\<lambda>fk. (n, c_name c, fk)) (c_foreign_key c)) cs)"
proof (induction cs)
  case (Cons c cs)
  show ?case
  proof (cases "c_foreign_key c")
    case None
    with Cons show ?thesis by (simp add: map_filter_Cons)
  next
    case (Some fk)
    with Cons show ?thesis by (cases "strips X c") (simp_all add: map_filter_Cons)
  qed
qed (simp add: map_filter_Nil)

text \<open>Stripping moves each key exactly once.\<close>

lemma strip_split:
  "mset (inline_fks (strip_table X t)) + mset (List.map_filter fk_of_op (stripped_fks X t))
    = mset (inline_fks t)"
  by (simp add: inline_fks_def stripped_fks_def strip_table_def strip_split_cols)

lemma in_strip_inline:
  "(a, b, fk) \<in> set (inline_fks (strip_table X t)) \<Longrightarrow>
    (a, b, fk) \<in> set (inline_fks t) \<and> fk_ref_table fk \<notin> set X"
  by (auto simp: in_inline_fks strip_table_def strips_def split: if_splits option.splits)

lemma in_stripped:
  "op \<in> set (stripped_fks X t) \<longleftrightarrow>
    (\<exists>c fk. op = AddForeignKey (t_table t) c fk \<and> (t_table t, c, fk) \<in> set (inline_fks t)
      \<and> fk_ref_table fk \<in> set X)"
proof -
  have "(case c_foreign_key col of
         Some fk \<Rightarrow> if strips X col then Some (AddForeignKey n (c_name col) fk) else None
       | None \<Rightarrow> None) = Some op \<longleftrightarrow>
      (\<exists>fk. c_foreign_key col = Some fk \<and> op = AddForeignKey n (c_name col) fk \<and> fk_ref_table fk \<in> set X)"
    for n col by (cases "c_foreign_key col") (auto simp: strips_def)
  then show ?thesis
    by (auto simp: stripped_fks_def set_map_filter in_inline_fks)
qed

lemma needs_iff:
  assumes "bt_get B n = Some t" "t_table t = n"
  shows "m \<in> needs B n \<longleftrightarrow> m \<noteq> n \<and> m \<in> set (bt_keys B) \<and> m \<in> (\<lambda>(_, _, fk). fk_ref_table fk) ` set (inline_fks t)"
proof -
  have "m \<in> (\<lambda>(_, _, fk). fk_ref_table fk) ` set (inline_fks t) \<longleftrightarrow>
      (\<exists>c\<in>set (t_columns t). \<exists>fk. c_foreign_key c = Some fk \<and> fk_ref_table fk = m)"
    by (auto simp: image_iff in_inline_fks Bex_def)
  then show ?thesis using assms(1) by (simp add: needs_def)
qed

text \<open>Running a list of tables whose references are always met.\<close>

lemma run_tables:
  assumes "\<And>p t q. ts = p @ t # q \<Longrightarrow> t_table t \<notin> E \<union> t_table ` set p \<and>
      (\<forall>(_, _, fk)\<in>set (inline_fks t). fk_ref_table fk \<in> insert (t_table t) (E \<union> t_table ` set p))"
  shows "run create_step (map AddTable ts) E = Some (E \<union> t_table ` set ts)"
  using assms
proof (induction ts rule: rev_induct)
  case (snoc t ts)
  have "run create_step (map AddTable ts) E = Some (E \<union> t_table ` set ts)"
    by (rule snoc.IH) (rule snoc.prems, simp)
  moreover have "create_step (AddTable t) (E \<union> t_table ` set ts) = Some (insert (t_table t) (E \<union> t_table ` set ts))"
    using snoc.prems [of ts t "[]"] by simp
  ultimately show ?case by (simp add: run_append del: create_step.simps)
qed simp

lemma run_fks:
  "(\<And>op. op \<in> set ops \<Longrightarrow> \<exists>t c fk. op = AddForeignKey t c fk \<and> t \<in> E \<and> fk_ref_table fk \<in> E) \<Longrightarrow>
    run create_step ops E = Some E"
  by (induction ops) fastforce+

section \<open>The guarantees\<close>

text \<open>A topological prefix with the remaining tables is the whole batch, once each.\<close>

locale topo_split =
  fixes B :: "(string, TableSchema) btree" and ordered :: "TableSchema list"
    and rest :: "(string, TableSchema) btree"
  assumes B_ok: "bt_ok B" and rest_ok: "bt_ok rest"
    and keyed: "\<And>k t. bt_get B k = Some t \<Longrightarrow> t_table t = k"
    and prefix: "topo_prefix B ordered"
    and rest_get: "\<And>n. bt_get rest n = (if n \<in> t_table ` set ordered then None else bt_get B n)"
begin

lemma ordered_get: "t \<in> set ordered \<Longrightarrow> bt_get B (t_table t) = Some t"
  using prefix by (auto dest!: split_list topo_prefix_at)

lemma rest_values: "t \<in> set (bt_values rest) \<longleftrightarrow> bt_get rest (t_table t) = Some t"
proof -
  have "t \<in> set (bt_values rest) \<longleftrightarrow> (\<exists>k. bt_get rest k = Some t)"
    by (auto simp: bt_values_def image_iff split_paired_Ex Bex_def bt.entries_get [OF rest_ok])
  also have "\<dots> \<longleftrightarrow> bt_get rest (t_table t) = Some t"
    using keyed by (auto simp: rest_get split: if_splits)
  finally show ?thesis .
qed

lemma map_fst_names: "bt_ok m \<Longrightarrow> (\<And>k t. bt_get m k = Some t \<Longrightarrow> t_table t = k) \<Longrightarrow>
    map t_table (bt_values m) = bt_keys m"
  by (auto simp: bt_values_def bt_keys_def bt.entries_get intro!: map_cong)

lemma rest_names: "map t_table (bt_values rest) = bt_keys rest"
  by (rule map_fst_names [OF rest_ok]) (auto simp: rest_get keyed split: if_splits)

lemma rest_keys: "set (bt_keys rest) = t_table ` set (bt_values rest)"
  by (simp flip: rest_names)

lemma split_values: "set (ordered @ bt_values rest) = set (bt_values B)"
proof -
  have "t \<in> set (bt_values B) \<longleftrightarrow> bt_get B (t_table t) = Some t" for t
    using keyed by (auto simp: bt_values_def image_iff split_paired_Ex Bex_def bt.entries_get [OF B_ok])
  moreover have "t \<in> set ordered \<longleftrightarrow> bt_get B (t_table t) = Some t \<and> t_table t \<in> t_table ` set ordered" for t
    using ordered_get by force
  moreover have "t \<in> set (bt_values rest) \<longleftrightarrow>
      t_table t \<notin> t_table ` set ordered \<and> bt_get B (t_table t) = Some t" for t
    by (simp add: rest_values rest_get)
  ultimately show ?thesis by (intro set_eqI) (simp only: set_append Un_iff, blast)
qed

lemma split_distinct: "distinct (map t_table (ordered @ bt_values rest))"
proof -
  have "distinct (map t_table ordered)" using prefix by (simp add: topo_prefix_def)
  moreover have "set (bt_keys rest) \<inter> t_table ` set ordered = {}"
    by (auto simp: bt_keys_bt_get rest_get)
  ultimately show ?thesis
    using bt_ok_distinct [OF rest_ok] by (simp add: rest_names) (auto simp: bt_keys_def)
qed

lemma split_names: "t_table ` set (ordered @ bt_values rest) = set (bt_keys B)"
proof -
  have "map t_table (bt_values B) = bt_keys B" by (rule map_fst_names [OF B_ok keyed])
  then show ?thesis unfolding split_values by (metis set_map)
qed

lemma inline_met:
  assumes t: "ordered @ map (strip_table X) (bt_values rest) = p @ t # q"
    and X: "set X = set (bt_keys rest)"
    and fk: "(a, b, fk) \<in> set (inline_fks t)" and r: "fk_ref_table fk \<in> set (bt_keys B)"
  shows "fk_ref_table fk \<in> insert (t_table t) (t_table ` set p)"
proof -
  from t consider (ord) q' where "ordered = p @ t # q'"
    | (rest) p' where "p = ordered @ p'" "map (strip_table X) (bt_values rest) = p' @ t # q"
    by (auto simp: append_eq_append_conv2 append_eq_Cons_conv)
  then show ?thesis
  proof cases
    case ord
    with prefix have *: "bt_get B (t_table t) = Some t" "needs B (t_table t) \<subseteq> t_table ` set p"
      by (auto dest: topo_prefix_at)
    from fk have "fk_ref_table fk \<in> (\<lambda>(_, _, fk). fk_ref_table fk) ` set (inline_fks t)"
      by force
    with * needs_iff [OF *(1) refl, of "fk_ref_table fk"] r show ?thesis by blast
  next
    case rest
    then have "t \<in> strip_table X ` set (bt_values rest)"
      by (metis in_set_conv_decomp set_map)
    then obtain u where "t = strip_table X u" by blast
    with fk in_strip_inline have "fk_ref_table fk \<notin> set X" by blast
    with r rest(1) X show ?thesis by (auto simp: bt_keys_bt_get rest_get split: if_splits)
  qed
qed

end

interpretation topo: topo_split "batch_by_name ts" "emitted ts" "stuck ts" for ts
proof
  obtain D where inv: "kahn_inv (batch_by_name ts) (stuck ts) D [] (emitted ts)"
    using kahn_batch_result by blast
  then show "bt_ok (stuck ts)" "topo_prefix (batch_by_name ts) (emitted ts)"
    and "\<And>n. bt_get (stuck ts) n = (if n \<in> t_table ` set (emitted ts) then None else bt_get (batch_by_name ts) n)"
    by (simp_all add: kahn_inv_def Let_def)
qed (auto simp: batch_ok batch_key)

lemma toposort_names:
  assumes "toposort_add_tables ts = Some (out, fups)"
  shows "distinct (map t_table out)" "t_table ` set out = t_table ` set ts"
proof -
  have "map t_table out = map t_table (emitted ts @ bt_values (stuck ts))"
    using assms by (auto simp: toposort_parts)
  then show "distinct (map t_table out)" "t_table ` set out = t_table ` set ts"
    using topo.split_distinct [of ts] topo.split_names [of ts] batch_keys [of ts]
    by (simp, metis set_map)
qed

lemma batch_subset: "bt_get (batch_by_name ts) n = Some t \<Longrightarrow> t \<in> set ts"
  by (metis batch_get find_Some_iff length_rev nth_mem set_rev)

lemma batch_values_subset: "set (emitted ts @ bt_values (stuck ts)) \<subseteq> set ts"
  by (auto simp: topo.rest_values topo.rest_get dest: topo.ordered_get batch_subset split: if_splits)

lemma batch_values_mset:
  assumes "distinct (map t_table ts)"
  shows "mset (emitted ts @ bt_values (stuck ts)) = mset ts"
proof -
  have "t \<in> set (emitted ts @ bt_values (stuck ts))" if "t \<in> set ts" for t
  proof -
    from that topo.split_names [of ts] batch_keys [of ts]
    obtain u where u: "u \<in> set (emitted ts @ bt_values (stuck ts))" "t_table u = t_table t" by force
    with batch_values_subset have "u \<in> set ts" by blast
    with u that assms show ?thesis by (metis distinct_map inj_onD)
  qed
  with batch_values_subset have "set (emitted ts @ bt_values (stuck ts)) = set ts" by blast
  then show ?thesis
    using assms topo.split_distinct [of ts] by (metis distinct_map set_eq_iff_mset_eq_distinct)
qed

lemma mset_concat_map_cong:
  assumes "mset xs = mset ys"
  shows "mset (concat (map f xs)) = mset (concat (map f ys))"
proof -
  have "mset (concat (map f zs)) = sum_mset (image_mset (\<lambda>z. mset (f z)) (mset zs))" for zs
    by (induction zs) simp_all
  then show ?thesis using assms by simp
qed

lemma nonempty_keys: "m \<noteq> [] \<Longrightarrow> \<exists>n. n \<in> set (bt_keys m)"
  by (cases m) (auto simp: bt_keys_def)

lemma stuck_fk:
  assumes "n \<in> set (bt_keys (stuck ts))"
  shows "\<exists>u\<in>set (bt_values (stuck ts)). stripped_fks (bs_collect (bt_keys (stuck ts))) u \<noteq> []"
proof -
  obtain u where u: "bt_get (stuck ts) n = Some u" "u \<in> set (bt_values (stuck ts))" "t_table u = n"
    using assms topo.rest_keys [of ts] topo.rest_values [of _ ts] by force
  then have B: "bt_get (batch_by_name ts) n = Some u" by (simp add: topo.rest_get split: if_splits)
  obtain m where "m \<in> needs (batch_by_name ts) n" "m \<in> set (bt_keys (stuck ts))"
    using stuck_waits [OF assms] by blast
  with needs_iff [OF B u(3)] obtain c fk where
    "(n, c, fk) \<in> set (inline_fks u)" "fk_ref_table fk \<in> set (bt_keys (stuck ts))"
    using u(3) by (auto simp: in_inline_fks)
  then have "AddForeignKey n c fk \<in> set (stripped_fks (bs_collect (bt_keys (stuck ts))) u)"
    using u(3) by (auto simp: in_stripped)
  with u(2) show ?thesis by force
qed

lemma takeWhile_stops:
  "t_table u = m \<Longrightarrow> length (takeWhile (\<lambda>t. t_table t \<noteq> m) (p @ u # q)) \<le> length p"
  by (induction p) auto

lemma prefix_acyclic:
  assumes "topo_prefix B ts" "t_table ` set ts = set (bt_keys B)"
  shows "acyclic {(n, m). m \<in> needs B n}"
proof -
  let ?f = "\<lambda>n. length (takeWhile (\<lambda>t. t_table t \<noteq> n) ts)"
  have "?f m < ?f n" if m: "m \<in> needs B n" for n m
  proof -
    have "n \<in> t_table ` set ts"
      using m assms(2) by (auto simp: needs_def bt_keys_bt_get split: option.splits)
    then obtain p t q where ts: "ts = p @ t # q" "t_table t = n" by (auto dest: split_list)
    have "distinct (map t_table ts)" using assms(1) by (simp add: topo_prefix_def)
    then have "n \<notin> t_table ` set p" using ts by auto
    then have "\<forall>u\<in>set p. t_table u \<noteq> n" by blast
    then have n: "?f n = length p" using ts by (simp add: takeWhile_append2)
    have "m \<in> t_table ` set p" using topo_prefix_at [of B p t q] assms(1) ts m by auto
    then obtain p1 u p2 where "p = p1 @ u # p2" "t_table u = m" by (auto dest: split_list)
    with n ts(1) takeWhile_stops [of u m p1 "p2 @ t # q"] show ?thesis by simp
  qed
  then have "{(n, m). m \<in> needs B n}\<inverse> \<subseteq> measure ?f" by auto
  then have "wf ({(n, m). m \<in> needs B n}\<inverse>)" by (rule wf_subset [OF wf_measure])
  then show ?thesis using wf_acyclic by fastforce
qed

lemma stuck_cycle:
  assumes "n \<in> set (bt_keys (stuck ts))"
  shows "\<not> acyclic {(n, m). m \<in> needs (batch_by_name ts) n}"
proof
  let ?r = "{(n, m). m \<in> needs (batch_by_name ts) n}" and ?Q = "set (bt_keys (stuck ts))"
  assume "acyclic ?r"
  moreover have "?r \<subseteq> set (bt_keys (batch_by_name ts)) \<times> set (bt_keys (batch_by_name ts))"
    by (auto simp: needs_def bt_keys_bt_get split: option.splits)
  then have "finite ?r" by (rule finite_subset) simp
  ultimately have "wf (?r\<inverse>)" by (simp add: finite_acyclic_wf_converse)
  then obtain z where "z \<in> ?Q" "\<forall>y. (y, z) \<in> ?r\<inverse> \<longrightarrow> y \<notin> ?Q"
    using assms by (metis wfE_min)
  then show False using stuck_waits [of z ts] by blast
qed

text \<open>
  C4: whatever the batch of new tables, cyclic or not, the planner's ordering never
  panics, and executing the emitted \<open>CREATE TABLE\<close> statements followed by the follow-up
  foreign keys never names a table that does not exist yet: the run succeeds and ends with
  exactly the old tables and the batch. The hypotheses are that the names are new and that
  every foreign key points at an existing table or into the batch.
\<close>

theorem toposort_creates:
  assumes "E \<inter> t_table ` set ts = {}"
    and "\<And>t a b fk. t \<in> set ts \<Longrightarrow> (a, b, fk) \<in> set (inline_fks t) \<Longrightarrow>
      fk_ref_table fk \<in> E \<union> t_table ` set ts"
  shows "\<exists>out fups. toposort_add_tables ts = Some (out, fups) \<and>
    run create_step (map AddTable out @ fups) E = Some (E \<union> t_table ` set ts)"
proof -
  obtain out fups where r: "toposort_add_tables ts = Some (out, fups)"
    using toposort_parts by blast
  note names = toposort_names [OF r]
  let ?X = "bs_collect (bt_keys (stuck ts))"
  have out: "out = emitted ts @ map (strip_table ?X) (bt_values (stuck ts))"
    and fups: "fups = concat (map (stripped_fks ?X) (bt_values (stuck ts)))"
    using r by (simp_all add: toposort_parts)
  have src: "\<exists>u\<in>set ts. (a, b, fk) \<in> set (inline_fks u)"
    if "t \<in> set out" "(a, b, fk) \<in> set (inline_fks t)" for t a b fk
    using that batch_values_subset [of ts] in_strip_inline unfolding out by fastforce
  have 1: "run create_step (map AddTable out) E = Some (E \<union> t_table ` set out)"
  proof (rule run_tables, intro conjI)
    fix p t q assume eq: "out = p @ t # q"
    then show "t_table t \<notin> E \<union> t_table ` set p" using names assms(1) by auto
    have "fk_ref_table fk \<in> insert (t_table t) (E \<union> t_table ` set p)"
      if fk: "(a, b, fk) \<in> set (inline_fks t)" for a b fk
    proof (cases "fk_ref_table fk \<in> E")
      case False
      have "t \<in> set out" using eq by simp
      from src [OF this fk] assms(2) False have "fk_ref_table fk \<in> set (bt_keys (batch_by_name ts))"
        unfolding batch_keys by blast
      with topo.inline_met [OF eq [unfolded out] _ fk] show ?thesis by auto
    qed simp
    then show "\<forall>(_, _, fk)\<in>set (inline_fks t). fk_ref_table fk \<in> insert (t_table t) (E \<union> t_table ` set p)"
      by auto
  qed
  have 2: "run create_step fups (E \<union> t_table ` set out) = Some (E \<union> t_table ` set out)"
  proof (rule run_fks)
    fix op assume "op \<in> set fups"
    then obtain u where u: "u \<in> set (bt_values (stuck ts))" "op \<in> set (stripped_fks ?X u)"
      by (auto simp: fups)
    then obtain c fk where fk: "op = AddForeignKey (t_table u) c fk"
      "fk_ref_table fk \<in> t_table ` set (bt_values (stuck ts))"
      using topo.rest_keys [of ts] by (auto simp: in_stripped)
    have sub: "t_table ` set (bt_values (stuck ts)) \<subseteq> t_table ` set out"
      by (auto simp: out image_Un image_image)
    have "t_table u \<in> t_table ` set out" using sub u(1) by auto
    with fk subsetD [OF sub fk(2)] show "\<exists>t c fk. op = AddForeignKey t c fk \<and> t \<in> E \<union> t_table ` set out
        \<and> fk_ref_table fk \<in> E \<union> t_table ` set out"
      by simp
  qed
  from 1 2 names(2) r show ?thesis by (simp add: run_append)
qed

text \<open>
  C5: breaking cycles loses no constraint and invents none: on a batch of
  distinctly named tables, the foreign keys left inline together with the follow-up
  \<open>AddForeignKey\<close> operations are, counted with multiplicity, those the models declare.
\<close>

theorem toposort_keeps_fks:
  assumes "distinct (map t_table ts)" "toposort_add_tables ts = Some (out, fups)"
  shows "mset (concat (map inline_fks out)) + mset (List.map_filter fk_of_op fups)
    = mset (concat (map inline_fks ts))"
proof -
  let ?X = "bs_collect (bt_keys (stuck ts))"
  have mf: "mset (List.map_filter f (xs @ ys)) = mset (List.map_filter f xs) + mset (List.map_filter f ys)"
    for f :: "SchemaOperation \<Rightarrow> (string \<times> string \<times> ForeignKeySchema) option" and xs ys
    by (simp add: List.map_filter_def)
  have "mset (concat (map inline_fks (map (strip_table X) us)))
      + mset (List.map_filter fk_of_op (concat (map (stripped_fks X) us)))
      = mset (concat (map inline_fks us))" for X us
  proof (induction us)
    case (Cons u us)
    show ?case by (simp add: mf ac_simps flip: Cons.IH strip_split [of X u])
  qed (simp add: map_filter_Nil)
  then have "mset (concat (map inline_fks out)) + mset (List.map_filter fk_of_op fups)
      = mset (concat (map inline_fks (emitted ts @ bt_values (stuck ts))))"
    using assms(2) by (auto simp: toposort_parts add.assoc)
  also have "\<dots> = mset (concat (map inline_fks ts))"
    by (rule mset_concat_map_cong [OF batch_values_mset [OF assms(1)]])
  finally show ?thesis .
qed

text \<open>
  follow-up foreign keys appear exactly when the batch's
  reference graph (self references aside) has a cycle; an acyclic batch keeps every key
  inline.
\<close>

theorem toposort_follow_ups_cyclic:
  assumes "toposort_add_tables ts = Some (out, fups)"
  shows "fups = [] \<longleftrightarrow> acyclic {(n, m). m \<in> needs (batch_by_name ts) n}"
proof (cases "stuck ts = []")
  case True
  then have "t_table ` set (emitted ts) = set (bt_keys (batch_by_name ts))"
    using topo.split_names [of ts] by (simp add: bt_values_def)
  with prefix_acyclic [OF topo.prefix] assms True show ?thesis
    by (simp add: toposort_parts bt_values_def)
next
  case False
  then obtain n where n: "n \<in> set (bt_keys (stuck ts))" using nonempty_keys by blast
  with stuck_cycle stuck_fk assms show ?thesis by (fastforce simp: toposort_parts)
qed

end
