(* ===== verification/Sql_Text.thy ===== *)
theory Sql_Text
  imports Diff_Table
begin

text \<open>
  The leaf functions of the SQL emitter in \<open>sql.rs\<close>: quoting of identifiers, string literals
  and comments, derived constraint names, and the parser of storage parameters. The 64-bit
  hash of \<open>std::collections::hash_map::DefaultHasher\<close>, whose algorithm Rust leaves open, is
  a field of the parameter \<open>build\<close>, and so is whether the crate is compiled with its debug
  assertions.

  A byte of a quoted text is pushed as \<open>b as char\<close>, which is the character of that code
  point: bytes from 128 on turn into two bytes of UTF-8. The reading side is PostgreSQL's
  lexer for quoted text, so that a round trip says what the server sees.
\<close>

section \<open>Characters and numbers\<close>

abbreviation dq :: char where "dq \<equiv> CHR 0x22"
abbreviation sq :: char where "sq \<equiv> CHR 0x27"
abbreviation bs :: char where "bs \<equiv> CHR 0x5C"

definition nl :: string where
  "nl = [CHR 0x0A]"

definition em_dash :: string where
  "em_dash = [CHR 0xE2, CHR 0x80, CHR 0x94]"

text \<open>\<open>out.push(b as char)\<close>\<close>

definition as_char :: "char \<Rightarrow> string" where
  "as_char b =
     (if byte b < 128 then [b]
      else [char_of (192 + byte b div 64), char_of (128 + byte b mod 64)])"

text \<open>\<open>Display\<close> of unsigned integers and of booleans.\<close>

fun show_nat :: "nat \<Rightarrow> string" where
  "show_nat n = (if n < 10 then [hex_digit n] else show_nat (n div 10) @ [hex_digit (n mod 10)])"

declare show_nat.simps [simp del]

definition show_bool :: "bool \<Rightarrow> string" where
  "show_bool b = (if b then ''true'' else ''false'')"

text \<open>\<open>{:016x}\<close>\<close>

definition hex16 :: "u64 \<Rightarrow> string" where
  "hex16 w = map (\<lambda>i. hex_digit (unat (drop_bit (4 * (15 - i)) w) mod 16)) [0..<16]"

definition is_ascii :: "string \<Rightarrow> bool" where
  "is_ascii s \<longleftrightarrow> (\<forall>c\<in>set s. byte c < 128)"

section \<open>Quoting\<close>

definition quote_ident :: "string \<Rightarrow> string" where
  "quote_ident name =
     [dq] @ concat (map (\<lambda>b. if b = dq then [dq, dq] else as_char b) name) @ [dq]"

definition quote_string_literal :: "string \<Rightarrow> string" where
  "quote_string_literal value =
     [sq] @ concat (map (\<lambda>b. if b = sq then [sq, sq] else as_char b) value) @ [sq]"

text \<open>
  The comment literal goes over characters, not bytes; both special characters are ASCII, so
  on UTF-8 bytes the other characters are copied.
\<close>

definition render_comment_literal :: "string \<Rightarrow> string" where
  "render_comment_literal s =
     ''E'' @ [sq] @ concat (map (\<lambda>ch. if ch = sq then [sq, sq] else if ch = bs then [bs, bs] else [ch]) s)
     @ [sq]"

section \<open>Constraint names\<close>

text \<open>What the compiler fixes: the algorithm of \<open>DefaultHasher\<close>, and \<open>cfg(debug_assertions)\<close>.\<close>

record build =
  default_hasher :: "string \<Rightarrow> u64"
  debug_assertions :: bool

definition truncate_constraint :: "build \<Rightarrow> string \<Rightarrow> string" where
  "truncate_constraint build name =
     (if length name \<le> 63 then name
      else concat (map as_char (take 46 name)) @ ''_'' @ hex16 (default_hasher build name))"

definition check_constraint_name :: "build \<Rightarrow> string \<Rightarrow> string \<Rightarrow> string" where
  "check_constraint_name build table column =
     truncate_constraint build (table @ ''_'' @ column @ ''_check'')"

definition unique_constraint_name :: "build \<Rightarrow> string \<Rightarrow> string \<Rightarrow> string" where
  "unique_constraint_name build table column =
     truncate_constraint build (table @ ''_'' @ column @ ''_key'')"

definition fk_constraint_name :: "build \<Rightarrow> string \<Rightarrow> string \<Rightarrow> string" where
  "fk_constraint_name build table column =
     truncate_constraint build (table @ ''_'' @ column @ ''_fkey'')"

text \<open>\<open>descriptor::index_name\<close>\<close>

datatype IndexNameKind = NameNonUnique | NameUniqueConstraint | NameUniqueIndex

datatype IndexNameTarget = NameColumns "string list" | NameExpression

definition index_name :: "build \<Rightarrow> string \<Rightarrow> IndexNameKind \<Rightarrow> IndexNameTarget \<Rightarrow> string" where
  "index_name build table kind target =
     (let suffix = (case kind of NameNonUnique \<Rightarrow> ''idx'' | NameUniqueConstraint \<Rightarrow> ''key''
                     | NameUniqueIndex \<Rightarrow> ''uidx'');
          body = (case target of NameColumns cols \<Rightarrow> join_str ''_'' cols | NameExpression \<Rightarrow> ''expr'');
          full = table @ ''_'' @ body @ ''_'' @ suffix
      in if length full \<le> 63 then full
         else concat (map as_char (take 46 full)) @ ''_'' @ hex16 (default_hasher build full))"

section \<open>Storage parameters\<close>

record StorageParamEntry =
  sp_key :: string
  sp_value :: string

definition is_storage_param_word :: "string \<Rightarrow> bool" where
  "is_storage_param_word bytes =
     ((is_ascii_alpha (hd bytes) \<or> hd bytes = CHR ''_'')
      \<and> list_all (\<lambda>c. is_ascii_alphanumeric c \<or> c = CHR ''_'') (tl bytes))"

definition SQL_CONTROL_WORDS :: "string list" where
  "SQL_CONTROL_WORDS =
     [''alter'', ''begin'', ''call'', ''comment'', ''commit'', ''copy'', ''create'', ''delete'',
      ''do'', ''drop'', ''execute'', ''from'', ''grant'', ''insert'', ''reset'', ''revoke'',
      ''rollback'', ''select'', ''set'', ''table'', ''truncate'', ''union'', ''update'', ''where'']"

definition is_storage_param_sql_control_word :: "string \<Rightarrow> bool" where
  "is_storage_param_sql_control_word bytes \<longleftrightarrow> to_ascii_lowercase bytes \<in> set SQL_CONTROL_WORDS"

text \<open>The loop keeps whether a dot was seen and the digit counts before and after it.\<close>

fun number_scan :: "bool \<Rightarrow> nat \<Rightarrow> nat \<Rightarrow> string \<Rightarrow> bool" where
  "number_scan seen_dot before after [] = (before > 0 \<and> (\<not> seen_dot \<or> after > 0))"
| "number_scan seen_dot before after (c # cs) =
     (if is_ascii_digit c
      then (if seen_dot then number_scan seen_dot before (after + 1) cs
            else number_scan seen_dot (before + 1) after cs)
      else if c = CHR ''.'' \<and> \<not> seen_dot then number_scan True before after cs
      else False)"

definition is_storage_param_number :: "string \<Rightarrow> bool" where
  "is_storage_param_number bytes = number_scan False 0 0 bytes"

definition validate_storage_param_key :: "string \<Rightarrow> string option" where
  "validate_storage_param_key key =
     (if key = [] then Some ''storage_params keys must not be empty''
      else if length key > 63 then Some ''storage_params keys must be at most 63 bytes''
      else if \<not> (is_ascii_alpha (hd key) \<or> hd key = CHR ''_'')
      then Some ''storage_params keys must start with an ASCII letter or underscore''
      else if \<not> list_all (\<lambda>c. is_ascii_alphanumeric c \<or> c = CHR ''_'') (tl key)
      then Some ''storage_params keys must be plain ASCII reloption names; dotted keys are not supported''
      else None)"

definition validate_storage_param_value :: "string \<Rightarrow> string option" where
  "validate_storage_param_value v =
     (if v = [] then Some ''storage_params values must not be empty''
      else if is_storage_param_word v
      then (if is_storage_param_sql_control_word v
            then Some ''storage_params values must not be SQL statement/control words'' else None)
      else if is_storage_param_number v then None
      else Some (''storage_params values must be bare words or decimal numbers; quotes, comments, commas, ''
        @ ''parentheses, semicolons, and SQL expressions are not supported''))"

text \<open>\<open>str::split_once\<close> at a one-byte separator.\<close>

fun split_once :: "char \<Rightarrow> string \<Rightarrow> (string \<times> string) option" where
  "split_once c [] = None"
| "split_once c (x # xs) =
     (if x = c then Some ([], xs)
      else case split_once c xs of None \<Rightarrow> None | Some (a, b) \<Rightarrow> Some (x # a, b))"

definition parse_storage_entry :: "string \<Rightarrow> string + StorageParamEntry" where
  "parse_storage_entry part0 =
     (let part = trim part0
      in if part = [] then Inl ''storage_params entries must not be empty''
      else case split_once (CHR ''='') part of
        None \<Rightarrow> Inl ''storage_params entries must use key=value form separated by commas''
      | Some (key0, value0) \<Rightarrow>
          if CHR ''='' \<in> set value0
          then Inl (''storage_params entries must contain exactly one '' @ tick ''='')
          else let key = trim key0; v = trim value0
            in case validate_storage_param_key key of
              Some e \<Rightarrow> Inl e
            | None \<Rightarrow>
                (case validate_storage_param_value v of
                   Some e \<Rightarrow> Inl e
                 | None \<Rightarrow> Inr \<lparr>sp_key = to_ascii_lowercase key, sp_value = v\<rparr>))"

fun parse_storage_parts :: "string list \<Rightarrow> string list \<Rightarrow> string + StorageParamEntry list" where
  "parse_storage_parts seen [] = Inr []"
| "parse_storage_parts seen (part # parts) =
     (case parse_storage_entry part of
        Inl e \<Rightarrow> Inl e
      | Inr entry \<Rightarrow>
          if sp_key entry \<in> set seen
          then Inl (''duplicate storage_params key '' @ tick (sp_key entry))
          else (case parse_storage_parts (sp_key entry # seen) parts of
                  Inl e \<Rightarrow> Inl e | Inr entries \<Rightarrow> Inr (entry # entries)))"

definition parse_storage_params :: "string \<Rightarrow> string + StorageParamEntry list" where
  "parse_storage_params params =
     (if trim params = []
      then Inl ''storage_params must be a non-empty comma-separated key=value list''
      else parse_storage_parts [] (split_at (CHR '','') params))"

definition render_storage_param_entries :: "StorageParamEntry list \<Rightarrow> string" where
  "render_storage_param_entries entries =
     join_str '', '' (map (\<lambda>e. sp_key e @ ''='' @ sp_value e) entries)"

end
