(* ===== verification/Sql_Emit.thy ===== *)
theory Sql_Emit
  imports Sql_Text
begin

text \<open>
  The SQL emitter, \<open>djogi/src/migrate/sql.rs\<close>: one definition per emitter, each returning
  label, forward SQL, rollback SQL and the lossy-rollback warning. An emitter that can panic
  (\<open>unreachable!\<close>, \<open>panic!\<close>, or \<open>debug_assert_ne!\<close> in a build with debug assertions) returns an
  option whose \<^const>\<open>None\<close> is the panic. Raw SQL of the models
  (types, defaults, checks, predicates) is copied.
\<close>

section \<open>Results\<close>

datatype LossyRollbackKind =
    LrDropColumn | LrDropTable | LrDropEnum | LrDropIndex | LrPkTypeFlipPostCutover | LrCustomCast

record LossyRollbackWarning =
  lw_kind :: LossyRollbackKind
  lw_detail :: string

record OperationSql =
  os_label :: string
  os_up :: string
  os_down :: string
  os_lossy :: "LossyRollbackWarning option"

datatype SqlEmitError =
    SeUnsupported string
  | PkTypeFlipMustRouteToT9 string PkKindSchema PkKindSchema
  | UnsupportedPartitionChange string string
  | InvalidStorageParams string string
  | SeDiff DiffError

section \<open>Clauses\<close>

definition on_delete_sql :: "OnDeleteSchema \<Rightarrow> string" where
  "on_delete_sql d =
     (case d of Restrict \<Rightarrow> ''RESTRICT'' | Cascade \<Rightarrow> ''CASCADE'' | SetNull \<Rightarrow> ''SET NULL''
      | OnDeleteSchema.SetDefault \<Rightarrow> ''SET DEFAULT'' | NoAction \<Rightarrow> ''NO ACTION'')"

definition index_method :: "IndexTypeSchema \<Rightarrow> string" where
  "index_method t =
     (case t of BTree \<Rightarrow> ''btree'' | Gin \<Rightarrow> ''gin'' | Gist \<Rightarrow> ''gist'' | Hash \<Rightarrow> ''hash''
      | Spgist \<Rightarrow> ''spgist'' | Brin \<Rightarrow> ''brin'')"

definition render_deferrable_clause :: "bool \<Rightarrow> bool \<Rightarrow> string" where
  "render_deferrable_clause deferrable initially_deferred =
     (if \<not> deferrable then []
      else if initially_deferred then '' DEFERRABLE INITIALLY DEFERRED''
      else '' DEFERRABLE INITIALLY IMMEDIATE'')"

definition render_add_fk ::
  "build \<Rightarrow> string \<Rightarrow> string \<Rightarrow> ForeignKeySchema \<Rightarrow> string" where
  "render_add_fk build table column fk =
     ''ALTER TABLE '' @ quote_ident table @ '' ADD CONSTRAINT ''
     @ quote_ident (fk_constraint_name build table column)
     @ '' FOREIGN KEY ('' @ quote_ident column @ '') REFERENCES '' @ quote_ident (fk_ref_table fk)
     @ '' ('' @ quote_ident (fk_ref_column fk) @ '') ON DELETE '' @ on_delete_sql (fk_on_delete fk)
     @ render_deferrable_clause (fk_deferrable fk) (fk_initially_deferred fk) @ '';''"

definition column_definition :: "build \<Rightarrow> ColumnSchema \<Rightarrow> string \<Rightarrow> string" where
  "column_definition build col table =
     quote_ident (c_name col) @ '' '' @ c_sql_type col
     @ (if c_nullable col then [] else '' NOT NULL'')
     @ (case c_identity col of
          Some identity \<Rightarrow> '' '' @ sql_clause identity
        | None \<Rightarrow>
            (case c_generated col of
               Some generated \<Rightarrow>
                 '' GENERATED ALWAYS AS ('' @ g_expression generated @ '') ''
                 @ (if g_stored generated then ''STORED'' else ''VIRTUAL'')
             | None \<Rightarrow> (case c_default_sql col of Some def \<Rightarrow> '' DEFAULT '' @ def | None \<Rightarrow> [])))
     @ (if c_unique col then '' UNIQUE'' else [])
     @ (case c_check col of
          Some check \<Rightarrow>
            '' CONSTRAINT '' @ quote_ident (check_constraint_name build table (c_name col))
            @ '' CHECK ('' @ check @ '')''
        | None \<Rightarrow> [])
     @ (case c_foreign_key col of
          Some fk \<Rightarrow>
            '' CONSTRAINT '' @ quote_ident (fk_constraint_name build table (c_name col))
            @ '' REFERENCES '' @ quote_ident (fk_ref_table fk) @ '' ('' @ quote_ident (fk_ref_column fk)
            @ '') ON DELETE '' @ on_delete_sql (fk_on_delete fk)
            @ render_deferrable_clause (fk_deferrable fk) (fk_initially_deferred fk)
        | None \<Rightarrow> [])"

definition pk_table_clause :: "TableSchema \<Rightarrow> string option" where
  "pk_table_clause t =
     (if pk_kind (t_primary_key t) = NoPk \<or> pk_columns (t_primary_key t) = [] then None
      else Some (''PRIMARY KEY ('' @ join_str '', '' (map quote_ident (pk_columns (t_primary_key t))) @ '')''))"

definition partition_clause :: "PartitionSchema \<Rightarrow> string" where
  "partition_clause p =
     (case p of
        RangePartition column \<Rightarrow> ''PARTITION BY RANGE ('' @ quote_ident column @ '')''
      | HashPartition column n \<Rightarrow>
          ''PARTITION BY HASH ('' @ quote_ident column @ '') /* partitions = '' @ show_nat (unat n) @ '' */'')"

definition render_comment_on_column :: "string \<Rightarrow> string \<Rightarrow> string option \<Rightarrow> string" where
  "render_comment_on_column table column v =
     ''COMMENT ON COLUMN '' @ quote_ident table @ ''.'' @ quote_ident column @ '' IS ''
     @ (case v of Some txt \<Rightarrow> render_comment_literal txt | None \<Rightarrow> ''NULL'') @ '';''"

definition render_comment_on_table :: "string \<Rightarrow> string option \<Rightarrow> string" where
  "render_comment_on_table table v =
     ''COMMENT ON TABLE '' @ quote_ident table @ '' IS ''
     @ (case v of Some txt \<Rightarrow> render_comment_literal txt | None \<Rightarrow> ''NULL'') @ '';''"

definition render_set_tablespace :: "string \<Rightarrow> string option \<Rightarrow> string" where
  "render_set_tablespace table tablespace =
     ''ALTER TABLE '' @ quote_ident table @ '' SET TABLESPACE ''
     @ quote_ident (case tablespace of Some s \<Rightarrow> s | None \<Rightarrow> ''pg_default'') @ '';''"

definition parse_storage_params_for_sql :: "string \<Rightarrow> SqlEmitError + StorageParamEntry list" where
  "parse_storage_params_for_sql params =
     (case parse_storage_params params of
        Inl reason \<Rightarrow> Inl (InvalidStorageParams params reason) | Inr entries \<Rightarrow> Inr entries)"

definition render_set_storage_params :: "string \<Rightarrow> string \<Rightarrow> SqlEmitError + string" where
  "render_set_storage_params table params =
     (case parse_storage_params_for_sql params of
        Inl e \<Rightarrow> Inl e
      | Inr entries \<Rightarrow>
          Inr (''ALTER TABLE '' @ quote_ident table @ '' SET (''
            @ render_storage_param_entries entries @ '');''))"

definition render_reset_storage_params :: "string \<Rightarrow> string \<Rightarrow> SqlEmitError + string" where
  "render_reset_storage_params table params =
     (case parse_storage_params_for_sql params of
        Inl e \<Rightarrow> Inl e
      | Inr entries \<Rightarrow>
          Inr (''ALTER TABLE '' @ quote_ident table @ '' RESET (''
            @ join_str '', '' (map sp_key entries) @ '');''))"

definition render_exclusion_body :: "ExclusionConstraintSchema \<Rightarrow> string" where
  "render_exclusion_body x =
     ''EXCLUDE USING '' @ x_using x @ '' (''
     @ join_str '', '' (map (\<lambda>e. xe_expr e @ '' WITH '' @ xe_with_operator e) (x_elements x)) @ '')''
     @ (case x_where_clause x of Some w \<Rightarrow> '' WHERE ('' @ w @ '')'' | None \<Rightarrow> [])
     @ (if x_deferrable x
        then '' DEFERRABLE'' @ (if x_initially_deferred x then '' INITIALLY DEFERRED'' else [])
        else [])"

section \<open>Tables\<close>

definition emit_add_table :: "build \<Rightarrow> TableSchema \<Rightarrow> SqlEmitError + OperationSql" where
  "emit_add_table build t =
     (let qt = quote_ident (t_table t);
          create =
            ''CREATE TABLE '' @ qt @ '' ('' @ nl
            @ join_str ('','' @ nl)
                (map (\<lambda>col. ''    '' @ column_definition build col (t_table t)) (t_columns t))
            @ (case pk_table_clause t of Some clause \<Rightarrow> '','' @ nl @ ''    '' @ clause | None \<Rightarrow> [])
            @ concat (map (\<lambda>x. '','' @ nl @ ''    CONSTRAINT '' @ quote_ident (x_name x) @ '' ''
                 @ render_exclusion_body x) (t_exclusion_constraints t))
            @ nl @ '')''
            @ (case t_partition t of Some part \<Rightarrow> '' '' @ partition_clause part | None \<Rightarrow> []) @ '';''
            @ (case t_table_comment t of
                 Some comment \<Rightarrow> nl @ render_comment_on_table (t_table t) (Some comment) | None \<Rightarrow> [])
            @ concat (map (\<lambda>col. case c_comment col of
                   Some comment \<Rightarrow> nl @ render_comment_on_column (t_table t) (c_name col) (Some comment)
                 | None \<Rightarrow> []) (t_columns t));
          tablespace = (case t_tablespace t of
               Some s \<Rightarrow> nl @ render_set_tablespace (t_table t) (Some s) | None \<Rightarrow> []);
          result = (\<lambda>up. \<lparr>os_label = ''AddTable '' @ t_table t, os_up = up,
               os_down = ''DROP TABLE '' @ qt @ '';'', os_lossy = None\<rparr>)
      in case t_storage_params t of
           None \<Rightarrow> Inr (result (create @ tablespace))
         | Some params \<Rightarrow>
             (case render_set_storage_params (t_table t) params of
                Inl e \<Rightarrow> Inl e
              | Inr s \<Rightarrow> Inr (result (create @ nl @ s @ tablespace))))"

definition emit_drop_table :: "string \<Rightarrow> OperationSql" where
  "emit_drop_table name =
     \<lparr>os_label = ''DropTable '' @ name, os_up = ''DROP TABLE '' @ quote_ident name @ '';'',
      os_down =
        ''-- LOSSY ROLLBACK: cannot recreate table '' @ tick name @ '' from the diff.'' @ nl
        @ ''-- The migration emitter has no historical schema for the dropped'' @ nl
        @ ''-- table; rollback must be hand-written if needed.'',
      os_lossy = Some \<lparr>lw_kind = LrDropTable,
        lw_detail = ''table '' @ tick name @ '' dropped '' @ em_dash
          @ '' schema and rows are lost; rollback has no recreate path''\<rparr>\<rparr>"

definition emit_rename_table :: "string \<Rightarrow> string \<Rightarrow> OperationSql" where
  "emit_rename_table from to =
     \<lparr>os_label = ''RenameTable '' @ from @ '' -> '' @ to,
      os_up = ''ALTER TABLE '' @ quote_ident from @ '' RENAME TO '' @ quote_ident to @ '';'',
      os_down = ''ALTER TABLE '' @ quote_ident to @ '' RENAME TO '' @ quote_ident from @ '';'',
      os_lossy = None\<rparr>"

section \<open>Columns\<close>

definition emit_add_column :: "build \<Rightarrow> string \<Rightarrow> ColumnSchema \<Rightarrow> OperationSql" where
  "emit_add_column build table col =
     \<lparr>os_label = ''AddColumn '' @ table @ ''.'' @ c_name col,
      os_up =
        ''ALTER TABLE '' @ quote_ident table @ '' ADD COLUMN '' @ column_definition build col table @ '';''
        @ (case c_comment col of
             Some comment \<Rightarrow> nl @ render_comment_on_column table (c_name col) (Some comment)
           | None \<Rightarrow> []),
      os_down = ''ALTER TABLE '' @ quote_ident table @ '' DROP COLUMN '' @ quote_ident (c_name col) @ '';'',
      os_lossy = Some \<lparr>lw_kind = LrDropColumn,
        lw_detail = ''column '' @ tick (table @ ''.'' @ c_name col) @ '' dropped on rollback '' @ em_dash
          @ '' any values written between apply and rollback are lost''\<rparr>\<rparr>"

definition emit_drop_column :: "string \<Rightarrow> string \<Rightarrow> OperationSql" where
  "emit_drop_column table column =
     \<lparr>os_label = ''DropColumn '' @ table @ ''.'' @ column,
      os_up = ''ALTER TABLE '' @ quote_ident table @ '' DROP COLUMN '' @ quote_ident column @ '';'',
      os_down =
        ''-- LOSSY ROLLBACK: cannot rebuild column '' @ tick (table @ ''.'' @ column) @ '' from the diff.'' @ nl
        @ ''-- The migration emitter has no original '' @ tick ''ColumnSchema'' @ '' for the dropped'' @ nl
        @ ''-- column; rollback must be hand-written if needed.'',
      os_lossy = Some \<lparr>lw_kind = LrDropColumn,
        lw_detail = ''column '' @ tick (table @ ''.'' @ column) @ '' dropped '' @ em_dash
          @ '' original type and row data not recoverable from the diff''\<rparr>\<rparr>"

definition emit_rename_column :: "string \<Rightarrow> string \<Rightarrow> string \<Rightarrow> OperationSql" where
  "emit_rename_column table from to =
     \<lparr>os_label = ''RenameColumn '' @ table @ ''.'' @ from @ '' -> '' @ to,
      os_up = ''ALTER TABLE '' @ quote_ident table @ '' RENAME COLUMN '' @ quote_ident from
        @ '' TO '' @ quote_ident to @ '';'',
      os_down = ''ALTER TABLE '' @ quote_ident table @ '' RENAME COLUMN '' @ quote_ident to
        @ '' TO '' @ quote_ident from @ '';'',
      os_lossy = None\<rparr>"

text \<open>The advisory test for pairs of types without an implicit cast.\<close>

definition lower_ascii :: "string \<Rightarrow> string" where
  "lower_ascii s =
     concat (map (\<lambda>b. if 65 \<le> byte b \<and> byte b \<le> 90 then [char_of (byte b + 32)] else as_char b) s)"

definition base_name :: "string \<Rightarrow> string" where
  "base_name s = trim_end (takeWhile (\<lambda>c. c \<noteq> CHR ''('') s)"

definition starts_with :: "string \<Rightarrow> string \<Rightarrow> bool" where
  "starts_with p s \<longleftrightarrow> strip_prefix p s \<noteq> None"

definition is_text_type :: "string \<Rightarrow> bool" where
  "is_text_type b \<longleftrightarrow>
     b = ''text'' \<or> b = ''citext'' \<or> starts_with ''varchar'' b \<or> starts_with ''character varying'' b
     \<or> starts_with ''character'' b \<or> starts_with ''char'' b"

definition is_integer_type :: "string \<Rightarrow> bool" where
  "is_integer_type b \<longleftrightarrow>
     b \<in> set [''smallint'', ''int2'', ''integer'', ''int4'', ''int'', ''bigint'', ''int8'']"

definition is_uuid_type :: "string \<Rightarrow> bool" where
  "is_uuid_type b \<longleftrightarrow> b = ''uuid''"

definition type_change_likely_requires_using :: "string \<Rightarrow> string \<Rightarrow> bool" where
  "type_change_likely_requires_using from to =
     (let f = base_name (lower_ascii from); t = base_name (lower_ascii to)
      in if is_text_type f \<and> is_uuid_type t \<or> is_uuid_type f \<and> is_text_type t then True
      else if is_text_type f \<and> is_integer_type t \<or> is_integer_type f \<and> is_text_type t then True
      else if is_uuid_type f \<and> is_integer_type t \<or> is_integer_type f \<and> is_uuid_type t then True
      else False)"

definition cast_warning :: "string \<Rightarrow> string \<Rightarrow> string \<Rightarrow> string \<Rightarrow> string" where
  "cast_warning table column from to =
     ''-- WARNING: '' @ tick (table @ ''.'' @ column) @ '' '' @ tick from @ '' -> '' @ tick to
       @ '' is a known incompatible cast pair.'' @ nl
     @ ''-- The framework emits '' @ tick ''USING <col>::<new_type>'' @ '' (the explicit cast) ''
       @ em_dash @ '' every row's'' @ nl
     @ ''-- value must parse as a syntactically valid '' @ tick to @ '' literal under ''
       @ tick (from @ ''::'' @ to) @ '' or'' @ nl
     @ ''-- the apply will fail with '' @ tick (''invalid input syntax for type '' @ to)
       @ '' (or similar). Add'' @ nl
     @ ''-- '' @ tick (''#[field(type_change_using = '' @ [dq] @ ''<sql expr>'' @ [dq] @ '')]'')
       @ '' to the field on the model struct'' @ nl
     @ ''-- and re-compose to inline a custom '' @ tick ''USING''
       @ '' clause that handles edge cases (TRIM,'' @ nl
     @ ''-- CASE WHEN, validation). The adopter owns the expression's correctness against'' @ nl
     @ ''-- the column's old and new types. See '' @ tick ''docs/guide/models.md'' @ '' ''
       @ tick ''#[field(...)]'' @ nl
     @ ''-- reference and djogi#220 for details.'' @ nl"

text \<open>
  Each branch of \<open>emit_alter_column\<close>: forward SQL, rollback SQL, label suffix and warning.
\<close>

definition alter_col :: "string \<Rightarrow> string \<Rightarrow> string \<Rightarrow> string" where
  "alter_col table column action =
     ''ALTER TABLE '' @ quote_ident table @ '' ALTER COLUMN '' @ quote_ident column @ '' '' @ action @ '';''"

definition drop_constraint :: "string \<Rightarrow> string \<Rightarrow> string" where
  "drop_constraint table name =
     ''ALTER TABLE '' @ quote_ident table @ '' DROP CONSTRAINT '' @ quote_ident name @ '';''"

definition add_constraint :: "string \<Rightarrow> string \<Rightarrow> string \<Rightarrow> string" where
  "add_constraint table name body =
     ''ALTER TABLE '' @ quote_ident table @ '' ADD CONSTRAINT '' @ quote_ident name @ '' '' @ body @ '';''"

type_synonym alter_parts = "string \<times> string \<times> string \<times> LossyRollbackWarning option"

definition alter_default :: "string \<Rightarrow> string \<Rightarrow> string option \<Rightarrow> alter_parts" where
  "alter_default table column dflt =
     (let note = ''-- NOTE: prior DEFAULT for '' @ tick (table @ ''.'' @ column)
            @ '' not recoverable from the diff.'' @ nl
      in case dflt of
        Some expr \<Rightarrow>
          (alter_col table column (''SET DEFAULT '' @ expr),
           note @ alter_col table column ''DROP DEFAULT'', ''set DEFAULT'', None)
      | None \<Rightarrow>
          (alter_col table column ''DROP DEFAULT'',
           note @ ''-- Rollback would need the original DEFAULT expression.'', ''drop DEFAULT'', None))"

definition alter_type :: "string \<Rightarrow> string \<Rightarrow> string \<Rightarrow> string \<Rightarrow> string option \<Rightarrow> alter_parts" where
  "alter_type table column from to using_expr =
     ((if using_expr = None \<and> type_change_likely_requires_using from to
       then cast_warning table column from to else [])
      @ (case using_expr of
           Some expr \<Rightarrow> alter_col table column (''TYPE '' @ to @ '' USING ('' @ expr @ '')'')
         | None \<Rightarrow> alter_col table column (''TYPE '' @ to @ '' USING '' @ quote_ident column @ ''::'' @ to)),
      alter_col table column (''TYPE '' @ from @ '' USING '' @ quote_ident column @ ''::'' @ from),
      ''change TYPE'',
      map_option (\<lambda>expr. \<lparr>lw_kind = LrCustomCast,
        lw_detail = ''column '' @ tick (table @ ''.'' @ column) @ '': forward '' @ tick (''USING ('' @ expr @ '')'')
          @ '' is adopter-supplied; rollback emits the default '' @ tick (''<col>::'' @ from)
          @ '' cast and may not reconstruct original row data. Hand-edit the emitted down SQL if a ''
          @ ''non-default inverse is required.''\<rparr>) using_expr)"

definition alter_check :: "build \<Rightarrow> string \<Rightarrow> string \<Rightarrow> string option \<Rightarrow> string option \<Rightarrow> alter_parts" where
  "alter_check build table column from to =
     (let name = check_constraint_name build table column;
          dropped = drop_constraint table name;
          added = (\<lambda>expr. add_constraint table name (''CHECK ('' @ expr @ '')''))
      in case (from, to) of
        (Some prior, None) \<Rightarrow> (dropped, added prior, ''drop CHECK'', None)
      | (None, Some expr) \<Rightarrow> (added expr, dropped, ''set CHECK'', None)
      | (Some prior, Some expr) \<Rightarrow>
          (dropped @ nl @ added expr, dropped @ nl @ added prior, ''amend CHECK'', None)
      | (None, None) \<Rightarrow>
          (''-- noop SetCheck on '' @ tick (table @ ''.'' @ column)
             @ '' (from == to == None); likely a differ bug.'' @ nl,
           ''-- noop SetCheck rollback on '' @ tick (table @ ''.'' @ column) @ ''.'' @ nl,
           ''noop CHECK'', None))"

definition alter_unique :: "build \<Rightarrow> string \<Rightarrow> string \<Rightarrow> bool \<Rightarrow> alter_parts" where
  "alter_unique build table column new_unique =
     (let name = unique_constraint_name build table column;
          added = add_constraint table name (''UNIQUE ('' @ quote_ident column @ '')'');
          dropped = drop_constraint table name
      in if new_unique then (added, dropped, ''set UNIQUE'', None)
         else (dropped, added, ''drop UNIQUE'', None))"

definition alter_indexed :: "build \<Rightarrow> string \<Rightarrow> string \<Rightarrow> bool \<Rightarrow> alter_parts" where
  "alter_indexed build table column now_indexed =
     (let name = index_name build table NameNonUnique (NameColumns [column]);
          created = ''CREATE INDEX '' @ quote_ident name @ '' ON '' @ quote_ident table
            @ '' ('' @ quote_ident column @ '');'';
          dropped = ''DROP INDEX '' @ quote_ident name @ '';''
      in if now_indexed then (created, dropped, ''set indexed'', None)
         else (dropped, created, ''drop indexed'', None))"

definition alter_generated ::
  "build \<Rightarrow> string \<Rightarrow> string \<Rightarrow> GeneratedColumnSchema option \<Rightarrow> GeneratedColumnSchema option \<Rightarrow> alter_parts option" where
  "alter_generated build table column from to =
     (case (from, to) of
        (None, Some spec) \<Rightarrow> Some
          (''-- OfflineOnly: adding a stored generated expression to existing column'' @ nl
             @ ''-- '' @ tick (table @ ''.'' @ column) @ '' has no online ALTER form in Postgres 18. Hand-edit'' @ nl
             @ ''-- the migration to '' @ tick (''DROP COLUMN '' @ column) @ '' + ''
             @ tick (''ADD COLUMN '' @ column @ '' <type> GENERATED ALWAYS AS ('' @ g_expression spec @ '') STORED'')
             @ ''.'' @ nl
             @ ''-- See '' @ tick ''docs/spec/decisions.md'' @ '' and the '' @ tick ''generated_column_refusal'' @ nl
             @ ''-- pattern in '' @ tick ''djogi/src/live_migrate/patterns/'' @ ''.'',
           ''-- OfflineOnly: revert of adding generation requires dropping the'' @ nl
             @ ''-- generated column entirely ('' @ tick (''DROP COLUMN '' @ column) @ ''); hand-edit'' @ nl
             @ ''-- the migration before applying.'',
           ''add GENERATED expression'', None)
      | (Some prev, None) \<Rightarrow> Some
          (alter_col table column ''DROP EXPRESSION'',
           ''-- LOSSY ROLLBACK: cannot re-add the generation expression in place'' @ nl
             @ ''-- on '' @ tick (table @ ''.'' @ column) @ '' '' @ em_dash @ '' ''
             @ tick ''ALTER COLUMN ... SET EXPRESSION AS'' @ '' requires'' @ nl
             @ ''-- the column to already be a generated column. Restoring requires a'' @ nl
             @ ''-- '' @ tick (''DROP COLUMN '' @ column) @ '' + '' @ [CHR 0x60] @ ''ADD COLUMN '' @ column
             @ '' <type> GENERATED ALWAYS'' @ nl
             @ ''-- AS ('' @ g_expression prev @ '') STORED'' @ [CHR 0x60]
             @ '' pair, which destroys the post-DROP-EXPRESSION'' @ nl
             @ ''-- row data. Hand-edit before applying.'',
           ''drop GENERATED expression'',
           Some \<lparr>lw_kind = LrDropColumn,
             lw_detail = ''column '' @ tick (table @ ''.'' @ column) @ '': rollback of '' @ tick ''DROP EXPRESSION''
               @ '' cannot re-install the generated expression in place; ''
               @ ''restoring requires DROP COLUMN + ADD COLUMN''\<rparr>)
      | (Some prev, Some nxt) \<Rightarrow>
          if debug_assertions build \<and> g_expression prev = g_expression nxt then None else Some
          (''-- djogi#221: in-place stored generated expression change on PG 17+'' @ nl
             @ ''-- (djogi targets PG 18+). The runner rewrites every row under'' @ nl
             @ ''-- AccessExclusiveLock '' @ em_dash @ '' classified OfflineOnly even though the'' @ nl
             @ ''-- statement is structurally a single ALTER COLUMN.'' @ nl
             @ alter_col table column (''SET EXPRESSION AS ('' @ g_expression nxt @ '')''),
           alter_col table column (''SET EXPRESSION AS ('' @ g_expression prev @ '')''),
           ''change GENERATED expression'', None)
      | (None, None) \<Rightarrow> None)"

definition add_identity :: "string \<Rightarrow> string \<Rightarrow> IdentityKindSchema \<Rightarrow> string" where
  "add_identity table column kind =
     alter_col table column (''ADD '' @ sql_clause kind) @ nl
     @ ''SELECT setval(pg_get_serial_sequence('' @ [sq] @ table @ [sq] @ '', '' @ [sq] @ column @ [sq]
     @ ''), GREATEST(COALESCE((SELECT MAX('' @ quote_ident column @ '') FROM '' @ quote_ident table
     @ ''), 0), 0) + 1, false);''"

text \<open>\<open>strip_prefix("GENERATED ").and_then(|s| s.split(" AS ").next()).unwrap_or(clause)\<close>\<close>

fun before_first :: "string \<Rightarrow> string \<Rightarrow> string" where
  "before_first p [] = []"
| "before_first p (c # cs) = (if starts_with p (c # cs) then [] else c # before_first p cs)"

definition identity_kind_only :: "IdentityKindSchema \<Rightarrow> string" where
  "identity_kind_only kind =
     (case strip_prefix ''GENERATED '' (sql_clause kind) of
        None \<Rightarrow> sql_clause kind
      | Some s \<Rightarrow> before_first '' AS '' s)"

definition alter_identity ::
  "string \<Rightarrow> string \<Rightarrow> IdentityKindSchema option \<Rightarrow> IdentityKindSchema option \<Rightarrow> alter_parts option" where
  "alter_identity table column from to =
     (case (from, to) of
        (None, Some kind) \<Rightarrow>
          Some (add_identity table column kind, alter_col table column ''DROP IDENTITY'', ''add IDENTITY'', None)
      | (Some prev, None) \<Rightarrow>
          Some (alter_col table column ''DROP IDENTITY'', add_identity table column prev, ''drop IDENTITY'', None)
      | (Some prev, Some nxt) \<Rightarrow>
          Some (alter_col table column (''SET GENERATED '' @ identity_kind_only nxt),
                alter_col table column (''SET GENERATED '' @ identity_kind_only prev), ''kind IDENTITY'', None)
      | (None, None) \<Rightarrow> None)"

definition alter_codec :: "string \<Rightarrow> string \<Rightarrow> string option \<Rightarrow> string option \<Rightarrow> alter_parts" where
  "alter_codec table column from to =
     (let from_desc = (case from of Some c \<Rightarrow> c | None \<Rightarrow> ''plaintext'');
          to_desc = (case to of Some c \<Rightarrow> c | None \<Rightarrow> ''plaintext'')
      in (''-- MANUAL STEP: column '' @ tick (table @ ''.'' @ column) @ '' codec changed '' @ tick from_desc
            @ '' -> '' @ tick to_desc @ ''. Re-encode every row out of band (read, re-encrypt under ''
            @ ''the new codec, write back). The framework emits no automatic backfill '' @ em_dash
            @ '' online codec rotation is not yet supported (issue #371). Apply via an operator-run ''
            @ ''offline migration.'',
          ''-- MANUAL STEP: reverting column '' @ tick (table @ ''.'' @ column) @ '' codec '' @ tick to_desc
            @ '' -> '' @ tick from_desc @ '' requires the same out-of-band re-encode in reverse. ''
            @ ''No automatic rollback is emitted.'',
          ''codec change (manual re-encode)'', None))"

fun alter_parts_of :: "build \<Rightarrow> string \<Rightarrow> string \<Rightarrow> ColumnChange \<Rightarrow> alter_parts option" where
  "alter_parts_of build table column (SetNullable now_nullable) =
     (let dropped = alter_col table column ''DROP NOT NULL''; added = alter_col table column ''SET NOT NULL''
      in if now_nullable then Some (dropped, added, ''drop NOT NULL'', None)
         else Some (added, dropped, ''set NOT NULL'', None))"
| "alter_parts_of build table column (SetDefault dflt) = Some (alter_default table column dflt)"
| "alter_parts_of build table column (ChangeType from to using_expr) =
     Some (alter_type table column from to using_expr)"
| "alter_parts_of build table column (SetCheck from to) = Some (alter_check build table column from to)"
| "alter_parts_of build table column (SetUnique new_unique) = Some (alter_unique build table column new_unique)"
| "alter_parts_of build table column (SetIndexed now_indexed) =
     Some (alter_indexed build table column now_indexed)"
| "alter_parts_of build table column (SetGenerated from to) = alter_generated build table column from to"
| "alter_parts_of build table column (SetIdentity from to) = alter_identity table column from to"
| "alter_parts_of build table column (SetComment from to) =
     Some (render_comment_on_column table column to, render_comment_on_column table column from,
           ''set COMMENT'', None)"
| "alter_parts_of build table column (CodecChange from to) = Some (alter_codec table column from to)"

definition emit_alter_column_sql ::
  "build \<Rightarrow> string \<Rightarrow> string \<Rightarrow> ColumnChange \<Rightarrow> OperationSql option" where
  "emit_alter_column_sql build table column change =
     map_option (\<lambda>(up, down, label_suffix, lossy).
         \<lparr>os_label = ''AlterColumn '' @ table @ ''.'' @ column @ '' ('' @ label_suffix @ '')'',
          os_up = up, os_down = down, os_lossy = lossy\<rparr>)
       (alter_parts_of build table column change)"

section \<open>Constraints and indexes\<close>

definition emit_add_foreign_key ::
  "build \<Rightarrow> string \<Rightarrow> string \<Rightarrow> ForeignKeySchema \<Rightarrow> OperationSql" where
  "emit_add_foreign_key build table column fk =
     \<lparr>os_label = ''AddForeignKey '' @ table @ ''.'' @ column,
      os_up = render_add_fk build table column fk,
      os_down = drop_constraint table (fk_constraint_name build table column), os_lossy = None\<rparr>"

definition emit_drop_foreign_key ::
  "build \<Rightarrow> string \<Rightarrow> string \<Rightarrow> ForeignKeySchema \<Rightarrow> OperationSql" where
  "emit_drop_foreign_key build table column fk =
     \<lparr>os_label = ''DropForeignKey '' @ table @ ''.'' @ column,
      os_up = drop_constraint table (fk_constraint_name build table column),
      os_down = render_add_fk build table column fk, os_lossy = None\<rparr>"

definition index_column_sql :: "IndexColumnSchema \<Rightarrow> string" where
  "index_column_sql c =
     quote_ident (ic_name c)
     @ (case ic_opclass c of Some opclass \<Rightarrow> '' '' @ opclass | None \<Rightarrow> [])
     @ (case ic_order c of Asc \<Rightarrow> [] | Desc \<Rightarrow> '' DESC'')
     @ (case ic_nulls c of NullsDefault \<Rightarrow> [] | NullsFirst \<Rightarrow> '' NULLS FIRST'' | NullsLast \<Rightarrow> '' NULLS LAST'')"

definition index_target_sql :: "IndexTargetSchema \<Rightarrow> string" where
  "index_target_sql target =
     (case target of
        Columns cols \<Rightarrow> ''('' @ join_str '', '' (map index_column_sql cols) @ '')''
      | Expression expr \<Rightarrow> ''(('' @ expr @ ''))'')"

definition constraint_column_list :: "IndexTargetSchema \<Rightarrow> string" where
  "constraint_column_list target =
     (case target of
        Columns cols \<Rightarrow> ''('' @ join_str '', '' (map (\<lambda>c. quote_ident (ic_name c)) cols) @ '')''
      | Expression expr \<Rightarrow>
          ''(/* expression cannot appear in UNIQUE table constraint; use ''
          @ tick ''CREATE UNIQUE INDEX'' @ '' form instead (got: '' @ expr @ '') */)'')"

definition emit_add_index :: "IndexSchema \<Rightarrow> OperationSql option" where
  "emit_add_index idx =
     (if i_kind idx = UniqueConstraint
      then Some \<lparr>os_label = ''AddConstraintUnique '' @ i_name idx,
             os_up = add_constraint (i_table idx) (i_name idx)
               (''UNIQUE '' @ constraint_column_list (i_target idx)),
             os_down = drop_constraint (i_table idx) (i_name idx), os_lossy = None\<rparr>
      else if i_kind idx = UniqueIndex \<and> i_index_type idx \<noteq> BTree then None
      else let concurrently = (if i_requires_out_of_transaction idx then '' CONCURRENTLY'' else [])
        in Some \<lparr>os_label = ''AddIndex '' @ i_name idx,
             os_up =
               (if i_kind idx = NonUnique then ''CREATE INDEX'' else ''CREATE UNIQUE INDEX'')
               @ concurrently @ '' '' @ quote_ident (i_name idx) @ '' ON '' @ quote_ident (i_table idx)
               @ '' USING '' @ index_method (i_index_type idx) @ '' '' @ index_target_sql (i_target idx)
               @ (if i_include idx = [] then []
                  else '' INCLUDE ('' @ join_str '', '' (map quote_ident (i_include idx)) @ '')'')
               @ (if i_nulls_not_distinct idx then '' NULLS NOT DISTINCT'' else [])
               @ (case i_predicate idx of Some pred \<Rightarrow> '' WHERE '' @ pred | None \<Rightarrow> []) @ '';'',
             os_down = ''DROP INDEX'' @ concurrently @ '' '' @ quote_ident (i_name idx) @ '';'',
             os_lossy = None\<rparr>)"

definition emit_drop_index :: "IndexSchema \<Rightarrow> OperationSql option" where
  "emit_drop_index idx =
     map_option (\<lambda>add.
       if i_kind idx = UniqueConstraint
       then \<lparr>os_label = ''DropConstraintUnique '' @ i_name idx,
             os_up = drop_constraint (i_table idx) (i_name idx), os_down = os_up add,
             os_lossy = Some \<lparr>lw_kind = LrDropIndex,
               lw_detail = ''UNIQUE constraint '' @ tick (i_name idx) @ '' dropped '' @ em_dash
                 @ '' rollback recreates the constraint, which requires a full table scan to ''
                 @ ''validate uniqueness''\<rparr>\<rparr>
       else \<lparr>os_label = ''DropIndex '' @ i_name idx,
             os_up = ''DROP INDEX'' @ (if i_requires_out_of_transaction idx then '' CONCURRENTLY'' else [])
               @ '' '' @ quote_ident (i_name idx) @ '';'',
             os_down = os_up add,
             os_lossy = Some \<lparr>lw_kind = LrDropIndex,
               lw_detail = ''index '' @ tick (i_name idx) @ '' dropped '' @ em_dash
                 @ '' rollback rebuilds the index, which may take significant time on large tables''\<rparr>\<rparr>)
     (emit_add_index idx)"

definition emit_add_exclusion_constraint :: "string \<Rightarrow> ExclusionConstraintSchema \<Rightarrow> OperationSql" where
  "emit_add_exclusion_constraint table x =
     \<lparr>os_label = ''AddExclusionConstraint '' @ table @ ''.'' @ x_name x,
      os_up = add_constraint table (x_name x) (render_exclusion_body x),
      os_down = drop_constraint table (x_name x), os_lossy = None\<rparr>"

definition emit_drop_exclusion_constraint ::
  "string \<Rightarrow> string \<Rightarrow> ExclusionConstraintSchema \<Rightarrow> OperationSql" where
  "emit_drop_exclusion_constraint table name x =
     \<lparr>os_label = ''DropExclusionConstraint '' @ table @ ''.'' @ name,
      os_up = drop_constraint table name,
      os_down = add_constraint table name (render_exclusion_body x), os_lossy = None\<rparr>"

section \<open>Enums, apps, table metadata\<close>

definition emit_add_enum :: "EnumSchema \<Rightarrow> OperationSql" where
  "emit_add_enum e =
     \<lparr>os_label = ''AddEnum '' @ e_name e,
      os_up = ''CREATE TYPE '' @ quote_ident (e_name e) @ '' AS ENUM (''
        @ join_str '', '' (map quote_string_literal (e_variants e)) @ '');'',
      os_down = ''DROP TYPE '' @ quote_ident (e_name e) @ '';'', os_lossy = None\<rparr>"

definition emit_drop_enum :: "string \<Rightarrow> OperationSql" where
  "emit_drop_enum name =
     \<lparr>os_label = ''DropEnum '' @ name, os_up = ''DROP TYPE '' @ quote_ident name @ '';'',
      os_down =
        ''-- LOSSY ROLLBACK: cannot reconstruct enum '' @ tick name @ '' from the diff.'' @ nl
        @ ''-- The original variant list is not present in DropEnum's payload.'' @ nl
        @ ''-- Rollback must be hand-written if needed.'',
      os_lossy = Some \<lparr>lw_kind = LrDropEnum,
        lw_detail = ''enum '' @ tick name @ '' dropped '' @ em_dash
          @ '' variant list not recoverable from the diff''\<rparr>\<rparr>"

definition emit_add_enum_variant :: "string \<Rightarrow> string \<Rightarrow> EnumVariantAnchor option \<Rightarrow> OperationSql" where
  "emit_add_enum_variant enum_name v anchor =
     \<lparr>os_label = ''AddEnumVariant '' @ enum_name @ '':'' @ v,
      os_up = ''ALTER TYPE '' @ quote_ident enum_name @ '' ADD VALUE '' @ quote_string_literal v
        @ (case anchor of
             None \<Rightarrow> []
           | Some a \<Rightarrow> (case a_kind a of Before \<Rightarrow> '' BEFORE '' | After \<Rightarrow> '' AFTER '')
               @ quote_string_literal (a_variant a)) @ '';'',
      os_down =
        ''-- LOSSY ROLLBACK: Postgres has no '' @ tick ''ALTER TYPE ... DROP VALUE'' @ ''.'' @ nl
        @ ''-- Rolling back the addition of '' @ tick v @ '' to enum '' @ tick enum_name @ nl
        @ ''-- requires rebuilding the type. Hand-write the rollback if needed.'',
      os_lossy = Some \<lparr>lw_kind = LrDropEnum,
        lw_detail = ''enum variant '' @ tick (enum_name @ '':'' @ v) @ '' added '' @ em_dash
          @ '' Postgres has no native '' @ tick ''DROP VALUE'' @ ''; rollback requires a type rebuild''\<rparr>\<rparr>"

definition emit_rename_app :: "string \<Rightarrow> string \<Rightarrow> OperationSql" where
  "emit_rename_app from to =
     \<lparr>os_label = ''RenameApp '' @ from @ '' -> '' @ to,
      os_up =
        ''-- METADATA-ONLY: rename app '' @ tick from @ '' to '' @ tick to @ ''.'' @ nl
        @ ''-- Folder rename + djogi_schema_migrations.app_label UPDATE happen'' @ nl
        @ ''-- outside the standard SQL emitter (handled by compose / runner).'',
      os_down =
        ''-- METADATA-ONLY: reverse rename '' @ tick to @ '' -> '' @ tick from @ ''.'' @ nl
        @ ''-- Folder rename + djogi_schema_migrations.app_label UPDATE happen'' @ nl
        @ ''-- outside the standard SQL emitter.'',
      os_lossy = None\<rparr>"

definition emit_move_model_between_apps :: "string \<Rightarrow> string \<Rightarrow> string \<Rightarrow> OperationSql" where
  "emit_move_model_between_apps model from_app to_app =
     \<lparr>os_label = ''MoveModelBetweenApps '' @ model @ '' ('' @ from_app @ '' -> '' @ to_app @ '')'',
      os_up =
        ''-- METADATA-ONLY: move model '' @ tick model @ '' from app '' @ tick from_app @ '' to app ''
        @ tick to_app @ ''.'' @ nl
        @ ''-- Folder move + djogi_schema_migrations.app_label UPDATE happen outside'' @ nl
        @ ''-- the standard SQL emitter (handled by compose / runner).'',
      os_down =
        ''-- METADATA-ONLY: reverse move '' @ tick model @ '' from '' @ tick to_app @ '' back to ''
        @ tick from_app @ ''.'' @ nl
        @ ''-- Folder move + djogi_schema_migrations.app_label UPDATE happen outside'' @ nl
        @ ''-- the standard SQL emitter.'',
      os_lossy = None\<rparr>"

definition emit_set_table_comment :: "string \<Rightarrow> string option \<Rightarrow> string option \<Rightarrow> OperationSql" where
  "emit_set_table_comment table from to =
     \<lparr>os_label = ''SetTableComment '' @ table, os_up = render_comment_on_table table to,
      os_down = render_comment_on_table table from, os_lossy = None\<rparr>"

definition storage_change :: "string \<Rightarrow> string option \<Rightarrow> string option \<Rightarrow> SqlEmitError + string" where
  "storage_change table reset_params set_params =
     (case (case reset_params of None \<Rightarrow> Inr [] | Some params \<Rightarrow> render_reset_storage_params table params) of
        Inl e \<Rightarrow> Inl e
      | Inr out \<Rightarrow>
          (case (case set_params of
                   None \<Rightarrow> Inr out
                 | Some params \<Rightarrow>
                     (case render_set_storage_params table params of
                        Inl e \<Rightarrow> Inl e
                      | Inr s \<Rightarrow> Inr (out @ (if out = [] then [] else nl) @ s))) of
             Inl e \<Rightarrow> Inl e
           | Inr out \<Rightarrow>
               Inr (if out = [] then ''-- no-op storage parameter change for '' @ quote_ident table else out)))"

definition emit_set_storage_params ::
  "string \<Rightarrow> string option \<Rightarrow> string option \<Rightarrow> SqlEmitError + OperationSql" where
  "emit_set_storage_params table from to =
     (case storage_change table from to of
        Inl e \<Rightarrow> Inl e
      | Inr up \<Rightarrow>
          (case storage_change table to from of
             Inl e \<Rightarrow> Inl e
           | Inr down \<Rightarrow>
               Inr \<lparr>os_label = ''SetStorageParams '' @ table, os_up = up, os_down = down, os_lossy = None\<rparr>))"

definition emit_set_tablespace :: "string \<Rightarrow> string option \<Rightarrow> string option \<Rightarrow> OperationSql" where
  "emit_set_tablespace table from to =
     \<lparr>os_label = ''SetTablespace '' @ table, os_up = render_set_tablespace table to,
      os_down = render_set_tablespace table from, os_lossy = None\<rparr>"

section \<open>Primary-key flip summaries\<close>

definition flip_summary :: "PkTypeFlipGroup \<Rightarrow> OperationSql" where
  "flip_summary g =
     \<lparr>os_label = ''PkTypeFlipGroup '' @ pg_parent_table g,
      os_up =
        ''-- PkTypeFlipGroup parent='' @ pg_parent_table g @ '' '' @ debug_pk_kind (pg_parent_from g)
          @ '' -> '' @ debug_pk_kind (pg_parent_to g) @ nl
        @ ''-- children='' @ show_nat (length (pg_children g)) @ '', self_fk=''
          @ show_bool (pg_self_fk g \<noteq> None) @ '', join_tables='' @ show_nat (length (pg_join_tables g))
          @ '','' @ nl
        @ ''-- cycles='' @ show_nat (length (pg_cycles g)) @ '', partitioned=''
          @ show_bool (pg_partitioned_parent g \<noteq> None) @ ''.'' @ nl
        @ ''-- See the segment plan for the executable SQL (preparation,'' @ nl
        @ ''-- backfill, concurrent index, NOT NULL proof, cutover).'',
      os_down =
        ''-- PkTypeFlipGroup parent='' @ pg_parent_table g @ '' '' @ em_dash
          @ '' see cutover segment for the'' @ nl
        @ ''-- POINT OF NO RETURN marker; rollback requires an inverse'' @ nl @ ''-- migration.'',
      os_lossy = Some \<lparr>lw_kind = LrPkTypeFlipPostCutover,
        lw_detail = ''PkTypeFlipGroup '' @ tick (pg_parent_table g)
          @ '' cutover removes the prior PK column and trigger; rollback requires an inverse migration''\<rparr>\<rparr>"

definition flip_member_summary :: "PkTypeFlipGroup \<Rightarrow> string" where
  "flip_member_summary g =
     ''-- member parent='' @ pg_parent_table g @ '' '' @ debug_pk_kind (pg_parent_from g)
       @ '' -> '' @ debug_pk_kind (pg_parent_to g) @ '' children='' @ show_nat (length (pg_children g))
       @ '','' @ nl
     @ ''--        self_fk='' @ show_bool (pg_self_fk g \<noteq> None) @ '', join_tables=''
       @ show_nat (length (pg_join_tables g)) @ '', cycles='' @ show_nat (length (pg_cycles g)) @ '','' @ nl
     @ ''--        partitioned='' @ show_bool (pg_partitioned_parent g \<noteq> None) @ ''.'' @ nl"

definition flip_multi_summary :: "PkTypeFlipGroup list \<Rightarrow> OperationSql" where
  "flip_multi_summary groups =
     (let names = join_str '','' (map pg_parent_table groups)
      in \<lparr>os_label = ''PkTypeFlipMultiGroup '' @ names,
          os_up =
            ''-- PkTypeFlipMultiGroup parents='' @ show_nat (length groups) @ nl
            @ ''-- See the stage-interleaved segment plan for the executable SQL'' @ nl
            @ ''-- (one prep / backfill / index / FK / NOT NULL / cutover'' @ nl
            @ ''-- segment touching every cluster member at each stage, per'' @ nl
            @ ''-- HeeRanjID asc-to-desc playbook '' @ section_sign @ ''7).'' @ nl
            @ concat (map flip_member_summary groups),
          os_down =
            ''-- PkTypeFlipMultiGroup ['' @ names @ ''] '' @ em_dash @ '' see cutover segment for the'' @ nl
            @ ''-- POINT OF NO RETURN marker; rollback requires an inverse'' @ nl @ ''-- migration.'',
          os_lossy = Some \<lparr>lw_kind = LrPkTypeFlipPostCutover,
            lw_detail = ''PkTypeFlipMultiGroup ['' @ names @ ''] cutover removes prior PK columns and ''
              @ ''triggers across every cluster member; rollback requires an inverse migration''\<rparr>\<rparr>)"

section \<open>One operation\<close>

fun lower_operation ::
  "build \<Rightarrow> SchemaOperation \<Rightarrow> (SqlEmitError + OperationSql) option" where
  "lower_operation build (AddTable t) = Some (emit_add_table build t)"
| "lower_operation build (DropTable name) = Some (Inr (emit_drop_table name))"
| "lower_operation build (RenameTable from to) = Some (Inr (emit_rename_table from to))"
| "lower_operation build (AddColumn table column) = Some (Inr (emit_add_column build table column))"
| "lower_operation build (DropColumn table column) = Some (Inr (emit_drop_column table column))"
| "lower_operation build (RenameColumn table from to) = Some (Inr (emit_rename_column table from to))"
| "lower_operation build (AlterColumn table column change) =
     map_option Inr (emit_alter_column_sql build table column change)"
| "lower_operation build (AddForeignKey table column fk) =
     Some (Inr (emit_add_foreign_key build table column fk))"
| "lower_operation build (DropForeignKey table column fk) =
     Some (Inr (emit_drop_foreign_key build table column fk))"
| "lower_operation build (AddIndex idx) = map_option Inr (emit_add_index idx)"
| "lower_operation build (DropIndex idx) = map_option Inr (emit_drop_index idx)"
| "lower_operation build (AddExclusionConstraint table x) =
     Some (Inr (emit_add_exclusion_constraint table x))"
| "lower_operation build (DropExclusionConstraint table name x) =
     Some (Inr (emit_drop_exclusion_constraint table name x))"
| "lower_operation build (AddEnum e) = Some (Inr (emit_add_enum e))"
| "lower_operation build (DropEnum name) = Some (Inr (emit_drop_enum name))"
| "lower_operation build (AddEnumVariant enum_name v anchor) =
     Some (Inr (emit_add_enum_variant enum_name v anchor))"
| "lower_operation build (SetTableComment table from to) =
     Some (Inr (emit_set_table_comment table from to))"
| "lower_operation build (SetStorageParams table from to) =
     Some (emit_set_storage_params table from to)"
| "lower_operation build (SetTablespace table from to) = Some (Inr (emit_set_tablespace table from to))"
| "lower_operation build (PkTypeFlip table from to) = Some (Inl (PkTypeFlipMustRouteToT9 table from to))"
| "lower_operation build (PkTypeFlipGroup g) = Some (Inr (flip_summary g))"
| "lower_operation build (PkTypeFlipMultiGroup gs) = Some (Inr (flip_multi_summary gs))"
| "lower_operation build (RenameApp from to) = Some (Inr (emit_rename_app from to))"
| "lower_operation build (MoveModelBetweenApps model from_app to_app) =
     Some (Inr (emit_move_model_between_apps model from_app to_app))"
| "lower_operation build (Unsupported reason) = Some (Inl (SeUnsupported reason))"

text \<open>\<open>lower_delta\<close>: the operations in the differ's order; \<^const>\<open>None\<close> is a panic.\<close>

fun lower_each ::
  "build \<Rightarrow> SchemaOperation list \<Rightarrow> (SqlEmitError + OperationSql list) option" where
  "lower_each build [] = Some (Inr [])"
| "lower_each build (op # ops) =
     (case lower_operation build op of
        None \<Rightarrow> None
      | Some (Inl e) \<Rightarrow> Some (Inl e)
      | Some (Inr sql) \<Rightarrow>
          (case lower_each build ops of
             None \<Rightarrow> None
           | Some (Inl e) \<Rightarrow> Some (Inl e)
           | Some (Inr rest) \<Rightarrow> Some (Inr (sql # rest))))"

definition lower_delta ::
  "build \<Rightarrow> SchemaDelta \<Rightarrow> (SqlEmitError + OperationSql list) option" where
  "lower_delta build delta =
     (if d_classification delta = NoOp then Some (Inr []) else lower_each build (d_operations delta))"

end
