(* ===== verification/Pk_Cluster.thy ===== *)
theory Pk_Cluster
  imports Diff_Types
begin

text \<open>
  Clusters of primary-key flips, \<open>djogi/src/migrate/diff.rs\<close>: a union-find over parent tables
  with an edge per join table shared by two flipping parents, the rejection of clusters with
  a partitioned parent, and the merge of each cluster into one multi-group. The union-find
  computes exactly the connected components; the merge keeps a shared join table only if the
  alphabetically first parent records it.
\<close>

section \<open>Union-find\<close>

definition rep_parent :: "(string, string) btree \<Rightarrow> string \<Rightarrow> string" where
  "rep_parent rep x = (case bt_get rep x of Some p \<Rightarrow> p | None \<Rightarrow> x)"

text \<open>
  \<open>find\<close> with path halving. The loop has no bound of its own: \<^const>\<open>None\<close> is not returning.
\<close>

partial_function (option) uf_find ::
  "(string, string) btree \<Rightarrow> string \<Rightarrow> (string \<times> (string, string) btree) option" where
  "uf_find rep cur =
     (let parent = rep_parent rep cur
      in if parent = cur then Some (cur, rep)
      else let grand = rep_parent rep parent
        in uf_find (bt_put cur grand rep) grand)"

definition uf_union ::
  "(string, string) btree \<Rightarrow> string \<times> string \<Rightarrow> (string, string) btree option" where
  "uf_union rep edge =
     (case uf_find rep (fst edge) of
        None \<Rightarrow> None
      | Some (ra, rep1) \<Rightarrow>
          (case uf_find rep1 (snd edge) of
             None \<Rightarrow> None
           | Some (rb, rep2) \<Rightarrow>
               if ra \<noteq> rb
               then if ra \<le> rb then Some (bt_put rb ra rep2) else Some (bt_put ra rb rep2)
               else Some rep2))"

fun uf_unions ::
  "(string \<times> string) list \<Rightarrow> (string, string) btree \<Rightarrow> (string, string) btree option" where
  "uf_unions [] rep = Some rep"
| "uf_unions (e # es) rep = (case uf_union rep e of None \<Rightarrow> None | Some rep' \<Rightarrow> uf_unions es rep')"

section \<open>Clusters\<close>

definition flip_groups :: "SchemaOperation list \<Rightarrow> PkTypeFlipGroup list" where
  "flip_groups ops =
     List.map_filter (\<lambda>op. case op of PkTypeFlipGroup g \<Rightarrow> Some g | _ \<Rightarrow> None) ops"

text \<open>
  The \<open>BTreeSet\<close> of edges: one per join table with a partner, its ends in order.
\<close>

definition group_edges :: "PkTypeFlipGroup \<Rightarrow> (string \<times> string) list" where
  "group_edges g =
     List.map_filter
       (\<lambda>jt. case jt_fk_to_partner_table jt of
               Some b \<Rightarrow> Some (if pg_parent_table g \<le> b then (pg_parent_table g, b)
                              else (b, pg_parent_table g))
             | None \<Rightarrow> None)
       (pg_join_tables g)"

text \<open>\<open>BTreeSet<(String, String)>\<close> iterates in lexicographic order of the pairs.\<close>

definition pair_keys :: "(string \<times> string) list \<Rightarrow> (string \<times> string) list" where
  "pair_keys es =
     concat (map (\<lambda>a. map (Pair a) (bs_collect (map snd (filter (\<lambda>e. fst e = a) es))))
              (bs_collect (map fst es)))"

definition peer_edges :: "PkTypeFlipGroup list \<Rightarrow> (string \<times> string) list" where
  "peer_edges groups = pair_keys (concat (map group_edges groups))"

definition initial_rep :: "PkTypeFlipGroup list \<Rightarrow> (string, string) btree" where
  "initial_rep groups = bt_collect (map (\<lambda>g. (pg_parent_table g, pg_parent_table g)) groups)"

fun collect_clusters ::
  "PkTypeFlipGroup list \<Rightarrow> (string, string) btree \<Rightarrow> (string, PkTypeFlipGroup list) btree \<Rightarrow>
   (string, PkTypeFlipGroup list) btree option" where
  "collect_clusters [] rep clusters = Some clusters"
| "collect_clusters (g # groups) rep clusters =
     (case uf_find rep (pg_parent_table g) of
        None \<Rightarrow> None
      | Some (root, rep') \<Rightarrow>
          collect_clusters groups rep'
            (bt_put root ((case bt_get clusters root of Some gs \<Rightarrow> gs | None \<Rightarrow> []) @ [g]) clusters))"

definition cluster_pk_flip_groups ::
  "SchemaOperation list \<Rightarrow> (string, PkTypeFlipGroup list) btree option" where
  "cluster_pk_flip_groups ops =
     (let groups = flip_groups ops; edges = peer_edges groups
      in if edges = [] then Some []
      else case uf_unions edges (initial_rep groups) of
        None \<Rightarrow> None
      | Some rep \<Rightarrow> collect_clusters groups rep [])"

section \<open>Partitioned clusters are rejected\<close>

text \<open>\<open>sort\<close> then \<open>dedup\<close>.\<close>

definition sort_dedup :: "string list \<Rightarrow> string list" where
  "sort_dedup xs = remdups_adj (sort xs)"

definition partitioned_multi_parent_cluster_error :: "PkTypeFlipGroup list \<Rightarrow> DiffError option" where
  "partitioned_multi_parent_cluster_error groups =
     (if length groups < 2 then None
      else let partitioned = map pg_parent_table
                               (filter (\<lambda>g. pg_partitioned_parent g \<noteq> None) groups)
        in if partitioned = [] then None
        else Some (PartitionedMultiParentClusterUnsupported (sort_dedup partitioned)
                     (sort_dedup (map pg_parent_table groups))))"

fun reject_clusters :: "(string \<times> PkTypeFlipGroup list) list \<Rightarrow> DiffError option" where
  "reject_clusters [] = None"
| "reject_clusters ((root, cluster0) # clusters) =
     (if length cluster0 < 2 then reject_clusters clusters
      else let cluster = sort_key pg_parent_table cluster0;
               member_set = bs_collect (map pg_parent_table cluster);
               has_internal_cross_flip =
                 list_ex (\<lambda>g. list_ex (\<lambda>jt. case jt_fk_to_partner_table jt of
                     Some partner \<Rightarrow> partner \<in> set member_set | None \<Rightarrow> False) (pg_join_tables g)) cluster
        in if \<not> has_internal_cross_flip then reject_clusters clusters
        else case partitioned_multi_parent_cluster_error cluster of
          Some err \<Rightarrow> Some err
        | None \<Rightarrow> reject_clusters clusters)"

text \<open>The outer option: \<^const>\<open>None\<close> when clustering does not return; then the error, if any.\<close>

definition reject_partitioned_multi_parent_clusters ::
  "SchemaOperation list \<Rightarrow> DiffError option option" where
  "reject_partitioned_multi_parent_clusters ops =
     map_option reject_clusters (cluster_pk_flip_groups ops)"

section \<open>Merging clusters into multi-groups\<close>

definition has_partner_column :: "PkFlipJoinTable \<Rightarrow> bool" where
  "has_partner_column jt \<longleftrightarrow> jt_fk_to_partner_column jt \<noteq> None"

definition cross_flipping_jt_names :: "PkTypeFlipGroup list \<Rightarrow> string list" where
  "cross_flipping_jt_names groups =
     bs_collect (concat (map (\<lambda>g. map jt_table (filter has_partner_column (pg_join_tables g))) groups))"

text \<open>
  The first member keeps its join tables, the others drop the cross-flipping ones. (The
  loop over \<open>winner_existing\<close> behind it has no effect.)
\<close>

definition winner_takes_all :: "PkTypeFlipGroup list \<Rightarrow> PkTypeFlipGroup list" where
  "winner_takes_all cluster_groups =
     (case cluster_groups of
        [] \<Rightarrow> []
      | winner # losers \<Rightarrow>
          winner # map (\<lambda>g. g\<lparr>pg_join_tables :=
              filter (\<lambda>jt. \<not> (has_partner_column jt
                            \<and> jt_table jt \<in> set (cross_flipping_jt_names cluster_groups)))
                (pg_join_tables g)\<rparr>) losers)"

definition is_member_group :: "string list \<Rightarrow> SchemaOperation \<Rightarrow> bool" where
  "is_member_group members op =
     (case op of PkTypeFlipGroup g \<Rightarrow> pg_parent_table g \<in> set members | _ \<Rightarrow> False)"

fun merge_clusters ::
  "(string \<times> string list) list \<Rightarrow> SchemaOperation list \<Rightarrow> PkTypeFlipGroup list list \<Rightarrow>
   DiffError + SchemaOperation list \<times> PkTypeFlipGroup list list" where
  "merge_clusters [] ops multi_groups = Inr (ops, multi_groups)"
| "merge_clusters ((root, members) # clusters) ops multi_groups =
     (if length members < 2 then merge_clusters clusters ops multi_groups
      else let mem_set = bs_collect members;
               extracted = filter (is_member_group mem_set) ops;
               kept = filter (\<lambda>op. \<not> is_member_group mem_set op) ops;
               cluster_groups = sort_key pg_parent_table (flip_groups extracted)
        in case partitioned_multi_parent_cluster_error cluster_groups of
          Some err \<Rightarrow> Inl err
        | None \<Rightarrow> merge_clusters clusters kept (multi_groups @ [winner_takes_all cluster_groups]))"

definition merge_cross_flipping_groups_into_multi ::
  "SchemaOperation list \<Rightarrow> (DiffError + SchemaOperation list) option" where
  "merge_cross_flipping_groups_into_multi ops =
     (case cluster_pk_flip_groups ops of
        None \<Rightarrow> None
      | Some clusters \<Rightarrow>
          (case merge_clusters (map (\<lambda>(root, gs). (root, map pg_parent_table gs)) clusters) ops [] of
             Inl e \<Rightarrow> Some (Inl e)
           | Inr (kept, multi_groups) \<Rightarrow>
               Some (Inr (kept @ map PkTypeFlipMultiGroup multi_groups))))"

definition set_option :: "PkFlipJoinTableOption \<Rightarrow> SchemaOperation \<Rightarrow> SchemaOperation" where
  "set_option option op =
     (case op of
        PkTypeFlipGroup g \<Rightarrow> PkTypeFlipGroup (g\<lparr>pg_join_table_option := option\<rparr>)
      | PkTypeFlipMultiGroup gs \<Rightarrow>
          PkTypeFlipMultiGroup (map (\<lambda>g. g\<lparr>pg_join_table_option := option\<rparr>) gs)
      | _ \<Rightarrow> op)"

fun merge_deltas :: "SchemaDelta list \<Rightarrow> SchemaDelta list option" where
  "merge_deltas [] = Some []"
| "merge_deltas (\<delta> # \<delta>s) =
     (case merge_cross_flipping_groups_into_multi (d_operations \<delta>) of
        Some (Inr ops) \<Rightarrow>
          map_option (\<lambda>rest. \<delta>\<lparr>d_operations := ops\<rparr> # rest) (merge_deltas \<delta>s)
      | _ \<Rightarrow> None)"

text \<open>\<^const>\<open>None\<close> is the \<open>expect\<close> failing (or clustering not returning).\<close>

definition apply_pk_flip_join_table_option ::
  "SchemaDelta list \<Rightarrow> PkFlipJoinTableOption \<Rightarrow> SchemaDelta list option" where
  "apply_pk_flip_join_table_option deltas option =
     (let deltas' = map (\<lambda>\<delta>. \<delta>\<lparr>d_operations := map (set_option option) (d_operations \<delta>)\<rparr>) deltas
      in if option \<noteq> OptionA then Some deltas' else merge_deltas deltas')"

section \<open>Union-find computes the components\<close>

text \<open>
  The forest invariant: keys are sorted and every representative is at most its key. The root
  of a table is the end of its chain of representatives.
\<close>

definition rep_ok :: "(string, string) btree \<Rightarrow> bool" where
  "rep_ok rep \<longleftrightarrow> bt_ok rep \<and> (\<forall>k v. bt_get rep k = Some v \<longrightarrow> v \<le> k)"

inductive root :: "(string, string) btree \<Rightarrow> string \<Rightarrow> string \<Rightarrow> bool" for rep where
  stop: "rep_parent rep x = x \<Longrightarrow> root rep x x"
| step: "rep_parent rep x \<noteq> x \<Longrightarrow> root rep (rep_parent rep x) r \<Longrightarrow> root rep x r"

inductive_cases root_elim: "root rep x r"

lemma rep_parent_le: "rep_ok rep \<Longrightarrow> rep_parent rep x \<le> x"
  by (auto simp: rep_ok_def rep_parent_def split: option.split)

lemma rep_parent_put:
  "rep_ok rep \<Longrightarrow> rep_parent (bt_put k v rep) x = (if x = k then v else rep_parent rep x)"
  by (simp add: rep_ok_def rep_parent_def bt.get_put)

lemma rep_ok_put: "rep_ok rep \<Longrightarrow> v \<le> k \<Longrightarrow> rep_ok (bt_put k v rep)"
  by (auto simp: rep_ok_def bt.ok_put bt.get_put)

lemma root_fun: "root rep x r \<Longrightarrow> root rep x r' \<Longrightarrow> r = r'"
proof (induction arbitrary: r' rule: root.induct)
  case (stop x)
  then show ?case by (auto elim: root_elim)
next
  case (step x r)
  from step.prems step.hyps(1) have "root rep (rep_parent rep x) r'" by (auto elim: root_elim)
  then show ?case by (rule step.IH)
qed

lemma root_fixed: "root rep x r \<Longrightarrow> rep_parent rep r = r"
  by (induction rule: root.induct)

text \<open>The values a chain can still visit below its current node.\<close>

definition below :: "(string, string) btree \<Rightarrow> string \<Rightarrow> nat" where
  "below rep x = card {v \<in> snd ` set rep. v < x}"

lemma rep_parent_value: "rep_parent rep x \<noteq> x \<Longrightarrow> rep_parent rep x \<in> snd ` set rep"
  by (force simp: rep_parent_def bt_get_def split: option.splits dest: map_of_SomeD)

lemma below_parent:
  assumes "rep_ok rep" "rep_parent rep x \<noteq> x"
  shows "below rep (rep_parent rep x) < below rep x"
proof -
  let ?p = "rep_parent rep x"
  have lt: "?p < x" using rep_parent_le [OF assms(1), of x] assms(2) by (simp add: less_le)
  then have "{v \<in> snd ` set rep. v < ?p} \<subset> {v \<in> snd ` set rep. v < x}"
    using rep_parent_value [OF assms(2)] by auto
  then show ?thesis unfolding below_def by (intro psubset_card_mono) auto
qed

lemma root_exists: "rep_ok rep \<Longrightarrow> \<exists>r. root rep x r"
proof (induction "below rep x" arbitrary: x rule: less_induct)
  case less
  show ?case
  proof (cases "rep_parent rep x = x")
    case True
    then show ?thesis by (blast intro: root.stop)
  next
    case False
    with less below_parent [OF less.prems False] show ?thesis by (blast intro: root.step)
  qed
qed

text \<open>Halving a path moves no root.\<close>

lemma root_halve:
  assumes ok: "rep_ok rep" and x: "rep_parent rep x = p" "p \<noteq> x"
  shows "root (bt_put x (rep_parent rep p) rep) y r \<longleftrightarrow> root rep y r"
proof -
  let ?g = "rep_parent rep p" and ?rep = "bt_put x (rep_parent rep p) rep"
  have lt: "p < x" "?g \<le> p" using rep_parent_le [OF ok] x by (metis less_le) (rule rep_parent_le [OF ok])
  then have gx: "?g \<noteq> x" by auto
  have par: "rep_parent ?rep z = (if z = x then ?g else rep_parent rep z)" for z
    by (rule rep_parent_put [OF ok])
  have fwd: "root rep y r \<Longrightarrow> root ?rep y r" for y r
  proof (induction rule: root.induct)
    case (stop y)
    then show ?case using x par by (intro root.stop) auto
  next
    case (step y r)
    show ?case
    proof (cases "y = x")
      case False
      with step par show ?thesis by (metis root.step)
    next
      case True
      have p: "root ?rep p r" using step.IH True x(1) by simp
      have "root ?rep ?g r"
      proof (cases "?g = p")
        case True
        with p show ?thesis by simp
      next
        case False
        with p par x(2) show ?thesis by (metis root_elim)
      qed
      then show ?thesis using True gx par by (metis root.step)
    qed
  qed
  moreover have "root rep y r" if "root ?rep y r"
    using that fwd root_fun root_exists [OF ok, of y] by metis
  ultimately show ?thesis by blast
qed

lemma set_bt_put_subset: "set (bt_put k v m) \<subseteq> insert (k, v) (set m)"
  by (induction k v m rule: bt_put.induct) auto

lemma smaller_values:
  fixes g x :: "'a::linorder"
  assumes "V' \<subseteq> insert g V" "g \<in> V" "g < x"
  shows "{v \<in> insert g V'. v < g} \<subset> {v \<in> insert x V. v < x}"
proof
  show "{v \<in> insert g V'. v < g} \<subseteq> {v \<in> insert x V. v < x}"
    using assms by (auto dest: less_trans)
  have "g \<in> {v \<in> insert x V. v < x}" using assms by simp
  then show "{v \<in> insert g V'. v < g} \<noteq> {v \<in> insert x V. v < x}" by blast
qed

lemma uf_find_correct:
  assumes "rep_ok rep"
  shows "\<exists>r rep'. uf_find rep x = Some (r, rep') \<and> root rep x r \<and> rep_ok rep'
    \<and> (\<forall>y s. root rep' y s \<longleftrightarrow> root rep y s)"
  using assms
proof (induction "card {v \<in> insert x (snd ` set rep). v < x}" arbitrary: rep x rule: less_induct)
  case less
  let ?p = "rep_parent rep x" and ?g = "rep_parent rep (rep_parent rep x)"
  show ?case
  proof (cases "?p = x")
    case True
    then show ?thesis using less.prems by (subst uf_find.simps) (auto intro: root.stop)
  next
    case False
    let ?rep = "bt_put x ?g rep"
    have lt: "?g \<le> ?p" "?p < x"
      using rep_parent_le [OF less.prems] False by (simp_all add: less_le)
    have ok: "rep_ok ?rep" using rep_ok_put [OF less.prems] lt by simp
    have "set ?rep \<subseteq> insert (x, ?g) (set rep)" by (rule set_bt_put_subset)
    then have vals: "snd ` set ?rep \<subseteq> insert ?g (snd ` set rep)" by auto
    have gval: "?g \<in> snd ` set rep"
      using rep_parent_value [OF False] rep_parent_value [of rep ?p] by (cases "?g = ?p") auto
    have "?g < x" using lt by simp
    from smaller_values [OF vals gval this]
    have "{v \<in> insert ?g (snd ` set ?rep). v < ?g} \<subset> {v \<in> insert x (snd ` set rep). v < x}" .
    then have "card {v \<in> insert ?g (snd ` set ?rep). v < ?g} < card {v \<in> insert x (snd ` set rep). v < x}"
      by (intro psubset_card_mono) auto
    from less.hyps [OF this ok] obtain r rep' where IH: "uf_find ?rep ?g = Some (r, rep')"
      "root ?rep ?g r" "rep_ok rep'" "\<forall>y s. root rep' y s \<longleftrightarrow> root ?rep y s" by blast
    have "uf_find rep x = Some (r, rep')"
      using False IH(1) by (subst uf_find.simps) (simp add: Let_def)
    moreover note halve = root_halve [OF less.prems refl False]
    have "root rep ?g r" using IH(2) halve by blast
    then have "root rep x r"
      using False by (metis root.step)
    ultimately show ?thesis using IH(3,4) halve by auto
  qed
qed

text \<open>Two tables are in one class when they have the same root.\<close>

definition same_set :: "(string, string) btree \<Rightarrow> (string \<times> string) set" where
  "same_set rep = {(x, y). \<exists>r. root rep x r \<and> root rep y r}"

lemma same_set_refl: "rep_ok rep \<Longrightarrow> (x, x) \<in> same_set rep"
  using root_exists by (auto simp: same_set_def)

lemma same_set_trans: "(x, y) \<in> same_set rep \<Longrightarrow> (y, z) \<in> same_set rep \<Longrightarrow> (x, z) \<in> same_set rep"
  unfolding same_set_def mem_Collect_eq prod.case using root_fun by metis

lemma same_set_rtrancl:
  assumes "rep_ok rep" "A \<subseteq> same_set rep"
  shows "A\<^sup>* \<subseteq> same_set rep"
proof
  fix p assume "p \<in> A\<^sup>*"
  then obtain x y where p: "p = (x, y)" "(x, y) \<in> A\<^sup>*" by (cases p) auto
  from p(2) have "(x, y) \<in> same_set rep"
    by (induction rule: rtrancl_induct) (use assms same_set_refl same_set_trans in blast)+
  with p(1) show "p \<in> same_set rep" by simp
qed

lemma root_link:
  assumes ok: "rep_ok rep" and l: "rep_parent rep l = l" and w: "rep_parent rep w = w" "w \<noteq> l"
  shows "root rep y r \<Longrightarrow> root (bt_put l w rep) y (if r = l then w else r)"
proof (induction rule: root.induct)
  case (stop y)
  have par: "rep_parent (bt_put l w rep) z = (if z = l then w else rep_parent rep z)" for z
    by (rule rep_parent_put [OF ok])
  have "root (bt_put l w rep) w w" using par w by (intro root.stop) simp
  with stop par w(2) show ?case by (cases "y = l") (auto intro: root.intros)
next
  case (step y r)
  have "y \<noteq> l" using step.hyps(1) l by auto
  then have "rep_parent (bt_put l w rep) y = rep_parent rep y" by (simp add: rep_parent_put [OF ok])
  with step show ?case by (metis root.step)
qed

lemma link_same_set:
  assumes ok: "rep_ok rep" and a: "root rep a l" and b: "root rep b w" and lt: "w < l"
  shows "same_set (bt_put l w rep) = (same_set rep \<union> {(a, b), (b, a)})\<^sup>*"
proof
  let ?rep = "bt_put l w rep"
  have ok': "rep_ok ?rep" using rep_ok_put [OF ok] lt by simp
  note link = root_link [OF ok root_fixed [OF a] root_fixed [OF b] less_imp_neq [OF lt]]
  have "same_set rep \<subseteq> same_set ?rep" using link by (fastforce simp: same_set_def)
  moreover have "root ?rep a w" "root ?rep b w" using link [OF a] link [OF b] lt by simp_all
  then have "{(a, b), (b, a)} \<subseteq> same_set ?rep" by (auto simp: same_set_def)
  ultimately show "(same_set rep \<union> {(a, b), (b, a)})\<^sup>* \<subseteq> same_set ?rep"
    by (intro same_set_rtrancl [OF ok']) auto
  show "same_set ?rep \<subseteq> (same_set rep \<union> {(a, b), (b, a)})\<^sup>*"
  proof
    fix p assume "p \<in> same_set ?rep"
    then obtain x y s where p: "p = (x, y)" "root ?rep x s" "root ?rep y s" by (auto simp: same_set_def)
    obtain rx ry where r: "root rep x rx" "root rep y ry" using root_exists [OF ok] by metis
    have eq: "(if rx = l then w else rx) = (if ry = l then w else ry)"
      using root_fun [OF link [OF r(1)] p(2)] root_fun [OF link [OF r(2)] p(3)] by simp
    let ?A = "same_set rep \<union> {(a, b), (b, a)}"
    have in_a: "(z, a) \<in> ?A\<^sup>*" "(a, z) \<in> ?A\<^sup>*" if "root rep z l" for z
      using that a by (auto simp: same_set_def intro!: r_into_rtrancl)
    have in_b: "(z, b) \<in> ?A\<^sup>*" "(b, z) \<in> ?A\<^sup>*" if "root rep z w" for z
      using that b by (auto simp: same_set_def intro!: r_into_rtrancl)
    have ab: "(a, b) \<in> ?A\<^sup>*" "(b, a) \<in> ?A\<^sup>*" by auto
    consider "rx = ry" | "rx = l" "ry = w" | "rx = w" "ry = l" using eq by (auto split: if_splits)
    then have "(x, y) \<in> ?A\<^sup>*"
    proof cases
      case 1
      with r show ?thesis by (auto simp: same_set_def intro!: r_into_rtrancl)
    next
      case 2
      with r in_a in_b ab show ?thesis by (metis rtrancl_trans)
    next
      case 3
      with r in_a in_b ab show ?thesis by (metis rtrancl_trans)
    qed
    with p(1) show "p \<in> ?A\<^sup>*" by simp
  qed
qed

lemma same_set_cong: "(\<And>y s. root rep' y s \<longleftrightarrow> root rep y s) \<Longrightarrow> same_set rep' = same_set rep"
  by (simp add: same_set_def)

lemma uf_union_correct:
  assumes "rep_ok rep"
  shows "\<exists>rep'. uf_union rep (a, b) = Some rep' \<and> rep_ok rep'
    \<and> same_set rep' = (same_set rep \<union> {(a, b), (b, a)})\<^sup>*"
proof -
  obtain ra rep1 where 1: "uf_find rep a = Some (ra, rep1)" "root rep a ra" "rep_ok rep1"
    "\<forall>y s. root rep1 y s \<longleftrightarrow> root rep y s" using uf_find_correct [OF assms] by blast
  obtain rb rep2 where 2: "uf_find rep1 b = Some (rb, rep2)" "root rep1 b rb" "rep_ok rep2"
    "\<forall>y s. root rep2 y s \<longleftrightarrow> root rep1 y s" using uf_find_correct [OF 1(3)] by blast
  have same: "same_set rep2 = same_set rep" using 1(4) 2(4) by (intro same_set_cong) simp
  have ra: "root rep2 a ra" and rb: "root rep2 b rb" using 1 2 by auto
  show ?thesis
  proof (cases "ra = rb")
    case True
    then have "{(a, b), (b, a)} \<subseteq> same_set rep2" using ra rb by (auto simp: same_set_def)
    then have "(same_set rep \<union> {(a, b), (b, a)})\<^sup>* = same_set rep2"
      using same same_set_rtrancl [OF 2(3) order_refl] by (metis Un_absorb2 r_into_rtrancl subsetI subset_antisym)
    then show ?thesis using True 1(1) 2(1,3) by (simp add: uf_union_def)
  next
    case False
    then consider "ra < rb" | "rb < ra" by force
    then show ?thesis
    proof cases
      case 1
      then have "uf_union rep (a, b) = Some (bt_put rb ra rep2)"
        using \<open>uf_find rep a = _\<close> 2(1) False
        by (simp add: uf_union_def less_imp_le)
      moreover have "same_set (bt_put rb ra rep2) = (same_set rep \<union> {(b, a), (a, b)})\<^sup>*"
        using link_same_set [OF 2(3) rb ra 1] same by simp
      ultimately show ?thesis using rep_ok_put [OF 2(3)] 1 by (auto simp: insert_commute)
    next
      case r: 2
      then have "uf_union rep (a, b) = Some (bt_put ra rb rep2)"
        using 1(1) 2(1) False by (simp add: uf_union_def not_le [THEN iffD2, OF r])
      moreover have "same_set (bt_put ra rb rep2) = (same_set rep \<union> {(a, b), (b, a)})\<^sup>*"
        using link_same_set [OF 2(3) ra rb r] same by simp
      ultimately show ?thesis using rep_ok_put [OF 2(3)] r by auto
    qed
  qed
qed

lemma uf_unions_correct:
  assumes "rep_ok rep"
  shows "\<exists>rep'. uf_unions es rep = Some rep' \<and> rep_ok rep'
    \<and> same_set rep' = (same_set rep \<union> set es \<union> (set es)\<inverse>)\<^sup>*"
  using assms
proof (induction es arbitrary: rep)
  case Nil
  have "same_set rep = (same_set rep)\<^sup>*" using same_set_rtrancl [OF Nil order_refl] by blast
  with Nil show ?case by simp
next
  case (Cons e es)
  obtain a b where e: "e = (a, b)" by force
  obtain rep1 where 1: "uf_union rep e = Some rep1" "rep_ok rep1"
    "same_set rep1 = (same_set rep \<union> {(a, b), (b, a)})\<^sup>*" using uf_union_correct [OF Cons.prems] e by blast
  obtain rep' where 2: "uf_unions es rep1 = Some rep'" "rep_ok rep'"
    "same_set rep' = (same_set rep1 \<union> set es \<union> (set es)\<inverse>)\<^sup>*" using Cons.IH [OF 1(2)] by blast
  let ?A = "same_set rep \<union> {(a, b), (b, a)}" and ?B = "set es \<union> (set es)\<inverse>"
  have "(?A\<^sup>* \<union> ?B)\<^sup>* = (?A \<union> ?B)\<^sup>*"
  proof (rule rtrancl_subset)
    show "?A \<union> ?B \<subseteq> ?A\<^sup>* \<union> ?B" by auto
    show "?A\<^sup>* \<union> ?B \<subseteq> (?A \<union> ?B)\<^sup>*" by (auto intro: subsetD [OF rtrancl_mono, rotated])
  qed
  moreover have "?A \<union> ?B = same_set rep \<union> set (e # es) \<union> (set (e # es))\<inverse>" by (auto simp: e)
  ultimately show ?case using 1 2 by (simp add: Un_assoc)
qed

section \<open>The clusters are the components\<close>

definition members :: "(string, PkTypeFlipGroup list) btree \<Rightarrow> string \<Rightarrow> PkTypeFlipGroup list" where
  "members m k = (case bt_get m k of Some gs \<Rightarrow> gs | None \<Rightarrow> [])"

lemma collect_clusters_correct:
  assumes "rep_ok rep" "bt_ok m"
  shows "\<exists>m'. collect_clusters groups rep m = Some m' \<and> bt_ok m'
    \<and> (\<forall>k. members m' k = members m k @ filter (\<lambda>g. root rep (pg_parent_table g) k) groups)
    \<and> (\<forall>k. bt_get m k \<noteq> Some [] \<longrightarrow> bt_get m' k \<noteq> Some [])"
  using assms
proof (induction groups arbitrary: rep m)
  case Nil
  then show ?case by simp
next
  case (Cons g groups)
  obtain r rep' where f: "uf_find rep (pg_parent_table g) = Some (r, rep')" "root rep (pg_parent_table g) r"
    "rep_ok rep'" "\<forall>y s. root rep' y s \<longleftrightarrow> root rep y s" using uf_find_correct [OF Cons.prems(1)] by blast
  let ?m = "bt_put r (members m r @ [g]) m"
  have get: "bt_get ?m k = (if k = r then Some (members m r @ [g]) else bt_get m k)" for k
    by (rule bt.get_put [OF Cons.prems(2)])
  obtain m' where m': "collect_clusters groups rep' ?m = Some m'" "bt_ok m'"
    "\<forall>k. members m' k = members ?m k @ filter (\<lambda>g. root rep' (pg_parent_table g) k) groups"
    "\<forall>k. bt_get ?m k \<noteq> Some [] \<longrightarrow> bt_get m' k \<noteq> Some []"
    using Cons.IH [OF f(3) bt.ok_put [OF Cons.prems(2)]] by blast
  have "members m' k = members m k @ filter (\<lambda>g. root rep (pg_parent_table g) k) (g # groups)" for k
  proof -
    have "root rep (pg_parent_table g) k \<longleftrightarrow> k = r" using f(2) root_fun by blast
    then show ?thesis using m'(3) f(4) by (auto simp: members_def get [unfolded members_def])
  qed
  moreover have "bt_get m k \<noteq> Some [] \<longrightarrow> bt_get m' k \<noteq> Some []" for k
    using m'(4) by (auto simp: get split: if_splits)
  ultimately show ?case
    using f(1) m'(1,2) by (simp add: members_def)
qed

lemma set_pair_keys: "set (pair_keys es) = set es"
  by (force simp: pair_keys_def)

lemma initial_rep_parent: "rep_parent (initial_rep groups) x = x"
proof -
  have "map_of (map (\<lambda>g. (pg_parent_table g, pg_parent_table g)) gs) x \<in> {None, Some x}" for gs
    by (induction gs) auto
  from this [of "rev groups"] show ?thesis
    by (auto simp: rep_parent_def initial_rep_def bt.get_collect rev_map)
qed

lemma initial_rep_ok: "rep_ok (initial_rep groups)"
  using initial_rep_parent [of groups]
  by (auto simp: rep_ok_def initial_rep_def bt.ok_collect rep_parent_def split: option.splits)
     (metis option.simps(5) order_refl)

lemma initial_same_set: "same_set (initial_rep groups) = Id"
proof -
  have "root (initial_rep groups) x r \<longleftrightarrow> r = x" for x r
    by (auto intro: root.stop simp: initial_rep_parent elim: root_elim)
  then show ?thesis by (auto simp: same_set_def)
qed

text \<open>
  C23: clustering always returns, and its clusters are the connected
  components of the graph of shared join tables: each holds, in order, the groups connected
  to its key, keys of different clusters are not connected, and no group is left out.
\<close>

theorem clusters_are_components:
  assumes "peer_edges (flip_groups ops) \<noteq> []"
    and "R = (set (peer_edges (flip_groups ops)) \<union> (set (peer_edges (flip_groups ops)))\<inverse>)\<^sup>*"
  shows "\<exists>clusters. cluster_pk_flip_groups ops = Some clusters
    \<and> (\<forall>(k, gs)\<in>set clusters. gs \<noteq> [] \<and>
         gs = filter (\<lambda>g. (k, pg_parent_table g) \<in> R) (flip_groups ops))
    \<and> (\<forall>(k, gs)\<in>set clusters. \<forall>(k', gs')\<in>set clusters. (k, k') \<in> R \<longrightarrow> k = k')
    \<and> (\<forall>g\<in>set (flip_groups ops). \<exists>(k, gs)\<in>set clusters. g \<in> set gs)"
proof -
  let ?gs = "flip_groups ops" and ?E = "peer_edges (flip_groups ops)"
  obtain rep where rep: "uf_unions ?E (initial_rep ?gs) = Some rep" "rep_ok rep" "same_set rep = R"
    using uf_unions_correct [OF initial_rep_ok [of ?gs], of ?E] assms(2)
    by (auto simp: initial_same_set) (metis Un_assoc rtrancl_reflcl sup_commute)
  obtain m where m: "collect_clusters ?gs rep [] = Some m" "bt_ok m"
    "\<And>k. members m k = filter (\<lambda>g. root rep (pg_parent_table g) k) ?gs"
    "\<And>k. bt_get m k \<noteq> Some []"
    using collect_clusters_correct [OF rep(2) bt_ok_Nil, where groups = ?gs]
    by (auto simp: members_def bt_get_def)
  have c: "cluster_pk_flip_groups ops = Some m"
    using assms(1) rep(1) m(1) by (simp add: cluster_pk_flip_groups_def Let_def)
  have in_R: "(x, y) \<in> R \<longleftrightarrow> (\<exists>r. root rep x r \<and> root rep y r)" for x y
    using rep(3) by (auto simp: same_set_def)
  have entry: "gs \<noteq> [] \<and> gs = filter (\<lambda>g. root rep (pg_parent_table g) k) ?gs \<and> root rep k k"
    if "(k, gs) \<in> set m" for k gs
  proof -
    have "bt_get m k = Some gs" using that bt.entries_get [OF m(2)] by blast
    then have *: "gs \<noteq> []" "gs = filter (\<lambda>g. root rep (pg_parent_table g) k) ?gs"
      using m(4) [of k] m(3) [of k] by (auto simp: members_def)
    then obtain g where "g \<in> set gs" by (meson list.set_sel(1))
    then have "root rep (pg_parent_table g) k" by (subst (asm) *(2)) simp
    then have "root rep k k" by (intro root.stop root_fixed)
    with * show ?thesis by blast
  qed
  have cls: "root rep x k \<longleftrightarrow> (k, x) \<in> R" if "root rep k k" for k x
    using that root_fun unfolding in_R by metis
  have 1: "gs \<noteq> [] \<and> gs = filter (\<lambda>g. (k, pg_parent_table g) \<in> R) ?gs" if "(k, gs) \<in> set m" for k gs
  proof -
    note e = entry [OF that]
    have "filter (\<lambda>g. root rep (pg_parent_table g) k) ?gs = filter (\<lambda>g. (k, pg_parent_table g) \<in> R) ?gs"
      by (rule filter_cong [OF refl]) (use e cls in blast)
    with e show ?thesis by metis
  qed
  have 2: "k = k'" if "(k, gs) \<in> set m" "(k', gs') \<in> set m" "(k, k') \<in> R" for k k' gs gs'
    using entry [OF that(1)] entry [OF that(2)] that(3) root_fun unfolding in_R by metis
  have 3: "\<exists>(k, gs)\<in>set m. g \<in> set gs" if "g \<in> set ?gs" for g
  proof -
    obtain r where "root rep (pg_parent_table g) r" using root_exists [OF rep(2)] by blast
    with that have "g \<in> set (members m r)" by (simp add: m(3))
    then obtain gs where "bt_get m r = Some gs" "g \<in> set gs" by (cases "bt_get m r") (auto simp: members_def)
    then show ?thesis using bt.entries_get [OF m(2)] by blast
  qed
  from c 1 2 3 show ?thesis by blast
qed

section \<open>Shared join tables\<close>

lemma winner_keeps_only_its_own:
  assumes "g \<in> set (winner_takes_all cg)" "jt \<in> set (pg_join_tables g)" "has_partner_column jt"
  shows "\<exists>jt'\<in>set (pg_join_tables (hd (winner_takes_all cg))).
    has_partner_column jt' \<and> jt_table jt' = jt_table jt"
proof -
  have "jt_table jt' \<in> set (cross_flipping_jt_names cg)"
    if "g' \<in> set cg" "jt' \<in> set (pg_join_tables g')" "has_partner_column jt'" for g' jt'
    using that by (force simp: cross_flipping_jt_names_def)
  with assms show ?thesis
    by (fastforce simp: winner_takes_all_def split: list.splits)
qed

lemma winner_takes_all_parents:
  "map pg_parent_table (winner_takes_all cg) = map pg_parent_table cg"
  by (simp add: winner_takes_all_def split: list.split)

lemma sorted_hd_le: "sorted (map f xs) \<Longrightarrow> x \<in> set xs \<Longrightarrow> f (hd xs) \<le> f x"
  by (cases xs) auto

text \<open>What the merge promises of each multi-parent group.\<close>

definition winner_only :: "PkTypeFlipGroup list \<Rightarrow> bool" where
  "winner_only gs \<longleftrightarrow>
     (\<forall>g\<in>set gs. pg_parent_table (hd gs) \<le> pg_parent_table g
        \<and> (\<forall>jt\<in>set (pg_join_tables g). has_partner_column jt \<longrightarrow>
             (\<exists>jt'\<in>set (pg_join_tables (hd gs)). has_partner_column jt' \<and> jt_table jt' = jt_table jt)))"

lemma winner_takes_all_only: "winner_only (winner_takes_all (sort_key pg_parent_table gs))"
proof -
  let ?w = "winner_takes_all (sort_key pg_parent_table gs)"
  have "sorted (map pg_parent_table ?w)" by (simp add: winner_takes_all_parents)
  then show ?thesis
    using winner_keeps_only_its_own sorted_hd_le by (fastforce simp: winner_only_def)
qed

lemma merge_clusters_winners:
  assumes "merge_clusters cs ops ms = Inr (kept, multis)" "\<forall>gs\<in>set ms. winner_only gs"
  shows "set kept \<subseteq> set ops \<and> (\<forall>gs\<in>set multis. winner_only gs)"
  using assms
proof (induction cs ops ms rule: merge_clusters.induct)
  case (2 r members cs ops ms)
  then show ?case
    by (fastforce simp: Let_def winner_takes_all_only split: if_splits option.splits)
qed simp

text \<open>
  In a merged multi-parent group only the alphabetically first parent's
  join tables count: every join-table entry that any member keeps towards a co-flipping
  partner has an entry of the same table at that first parent. So a join table between two
  other members of the cluster is in no member of the merged group, although each of the two
  recorded it before.
\<close>

theorem merge_loses_join_table:
  assumes "merge_cross_flipping_groups_into_multi ops = Some (Inr out)"
    and "PkTypeFlipMultiGroup gs \<in> set out" "PkTypeFlipMultiGroup gs \<notin> set ops"
  shows "\<forall>g\<in>set gs. pg_parent_table (hd gs) \<le> pg_parent_table g
    \<and> (\<forall>jt\<in>set (pg_join_tables g). has_partner_column jt \<longrightarrow>
         (\<exists>jt'\<in>set (pg_join_tables (hd gs)). has_partner_column jt' \<and> jt_table jt' = jt_table jt))"
proof -
  obtain clusters kept multis where
    "merge_clusters clusters ops [] = Inr (kept, multis)" "out = kept @ map PkTypeFlipMultiGroup multis"
    using assms(1) by (auto simp: merge_cross_flipping_groups_into_multi_def
        split: option.splits sum.splits prod.splits)
  with merge_clusters_winners [of clusters ops "[]" kept multis] assms(2,3)
  have "winner_only gs" by auto
  then show ?thesis by (simp add: winner_only_def)
qed

end
