(* ===== verification/Pk_Flip.thy ===== *)
theory Pk_Flip
  imports Sql_Emit Pk_Cluster
begin

text \<open>
  The segment builders of a primary-key flip, \<open>djogi/src/migrate/pk_flip.rs\<close>. The source
  writes each statement with \<open>write!\<close> or \<open>format!\<close>; here every statement is a value of
  \<open>FlipStmt\<close> and \<open>stmt_sql\<close> is its text, so that the emitted SQL can also be executed on a
  model of the catalog. A statement of a block is written as a line with a semicolon, a
  statement of its own without one. All identifiers are unquoted, as in the source.
\<close>

section \<open>Segments\<close>

text \<open>The plan types of \<open>segment.rs\<close>, which the builders produce.\<close>

datatype SegmentKind = Transactional | NonTransactional | MetadataOnly

record Segment =
  sg_kind :: SegmentKind
  sg_statements :: "OperationSql list"

section \<open>Statements and their text\<close>

datatype FlipStmt =
    AddShadow string string string
  | CreateAutofill string "(string \<times> string) list" PkFlipFamily PkFlipDirection
  | DropColumnIfExists string string
  | DropTriggerIfExists string
  | DropFunctionIfExists string
  | DropTrigger string
  | DropFunction string
  | DropConstraint string string
  | DropConstraintIfExists string string
  | AddFlipFk (fk_on: string) (fk_named: string) (fk_col: string) (fk_target: string)
      (fk_target_col: string) (fk_action: "OnDeleteSchema option") (fk_def: bool) (fk_ini: bool)
      (fk_not_valid: bool)
  | ValidateConstraint string string
  | AddNotNullCheck string string string
  | SetColumnNotNull string string
  | DropColumnNotNull string string
  | PrimaryKeyUsingIndex string string string
  | AddPrimaryKey string string string
  | SetNextDefault string string string
  | DropColumnDefault string string
  | DropTableColumn string string
  | RenameTableColumn string string string
  | SetConstraintsDeferred
  | CreateConcurrently bool string string string
  | DropIndexIfExists string
  | CreateOnOnly bool string string "string list"
  | Backfill string string string PkFlipFamily PkFlipDirection
  | VerifyNoNull string string
  | VerifyFlipped string string string string
  | Note string

definition PARENT_PK_COLUMN :: string where
  "PARENT_PK_COLUMN = ''id''"

definition SHADOW_SUFFIX :: string where
  "SHADOW_SUFFIX = ''_desc''"

abbreviation shadow :: "string \<Rightarrow> string" where
  "shadow col \<equiv> col @ SHADOW_SUFFIX"

definition pg_id_type :: "PkFlipFamily \<Rightarrow> string" where
  "pg_id_type f = (case f of Heer \<Rightarrow> ''bigint'' | Ranj \<Rightarrow> ''uuid'')"

definition flip_fn_name :: "PkFlipFamily \<Rightarrow> PkFlipDirection \<Rightarrow> string" where
  "flip_fn_name f d =
     (case (f, d) of
        (Heer, AscToDesc) \<Rightarrow> ''heerid_to_desc'' | (Heer, DescToAsc) \<Rightarrow> ''heerid_to_asc''
      | (Ranj, AscToDesc) \<Rightarrow> ''ranjid_to_desc'' | (Ranj, DescToAsc) \<Rightarrow> ''ranjid_to_asc'')"

definition next_fn_name :: "PkFlipFamily \<Rightarrow> PkFlipDirection \<Rightarrow> string" where
  "next_fn_name f d =
     (case (f, d) of
        (Heer, AscToDesc) \<Rightarrow> ''heerid_next_desc'' | (Heer, DescToAsc) \<Rightarrow> ''heerid_next''
      | (Ranj, AscToDesc) \<Rightarrow> ''ranjid_next_desc'' | (Ranj, DescToAsc) \<Rightarrow> ''ranjid_next'')"

definition backfill_kind_literal :: "PkFlipFamily \<Rightarrow> string" where
  "backfill_kind_literal f = [sq] @ (case f of Heer \<Rightarrow> ''heer'' | Ranj \<Rightarrow> ''ranj'') @ [sq]"

definition render_on_delete :: "OnDeleteSchema \<Rightarrow> string" where
  "render_on_delete od =
     (case od of Restrict \<Rightarrow> ''ON DELETE RESTRICT'' | Cascade \<Rightarrow> ''ON DELETE CASCADE''
      | SetNull \<Rightarrow> ''ON DELETE SET NULL'' | OnDeleteSchema.SetDefault \<Rightarrow> ''ON DELETE SET DEFAULT''
      | NoAction \<Rightarrow> ''ON DELETE NO ACTION'')"

definition autofill_fn :: "string \<Rightarrow> string" where
  "autofill_fn table = ''zzz_'' @ table @ ''_autofill_desc''"

definition render_autofill_trigger ::
  "string \<Rightarrow> (string \<times> string) list \<Rightarrow> PkFlipFamily \<Rightarrow> PkFlipDirection \<Rightarrow> string" where
  "render_autofill_trigger table pairs family direction =
     (let flip = flip_fn_name family direction;
          fn = autofill_fn table;
          insert_body = concat (map (\<lambda>(src, dst).
            ''        IF NEW.'' @ dst @ '' IS NULL THEN NEW.'' @ dst @ '' := '' @ flip @ ''(NEW.'' @ src
            @ ''); END IF;'' @ nl) pairs);
          update_body = concat (map (\<lambda>(src, dst).
            ''        IF NEW.'' @ src @ '' IS DISTINCT FROM OLD.'' @ src @ '' THEN'' @ nl
            @ ''            NEW.'' @ dst @ '' := '' @ flip @ ''(NEW.'' @ src @ '');'' @ nl
            @ ''        ELSIF NEW.'' @ dst @ '' IS NULL THEN'' @ nl
            @ ''            NEW.'' @ dst @ '' := '' @ flip @ ''(NEW.'' @ src @ '');'' @ nl
            @ ''        END IF;'' @ nl) pairs)
      in ''CREATE OR REPLACE FUNCTION '' @ fn @ ''() RETURNS trigger AS $body$'' @ nl
         @ ''BEGIN'' @ nl
         @ ''    IF TG_OP = 'INSERT' THEN'' @ nl
         @ insert_body @ ''    ELSIF TG_OP = 'UPDATE' THEN'' @ nl
         @ update_body @ ''    END IF;'' @ nl
         @ ''    RETURN NEW;'' @ nl
         @ ''END;'' @ nl
         @ ''$body$ LANGUAGE plpgsql;'' @ nl @ nl
         @ ''DROP TRIGGER IF EXISTS '' @ fn @ '' ON '' @ table @ '';'' @ nl
         @ ''CREATE TRIGGER '' @ fn @ nl
         @ ''    BEFORE INSERT OR UPDATE ON '' @ table @ nl
         @ ''    FOR EACH ROW EXECUTE FUNCTION '' @ fn @ ''();'' @ nl)"

text \<open>One of the two loops of the reverse backfill; the second one waits for locked rows.\<close>

definition reverse_loop :: "string \<Rightarrow> string \<Rightarrow> string \<Rightarrow> string \<Rightarrow> string \<Rightarrow> string" where
  "reverse_loop table src dst flip lock_clause =
     ''    LOOP'' @ nl
     @ ''        SET LOCAL lock_timeout = '30s';'' @ nl
     @ ''        WITH batch AS ('' @ nl
     @ ''            SELECT ctid FROM '' @ table @ nl
     @ ''            WHERE '' @ dst @ '' IS NULL AND '' @ src @ '' IS NOT NULL'' @ nl
     @ ''            LIMIT 10000'' @ nl
     @ ''            '' @ lock_clause @ nl
     @ ''        )'' @ nl
     @ ''        UPDATE '' @ table @ '' t SET '' @ dst @ '' = '' @ flip @ ''(t.'' @ src @ '')'' @ nl
     @ ''        FROM batch WHERE t.ctid = batch.ctid;'' @ nl
     @ ''        GET DIAGNOSTICS rows_done = ROW_COUNT;'' @ nl
     @ ''        COMMIT;'' @ nl
     @ ''        EXIT WHEN rows_done = 0;'' @ nl
     @ ''    END LOOP;'' @ nl"

definition emit_reverse_backfill :: "string \<Rightarrow> string \<Rightarrow> string \<Rightarrow> PkFlipFamily \<Rightarrow> string" where
  "emit_reverse_backfill table src dst family =
     (let flip = (case family of Heer \<Rightarrow> ''heerid_to_asc'' | Ranj \<Rightarrow> ''ranjid_to_asc'')
      in ''DO $$'' @ nl @ ''DECLARE'' @ nl @ ''    rows_done int;'' @ nl @ ''BEGIN'' @ nl
         @ reverse_loop table src dst flip ''FOR UPDATE SKIP LOCKED''
         @ reverse_loop table src dst flip ''FOR UPDATE''
         @ ''END;'' @ nl @ ''$$'')"

definition emit_backfill_body ::
  "string \<Rightarrow> string \<Rightarrow> string \<Rightarrow> PkFlipFamily \<Rightarrow> PkFlipDirection \<Rightarrow> string" where
  "emit_backfill_body table src dst family direction =
     (case direction of
        AscToDesc \<Rightarrow>
          ''CALL heeranjid_bulk_backfill('' @ [sq] @ table @ [sq] @ '', '' @ [sq] @ src @ [sq] @ '', ''
          @ [sq] @ dst @ [sq] @ '', '' @ backfill_kind_literal family @ '', 10000)''
      | DescToAsc \<Rightarrow> emit_reverse_backfill table src dst family)"

text \<open>The text of a statement, without its final semicolon.\<close>

fun stmt_sql :: "FlipStmt \<Rightarrow> string" where
  "stmt_sql (AddShadow t col ty) = ''ALTER TABLE '' @ t @ '' ADD COLUMN '' @ col @ '' '' @ ty"
| "stmt_sql (CreateAutofill t pairs family direction) = render_autofill_trigger t pairs family direction"
| "stmt_sql (DropColumnIfExists t col) = ''ALTER TABLE '' @ t @ '' DROP COLUMN IF EXISTS '' @ col"
| "stmt_sql (DropTriggerIfExists t) = ''DROP TRIGGER IF EXISTS '' @ autofill_fn t @ '' ON '' @ t"
| "stmt_sql (DropFunctionIfExists t) = ''DROP FUNCTION IF EXISTS '' @ autofill_fn t @ ''() CASCADE''"
| "stmt_sql (DropTrigger t) = ''DROP TRIGGER '' @ autofill_fn t @ '' ON '' @ t"
| "stmt_sql (DropFunction t) = ''DROP FUNCTION '' @ autofill_fn t @ ''() CASCADE''"
| "stmt_sql (DropConstraint t c) = ''ALTER TABLE '' @ t @ '' DROP CONSTRAINT '' @ c"
| "stmt_sql (DropConstraintIfExists t c) = ''ALTER TABLE '' @ t @ '' DROP CONSTRAINT IF EXISTS '' @ c"
| "stmt_sql (AddFlipFk t c col target target_col action def ini not_valid) =
     ''ALTER TABLE '' @ t @ '' ADD CONSTRAINT '' @ c @ '' FOREIGN KEY ('' @ col @ '') REFERENCES ''
     @ target @ ''('' @ target_col @ '')''
     @ (case action of Some a \<Rightarrow> '' '' @ render_on_delete a | None \<Rightarrow> [])
     @ render_deferrable_clause def ini @ (if not_valid then '' NOT VALID'' else [])"
| "stmt_sql (ValidateConstraint t c) = ''ALTER TABLE '' @ t @ '' VALIDATE CONSTRAINT '' @ c"
| "stmt_sql (AddNotNullCheck t c col) =
     ''ALTER TABLE '' @ t @ '' ADD CONSTRAINT '' @ c @ '' CHECK ('' @ col @ '' IS NOT NULL) NOT VALID''"
| "stmt_sql (SetColumnNotNull t col) = ''ALTER TABLE '' @ t @ '' ALTER COLUMN '' @ col @ '' SET NOT NULL''"
| "stmt_sql (DropColumnNotNull t col) = ''ALTER TABLE '' @ t @ '' ALTER COLUMN '' @ col @ '' DROP NOT NULL''"
| "stmt_sql (PrimaryKeyUsingIndex t c idx) =
     ''ALTER TABLE '' @ t @ '' ADD CONSTRAINT '' @ c @ '' PRIMARY KEY USING INDEX '' @ idx"
| "stmt_sql (AddPrimaryKey t part col) =
     ''ALTER TABLE '' @ t @ '' ADD PRIMARY KEY ('' @ part @ '', '' @ col @ '')''"
| "stmt_sql (SetNextDefault t col fn) =
     ''ALTER TABLE '' @ t @ '' ALTER COLUMN '' @ col @ '' SET DEFAULT '' @ fn @ ''()''"
| "stmt_sql (DropColumnDefault t col) = ''ALTER TABLE '' @ t @ '' ALTER COLUMN '' @ col @ '' DROP DEFAULT''"
| "stmt_sql (DropTableColumn t col) = ''ALTER TABLE '' @ t @ '' DROP COLUMN '' @ col"
| "stmt_sql (RenameTableColumn t from to) =
     ''ALTER TABLE '' @ t @ '' RENAME COLUMN '' @ from @ '' TO '' @ to"
| "stmt_sql SetConstraintsDeferred = ''SET CONSTRAINTS ALL DEFERRED''"
| "stmt_sql (CreateConcurrently uniq name t col) =
     ''CREATE '' @ (if uniq then ''UNIQUE '' else []) @ ''INDEX CONCURRENTLY '' @ name @ '' ON '' @ t
     @ '' ('' @ col @ '')''"
| "stmt_sql (DropIndexIfExists name) = ''DROP INDEX IF EXISTS '' @ name"
| "stmt_sql (CreateOnOnly uniq name t cols) =
     ''CREATE '' @ (if uniq then ''UNIQUE '' else []) @ ''INDEX '' @ name @ nl @ ''  ON ONLY '' @ t
     @ '' ('' @ join_str '', '' cols @ '')''"
| "stmt_sql (Backfill t src dst family direction) = emit_backfill_body t src dst family direction"
| "stmt_sql (VerifyNoNull t dst) = ''SELECT count(*) FROM '' @ t @ '' WHERE '' @ dst @ '' IS NULL''"
| "stmt_sql (VerifyFlipped t src dst flip) =
     ''SELECT count(*) FROM '' @ t @ '' WHERE ('' @ src @ '' IS NULL) IS DISTINCT FROM ('' @ dst
     @ '' IS NULL) OR ('' @ src @ '' IS NOT NULL AND '' @ dst @ '' <> '' @ flip @ ''('' @ src @ ''))''"
| "stmt_sql (Note txt) = txt"

text \<open>
  A statement as lines of a block. The trigger's text has its own line ends, and a comment has
  no semicolon.
\<close>

fun stmt_line :: "FlipStmt \<Rightarrow> string" where
  "stmt_line (CreateAutofill t pairs family direction) = render_autofill_trigger t pairs family direction"
| "stmt_line (Note txt) = txt @ nl"
| "stmt_line s = stmt_sql s @ '';'' @ nl"

definition block_text :: "FlipStmt list \<Rightarrow> string" where
  "block_text ss = concat (map stmt_line ss)"

definition flip_op :: "string \<Rightarrow> string \<Rightarrow> string \<Rightarrow> OperationSql" where
  "flip_op label up down = \<lparr>os_label = label, os_up = up, os_down = down, os_lossy = None\<rparr>"

section \<open>Shared pieces\<close>

datatype EmitMode = Standard | CascadeOnly

definition includes_parent :: "EmitMode \<Rightarrow> bool" where
  "includes_parent mode \<longleftrightarrow> mode = Standard"

definition parent_family :: "PkTypeFlipGroup \<Rightarrow> PkFlipFamily" where
  "parent_family g =
     (case pg_parent_from g of
        HeerId \<Rightarrow> Heer | HeerIdRecencyBiased \<Rightarrow> Heer
      | RanjId \<Rightarrow> Ranj | RanjIdRecencyBiased \<Rightarrow> Ranj
      | _ \<Rightarrow> Heer)"

definition child_family :: "PkFlipChild \<Rightarrow> PkTypeFlipGroup \<Rightarrow> PkFlipFamily" where
  "child_family ch g = (if ch_family ch = parent_family g then ch_family ch else parent_family g)"

definition self_cols :: "PkTypeFlipGroup \<Rightarrow> string list" where
  "self_cols g = (case pg_self_fk g of Some s \<Rightarrow> sf_fk_columns s | None \<Rightarrow> [])"

text \<open>\<open>get(i).copied().unwrap_or(false)\<close>\<close>

definition flag_at :: "bool list \<Rightarrow> nat \<Rightarrow> bool" where
  "flag_at flags i = (if i < length flags then flags ! i else False)"

definition validate_group :: "PkTypeFlipGroup \<Rightarrow> PkFlipError option" where
  "validate_group g =
     (case pg_self_fk g of
        None \<Rightarrow> None
      | Some s \<Rightarrow>
          if list_ex (\<lambda>n. n \<noteq> length (sf_fk_columns s))
               [length (sf_fk_constraint_names s), length (sf_fk_deferrable s),
                length (sf_fk_initially_deferred s)]
          then Some (MalformedSelfFkMetadata (pg_parent_table g) (length (sf_fk_columns s))
                 (length (sf_fk_constraint_names s)) (length (sf_fk_deferrable s))
                 (length (sf_fk_initially_deferred s)))
          else None)"

text \<open>The columns of a join table that get a shadow, with their constraints.\<close>

definition jt_shadow_pairs :: "PkFlipJoinTable \<Rightarrow> PkTypeFlipGroup \<Rightarrow> (string \<times> string) list" where
  "jt_shadow_pairs jt g =
     (jt_fk_to_parent_column jt, jt_fk_to_parent_constraint jt)
     # (if pg_join_table_option g = OptionA
        then (case (jt_fk_to_partner_column jt, jt_fk_to_partner_constraint jt) of
                (Some pcol, Some pcons) \<Rightarrow> [(pcol, pcons)] | _ \<Rightarrow> [])
        else [])"

text \<open>
  The target of a join-table column; \<open>expect\<close> panics when the partner table is missing.
\<close>

definition jt_target :: "PkFlipJoinTable \<Rightarrow> PkTypeFlipGroup \<Rightarrow> string \<Rightarrow> string option" where
  "jt_target jt g col =
     (if col = jt_fk_to_parent_column jt then Some (pg_parent_table g) else jt_fk_to_partner_table jt)"

definition jt_flags :: "PkFlipJoinTable \<Rightarrow> string \<Rightarrow> bool \<times> bool" where
  "jt_flags jt col =
     (if col = jt_fk_to_parent_column jt
      then (jt_fk_to_parent_deferrable jt, jt_fk_to_parent_initially_deferred jt)
      else (jt_fk_to_partner_deferrable jt, jt_fk_to_partner_initially_deferred jt))"

text \<open>Whether every join-table target exists, so that no \<open>expect\<close> panics.\<close>

definition targets_known :: "PkTypeFlipGroup \<Rightarrow> bool" where
  "targets_known g \<longleftrightarrow>
     list_all (\<lambda>jt. list_all (\<lambda>(col, _). jt_target jt g col \<noteq> None) (jt_shadow_pairs jt g))
       (pg_join_tables g)"

section \<open>Preparation\<close>

text \<open>The shadow of one child, and of one join table.\<close>

definition prep_child :: "PkTypeFlipGroup \<Rightarrow> PkFlipChild \<Rightarrow> FlipStmt list" where
  "prep_child g ch =
     (let cf = child_family ch g; dst = shadow (ch_fk_column ch)
      in [AddShadow (ch_table ch) dst (pg_id_type cf),
          CreateAutofill (ch_table ch) [(ch_fk_column ch, dst)] cf (pg_direction g)])"

definition unprep_child :: "PkFlipChild \<Rightarrow> FlipStmt list" where
  "unprep_child ch =
     [DropTriggerIfExists (ch_table ch), DropFunctionIfExists (ch_table ch),
      DropColumnIfExists (ch_table ch) (shadow (ch_fk_column ch))]"

definition prep_join :: "PkTypeFlipGroup \<Rightarrow> PkFlipJoinTable \<Rightarrow> FlipStmt list" where
  "prep_join g jt =
     (let cols = map fst (jt_shadow_pairs jt g)
      in map (\<lambda>col. AddShadow (jt_table jt) (shadow col) (pg_id_type (jt_family jt))) cols
         @ [CreateAutofill (jt_table jt) (map (\<lambda>col. (col, shadow col)) cols) (jt_family jt)
              (pg_direction g)])"

definition unprep_join :: "PkTypeFlipGroup \<Rightarrow> PkFlipJoinTable \<Rightarrow> FlipStmt list" where
  "unprep_join g jt =
     [DropTriggerIfExists (jt_table jt), DropFunctionIfExists (jt_table jt)]
     @ map (\<lambda>(col, _). DropColumnIfExists (jt_table jt) (shadow col)) (jt_shadow_pairs jt g)"

text \<open>
  The parent's own part. The standard emitter pairs the columns of a self reference with its
  constraint names, the partitioned one does not; after \<open>validate_group\<close> both have one length.
\<close>

definition prep_parent :: "PkTypeFlipGroup \<Rightarrow> string list \<Rightarrow> FlipStmt list" where
  "prep_parent g cols =
     (let p = pg_parent_table g; f = parent_family g
      in AddShadow p (shadow PARENT_PK_COLUMN) (pg_id_type f)
         # map (\<lambda>col. AddShadow p (shadow col) (pg_id_type f)) cols
         @ [CreateAutofill p (map (\<lambda>col. (col, shadow col)) (PARENT_PK_COLUMN # cols)) f
              (pg_direction g)])"

definition unprep_parent :: "PkTypeFlipGroup \<Rightarrow> string list \<Rightarrow> FlipStmt list" where
  "unprep_parent g cols =
     (let p = pg_parent_table g
      in map (\<lambda>col. DropColumnIfExists p (shadow col)) (PARENT_PK_COLUMN # cols)
         @ [DropTriggerIfExists p, DropFunctionIfExists p])"

definition paired_self_cols :: "PkTypeFlipGroup \<Rightarrow> string list" where
  "paired_self_cols g =
     (case pg_self_fk g of
        Some s \<Rightarrow> map fst (zip (sf_fk_columns s) (sf_fk_constraint_names s)) | None \<Rightarrow> [])"

definition preparation_up :: "PkTypeFlipGroup \<Rightarrow> EmitMode \<Rightarrow> FlipStmt list" where
  "preparation_up g mode =
     (if includes_parent mode then prep_parent g (paired_self_cols g) else [])
     @ concat (map (prep_child g) (pg_children g)) @ concat (map (prep_join g) (pg_join_tables g))"

definition preparation_down :: "PkTypeFlipGroup \<Rightarrow> EmitMode \<Rightarrow> FlipStmt list" where
  "preparation_down g mode =
     (if includes_parent mode then unprep_parent g (paired_self_cols g) else [])
     @ concat (map unprep_child (pg_children g)) @ concat (map (unprep_join g) (pg_join_tables g))"

definition emit_preparation_with_mode :: "PkTypeFlipGroup \<Rightarrow> EmitMode \<Rightarrow> OperationSql" where
  "emit_preparation_with_mode g mode =
     flip_op ((case mode of Standard \<Rightarrow> ''PkFlipPrep '' | CascadeOnly \<Rightarrow> ''PkFlipPrepCascade '')
         @ pg_parent_table g)
       (block_text (preparation_up g mode)) (block_text (preparation_down g mode))"

section \<open>Backfill and verification\<close>

definition backfill_down :: string where
  "backfill_down =
     ''-- Backfill is idempotent under '' @ tick ''WHERE dst IS NULL'' @ ''; the'' @ nl
     @ ''-- down side has no inverse beyond dropping the shadow'' @ nl
     @ ''-- column itself, which segment 1's down already covers.''"

text \<open>Each statement with the suffix of its label; the label starts with the table.\<close>

definition backfill_jobs :: "PkTypeFlipGroup \<Rightarrow> EmitMode \<Rightarrow> (string \<times> FlipStmt) list" where
  "backfill_jobs g mode =
     (let p = pg_parent_table g; f = parent_family g; d = pg_direction g
      in (if includes_parent mode then [(p, Backfill p ''id'' (shadow ''id'') f d)] else [])
         @ map (\<lambda>col. (p @ '' '' @ col, Backfill p col (shadow col) f d)) (self_cols g)
         @ map (\<lambda>ch. (ch_table ch, Backfill (ch_table ch) (ch_fk_column ch)
              (shadow (ch_fk_column ch)) (child_family ch g) d)) (pg_children g)
         @ concat (map (\<lambda>jt. map (\<lambda>(col, _). (jt_table jt @ '' '' @ col,
              Backfill (jt_table jt) col (shadow col) (jt_family jt) d)) (jt_shadow_pairs jt g))
              (pg_join_tables g)))"

definition emit_backfill_statements_with_mode :: "PkTypeFlipGroup \<Rightarrow> EmitMode \<Rightarrow> OperationSql list" where
  "emit_backfill_statements_with_mode g mode =
     map (\<lambda>(label, s). flip_op (''PkFlipBackfill '' @ label) (stmt_sql s) backfill_down)
       (backfill_jobs g mode)"

definition verify_jobs :: "PkTypeFlipGroup \<Rightarrow> EmitMode \<Rightarrow> (string \<times> FlipStmt) list" where
  "verify_jobs g mode =
     (let p = pg_parent_table g; d = pg_direction g
      in (if includes_parent mode then [(p @ '' pk-non-null'', VerifyNoNull p (shadow ''id''))] else [])
         @ map (\<lambda>col. (p @ '' '' @ col,
              VerifyFlipped p col (shadow col) (flip_fn_name (parent_family g) d))) (self_cols g)
         @ map (\<lambda>ch. (ch_table ch @ '' '' @ ch_fk_column ch,
              if ch_fk_nullable ch
              then VerifyFlipped (ch_table ch) (ch_fk_column ch) (shadow (ch_fk_column ch))
                     (flip_fn_name (child_family ch g) d)
              else VerifyNoNull (ch_table ch) (shadow (ch_fk_column ch)))) (pg_children g)
         @ concat (map (\<lambda>jt. map (\<lambda>(col, _). (jt_table jt @ '' '' @ col,
              VerifyFlipped (jt_table jt) col (shadow col) (flip_fn_name (jt_family jt) d)))
              (jt_shadow_pairs jt g)) (pg_join_tables g)))"

definition emit_verification_statements_with_mode ::
  "PkTypeFlipGroup \<Rightarrow> EmitMode \<Rightarrow> OperationSql list" where
  "emit_verification_statements_with_mode g mode =
     map (\<lambda>(label, s). flip_op (''PkFlipVerify '' @ label) (stmt_sql s) []) (verify_jobs g mode)"

section \<open>Foreign keys and indexes on the shadow columns\<close>

definition shadow_fk :: "string \<Rightarrow> string \<Rightarrow> string" where
  "shadow_fk table col = table @ ''_'' @ shadow col @ ''_fkey''"

text \<open>One reference: table, column, target, deferrable, initially deferred.\<close>

definition shadow_refs :: "PkTypeFlipGroup \<Rightarrow> (string \<times> string \<times> string \<times> bool \<times> bool) list" where
  "shadow_refs g =
     (case pg_self_fk g of
        None \<Rightarrow> []
      | Some s \<Rightarrow> map (\<lambda>(i, col). (pg_parent_table g, col, pg_parent_table g,
            flag_at (sf_fk_deferrable s) i, flag_at (sf_fk_initially_deferred s) i))
          (enumerate 0 (sf_fk_columns s)))
     @ map (\<lambda>ch. (ch_table ch, ch_fk_column ch, pg_parent_table g, ch_fk_deferrable ch,
          ch_fk_initially_deferred ch)) (pg_children g)
     @ concat (map (\<lambda>jt. map (\<lambda>(col, _). (jt_table jt, col, the (jt_target jt g col), jt_flags jt col))
          (jt_shadow_pairs jt g)) (pg_join_tables g))"

definition shadow_fk_stmts :: "string \<times> string \<times> string \<times> bool \<times> bool \<Rightarrow> FlipStmt list" where
  "shadow_fk_stmts r =
     (case r of (t, col, target, def, ini) \<Rightarrow>
        [AddFlipFk t (shadow_fk t col) (shadow col) target (shadow ''id'') None def ini True,
         ValidateConstraint t (shadow_fk t col)])"

definition emit_child_fk_statements :: "PkTypeFlipGroup \<Rightarrow> OperationSql list" where
  "emit_child_fk_statements g =
     concat (map (\<lambda>(t, col, target, def, ini).
         [flip_op (''PkFlipAddFk '' @ t @ '' '' @ col)
            (stmt_sql (AddFlipFk t (shadow_fk t col) (shadow col) target (shadow ''id'') None def ini True))
            (stmt_sql (DropConstraintIfExists t (shadow_fk t col))),
          flip_op (''PkFlipValidateFk '' @ t @ '' '' @ col)
            (stmt_sql (ValidateConstraint t (shadow_fk t col))) []]) (shadow_refs g))"

definition shadow_index :: "string \<Rightarrow> string \<Rightarrow> string" where
  "shadow_index table col = ''idx_'' @ table @ ''_'' @ shadow col"

definition index_jobs :: "PkTypeFlipGroup \<Rightarrow> EmitMode \<Rightarrow> (string \<times> bool \<times> string \<times> string) list" where
  "index_jobs g mode =
     (let p = pg_parent_table g
      in (if includes_parent mode then [(p, True, p, ''id'')] else [])
         @ (if pg_partitioned_parent g = None
            then map (\<lambda>col. (p @ '' '' @ col, False, p, col)) (self_cols g) else [])
         @ map (\<lambda>ch. (ch_table ch @ '' '' @ ch_fk_column ch, ch_fk_unique ch, ch_table ch,
              ch_fk_column ch)) (pg_children g)
         @ concat (map (\<lambda>jt. map (\<lambda>(col, _). (jt_table jt @ '' '' @ col, False, jt_table jt, col))
              (jt_shadow_pairs jt g)) (pg_join_tables g)))"

definition shadow_index_stmt :: "bool \<times> string \<times> string \<Rightarrow> FlipStmt" where
  "shadow_index_stmt j =
     (case j of (uniq, t, col) \<Rightarrow> CreateConcurrently uniq (shadow_index t col) t (shadow col))"

definition emit_concurrent_index_statements_with_mode ::
  "PkTypeFlipGroup \<Rightarrow> EmitMode \<Rightarrow> OperationSql list" where
  "emit_concurrent_index_statements_with_mode g mode =
     map (\<lambda>(label, uniq, t, col). flip_op (''PkFlipConcurrentIndex '' @ label)
            (stmt_sql (shadow_index_stmt (uniq, t, col)))
            (stmt_sql (DropIndexIfExists (shadow_index t col))))
       (index_jobs g mode)"

section \<open>NOT NULL proof\<close>

definition not_null_stmts :: "string \<Rightarrow> string \<Rightarrow> FlipStmt list" where
  "not_null_stmts t dst =
     (let c = t @ ''_'' @ dst @ ''_nn''
      in [AddNotNullCheck t c dst, ValidateConstraint t c, SetColumnNotNull t dst, DropConstraint t c])"

definition required_columns :: "PkTypeFlipGroup \<Rightarrow> (string \<times> string) list" where
  "required_columns g =
     (pg_parent_table g, shadow ''id'')
     # map (\<lambda>ch. (ch_table ch, shadow (ch_fk_column ch)))
         (filter (\<lambda>ch. \<not> ch_fk_nullable ch) (pg_children g))"

definition not_null_up :: "PkTypeFlipGroup \<Rightarrow> FlipStmt list" where
  "not_null_up g = concat (map (\<lambda>(t, dst). not_null_stmts t dst) (required_columns g))"

definition not_null_down :: "PkTypeFlipGroup \<Rightarrow> FlipStmt list" where
  "not_null_down g = map (\<lambda>(t, dst). DropColumnNotNull t dst) (required_columns g)"

definition emit_not_null_proof :: "PkTypeFlipGroup \<Rightarrow> OperationSql" where
  "emit_not_null_proof g =
     flip_op (''PkFlipNotNullProof '' @ pg_parent_table g) (block_text (not_null_up g))
       (block_text (not_null_down g))"

section \<open>Cutover\<close>

definition cutover_phase_drop_old_fks :: "PkTypeFlipGroup \<Rightarrow> FlipStmt list" where
  "cutover_phase_drop_old_fks g =
     map (\<lambda>ch. DropConstraint (ch_table ch) (ch_fk_constraint_name ch)) (pg_children g)
     @ concat (map (\<lambda>jt. map (\<lambda>(_, cons). DropConstraint (jt_table jt) cons) (jt_shadow_pairs jt g))
         (pg_join_tables g))
     @ (case pg_self_fk g of
          Some s \<Rightarrow> map (DropConstraint (pg_parent_table g)) (sf_fk_constraint_names s) | None \<Rightarrow> [])"

definition pkey_name :: "string \<Rightarrow> string" where
  "pkey_name t = t @ ''_pkey''"

text \<open>The canonical self references, after the columns have their names back.\<close>

definition readd_self_fks :: "PkTypeFlipGroup \<Rightarrow> FlipStmt list" where
  "readd_self_fks g =
     (case pg_self_fk g of
        None \<Rightarrow> []
      | Some s \<Rightarrow>
          (let p = pg_parent_table g
           in map (\<lambda>(i, col, cons). AddFlipFk p cons col p ''id'' None (flag_at (sf_fk_deferrable s) i)
                  (flag_at (sf_fk_initially_deferred s) i) False)
                (enumerate 0 (zip (sf_fk_columns s) (sf_fk_constraint_names s)))))"

definition cutover_phase_promote_parent :: "PkTypeFlipGroup \<Rightarrow> FlipStmt list" where
  "cutover_phase_promote_parent g =
     (let p = pg_parent_table g; cols = self_cols g
      in [DropConstraint p (pkey_name p),
          PrimaryKeyUsingIndex p (pkey_name p) (shadow_index p ''id''),
          SetNextDefault p (shadow ''id'') (next_fn_name (parent_family g) (pg_direction g)),
          DropColumnDefault p ''id'',
          DropTableColumn p ''id'']
         @ map (DropTableColumn p) cols
         @ [DropTrigger p, DropFunction p, RenameTableColumn p (shadow ''id'') ''id'']
         @ map (\<lambda>col. DropConstraint p (shadow_fk p col)) cols
         @ map (\<lambda>col. RenameTableColumn p (shadow col) col) cols
         @ readd_self_fks g)"

definition finalise_child :: "PkTypeFlipGroup \<Rightarrow> PkFlipChild \<Rightarrow> FlipStmt list" where
  "finalise_child g ch =
     (let t = ch_table ch; col = ch_fk_column ch
      in [DropTableColumn t col, DropTrigger t, DropFunction t, DropConstraint t (shadow_fk t col),
          RenameTableColumn t (shadow col) col,
          AddFlipFk t (ch_fk_constraint_name ch) col (pg_parent_table g) ''id'' (Some (ch_on_delete ch))
            (ch_fk_deferrable ch) (ch_fk_initially_deferred ch) False])"

definition cutover_phase_finalise_children :: "PkTypeFlipGroup \<Rightarrow> FlipStmt list" where
  "cutover_phase_finalise_children g = concat (map (finalise_child g) (pg_children g))"

definition layout_note :: "PkTypeFlipGroup \<Rightarrow> PkFlipJoinTable \<Rightarrow> FlipStmt" where
  "layout_note g jt =
     Note (''-- Join-table layout: ''
       @ (case pg_join_table_option g of OptionA \<Rightarrow> ''OptionA'' | OptionB \<Rightarrow> ''OptionB'')
       @ '' (parent='' @ pg_parent_table g @ '', join_table='' @ jt_table jt @ '')'')"

definition finalise_join :: "PkTypeFlipGroup \<Rightarrow> PkFlipJoinTable \<Rightarrow> FlipStmt list" where
  "finalise_join g jt =
     (let t = jt_table jt; pairs = jt_shadow_pairs jt g
      in map (\<lambda>(col, _). DropTableColumn t col) pairs
         @ [DropTrigger t, DropFunction t]
         @ map (\<lambda>(col, _). DropConstraint t (shadow_fk t col)) pairs
         @ map (\<lambda>(col, _). RenameTableColumn t (shadow col) col) pairs
         @ map (\<lambda>(col, cons). AddFlipFk t cons col (the (jt_target jt g col)) ''id'' None
              (fst (jt_flags jt col)) (snd (jt_flags jt col)) False) pairs
         @ [layout_note g jt])"

definition cutover_phase_finalise_join_tables :: "PkTypeFlipGroup \<Rightarrow> FlipStmt list" where
  "cutover_phase_finalise_join_tables g = concat (map (finalise_join g) (pg_join_tables g))"

definition defer_if_cycles :: "bool \<Rightarrow> FlipStmt list" where
  "defer_if_cycles cyclic = (if cyclic then [SetConstraintsDeferred] else [])"

definition cutover_up :: "PkTypeFlipGroup \<Rightarrow> FlipStmt list" where
  "cutover_up g =
     defer_if_cycles (pg_cycles g \<noteq> []) @ cutover_phase_drop_old_fks g
     @ cutover_phase_promote_parent g @ cutover_phase_finalise_children g
     @ cutover_phase_finalise_join_tables g"

definition lossy_op :: "string \<Rightarrow> string \<Rightarrow> string \<Rightarrow> string \<Rightarrow> OperationSql" where
  "lossy_op label up down detail =
     \<lparr>os_label = label, os_up = up, os_down = down,
      os_lossy = Some \<lparr>lw_kind = LrPkTypeFlipPostCutover, lw_detail = detail\<rparr>\<rparr>"

definition emit_cutover :: "PkTypeFlipGroup \<Rightarrow> OperationSql" where
  "emit_cutover g =
     (let p = pg_parent_table g
      in lossy_op (''PkFlipCutover '' @ p) (block_text (cutover_up g))
        (''-- POINT OF NO RETURN '' @ em_dash @ '' segment 5 (cutover) for '' @ p @ '' cannot be'' @ nl
         @ ''-- reversed by '' @ tick ''down'' @ '' SQL alone. Rollback requires an inverse'' @ nl
         @ ''-- migration: add the previous-direction column back, install a'' @ nl
         @ ''-- reverse autofill trigger, re-run heeranjid_bulk_backfill, and'' @ nl
         @ ''-- run a second cutover. Plan that contingency BEFORE running'' @ nl
         @ ''-- the forward cutover.'')
        (''POINT OF NO RETURN: cutover for '' @ tick p @ '' removes the prior PK column ''
         @ ''and trigger; rollback requires an inverse migration''))"

section \<open>Partitioned parents\<close>

definition emit_partitioned_preparation :: "PkTypeFlipGroup \<Rightarrow> OperationSql" where
  "emit_partitioned_preparation g =
     flip_op (''PkFlipPartitionedPrep '' @ pg_parent_table g) (block_text (prep_parent g (self_cols g)))
       (block_text (unprep_parent g (self_cols g)))"

definition EACH_LEAF :: string where
  "EACH_LEAF = ''<EACH_LEAF_TABLE>''"

definition emit_partitioned_backfill_only :: "PkTypeFlipGroup \<Rightarrow> OperationSql" where
  "emit_partitioned_backfill_only g =
     flip_op (''PkFlipPartitionedBackfill '' @ pg_parent_table g)
       (''-- Partitioned parent: invoke the backfill primitive once per leaf'' @ nl
        @ ''-- partition. The runner enumerates leaves from pg_inherits at apply'' @ nl
        @ ''-- time and emits one statement per leaf in deterministic'' @ nl
        @ ''-- regclass::text order, replacing the '' @ EACH_LEAF @ '' placeholder'' @ nl
        @ ''-- with the concrete partition name. Operators hand-running this'' @ nl
        @ ''-- file MUST expand the placeholder themselves before executing.'' @ nl
        @ stmt_line (Backfill EACH_LEAF ''id'' (shadow ''id'') (parent_family g) (pg_direction g)))
       (''-- Partitioned backfill is idempotent under '' @ tick ''WHERE dst IS NULL'' @ '';'' @ nl
        @ ''-- the down side has no inverse beyond dropping the shadow column.'')"

definition emit_partitioned_verify :: "PkTypeFlipGroup \<Rightarrow> OperationSql" where
  "emit_partitioned_verify g =
     flip_op (''PkFlipVerify '' @ pg_parent_table g @ '' pk-non-null-aggregate'')
       (stmt_sql (VerifyNoNull (pg_parent_table g) (shadow ''id''))) []"

definition partition_column :: "PkTypeFlipGroup \<Rightarrow> string" where
  "partition_column g =
     (case pg_partitioned_parent g of
        Some meta \<Rightarrow> part_column (pm_partition meta) | None \<Rightarrow> ''partition_key'')"

definition partition_index :: "PkTypeFlipGroup \<Rightarrow> string" where
  "partition_index g =
     pg_parent_table g @ ''_'' @ partition_column g @ ''_'' @ shadow ''id'' @ ''_idx''"

text \<open>The comment that tells the runner to index each leaf and attach it.\<close>

definition leaf_note :: "string \<Rightarrow> string \<Rightarrow> string \<Rightarrow> string \<Rightarrow> FlipStmt" where
  "leaf_note kind leaf_index cols index =
     Note (''-- Per leaf: CREATE '' @ kind @ ''INDEX CONCURRENTLY <leaf>_'' @ leaf_index @ nl
       @ ''--             ON <leaf> ('' @ cols @ '');'' @ nl
       @ ''-- Then ALTER INDEX '' @ index @ '' ATTACH PARTITION'' @ nl
       @ ''--             <leaf>_'' @ leaf_index @ '';'' @ nl
       @ ''-- The runner enumerates leaves from pg_inherits and emits these'' @ nl
       @ ''-- per-leaf statements at apply time.'')"

definition emit_partitioned_indexes :: "PkTypeFlipGroup \<Rightarrow> OperationSql" where
  "emit_partitioned_indexes g =
     (let p = pg_parent_table g; pkey = partition_column g
      in flip_op (''PkFlipPartitionedIndex '' @ p)
        (block_text
          [CreateOnOnly True (partition_index g) p [pkey, shadow ''id''],
           leaf_note ''UNIQUE '' (pkey @ ''_'' @ shadow ''id'' @ ''_idx'') (pkey @ '', '' @ shadow ''id'')
             (partition_index g)])
        (block_text [DropIndexIfExists (partition_index g)]))"

definition emit_partitioned_self_fk_indexes :: "PkTypeFlipGroup \<Rightarrow> OperationSql list" where
  "emit_partitioned_self_fk_indexes g =
     (let p = pg_parent_table g
      in if pg_partitioned_parent g = None then []
         else map (\<lambda>col. flip_op (''PkFlipPartitionedSelfFkIndex '' @ p)
             (block_text
               [CreateOnOnly False (shadow_index p col) p [shadow col],
                leaf_note [] (shadow col @ ''_idx'') (shadow col) (shadow_index p col)])
             (stmt_sql (DropIndexIfExists (shadow_index p col)) @ '';'')) (self_cols g))"

definition partitioned_cutover_up :: "PkTypeFlipGroup \<Rightarrow> FlipStmt list" where
  "partitioned_cutover_up g =
     (let p = pg_parent_table g; cols = self_cols g
      in defer_if_cycles (pg_cycles g \<noteq> []) @ cutover_phase_drop_old_fks g
         @ [DropConstraint p (pkey_name p),
            AddPrimaryKey p (partition_column g) (shadow ''id''),
            SetNextDefault p (shadow ''id'') (next_fn_name (parent_family g) (pg_direction g)),
            DropColumnDefault p ''id'',
            DropTableColumn p ''id'',
            DropTrigger p, DropFunction p, RenameTableColumn p (shadow ''id'') ''id'']
         @ map (DropTableColumn p) cols
         @ map (\<lambda>col. DropConstraint p (shadow_fk p col)) cols
         @ map (\<lambda>col. RenameTableColumn p (shadow col) col) cols
         @ readd_self_fks g
         @ cutover_phase_finalise_children g @ cutover_phase_finalise_join_tables g)"

definition emit_partitioned_cutover_with_cascade :: "PkTypeFlipGroup \<Rightarrow> OperationSql" where
  "emit_partitioned_cutover_with_cascade g =
     (let p = pg_parent_table g
      in lossy_op (''PkFlipPartitionedCutover '' @ p) (block_text (partitioned_cutover_up g))
        (''-- POINT OF NO RETURN '' @ em_dash @ '' partitioned cutover for '' @ p @ '' cannot be'' @ nl
         @ ''-- reversed by '' @ tick ''down'' @ '' SQL alone. Inverse migration required.'')
        (''POINT OF NO RETURN: partitioned cutover for '' @ tick p @ '' removes the prior ''
         @ ''PK column and trigger; rollback requires an inverse migration. ''
         @ ''Partitioned-table cutover is seconds-to-minutes class '' @ em_dash @ '' benchmark first.''))"

section \<open>Plans\<close>

abbreviation tx :: "OperationSql list \<Rightarrow> Segment" where
  "tx ss \<equiv> \<lparr>sg_kind = Transactional, sg_statements = ss\<rparr>"

abbreviation non_tx :: "OperationSql list \<Rightarrow> Segment" where
  "non_tx ss \<equiv> \<lparr>sg_kind = NonTransactional, sg_statements = ss\<rparr>"

definition tx_if_any :: "OperationSql list \<Rightarrow> Segment list" where
  "tx_if_any ss = (if ss = [] then [] else [tx ss])"

definition build_segments_partitioned :: "PkTypeFlipGroup \<Rightarrow> Segment list" where
  "build_segments_partitioned g =
     (let prep = emit_partitioned_preparation g;
          cascade = emit_preparation_with_mode g CascadeOnly;
          prep' = (if os_up cascade = [] then prep
            else prep\<lparr>os_up := os_up prep @ os_up cascade,
                      os_down := os_down cascade @ nl @ os_down prep\<rparr>)
      in [tx [prep'],
          non_tx (emit_partitioned_backfill_only g # emit_backfill_statements_with_mode g CascadeOnly),
          tx (emit_partitioned_verify g # emit_verification_statements_with_mode g CascadeOnly),
          non_tx (emit_partitioned_indexes g # emit_partitioned_self_fk_indexes g
            @ emit_concurrent_index_statements_with_mode g CascadeOnly)]
         @ tx_if_any (emit_child_fk_statements g)
         @ [tx [emit_not_null_proof g], tx [emit_partitioned_cutover_with_cascade g]])"

definition build_segments_standard :: "PkTypeFlipGroup \<Rightarrow> Segment list" where
  "build_segments_standard g =
     [tx [emit_preparation_with_mode g Standard],
      non_tx (emit_backfill_statements_with_mode g Standard)]
     @ tx_if_any (emit_verification_statements_with_mode g Standard)
     @ [non_tx (emit_concurrent_index_statements_with_mode g Standard)]
     @ tx_if_any (emit_child_fk_statements g)
     @ [tx [emit_not_null_proof g], tx [emit_cutover g]]"

text \<open>\<^const>\<open>None\<close> is the panic of a join table whose partner table is missing.\<close>

definition build_segments :: "PkTypeFlipGroup \<Rightarrow> (PkFlipError + Segment list) option" where
  "build_segments g =
     (case validate_group g of
        Some e \<Rightarrow> Some (Inl e)
      | None \<Rightarrow>
          if \<not> targets_known g then None
          else Some (Inr (if pg_partitioned_parent g = None then build_segments_standard g
                          else build_segments_partitioned g)))"

definition lower_pk_flip_group ::
  "PkTypeFlipGroup \<Rightarrow> BucketKey \<Rightarrow> (PkFlipError + BucketKey \<times> Classification \<times> Segment list) option" where
  "lower_pk_flip_group g bucket =
     map_option (map_sum id (\<lambda>segs. (bucket, ClsPkTypeFlip (pg_co_destructive g) (pg_co_lossy g), segs)))
       (build_segments g)"

text \<open>The blocks of the members, separated by a line end where both sides have text.\<close>

definition join_block :: "string \<Rightarrow> string \<Rightarrow> string" where
  "join_block acc s = acc @ (if acc \<noteq> [] \<and> s \<noteq> [] then nl else []) @ s"

definition join_blocks :: "string list \<Rightarrow> string" where
  "join_blocks ss = foldl join_block [] ss"

definition cutover_multi_up :: "PkTypeFlipGroup list \<Rightarrow> FlipStmt list" where
  "cutover_multi_up gs =
     defer_if_cycles (list_ex (\<lambda>g. pg_cycles g \<noteq> []) gs)
     @ concat (map cutover_phase_drop_old_fks gs) @ concat (map cutover_phase_promote_parent gs)
     @ concat (map cutover_phase_finalise_children gs)
     @ concat (map cutover_phase_finalise_join_tables gs)"

definition emit_cutover_multi :: "PkTypeFlipGroup list \<Rightarrow> OperationSql" where
  "emit_cutover_multi gs =
     (let names = join_str '','' (map pg_parent_table gs)
      in lossy_op (''PkFlipCutoverMulti ['' @ names @ '']'') (block_text (cutover_multi_up gs))
        (''-- POINT OF NO RETURN '' @ em_dash @ '' segment 5 (cutover) for cluster ['' @ names @ ''] cannot be'' @ nl
         @ ''-- reversed by '' @ tick ''down'' @ '' SQL alone. Rollback requires an inverse'' @ nl
         @ ''-- migration: add the previous-direction columns back, install'' @ nl
         @ ''-- reverse autofill triggers, re-run heeranjid_bulk_backfill on'' @ nl
         @ ''-- every member, and run a second cutover. Plan that contingency'' @ nl
         @ ''-- BEFORE running the forward cutover.'')
        (''POINT OF NO RETURN: cutover for cluster ['' @ names @ ''] removes ''
         @ ''prior PK columns and triggers across every member; rollback ''
         @ ''requires an inverse migration''))"

definition build_segments_cluster :: "PkTypeFlipGroup list \<Rightarrow> Segment list" where
  "build_segments_cluster gs =
     (let names = join_str '','' (map pg_parent_table gs);
          preps = map (\<lambda>g. emit_preparation_with_mode g Standard) gs;
          proofs = map emit_not_null_proof gs
      in [tx [flip_op (''PkFlipPrepMulti ['' @ names @ '']'') (join_blocks (map os_up preps))
            (join_blocks (map os_down preps))],
          non_tx (concat (map (\<lambda>g. emit_backfill_statements_with_mode g Standard) gs))]
         @ tx_if_any (concat (map (\<lambda>g. emit_verification_statements_with_mode g Standard) gs))
         @ [non_tx (concat (map (\<lambda>g. emit_concurrent_index_statements_with_mode g Standard) gs))]
         @ tx_if_any (concat (map emit_child_fk_statements gs))
         @ [tx [flip_op (''PkFlipNotNullProofMulti ['' @ names @ '']'') (join_blocks (map os_up proofs))
              (join_blocks (map os_down proofs))],
            tx [emit_cutover_multi gs]])"

fun first_invalid :: "PkTypeFlipGroup list \<Rightarrow> PkFlipError option" where
  "first_invalid [] = None"
| "first_invalid (g # gs) =
     (case validate_group g of Some e \<Rightarrow> Some e | None \<Rightarrow> first_invalid gs)"

definition build_segments_multi :: "PkTypeFlipGroup list \<Rightarrow> (DiffError + Segment list) option" where
  "build_segments_multi gs =
     (if gs = [] then Some (Inr [])
      else case first_invalid gs of
        Some e \<Rightarrow> Some (Inl (PkFlipMalformedSelfFkMetadata e))
      | None \<Rightarrow>
          if length gs = 1
          then map_option (map_sum PkFlipMalformedSelfFkMetadata id) (build_segments (hd gs))
          else case partitioned_multi_parent_cluster_error gs of
            Some e \<Rightarrow> Some (Inl e)
          | None \<Rightarrow> if list_all targets_known gs then Some (Inr (build_segments_cluster gs)) else None)"

end
