(* ===== verification/Segment.thy ===== *)
theory Segment
  imports Toposort Pk_Flip "HOL-Library.Product_Lexorder"
begin

text \<open>
  The planner, \<open>djogi/src/migrate/segment.rs\<close>: operations are ordered by phase (new tables
  topologically), lowered, prefixed with the helper functions their SQL mentions
  (\<open>compose.rs\<close>), and cut into runs of one transaction kind. A primary-key flip brings its
  own segments and replaces the rest.
\<close>

section \<open>Types\<close>

record MigrationPlan =
  mp_bucket :: BucketKey
  mp_classification :: Classification
  mp_segments :: "Segment list"

definition new_if_non_empty :: "SegmentKind \<Rightarrow> OperationSql list \<Rightarrow> Segment option" where
  "new_if_non_empty kind statements =
     (if statements = [] then None else Some \<lparr>sg_kind = kind, sg_statements = statements\<rparr>)"

section \<open>Ordering\<close>

fun classify_operation :: "SchemaOperation \<Rightarrow> SegmentKind" where
  "classify_operation (RenameApp _ _) = MetadataOnly"
| "classify_operation (MoveModelBetweenApps _ _ _) = MetadataOnly"
| "classify_operation (AddIndex idx) =
     (if i_requires_out_of_transaction idx then NonTransactional else Transactional)"
| "classify_operation (DropIndex idx) =
     (if i_requires_out_of_transaction idx then NonTransactional else Transactional)"
| "classify_operation _ = Transactional"

fun operation_phase :: "SchemaOperation \<Rightarrow> nat" where
  "operation_phase (AddEnum _) = 0"
| "operation_phase (RenameTable _ _) = 1"
| "operation_phase (AddTable _) = 2"
| "operation_phase (AddColumn _ _) = 3"
| "operation_phase (RenameColumn _ _ _) = 3"
| "operation_phase (AlterColumn _ _ _) = 3"
| "operation_phase (AddForeignKey _ _ _) = 3"
| "operation_phase (SetTableComment _ _ _) = 3"
| "operation_phase (SetStorageParams _ _ _) = 3"
| "operation_phase (SetTablespace _ _ _) = 3"
| "operation_phase (AddEnumVariant _ _ _) = 4"
| "operation_phase (AddIndex _) = 5"
| "operation_phase (AddExclusionConstraint _ _) = 5"
| "operation_phase (DropIndex _) = 6"
| "operation_phase (DropExclusionConstraint _ _ _) = 6"
| "operation_phase (DropForeignKey _ _ _) = 7"
| "operation_phase (DropColumn _ _) = 8"
| "operation_phase (DropTable _) = 9"
| "operation_phase (DropEnum _) = 10"
| "operation_phase (RenameApp _ _) = 11"
| "operation_phase (MoveModelBetweenApps _ _ _) = 11"
| "operation_phase (PkTypeFlip _ _ _) = 12"
| "operation_phase (PkTypeFlipGroup _) = 12"
| "operation_phase (PkTypeFlipMultiGroup _) = 12"
| "operation_phase (Unsupported _) = 12"

definition tag_operations :: "SchemaOperation list \<Rightarrow> (nat \<times> nat \<times> SchemaOperation) list" where
  "tag_operations ops =
     sort_key (\<lambda>(phase, idx, _). (phase, idx))
       (map (\<lambda>(i, op). (operation_phase op, i, op)) (enumerate 0 ops))"

fun split_tagged ::
  "(nat \<times> nat \<times> SchemaOperation) list \<Rightarrow>
   SchemaOperation list \<times> TableSchema list \<times> SchemaOperation list" where
  "split_tagged [] = ([], [], [])"
| "split_tagged ((phase, i, op) # tagged) =
     (case split_tagged tagged of (head, add_tables, tail) \<Rightarrow>
        (case op of
           AddTable t \<Rightarrow>
             if phase = 2 then (head, t # add_tables, tail)
             else if phase < 2 then (op # head, add_tables, tail)
             else (head, add_tables, op # tail)
         | _ \<Rightarrow>
             if phase < 2 then (op # head, add_tables, tail)
             else (head, add_tables, op # tail)))"

definition order_operations :: "SchemaOperation list \<Rightarrow> SchemaOperation list option" where
  "order_operations ops =
     (case split_tagged (tag_operations ops) of (head, add_tables, tail) \<Rightarrow>
        (case toposort_add_tables add_tables of
           None \<Rightarrow> None
         | Some (toposorted, follow_up_fks) \<Rightarrow>
             Some (head @ map AddTable toposorted @ follow_up_fks @ tail)))"

section \<open>Helper functions\<close>

definition text_lines :: "string list \<Rightarrow> string" where
  "text_lines ls = concat (map (\<lambda>l. l @ [CHR 0x0A]) ls)"

definition NUMERIC_ARRAY_HELPER_MARKER :: string where
  "NUMERIC_ARRAY_HELPER_MARKER = ''djogi.__djogi_numeric_array_is_rust_decimal_v1(''"

definition NUMERIC_ARRAY_HELPER_PRELUDE :: string where
  "NUMERIC_ARRAY_HELPER_PRELUDE =
   text_lines
     [''CREATE SCHEMA IF NOT EXISTS djogi;'',
      [],
      ''CREATE OR REPLACE FUNCTION djogi.__djogi_numeric_array_is_rust_decimal_v1(input_array pg_catalog.numeric[])'',
      ''RETURNS pg_catalog.bool'',
      ''LANGUAGE sql'',
      ''IMMUTABLE STRICT PARALLEL SAFE'',
      ''AS $$'',
      ''    SELECT COALESCE('',
      ''        pg_catalog.bool_and('',
      ''            value IS NULL'',
      ''            OR ('',
      ''                pg_catalog.scale(value) IS NOT NULL'',
      ''                AND pg_catalog.scale(value) <= 28'',
      ''                AND pg_catalog.abs(value)'',
      ''                    * pg_catalog.power(10::pg_catalog.numeric, pg_catalog.scale(value))'',
      ''                    <= 79228162514264337593543950335::pg_catalog.numeric'',
      ''            )'',
      ''        ),'',
      ''        true'',
      ''    )'',
      ''    FROM pg_catalog.unnest(input_array) AS value(value);'',
      ''$$;'']"

definition requires_numeric_array_helper :: "OperationSql list \<Rightarrow> bool" where
  "requires_numeric_array_helper operations \<longleftrightarrow>
     list_ex (\<lambda>op. contains_str NUMERIC_ARRAY_HELPER_MARKER (os_up op)
                   \<or> contains_str NUMERIC_ARRAY_HELPER_MARKER (os_down op)) operations"

definition DATE_ARRAY_HELPER_MARKER :: string where
  "DATE_ARRAY_HELPER_MARKER = ''djogi.__djogi_date_array_is_finite_v1(''"

definition DATE_ARRAY_HELPER_PRELUDE :: string where
  "DATE_ARRAY_HELPER_PRELUDE =
   text_lines
     [''CREATE SCHEMA IF NOT EXISTS djogi;'',
      [],
      ''CREATE OR REPLACE FUNCTION djogi.__djogi_date_array_is_finite_v1(input_array pg_catalog.date[])'',
      ''RETURNS pg_catalog.bool'',
      ''LANGUAGE sql'',
      ''IMMUTABLE STRICT PARALLEL SAFE'',
      ''AS $$'',
      ''    SELECT COALESCE('',
      ''        pg_catalog.bool_and('',
      ''            value IS NULL'',
      ''            OR ('',
      ''                pg_catalog.isfinite(value)'',
      ''                AND value <= '9999-12-31'::pg_catalog.date'',
      ''            )'',
      ''        ),'',
      ''        true'',
      ''    )'',
      ''    FROM pg_catalog.unnest(input_array) AS value(value);'',
      ''$$;'']"

definition requires_date_array_helper :: "OperationSql list \<Rightarrow> bool" where
  "requires_date_array_helper operations \<longleftrightarrow>
     list_ex (\<lambda>op. contains_str DATE_ARRAY_HELPER_MARKER (os_up op)
                   \<or> contains_str DATE_ARRAY_HELPER_MARKER (os_down op)) operations"

definition TSTZ_ARRAY_HELPER_MARKER :: string where
  "TSTZ_ARRAY_HELPER_MARKER = ''djogi.__djogi_tstz_array_is_finite_v1(''"

definition TSTZ_ARRAY_HELPER_PRELUDE :: string where
  "TSTZ_ARRAY_HELPER_PRELUDE =
   text_lines
     [''CREATE SCHEMA IF NOT EXISTS djogi;'',
      [],
      ''CREATE OR REPLACE FUNCTION djogi.__djogi_tstz_array_is_finite_v1(input_array pg_catalog.timestamptz[])'',
      ''RETURNS pg_catalog.bool'',
      ''LANGUAGE sql'',
      ''IMMUTABLE STRICT PARALLEL SAFE'',
      ''AS $$'',
      ''    SELECT COALESCE('',
      ''        pg_catalog.bool_and('',
      ''            value IS NULL'',
      ''            OR ('',
      ''                pg_catalog.isfinite(value)'',
      ''                AND value <= '9999-12-31 23:59:59.999999+00'::pg_catalog.timestamptz'',
      ''            )'',
      ''        ),'',
      ''        true'',
      ''    )'',
      ''    FROM pg_catalog.unnest(input_array) AS value(value);'',
      ''$$;'']"

definition requires_tstz_array_helper :: "OperationSql list \<Rightarrow> bool" where
  "requires_tstz_array_helper operations \<longleftrightarrow>
     list_ex (\<lambda>op. contains_str TSTZ_ARRAY_HELPER_MARKER (os_up op)
                   \<or> contains_str TSTZ_ARRAY_HELPER_MARKER (os_down op)) operations"

definition helper_down :: string where
  "helper_down = ''-- no-op rollback placeholder: helper is shared by framework CHECK constraints''"

definition numeric_array_helper_operation :: OperationSql where
  "numeric_array_helper_operation =
     \<lparr>os_label = ''Ensure djogi numeric-array helper'', os_up = NUMERIC_ARRAY_HELPER_PRELUDE,
      os_down = helper_down, os_lossy = None\<rparr>"

definition date_array_helper_operation :: OperationSql where
  "date_array_helper_operation =
     \<lparr>os_label = ''Ensure djogi date-array finite-element helper'', os_up = DATE_ARRAY_HELPER_PRELUDE,
      os_down = helper_down, os_lossy = None\<rparr>"

definition tstz_array_helper_operation :: OperationSql where
  "tstz_array_helper_operation =
     \<lparr>os_label = ''Ensure djogi timestamptz-array finite-element helper'', os_up = TSTZ_ARRAY_HELPER_PRELUDE,
      os_down = helper_down, os_lossy = None\<rparr>"

definition helper_operations :: "OperationSql list \<Rightarrow> OperationSql list" where
  "helper_operations lowered =
     (if requires_numeric_array_helper lowered then [numeric_array_helper_operation] else [])
     @ (if requires_date_array_helper lowered then [date_array_helper_operation] else [])
     @ (if requires_tstz_array_helper lowered then [tstz_array_helper_operation] else [])"

section \<open>Planning\<close>

text \<open>\<^const>\<open>None\<close> is a panic of an emitter.\<close>

fun lower_all ::
  "build \<Rightarrow> SchemaOperation list \<Rightarrow>
   (SqlEmitError + (SegmentKind \<times> OperationSql) list) option" where
  "lower_all build [] = Some (Inr [])"
| "lower_all build (op # ops) =
     (case lower_operation build op of
        None \<Rightarrow> None
      | Some (Inl e) \<Rightarrow> Some (Inl e)
      | Some (Inr sql) \<Rightarrow>
          (case lower_all build ops of
             None \<Rightarrow> None
           | Some (Inl e) \<Rightarrow> Some (Inl e)
           | Some (Inr rest) \<Rightarrow> Some (Inr ((classify_operation op, sql) # rest))))"

text \<open>The helpers go in front, in a transaction of their own kind.\<close>

definition with_helpers ::
  "(SegmentKind \<times> OperationSql) list \<Rightarrow> (SegmentKind \<times> OperationSql) list" where
  "with_helpers lowered =
     (let helpers = helper_operations (map snd lowered)
      in if helpers \<noteq> [] then map (Pair Transactional) helpers @ lowered else lowered)"

text \<open>The cutting loop: the kind of the open run, its statements, and the closed segments.\<close>

definition close_run :: "SegmentKind option \<Rightarrow> OperationSql list \<Rightarrow> Segment list" where
  "close_run current_kind stmts =
     (case new_if_non_empty (case current_kind of Some k \<Rightarrow> k | None \<Rightarrow> Transactional) stmts of
        Some seg \<Rightarrow> [seg] | None \<Rightarrow> [])"

fun cut_segments ::
  "(SegmentKind \<times> OperationSql) list \<Rightarrow> SegmentKind option \<Rightarrow> OperationSql list \<Rightarrow>
   Segment list \<Rightarrow> Segment list" where
  "cut_segments [] current_kind stmts segments = segments @ close_run current_kind stmts"
| "cut_segments ((kind, op) # rest) current_kind stmts segments =
     (if current_kind = Some kind
      then cut_segments rest current_kind (stmts @ [op]) segments
      else cut_segments rest (Some kind) [op] (segments @ close_run current_kind stmts))"

fun flip_segments :: "SchemaOperation list \<Rightarrow> (SqlEmitError + Segment list) option" where
  "flip_segments [] = Some (Inr [])"
| "flip_segments (op # ops) =
     (case (case op of
              PkTypeFlipGroup g \<Rightarrow> map_option (map_sum (SeDiff \<circ> PkFlipMalformedSelfFkMetadata) id) (build_segments g)
            | PkTypeFlipMultiGroup gs \<Rightarrow> map_option (map_sum SeDiff id) (build_segments_multi gs)
            | _ \<Rightarrow> Some (Inr [])) of
        None \<Rightarrow> None
      | Some (Inl e) \<Rightarrow> Some (Inl e)
      | Some (Inr segs) \<Rightarrow> map_option (map_sum id ((@) segs)) (flip_segments ops))"

text \<open>The outer \<^const>\<open>None\<close> is a panic of the ordering or of an emitter.\<close>

definition plan_delta ::
  "build \<Rightarrow> SchemaDelta \<Rightarrow> (SqlEmitError + MigrationPlan) option" where
  "plan_delta build delta =
     (let plan = (\<lambda>segs. \<lparr>mp_bucket = d_bucket delta, mp_classification = d_classification delta,
                          mp_segments = segs\<rparr>)
      in if d_classification delta = NoOp then Some (Inr (plan []))
      else case flip_segments (d_operations delta) of
        None \<Rightarrow> None
      | Some (Inl e) \<Rightarrow> Some (Inl e)
      | Some (Inr group_segments) \<Rightarrow>
          if group_segments \<noteq> [] then Some (Inr (plan group_segments))
          else case order_operations (d_operations delta) of
            None \<Rightarrow> None
          | Some ordered \<Rightarrow>
              (case lower_all build ordered of
                 None \<Rightarrow> None
               | Some (Inl e) \<Rightarrow> Some (Inl e)
               | Some (Inr lowered) \<Rightarrow>
                   Some (Inr (plan (cut_segments (with_helpers lowered) None [] [])))))"

section \<open>The order is the stable phase order\<close>

lemma insort_key_lex:
  fixes f :: "'a \<Rightarrow> 'b::linorder" and g :: "'a \<Rightarrow> 'c::linorder"
  assumes "\<forall>y\<in>set ys. g x \<le> g y"
  shows "insort_key (\<lambda>x. (f x, g x)) x ys = insort_key f x ys"
  using assms by (induction ys) (auto simp: less_le)

lemma sort_key_lex:
  fixes f :: "'a \<Rightarrow> 'b::linorder" and g :: "'a \<Rightarrow> 'c::linorder"
  assumes "sorted (map g xs)"
  shows "sort_key (\<lambda>x. (f x, g x)) xs = sort_key f xs"
  using assms
proof (induction xs)
  case (Cons x xs)
  have "insort_key (\<lambda>x. (f x, g x)) x (sort_key f xs) = insort_key f x (sort_key f xs)"
    by (rule insort_key_lex) (use Cons.prems in simp)
  with Cons show ?case by simp
qed simp

lemma insort_key_map: "map h (insort_key (\<lambda>x. f (h x)) x xs) = insort_key f (h x) (map h xs)"
  by (induction xs) simp_all

lemma sort_key_map: "map h (sort_key (\<lambda>x. f (h x)) xs) = sort_key f (map h xs)"
  by (induction xs) (simp_all add: insort_key_map)

lemma insort_key_cong_set:
  "f x = g x \<Longrightarrow> (\<And>y. y \<in> set ys \<Longrightarrow> f y = g y) \<Longrightarrow> insort_key f x ys = insort_key g x ys"
  by (induction ys) simp_all

lemma sort_key_cong_set:
  "(\<And>x. x \<in> set xs \<Longrightarrow> f x = g x) \<Longrightarrow> sort_key f xs = sort_key g xs"
proof (induction xs)
  case (Cons x xs)
  have "insort_key f x (sort_key g xs) = insort_key g x (sort_key g xs)"
    by (rule insort_key_cong_set) (simp_all add: Cons.prems)
  with Cons show ?case by simp
qed simp

lemma tag_operations_sorted:
  "map (snd \<circ> snd) (tag_operations ops) = sort_key operation_phase ops"
proof -
  let ?tagged = "map (\<lambda>(i, op). (operation_phase op, i, op)) (enumerate 0 ops)"
  have "sort_key (\<lambda>(phase, idx, _). (phase, idx)) ?tagged = sort_key (\<lambda>x. (fst x, fst (snd x))) ?tagged"
    by (simp add: case_prod_unfold)
  also have "\<dots> = sort_key fst ?tagged"
  proof (rule sort_key_lex)
    have "map (\<lambda>x. fst (snd x)) ?tagged = map fst (enumerate 0 ops)"
      by (simp add: o_def case_prod_unfold)
    then show "sorted (map (\<lambda>x. fst (snd x)) ?tagged)" by simp
  qed
  also have "\<dots> = sort_key (\<lambda>x. operation_phase ((snd \<circ> snd) x)) ?tagged"
    by (rule sort_key_cong_set) auto
  finally have "map (snd \<circ> snd) (tag_operations ops)
      = sort_key operation_phase (map (snd \<circ> snd) ?tagged)"
    by (simp only: tag_operations_def sort_key_map)
  moreover have "map (snd \<circ> snd) ?tagged = map snd (enumerate 0 ops)"
    by (simp add: o_def case_prod_unfold)
  ultimately show ?thesis by simp
qed

lemma tag_operations_phase: "(p, i, op) \<in> set (tag_operations ops) \<Longrightarrow> p = operation_phase op"
  by (auto simp: tag_operations_def)

text \<open>The new tables of a delta, in input order.\<close>

definition new_tables :: "SchemaOperation list \<Rightarrow> TableSchema list" where
  "new_tables ops = List.map_filter (\<lambda>op. case op of AddTable t \<Rightarrow> Some t | _ \<Rightarrow> None) ops"

lemma phase_2: "operation_phase op = 2 \<longleftrightarrow> (\<exists>t. op = AddTable t)"
  by (cases op) simp_all

lemma map_AddTable_new_tables: "map AddTable (new_tables ops) = filter (\<lambda>op. operation_phase op = 2) ops"
proof (induction ops)
  case (Cons op ops)
  then show ?case by (cases op) (simp_all add: new_tables_def map_filter_Cons)
qed (simp add: new_tables_def map_filter_Nil)

lemma split_tagged_parts:
  assumes "\<And>p i op. (p, i, op) \<in> set tagged \<Longrightarrow> p = operation_phase op"
  shows "split_tagged tagged =
    (let ops = map (snd \<circ> snd) tagged
     in (filter (\<lambda>op. operation_phase op < 2) ops, new_tables ops,
         filter (\<lambda>op. operation_phase op > 2) ops))"
  using assms
proof (induction tagged)
  case (Cons x tagged)
  obtain p i op where x: "x = (p, i, op)" by (cases x)
  with Cons.prems [of p i op] have p: "p = operation_phase op" by simp
  have "split_tagged tagged =
    (let ops = map (snd \<circ> snd) tagged
     in (filter (\<lambda>op. operation_phase op < 2) ops, new_tables ops,
         filter (\<lambda>op. operation_phase op > 2) ops))"
    by (rule Cons.IH) (auto intro: Cons.prems)
  then show ?case
    by (cases op) (simp_all add: x p Let_def new_tables_def map_filter_Cons o_def)
qed (simp add: new_tables_def map_filter_Nil)

lemma new_tables_sort: "new_tables (sort_key operation_phase ops) = new_tables ops"
proof -
  have "map AddTable (new_tables (sort_key operation_phase ops)) = map AddTable (new_tables ops)"
    by (simp add: map_AddTable_new_tables sort_key_stable)
  then show ?thesis by (rule map_injective) (simp add: inj_def)
qed

text \<open>The whole order, without the tags.\<close>

lemma order_operations_parts:
  "order_operations ops =
     map_option (\<lambda>(ts, fups).
         filter (\<lambda>op. operation_phase op < 2) (sort_key operation_phase ops)
         @ map AddTable ts @ fups
         @ filter (\<lambda>op. operation_phase op > 2) (sort_key operation_phase ops))
       (toposort_add_tables (new_tables ops))"
  by (simp add: order_operations_def split_tagged_parts [OF tag_operations_phase]
      tag_operations_sorted Let_def new_tables_sort split: option.split prod.split)

section \<open>What the order guarantees\<close>

lemma follow_up_phase:
  "toposort_add_tables ts = Some (out, fups) \<Longrightarrow> op \<in> set fups \<Longrightarrow>
    \<exists>t c fk. op = AddForeignKey t c fk"
  by (auto simp: toposort_parts in_stripped)

lemma order_total: "\<exists>out. order_operations ops = Some out"
  by (simp add: order_operations_parts toposort_parts)

lemma order_sorted:
  assumes "order_operations ops = Some out"
  shows "sorted (map operation_phase out)"
proof -
  obtain ts fups where t: "toposort_add_tables (new_tables ops) = Some (ts, fups)"
    using toposort_parts by blast
  let ?s = "sort_key operation_phase ops"
  have s: "sorted (map operation_phase (filter P ?s))" for P
    by (rule sorted_filter) simp
  have "map operation_phase fups = map (\<lambda>_. 3) fups"
    using follow_up_phase [OF t] by fastforce
  then have "sorted (map operation_phase (map AddTable ts @ fups))"
    by (simp add: sorted_append o_def map_replicate_const)
  then have "sorted (map operation_phase (filter (\<lambda>op. operation_phase op < 2) ?s
      @ (map AddTable ts @ fups) @ filter (\<lambda>op. operation_phase op > 2) ?s))"
    using s follow_up_phase [OF t] by (fastforce simp: sorted_append)
  with assms show ?thesis by (simp add: order_operations_parts t)
qed

lemma order_member:
  assumes "order_operations ops = Some out" "op \<in> set ops" "operation_phase op \<noteq> 2"
  shows "op \<in> set out"
proof -
  obtain ts fups where "toposort_add_tables (new_tables ops) = Some (ts, fups)"
    using toposort_parts by blast
  with assms show ?thesis by (auto simp: order_operations_parts)
qed

text \<open>
  C21: Ordering never panics, and the operations it returns, the split-off
  foreign keys included, run phase by phase: enum types, table renames, new tables, column
  work, enum values, index and exclusion adds, their drops, then foreign-key, column, table
  and enum drops, and metadata last.
\<close>

theorem order_phases_sorted:
  "\<exists>out. order_operations ops = Some out \<and> sorted (map operation_phase out)"
  using order_total order_sorted by blast

lemma filter_at:
  "filter (\<lambda>x. f x = k) (filter (\<lambda>x. R (f x)) xs) = (if R k then filter (\<lambda>x. f x = k) xs else [])"
  by (induction xs) auto

text \<open>
  C22: what ordering makes of a delta, phase by phase: the new tables (phase 2) are the
  topological sort of the delta's new tables, the foreign keys that sort stripped from them open
  phase 3, and for the rest every phase holds exactly the delta's operations of that phase in
  their original order.
\<close>

theorem order_keeps_operations:
  "\<exists>out ts fups. order_operations ops = Some out
     \<and> toposort_add_tables (new_tables ops) = Some (ts, fups)
     \<and> (\<forall>k. filter (\<lambda>op. operation_phase op = k) out =
          (if k = 2 then map AddTable ts
           else (if k = 3 then fups else []) @ filter (\<lambda>op. operation_phase op = k) ops))"
proof -
  obtain ts fups where t: "toposort_add_tables (new_tables ops) = Some (ts, fups)"
    using toposort_parts by blast
  let ?s = "sort_key operation_phase ops" and ?at = "\<lambda>k op. operation_phase op = k"
  let ?out = "filter (\<lambda>op. operation_phase op < 2) ?s @ map AddTable ts @ fups
      @ filter (\<lambda>op. operation_phase op > 2) ?s"
  have f: "filter (?at k) fups = (if k = 3 then fups else [])" for k
    using follow_up_phase [OF t] by (force simp: filter_empty_conv filter_id_conv)
  have a: "filter (?at k) (map AddTable ts) = (if k = 2 then map AddTable ts else [])" for k
    by (simp add: filter_empty_conv filter_id_conv)
  have part: "filter (?at k) (filter (\<lambda>op. R (operation_phase op)) ?s)
      = (if R k then filter (?at k) ops else [])" for R k
    by (simp add: filter_at sort_key_stable del: filter_filter)
  have "filter (?at k) ?out = (if k = 2 then map AddTable ts
           else (if k = 3 then fups else []) @ filter (?at k) ops)" for k
    by (auto simp: f a part [where R = "\<lambda>k. k < 2"] part [where R = "\<lambda>k. k > 2"] simp del: filter_filter)
  then show ?thesis by (simp add: order_operations_parts t)
qed

text \<open>
  The phase order inverts a replacement: the differ replaces a changed foreign
  key by dropping the old constraint and then adding the new one, and both carry the name
  derived from the table and the column; whatever else the delta holds, the planner puts the
  add before the drop.
\<close>

theorem planner_swaps_fk_replacement:
  assumes "AddForeignKey t c new \<in> set ops" "DropForeignKey t c old \<in> set ops"
  shows "\<exists>out. order_operations ops = Some out \<and> DropForeignKey t c old \<in> set out
    \<and> (\<forall>p q. out = p @ DropForeignKey t c old # q \<longrightarrow> AddForeignKey t c new \<in> set p)"
proof -
  obtain out where o: "order_operations ops = Some out" using order_total by blast
  have m: "AddForeignKey t c new \<in> set out" "DropForeignKey t c old \<in> set out"
    using order_member [OF o] assms by simp_all
  have "AddForeignKey t c new \<in> set p" if "out = p @ DropForeignKey t c old # q" for p q
    using m(1) order_sorted [OF o] by (auto simp: that sorted_append)
  with o m(2) show ?thesis by blast
qed

section \<open>Segments\<close>

text \<open>A segment's statements, each with the kind it runs under.\<close>

definition tagged_statements :: "Segment list \<Rightarrow> (SegmentKind \<times> OperationSql) list" where
  "tagged_statements segs = concat (map (\<lambda>s. map (Pair (sg_kind s)) (sg_statements s)) segs)"

definition well_cut :: "Segment list \<Rightarrow> bool" where
  "well_cut segs \<longleftrightarrow>
     (\<forall>s\<in>set segs. sg_statements s \<noteq> []) \<and> successively (\<noteq>) (map sg_kind segs)"

lemma tagged_statements_append [simp]:
  "tagged_statements (xs @ ys) = tagged_statements xs @ tagged_statements ys"
  by (simp add: tagged_statements_def)

lemma tagged_close_run:
  "tagged_statements (close_run (Some k) stmts) = map (Pair k) stmts"
  "tagged_statements (close_run None []) = []"
  by (simp_all add: tagged_statements_def close_run_def new_if_non_empty_def)

lemma cut_segments_statements:
  "(ck = None \<Longrightarrow> stmts = []) \<Longrightarrow>
    tagged_statements (cut_segments xs ck stmts segs)
      = tagged_statements segs @ (case ck of Some k \<Rightarrow> map (Pair k) stmts | None \<Rightarrow> []) @ xs"
  by (induction xs ck stmts segs rule: cut_segments.induct)
    (auto simp: tagged_close_run split: option.splits)

lemma close_run_open: "stmts \<noteq> [] \<Longrightarrow>
    close_run (Some k) stmts = [\<lparr>sg_kind = k, sg_statements = stmts\<rparr>]"
  by (simp add: close_run_def new_if_non_empty_def)

lemma cut_segments_well_cut:
  assumes "well_cut segs" "ck = None \<Longrightarrow> segs = [] \<and> stmts = []"
    and "\<And>k. ck = Some k \<Longrightarrow> stmts \<noteq> [] \<and> (segs \<noteq> [] \<longrightarrow> sg_kind (last segs) \<noteq> k)"
  shows "well_cut (cut_segments xs ck stmts segs)"
  using assms
proof (induction xs ck stmts segs rule: cut_segments.induct)
  case (1 ck stmts segs)
  then show ?case
    by (cases ck) (auto simp: well_cut_def close_run_open successively_append_iff last_map
        close_run_def new_if_non_empty_def)
next
  case (2 kind op rest ck stmts segs)
  show ?case
  proof (cases "ck = Some kind")
    case True
    with 2 show ?thesis by simp
  next
    case False
    have "well_cut (segs @ close_run ck stmts)"
      using "2.prems" by (cases ck) (auto simp: well_cut_def close_run_open successively_append_iff last_map
          close_run_def new_if_non_empty_def)
    moreover have "segs @ close_run ck stmts \<noteq> [] \<longrightarrow> sg_kind (last (segs @ close_run ck stmts)) \<noteq> kind"
      using "2.prems" False by (cases ck) (auto simp: close_run_open close_run_def new_if_non_empty_def)
    ultimately show ?thesis using "2.IH"(2) [OF False] False by simp
  qed
qed

text \<open>A well-cut list is determined by its tagged statements: the cut is the coarsest one.\<close>

lemma well_cut_Cons:
  "well_cut (s # segs) \<longleftrightarrow>
    sg_statements s \<noteq> [] \<and> well_cut segs \<and> (segs \<noteq> [] \<longrightarrow> sg_kind s \<noteq> sg_kind (hd segs))"
  by (cases segs) (auto simp: well_cut_def)

lemma takeWhile_map_kind:
  assumes "ys = [] \<or> fst (hd ys) \<noteq> k"
  shows "takeWhile (\<lambda>x. fst x = k) (map (Pair k) xs @ ys) = map (Pair k) xs"
  using assms by (induction xs) (auto simp: takeWhile_eq_Nil_iff)

lemma tagged_hd:
  assumes "well_cut segs" "segs \<noteq> []"
  shows "tagged_statements segs \<noteq> []" "fst (hd (tagged_statements segs)) = sg_kind (hd segs)"
  using assms by (cases segs; force simp: well_cut_Cons tagged_statements_def neq_Nil_conv)+

lemma well_cut_unique:
  "well_cut xs \<Longrightarrow> well_cut ys \<Longrightarrow> tagged_statements xs = tagged_statements ys \<Longrightarrow> xs = ys"
proof (induction xs arbitrary: ys)
  case Nil
  then show ?case using tagged_hd(1) [of ys] by (auto simp: tagged_statements_def)
next
  case (Cons x xs)
  have ne: "ys \<noteq> []" using tagged_hd(1) [OF Cons.prems(1)] Cons.prems(3)
    by (auto simp: tagged_statements_def)
  then obtain y ys' where ys: "ys = y # ys'" by (cases ys) auto
  have split: "takeWhile (\<lambda>p. fst p = sg_kind s) (tagged_statements (s # segs))
      = map (Pair (sg_kind s)) (sg_statements s)" if "well_cut (s # segs)" for s segs
  proof -
    have "tagged_statements segs = [] \<or> fst (hd (tagged_statements segs)) \<noteq> sg_kind s"
      using that tagged_hd [of segs] by (cases "segs = []") (auto simp: well_cut_Cons tagged_statements_def)
    from takeWhile_map_kind [OF this] show ?thesis by (simp add: tagged_statements_def)
  qed
  have k: "sg_kind x = sg_kind y"
    using tagged_hd(2) [OF Cons.prems(1)] tagged_hd(2) [OF Cons.prems(2)] Cons.prems(3) ys by simp
  have "map (Pair (sg_kind x)) (sg_statements x) = map (Pair (sg_kind y)) (sg_statements y)"
    using split [OF Cons.prems(1)] split [of y ys'] Cons.prems(2,3) ys k by simp
  then have st: "sg_statements x = sg_statements y"
    using k by (auto dest: map_injective simp: inj_def)
  with k Cons.prems ys have "tagged_statements xs = tagged_statements ys'"
    by (simp add: tagged_statements_def)
  with Cons.IH Cons.prems ys have "xs = ys'" by (simp add: well_cut_Cons)
  with k st ys show ?case by simp
qed

lemma lower_all_Inr:
  "map (lower_operation build) ops = map (Some \<circ> Inr) sqls \<Longrightarrow>
    lower_all build ops = Some (Inr (zip (map classify_operation ops) sqls))"
  by (induction ops arbitrary: sqls) (auto simp: Cons_eq_map_conv)

lemma lower_all_prefix:
  assumes "\<forall>o'\<in>set p. \<exists>sql. lower_operation build o' = Some (Inr sql)"
  shows "lower_operation build op = Some (Inl e) \<Longrightarrow> lower_all build (p @ op # q) = Some (Inl e)"
    and "lower_operation build op = None \<Longrightarrow> lower_all build (p @ op # q) = None"
  using assms by (induction p) auto

text \<open>
  C6: planning a delta without PK-flip groups reports the error of the
  first operation, in planner order, whose lowering fails, and panics exactly where the
  first one panics. When none fails, no segment is
  empty, neighbouring segments differ in kind, and read in order the segments hold exactly
  the needed helper functions followed by every lowered operation in planner order, each in a
  segment of its own kind: a concurrent index never shares a segment with transactional work.
\<close>

theorem plan_ordinary_delta:
  assumes "d_classification \<delta> \<noteq> NoOp"
    and "flip_segments (d_operations \<delta>) = Some (Inr [])"
  shows "\<exists>ordered. order_operations (d_operations \<delta>) = Some ordered
     \<and> (\<forall>p op q. ordered = p @ op # q \<longrightarrow>
          (\<forall>o'\<in>set p. \<exists>sql. lower_operation build o' = Some (Inr sql)) \<longrightarrow>
          (\<forall>e. lower_operation build op = Some (Inl e) \<longrightarrow>
             plan_delta build \<delta> = Some (Inl e))
          \<and> (lower_operation build op = None \<longrightarrow> plan_delta build \<delta> = None))
     \<and> (\<forall>sqls. map (lower_operation build) ordered = map (Some \<circ> Inr) sqls \<longrightarrow>
          (\<exists>plan. plan_delta build \<delta> = Some (Inr plan)
             \<and> well_cut (mp_segments plan)
             \<and> tagged_statements (mp_segments plan)
                 = map (Pair Transactional) (helper_operations sqls)
                   @ zip (map classify_operation ordered) sqls))"
proof -
  obtain ordered where o: "order_operations (d_operations \<delta>) = Some ordered"
    using order_total by blast
  have "(\<forall>e. lower_operation build op = Some (Inl e) \<longrightarrow>
      plan_delta build \<delta> = Some (Inl e))
    \<and> (lower_operation build op = None \<longrightarrow> plan_delta build \<delta> = None)"
    if "ordered = p @ op # q" "\<forall>o'\<in>set p. \<exists>sql. lower_operation build o' = Some (Inr sql)" for p op q
    using assms o lower_all_prefix [of p build op] that by (auto simp: plan_delta_def)
  moreover have "\<exists>plan. plan_delta build \<delta> = Some (Inr plan)
      \<and> well_cut (mp_segments plan)
      \<and> tagged_statements (mp_segments plan)
          = map (Pair Transactional) (helper_operations sqls) @ zip (map classify_operation ordered) sqls"
    if "map (lower_operation build) ordered = map (Some \<circ> Inr) sqls" for sqls
  proof -
    let ?low = "zip (map classify_operation ordered) sqls"
    let ?segs = "cut_segments (with_helpers ?low) None [] []"
    have "length ordered = length sqls" using that by (metis length_map)
    then have snd: "map snd ?low = sqls" by simp
    have "well_cut ?segs" by (rule cut_segments_well_cut) (simp_all add: well_cut_def)
    moreover have "tagged_statements ?segs = map (Pair Transactional) (helper_operations sqls) @ ?low"
      using cut_segments_statements [of None "[]" "with_helpers ?low" "[]"] snd
      by (simp add: with_helpers_def Let_def tagged_statements_def)
    ultimately show ?thesis using assms o lower_all_Inr [OF that] by (simp add: plan_delta_def)
  qed
  ultimately show ?thesis using o by blast
qed

lemma prepend_nothing: "map_option (map_sum id ((@) [])) x = (x :: ('e + 'a list) option)"
proof -
  have "(@) [] = (id :: 'a list \<Rightarrow> 'a list)" by auto
  then show ?thesis by (simp add: sum.map_id0 option.map_id)
qed

lemma flip_segments_filter:
  "flip_segments (filter is_pk_flip_op ops) = flip_segments ops"
proof (induction ops)
  case (Cons op ops)
  then show ?case by (cases op) (simp_all add: prepend_nothing split: option.split)
qed simp

text \<open>
  a PK-flip group takes the whole migration: once the flip
  emitters produce a segment, the plan is made of their segments alone, so deleting every
  other operation from the delta does not change it.
\<close>

theorem plan_flip_ignores_rest:
  assumes "d_classification \<delta> \<noteq> NoOp"
    and "flip_segments (d_operations \<delta>) = Some (Inr segs)" "segs \<noteq> []"
  shows "plan_delta build (\<delta>\<lparr>d_operations := filter is_pk_flip_op (d_operations \<delta>)\<rparr>)
      = plan_delta build \<delta>
    \<and> plan_delta build \<delta> = Some (Inr \<lparr>mp_bucket = d_bucket \<delta>,
      mp_classification = d_classification \<delta>, mp_segments = segs\<rparr>)"
  using assms by (simp add: plan_delta_def flip_segments_filter)

end
