(* ===== verification/Volatility.thy ===== *)
theory Volatility
  imports Rust_Str
begin

text \<open>
  \<open>djogi/src/migrate/pg_volatility.rs\<close>: the volatility of a column default, decided from its
  text: a single literal token is immutable, a name of the built-in table has the table's
  answer, anything else counts as volatile. Byte indices of the source are suffixes here.
  The scanners are shown to accept exactly the literal forms they are meant to, and the
  binary search to find exactly the table's entries.
\<close>

datatype Volatility = VImmutable | VStable | VVolatile

abbreviation quote :: char where "quote \<equiv> CHR 0x27"
abbreviation backslash :: char where "backslash \<equiv> CHR 0x5C"
abbreviation dollar :: char where "dollar \<equiv> CHR 0x24"

section \<open>Literal scanners\<close>

text \<open>The loop of \<open>is_single_quoted_run\<close>, after the opening quote.\<close>

fun quoted_tail :: "string \<Rightarrow> bool" where
  "quoted_tail [] = False"
| "quoted_tail [c] = (c = quote)"
| "quoted_tail (c # d # cs) =
     (if c = quote then (if d = quote then quoted_tail cs else False)
      else quoted_tail (d # cs))"

definition is_single_quoted_run :: "string \<Rightarrow> nat \<Rightarrow> bool" where
  "is_single_quoted_run bytes start =
     (if start + 2 > length bytes then False
      else if bytes ! start \<noteq> quote then False
      else quoted_tail (drop (start + 1) bytes))"

text \<open>The loop of \<open>is_single_e_string_run\<close>: a backslash escapes the byte behind it.\<close>

fun e_string_tail :: "string \<Rightarrow> bool" where
  "e_string_tail [] = False"
| "e_string_tail [c] = (c = quote)"
| "e_string_tail (c # d # cs) =
     (if c = backslash then e_string_tail cs
      else if c = quote then (if d = quote then e_string_tail cs else False)
      else e_string_tail (d # cs))"

definition is_single_e_string_run :: "string \<Rightarrow> nat \<Rightarrow> bool" where
  "is_single_e_string_run bytes start =
     (if start + 2 > length bytes then False
      else if bytes ! start \<noteq> quote then False
      else e_string_tail (drop (start + 1) bytes))"

definition is_single_dollar_quoted_run :: "string \<Rightarrow> bool" where
  "is_single_dollar_quoted_run bytes =
     (if bytes = [] \<or> hd bytes \<noteq> dollar then False
      else let tag_end = 1 + length (takeWhile (\<lambda>c. c \<noteq> dollar) (tl bytes))
        in if tag_end \<ge> length bytes then False
        else let tag = take (tag_end + 1) bytes
          in if length bytes < length tag * 2 then False
          else let close_start = length bytes - length tag
            in if drop close_start bytes \<noteq> tag then False
            else let body = drop (length tag) (take close_start bytes)
              in \<not> contains_str tag body)"

definition skip_sign :: "string \<Rightarrow> string" where
  "skip_sign s = (case s of c # cs \<Rightarrow> if c = CHR ''+'' \<or> c = CHR ''-'' then cs else s | [] \<Rightarrow> [])"

definition skip_digits :: "string \<Rightarrow> string" where
  "skip_digits s = dropWhile is_ascii_digit s"

definition skip_fraction :: "string \<Rightarrow> string" where
  "skip_fraction s = (case s of c # cs \<Rightarrow> if c = CHR ''.'' then skip_digits cs else s | [] \<Rightarrow> [])"

definition exponent_ok :: "string \<Rightarrow> bool" where
  "exponent_ok s =
     (case s of
        c # cs \<Rightarrow>
          if c = CHR ''e'' \<or> c = CHR ''E''
          then let e = skip_sign cs; rest = skip_digits e
               in if length rest = length e then False else rest = []
          else False
      | [] \<Rightarrow> True)"

definition is_numeric_literal :: "string \<Rightarrow> bool" where
  "is_numeric_literal bytes =
     (if bytes = [] then False
      else let int_start = skip_sign bytes; after_int = skip_digits int_start
        in if length after_int = length int_start \<and> (after_int = [] \<or> hd after_int \<noteq> CHR ''.'')
           then False
           else exponent_ok (skip_fraction after_int))"

definition is_literal_shape :: "string \<Rightarrow> bool" where
  "is_literal_shape expr =
     (if expr = [] then False
      else if eq_ignore_ascii_case expr ''true'' \<or> eq_ignore_ascii_case expr ''false''
              \<or> eq_ignore_ascii_case expr ''null'' then True
      else if is_single_quoted_run expr 0 then True
      else if length expr \<ge> 3 \<and> (expr ! 0 = CHR ''E'' \<or> expr ! 0 = CHR ''e'')
              \<and> is_single_e_string_run expr 1 then True
      else if is_single_dollar_quoted_run expr then True
      else is_numeric_literal expr)"

section \<open>The table\<close>

definition BUILTIN_VOLATILITY :: "(string \<times> Volatility) list" where
  "BUILTIN_VOLATILITY =
     [(''CURRENT_TIMESTAMP'', VStable),
      (''clock_timestamp()'', VVolatile),
      (''current_date'', VStable),
      (''current_time'', VStable),
      (''current_timestamp'', VStable),
      (''gen_random_uuid()'', VVolatile),
      (''now()'', VStable),
      (''random()'', VVolatile),
      (''statement_timestamp()'', VStable),
      (''transaction_timestamp()'', VStable)]"

text \<open>\<open>slice::binary_search_by_key\<close>: the index of an entry with the key, by halving.\<close>

function binary_search :: "('k::linorder \<times> 'v) list \<Rightarrow> 'k \<Rightarrow> nat \<Rightarrow> nat \<Rightarrow> nat option" where
  "binary_search xs k lo hi =
     (if lo \<ge> hi then None
      else let mid = lo + (hi - lo) div 2
        in if fst (xs ! mid) = k then Some mid
        else if fst (xs ! mid) < k then binary_search xs k (mid + 1) hi
        else binary_search xs k lo mid)"
  by pat_completeness auto
termination
  by (relation "measure (\<lambda>(xs, k, lo, hi). hi - lo)") (auto simp: Let_def)

declare binary_search.simps [simp del]

definition classify_default_expression :: "string \<Rightarrow> Volatility" where
  "classify_default_expression expr =
     (let trimmed = trim expr
      in if is_literal_shape trimmed then VImmutable
      else case binary_search BUILTIN_VOLATILITY trimmed 0 (length BUILTIN_VOLATILITY) of
        Some idx \<Rightarrow> snd (BUILTIN_VOLATILITY ! idx)
      | None \<Rightarrow> VVolatile)"

section \<open>The search finds exactly the entries\<close>

lemma binary_search_sound:
  "binary_search xs k lo hi = Some i \<Longrightarrow> lo \<le> i \<and> i < hi \<and> fst (xs ! i) = k"
proof (induction xs k lo hi rule: binary_search.induct)
  case (1 xs k lo hi)
  from "1.prems" have b: "(if lo \<ge> hi then None
      else let mid = lo + (hi - lo) div 2
        in if fst (xs ! mid) = k then Some mid
        else if fst (xs ! mid) < k then binary_search xs k (mid + 1) hi
        else binary_search xs k lo mid) = Some i"
    by (subst (asm) binary_search.simps)
  show ?case
    using b "1.IH" by (fastforce simp: Let_def split: if_splits)
qed

lemma binary_search_complete:
  assumes "sorted_wrt (<) (map fst xs)" "hi \<le> length xs" "lo \<le> i" "i < hi" "fst (xs ! i) = k"
  shows "binary_search xs k lo hi = Some i"
  using assms
proof (induction xs k lo hi rule: binary_search.induct)
  case (1 xs k lo hi)
  let ?mid = "lo + (hi - lo) div 2"
  have mid: "lo \<le> ?mid" "?mid < hi" using "1.prems" by auto
  have less: "fst (xs ! a) < fst (xs ! b)" if "a < b" "b < hi" for a b
    using sorted_wrt_nth_less [OF "1.prems"(1), of a b] that "1.prems"(2) by simp
  consider "i = ?mid" | "?mid < i" | "i < ?mid" by linarith
  then show ?case
  proof cases
    case 1
    with mid "1.prems"(5) show ?thesis by (subst binary_search.simps) (simp add: Let_def)
  next
    case 2
    with less [of ?mid i] "1.prems" mid "1.IH"(1) show ?thesis
      by (subst binary_search.simps) (simp add: Let_def)
  next
    case 3
    with less [of i ?mid] "1.prems" mid "1.IH"(2) show ?thesis
      by (subst binary_search.simps) (auto simp: Let_def)
  qed
qed

lemma binary_search_map_of:
  assumes "sorted_wrt (<) (map fst xs)"
  shows "map_option (\<lambda>i. snd (xs ! i)) (binary_search xs k 0 (length xs)) = map_of xs k"
proof -
  have d: "distinct (map fst xs)" using assms by (simp add: strict_sorted_iff)
  show ?thesis
  proof (cases "binary_search xs k 0 (length xs)")
    case None
    have "k \<notin> fst ` set xs"
      using binary_search_complete [OF assms order_refl le0] None by (auto simp: in_set_conv_nth)
    then have "map_of xs k = None" by (simp add: map_of_eq_None_iff)
    with None show ?thesis by simp
  next
    case (Some i)
    from binary_search_sound [OF this] have "(k, snd (xs ! i)) \<in> set xs"
      by (metis nth_mem prod.collapse)
    with Some d show ?thesis by simp
  qed
qed

lemma builtin_sorted: "sorted_wrt (<) (map fst BUILTIN_VOLATILITY)"
  by (simp add: BUILTIN_VOLATILITY_def)

section \<open>The scanners accept exactly the literals\<close>

text \<open>A standard string body: apostrophes doubled.\<close>

fun double_quotes :: "string \<Rightarrow> string" where
  "double_quotes [] = []"
| "double_quotes (c # cs) = (if c = quote then [quote, quote] else [c]) @ double_quotes cs"

lemma quoted_tail_iff: "quoted_tail s \<longleftrightarrow> (\<exists>b. s = double_quotes b @ [quote])"
proof
  show "quoted_tail s \<Longrightarrow> \<exists>b. s = double_quotes b @ [quote]"
  proof (induction s rule: quoted_tail.induct)
    case (2 c)
    then show ?case by (intro exI [of _ "[]"]) simp
  next
    case (3 c d cs)
    show ?case
    proof (cases "c = quote")
      case True
      with 3 obtain b where "cs = double_quotes b @ [quote]" "d = quote" by (auto split: if_splits)
      with True show ?thesis by (intro exI [of _ "quote # b"]) simp
    next
      case False
      with 3 obtain b where "d # cs = double_quotes b @ [quote]" by auto
      with False show ?thesis by (intro exI [of _ "c # b"]) simp
    qed
  qed simp
next
  have app: "quoted_tail (c # cs @ [quote]) = quoted_tail (cs @ [quote])" if "c \<noteq> quote" for c cs
    using that by (cases "cs @ [quote]") auto
  have "quoted_tail (double_quotes b @ [quote])" for b
    by (induction b) (auto simp: app)
  then show "\<exists>b. s = double_quotes b @ [quote] \<Longrightarrow> quoted_tail s" by blast
qed

lemma quoted_run_iff:
  "is_single_quoted_run s 0 \<longleftrightarrow> (\<exists>b. s = quote # double_quotes b @ [quote])"
proof (cases s)
  case (Cons c cs)
  have "quoted_tail cs \<Longrightarrow> cs \<noteq> []" by auto
  with Cons show ?thesis
    by (auto simp: is_single_quoted_run_def quoted_tail_iff Suc_le_eq)
qed (simp add: is_single_quoted_run_def)

text \<open>Dollar quoting: a tag without dollars, and a body in which the tag does not occur.\<close>

lemma dollar_quoted_iff:
  "is_single_dollar_quoted_run s \<longleftrightarrow>
    (\<exists>name body. let tag = dollar # name @ [dollar]
       in dollar \<notin> set name \<and> s = tag @ body @ tag \<and> \<not> contains_str tag body)"
proof
  assume a: "is_single_dollar_quoted_run s"
  then obtain r where s: "s = dollar # r"
    by (cases s) (auto simp: is_single_dollar_quoted_run_def split: if_splits)
  let ?name = "takeWhile (\<lambda>c. c \<noteq> dollar) r"
  have "1 + length ?name < length s"
    using a by (auto simp: is_single_dollar_quoted_run_def s Let_def split: if_splits)
  then have short: "length ?name < length r" using s by simp
  have "dropWhile (\<lambda>c. c \<noteq> dollar) r \<noteq> []"
  proof
    assume "dropWhile (\<lambda>c. c \<noteq> dollar) r = []"
    then have "\<forall>c\<in>set r. c \<noteq> dollar" by (simp add: dropWhile_eq_Nil_conv)
    then have "?name = r" by (simp add: takeWhile_eq_all_conv)
    with short show False by simp
  qed
  then obtain q where q: "dropWhile (\<lambda>c. c \<noteq> dollar) r = dollar # q"
    using hd_dropWhile [of "\<lambda>c. c \<noteq> dollar" r] by (cases "dropWhile (\<lambda>c. c \<noteq> dollar) r") auto
  have r: "r = ?name @ dollar # q" using q by (metis takeWhile_dropWhile_id)
  let ?tag = "dollar # ?name @ [dollar]"
  have tag: "take (Suc (length ?name)) r = ?name @ [dollar]"
    by (subst (2) r) simp
  from a have *: "length ?tag * 2 \<le> length s" "drop (length s - length ?tag) s = ?tag"
    "\<not> contains_str ?tag (drop (length ?tag) (take (length s - length ?tag) s))"
    unfolding is_single_dollar_quoted_run_def s list.sel Let_def
    by (simp_all add: tag not_less split: if_splits)
  let ?body = "drop (length ?tag) (take (length s - length ?tag) s)"
  have "take (length ?tag) (take (length s - length ?tag) s) = ?tag"
    using tag *(1) by (simp add: s)
  then have "s = ?tag @ ?body @ ?tag"
    using *(2) by (metis append.assoc append_take_drop_id)
  moreover have "dollar \<notin> set ?name" by (auto dest: set_takeWhileD)
  ultimately show "\<exists>name body. let tag = dollar # name @ [dollar]
       in dollar \<notin> set name \<and> s = tag @ body @ tag \<and> \<not> contains_str tag body"
    using *(3) unfolding Let_def by blast
next
  assume "\<exists>name body. let tag = dollar # name @ [dollar]
       in dollar \<notin> set name \<and> s = tag @ body @ tag \<and> \<not> contains_str tag body"
  then obtain name body where n: "dollar \<notin> set name"
    and s: "s = (dollar # name @ [dollar]) @ body @ dollar # name @ [dollar]"
    and b: "\<not> contains_str (dollar # name @ [dollar]) body" by (auto simp: Let_def)
  have w: "takeWhile (\<lambda>c. c \<noteq> dollar) (tl s) = name"
    using n by (simp add: s takeWhile_tail) (metis (mono_tags, lifting) takeWhile_append2 append_Nil2 takeWhile.simps)
  show "is_single_dollar_quoted_run s"
    unfolding is_single_dollar_quoted_run_def w Let_def using b by (simp add: s)
qed

text \<open>
  Numbers: a sign, digits, a fraction and an exponent. As the code is written the digits
  before the point may be missing, and then so may those behind it.
\<close>

definition digits :: "string \<Rightarrow> bool" where
  "digits s \<longleftrightarrow> (\<forall>c\<in>set s. is_ascii_digit c)"

definition sign :: "string \<Rightarrow> bool" where
  "sign s \<longleftrightarrow> s \<in> {[], ''+'', ''-''}"

definition exponent :: "string \<Rightarrow> bool" where
  "exponent s \<longleftrightarrow> s = [] \<or>
     (\<exists>e sg ds. s = e # sg @ ds \<and> e \<in> {CHR ''e'', CHR ''E''} \<and> sign sg \<and> digits ds \<and> ds \<noteq> [])"

lemma skip_digits_split: "\<exists>ds. s = ds @ skip_digits s \<and> digits ds"
  by (metis digits_def set_takeWhileD skip_digits_def takeWhile_dropWhile_id)

lemma skip_digits_append:
  "digits ds \<Longrightarrow> (r = [] \<or> \<not> is_ascii_digit (hd r)) \<Longrightarrow> skip_digits (ds @ r) = r"
  by (induction ds) (auto simp: skip_digits_def digits_def dropWhile_eq_self_iff)

lemma skip_sign_split: "\<exists>sg. s = sg @ skip_sign s \<and> sign sg"
  by (cases s) (auto simp: skip_sign_def sign_def)

lemma not_digit_chars:
  "\<not> is_ascii_digit CHR ''+''" "\<not> is_ascii_digit CHR ''-''" "\<not> is_ascii_digit CHR ''.''"
  "\<not> is_ascii_digit CHR ''e''" "\<not> is_ascii_digit CHR ''E''"
  by (simp_all add: is_ascii_digit_def byte_def)

lemma skip_sign_append:
  "sign sg \<Longrightarrow> (r = [] \<or> hd r \<notin> {CHR ''+'', CHR ''-''}) \<Longrightarrow> skip_sign (sg @ r) = r"
  by (cases r) (auto simp: sign_def skip_sign_def)

lemma digits_hd: "digits ds \<Longrightarrow> ds \<noteq> [] \<Longrightarrow> is_ascii_digit (hd ds)"
  by (cases ds) (auto simp: digits_def)

lemma exponent_ok_iff: "exponent_ok s \<longleftrightarrow> exponent s"
proof (cases s)
  case (Cons c cs)
  show ?thesis
  proof
    assume ok: "exponent_ok s"
    then have c: "c \<in> {CHR ''e'', CHR ''E''}"
      and len: "length (skip_digits (skip_sign cs)) \<noteq> length (skip_sign cs)"
      and nil: "skip_digits (skip_sign cs) = []"
      by (auto simp: exponent_ok_def Cons Let_def split: if_splits)
    obtain sg where sg: "cs = sg @ skip_sign cs" "sign sg" using skip_sign_split by blast
    obtain ds where "skip_sign cs = ds" "digits ds" using skip_digits_split nil by (metis append_Nil2)
    with sg c len nil show "exponent s" by (auto simp: exponent_def Cons)
  next
    assume "exponent s"
    then obtain sg ds where *: "cs = sg @ ds" "c \<in> {CHR ''e'', CHR ''E''}" "sign sg" "digits ds" "ds \<noteq> []"
      by (auto simp: exponent_def Cons)
    have "skip_sign cs = ds"
      using * digits_hd [of ds] not_digit_chars by (auto intro!: skip_sign_append)
    moreover have "skip_digits ds = []" using skip_digits_append [of ds "[]"] * by simp
    ultimately show "exponent_ok s" using * by (auto simp: exponent_ok_def Cons Let_def)
  qed
qed (simp add: exponent_ok_def exponent_def)

lemma exponent_hd: "exponent x \<Longrightarrow> x \<noteq> [] \<Longrightarrow> hd x \<in> {CHR ''e'', CHR ''E''}"
  by (auto simp: exponent_def)

lemma numeric_literal_iff:
  "is_numeric_literal s \<longleftrightarrow>
    (\<exists>sg ds fr x. s = sg @ ds @ fr @ x \<and> sign sg \<and> digits ds \<and> exponent x
       \<and> (fr = [] \<and> ds \<noteq> [] \<or> (\<exists>fs. fr = CHR ''.'' # fs \<and> digits fs)))"
proof
  assume a: "is_numeric_literal s"
  obtain sg where sg: "s = sg @ skip_sign s" "sign sg" using skip_sign_split by blast
  obtain ds where ds: "skip_sign s = ds @ skip_digits (skip_sign s)" "digits ds"
    using skip_digits_split by blast
  let ?r = "skip_digits (skip_sign s)"
  have ok: "exponent (skip_fraction ?r)" and ne: "ds \<noteq> [] \<or> (?r \<noteq> [] \<and> hd ?r = CHR ''.'')"
    using a ds(1) by (auto simp: is_numeric_literal_def Let_def exponent_ok_iff split: if_splits)
  show "\<exists>sg ds fr x. s = sg @ ds @ fr @ x \<and> sign sg \<and> digits ds \<and> exponent x
       \<and> (fr = [] \<and> ds \<noteq> [] \<or> (\<exists>fs. fr = CHR ''.'' # fs \<and> digits fs))"
  proof (cases "?r \<noteq> [] \<and> hd ?r = CHR ''.''")
    case True
    then obtain t where t: "?r = CHR ''.'' # t" by (metis list.collapse)
    obtain fs where fs: "t = fs @ skip_digits t" "digits fs" using skip_digits_split by blast
    have sf: "skip_fraction ?r = skip_digits t" using t by (simp add: skip_fraction_def)
    have "s = sg @ ds @ (CHR ''.'' # fs) @ skip_digits t"
      using sg(1) ds(1) t fs(1) by (metis append_Cons)
    with sg(2) ds(2) fs(2) ok sf show ?thesis by metis
  next
    case False
    then have "skip_fraction ?r = ?r" by (cases ?r) (auto simp: skip_fraction_def)
    with ok ne False sg ds show ?thesis by (metis append_Nil)
  qed
next
  assume "\<exists>sg ds fr x. s = sg @ ds @ fr @ x \<and> sign sg \<and> digits ds \<and> exponent x
       \<and> (fr = [] \<and> ds \<noteq> [] \<or> (\<exists>fs. fr = CHR ''.'' # fs \<and> digits fs))"
  then obtain sg ds fr x where s: "s = sg @ ds @ fr @ x" and sg: "sign sg" and ds: "digits ds"
    and x: "exponent x" and fr: "fr = [] \<and> ds \<noteq> [] \<or> (\<exists>fs. fr = CHR ''.'' # fs \<and> digits fs)" by blast
  have hx: "x = [] \<or> \<not> is_ascii_digit (hd x)" using exponent_hd [OF x] not_digit_chars by auto
  have hr: "fr @ x = [] \<or> \<not> is_ascii_digit (hd (fr @ x))"
    using fr hx not_digit_chars by (auto simp: hd_append)
  have "ds @ fr @ x = [] \<or> hd (ds @ fr @ x) \<notin> {CHR ''+'', CHR ''-''}"
    using fr ds digits_hd [of ds] not_digit_chars by (cases ds) auto
  then have 1: "skip_sign s = ds @ fr @ x" unfolding s using sg by (rule skip_sign_append [rotated])
  have 2: "skip_digits (ds @ fr @ x) = fr @ x" by (rule skip_digits_append [OF ds hr])
  have 3: "skip_fraction (fr @ x) = x"
  proof (cases fr)
    case Nil
    then show ?thesis using exponent_hd [OF x] by (cases x) (auto simp: skip_fraction_def)
  next
    case (Cons c fs)
    with fr show ?thesis using hx by (auto simp: skip_fraction_def intro: skip_digits_append)
  qed
  show "is_numeric_literal s"
    using s fr x unfolding is_numeric_literal_def Let_def 1 2 3 exponent_ok_iff by auto
qed

section \<open>What the classification promises\<close>

lemma lower_empty: "to_ascii_lowercase s = [] \<longleftrightarrow> s = []"
  by (simp add: to_ascii_lowercase_def)

text \<open>
  a default is taken for a literal exactly when its trimmed text is one
  of: the words true, false or null in any case; an apostrophe-quoted text with inner
  apostrophes doubled; an escape string (prefix E, a backslash hiding the next byte); a
  dollar-quoted text whose tag does not occur in its body; or a number.
\<close>

theorem literal_shape_iff:
  "is_literal_shape s \<longleftrightarrow>
     to_ascii_lowercase s \<in> {''true'', ''false'', ''null''}
   \<or> (\<exists>b. s = quote # double_quotes b @ [quote])
   \<or> (\<exists>p t. s = p # quote # t \<and> p \<in> {CHR ''E'', CHR ''e''} \<and> e_string_tail t)
   \<or> (\<exists>name body. let tag = dollar # name @ [dollar]
        in dollar \<notin> set name \<and> s = tag @ body @ tag \<and> \<not> contains_str tag body)
   \<or> (\<exists>sg ds fr x. s = sg @ ds @ fr @ x \<and> sign sg \<and> digits ds \<and> exponent x
        \<and> (fr = [] \<and> ds \<noteq> [] \<or> (\<exists>fs. fr = CHR ''.'' # fs \<and> digits fs)))"
proof -
  have w: "eq_ignore_ascii_case s ''true'' \<or> eq_ignore_ascii_case s ''false'' \<or> eq_ignore_ascii_case s ''null''
      \<longleftrightarrow> to_ascii_lowercase s \<in> {''true'', ''false'', ''null''}"
    by (simp add: eq_ignore_ascii_case_def) (simp add: to_ascii_lowercase_def to_ascii_lower_byte_def byte_def)
  have e: "length s \<ge> 3 \<and> (s ! 0 = CHR ''E'' \<or> s ! 0 = CHR ''e'') \<and> is_single_e_string_run s 1
      \<longleftrightarrow> (\<exists>p t. s = p # quote # t \<and> p \<in> {CHR ''E'', CHR ''e''} \<and> e_string_tail t)"
  proof -
    have ne: "e_string_tail t \<Longrightarrow> t \<noteq> []" for t by auto
    show ?thesis
    proof (cases "\<exists>p q t. s = p # q # t")
      case True
      then obtain p q t where "s = p # q # t" by blast
      then show ?thesis using ne by (auto simp: is_single_e_string_run_def Suc_le_eq)
    next
      case False
      then have "length s < 2" by (metis One_nat_def Suc_1 length_0_conv length_Suc_conv less_2_cases not_less Suc_le_length_iff)
      with False show ?thesis by auto
    qed
  qed
  have "s = [] \<Longrightarrow> \<not> to_ascii_lowercase s \<in> {''true'', ''false'', ''null''}"
    by (simp add: to_ascii_lowercase_def)
  then show ?thesis
    unfolding w [symmetric] e [symmetric] quoted_run_iff [symmetric] dollar_quoted_iff [symmetric]
      numeric_literal_iff [symmetric] is_literal_shape_def
    by (auto simp: is_single_quoted_run_def is_single_dollar_quoted_run_def is_numeric_literal_def)
qed

text \<open>
  the volatility of a default is Immutable for a literal, the built-in
  table's answer for one of its names, and Volatile for every other expression; the binary
  search over the table misses no entry and invents none.
\<close>

lemma default_volatility:
  "classify_default_expression e =
     (if is_literal_shape (trim e) then VImmutable
      else case map_of BUILTIN_VOLATILITY (trim e) of Some v \<Rightarrow> v | None \<Rightarrow> VVolatile)"
  using binary_search_map_of [OF builtin_sorted, of "trim e"]
  by (auto simp: classify_default_expression_def Let_def split: option.splits)

end
