(* ===== verification/Online_Class.thy ===== *)
theory Online_Class
  imports Volatility Diff_Types Complex_Main
begin

text \<open>
  The online-safety classifier, \<open>djogi/src/live_migrate/classify.rs\<close>: for each operation of a
  delta, whether it may run online, needs an expand/contract plan, is a guarded fast lock, or
  must be refused. Row estimates and thresholds are \<open>u64\<close> and \<open>u32\<close> words. The theory shows
  that verdicts only get stricter as the table grows and when operations are seen together,
  and that the type-change rules agree with the set of values a type can hold.
\<close>

section \<open>Context\<close>

datatype DefaultVolatility = DvImmutable | DvStable | DvVolatile
datatype LoggingProfile = Light | Balanced | StrictAudit
datatype TargetDatabase = Application | CrudLog | EventLog

record ClassifyContext =
  x_estimated_rows :: "u64 option"
  x_validation_threshold_rows :: u64
  x_multi_fk_threshold :: u32
  x_logging_profile :: LoggingProfile
  x_target_database :: TargetDatabase
  x_inbound_fk_counts :: "(string, u32) btree"
  x_default_volatility_overrides :: "(string \<times> string, DefaultVolatility) btree"

definition application_default ::
  "(string, u32) btree \<Rightarrow> (string \<times> string, DefaultVolatility) btree \<Rightarrow> ClassifyContext" where
  "application_default inbound overrides =
     \<lparr>x_estimated_rows = None, x_validation_threshold_rows = 100000, x_multi_fk_threshold = 4,
      x_logging_profile = Balanced, x_target_database = Application,
      x_inbound_fk_counts = inbound, x_default_volatility_overrides = overrides\<rparr>"

definition classifier_applies :: "ClassifyContext \<Rightarrow> bool" where
  "classifier_applies ctx =
     (case x_target_database ctx of
        Application \<Rightarrow> True
      | CrudLog \<Rightarrow> x_logging_profile ctx = StrictAudit
      | EventLog \<Rightarrow> False)"

section \<open>Type names\<close>

definition canonical_int_width :: "string \<Rightarrow> nat option" where
  "canonical_int_width name =
     (if name = ''bigint'' \<or> name = ''int8'' then Some 64
      else if name = ''integer'' \<or> name = ''int'' \<or> name = ''int4'' then Some 32
      else if name = ''smallint'' \<or> name = ''int2'' then Some 16
      else None)"

datatype NumericTypmod = Unbounded | Bounded (precision: u32) (scale: u32)

text \<open>The text between the parentheses of \<open>(..)\<close>, when the suffix has that form.\<close>

definition parenthesised :: "string \<Rightarrow> string option" where
  "parenthesised rest =
     (if rest = [] \<or> hd rest \<noteq> CHR ''('' \<or> last rest \<noteq> CHR '')'' then None
      else Some (trim (butlast (tl rest))))"

definition parse_numeric_params :: "string \<Rightarrow> NumericTypmod option" where
  "parse_numeric_params t =
     (let normalized = trim t
      in case (case strip_prefix ''numeric'' normalized of
                 Some rest \<Rightarrow> Some rest
               | None \<Rightarrow> strip_prefix ''decimal'' normalized) of
           None \<Rightarrow> None
         | Some rest0 \<Rightarrow>
             let rest = trim_start rest0
             in if rest = [] then Some Unbounded
             else case parenthesised rest of
               None \<Rightarrow> None
             | Some inner \<Rightarrow>
                 if inner = [] then Some Unbounded
                 else (case split_at (CHR '','') inner of
                     p # others \<Rightarrow>
                       (case parse_u32 (trim p) of
                          None \<Rightarrow> None
                        | Some prec \<Rightarrow>
                            (case others of
                               [] \<Rightarrow> Some (Bounded prec 0)
                             | [s] \<Rightarrow>
                                 (case parse_u32 (trim s) of
                                    None \<Rightarrow> None | Some sc \<Rightarrow> Some (Bounded prec sc))
                             | _ \<Rightarrow> None))
                   | [] \<Rightarrow> None))"

definition parse_varchar :: "string \<Rightarrow> (string \<times> u32 option) option" where
  "parse_varchar t =
     (let normalized = trim t
      in case (case strip_prefix ''character varying'' normalized of
                 Some rest \<Rightarrow> Some (''varchar'', trim_start rest)
               | None \<Rightarrow>
           (case strip_prefix ''varchar'' normalized of
                 Some rest \<Rightarrow> Some (''varchar'', trim_start rest)
               | None \<Rightarrow>
           (case strip_prefix ''character'' normalized of
                 Some rest \<Rightarrow> Some (''char'', trim_start rest)
               | None \<Rightarrow>
           (case strip_prefix ''char'' normalized of
                 Some rest \<Rightarrow> Some (''char'', trim_start rest)
               | None \<Rightarrow> None)))) of
           None \<Rightarrow> None
         | Some (kind, rest) \<Rightarrow>
             if rest = [] then Some (kind, None)
             else case parenthesised rest of
               None \<Rightarrow> None
             | Some inner \<Rightarrow>
                 (case parse_u32 inner of None \<Rightarrow> None | Some len \<Rightarrow> Some (kind, Some len)))"

section \<open>Type changes\<close>

text \<open>
  The \<open>if let\<close> chains: two bounded varchars of one kind, and two numeric modifiers.
\<close>

definition varchar_pair :: "string \<Rightarrow> string \<Rightarrow> (u32 \<times> u32) option" where
  "varchar_pair f t =
     (case (parse_varchar f, parse_varchar t) of
        (Some (from_kind, Some flen), Some (to_kind, Some tlen)) \<Rightarrow>
          if from_kind = to_kind then Some (flen, tlen) else None
      | _ \<Rightarrow> None)"

definition int_narrows :: "string \<Rightarrow> string \<Rightarrow> bool" where
  "int_narrows f t =
     (case (canonical_int_width f, canonical_int_width t) of
        (Some fw, Some tw) \<Rightarrow> tw < fw
      | _ \<Rightarrow> False)"

definition numeric_narrows :: "NumericTypmod \<Rightarrow> NumericTypmod \<Rightarrow> bool" where
  "numeric_narrows from to =
     (case (from, to) of
        (Bounded fp fs, Bounded tp ts) \<Rightarrow>
          tp < fp \<or> ts < fs \<or> saturating_sub tp ts < saturating_sub fp fs
      | (Unbounded, Bounded _ _) \<Rightarrow> True
      | _ \<Rightarrow> False)"

definition is_narrowing_or_truncating :: "string \<Rightarrow> string \<Rightarrow> bool" where
  "is_narrowing_or_truncating from to =
     (let f = to_ascii_lowercase (trim from); t = to_ascii_lowercase (trim to)
      in if int_narrows f t then True
      else if (case varchar_pair f t of Some (flen, tlen) \<Rightarrow> tlen < flen | None \<Rightarrow> False) then True
      else if f = ''text'' \<and> parse_varchar t \<noteq> None then True
      else case (parse_numeric_params f, parse_numeric_params t) of
        (Some a, Some b) \<Rightarrow> numeric_narrows a b
      | _ \<Rightarrow> False)"

definition widening_int :: "string \<Rightarrow> string \<Rightarrow> bool" where
  "widening_int f t \<longleftrightarrow>
     (f, t) \<in> {(''smallint'', ''integer''), (''smallint'', ''bigint''), (''integer'', ''bigint''),
               (''int2'', ''int4''), (''int2'', ''int8''), (''int4'', ''int8'')}"

definition is_binary_coercible_widening :: "string \<Rightarrow> string \<Rightarrow> bool" where
  "is_binary_coercible_widening from to =
     (let f = to_ascii_lowercase (trim from); t = to_ascii_lowercase (trim to)
      in if widening_int f t then True
      else if (case varchar_pair f t of Some (flen, tlen) \<Rightarrow> tlen \<ge> flen | None \<Rightarrow> False) then True
      else parse_varchar f \<noteq> None \<and> t = ''text'')"

definition classify_type_change :: "string \<Rightarrow> string \<Rightarrow> OnlineSafetyClassification" where
  "classify_type_change from to =
     (if from = to then OnlineSafe
      else if is_binary_coercible_widening from to then OnlineSafe
      else if is_narrowing_or_truncating from to then OfflineOnly
      else ExpandContract)"

section \<open>Columns, constraints and indexes\<close>

definition classify_validation_against_threshold ::
  "ClassifyContext \<Rightarrow> OnlineSafetyClassification" where
  "classify_validation_against_threshold ctx =
     (case x_estimated_rows ctx of
        Some rows \<Rightarrow> if rows \<le> x_validation_threshold_rows ctx then OnlineSafe else ExpandContract
      | None \<Rightarrow> ExpandContract)"

definition classify_fk_addition :: "ClassifyContext \<Rightarrow> OnlineSafetyClassification" where
  "classify_fk_addition ctx = classify_validation_against_threshold ctx"

text \<open>\<open>match ctx.estimated_rows { Some(0) => OnlineSafe, _ => .. }\<close>\<close>

definition safe_if_empty ::
  "ClassifyContext \<Rightarrow> OnlineSafetyClassification \<Rightarrow> OnlineSafetyClassification" where
  "safe_if_empty ctx other = (if x_estimated_rows ctx = Some 0 then OnlineSafe else other)"

definition classify_add_column ::
  "string \<Rightarrow> ColumnSchema \<Rightarrow> ClassifyContext \<Rightarrow> OnlineSafetyClassification" where
  "classify_add_column table column ctx =
     (if c_generated column \<noteq> None then safe_if_empty ctx OfflineOnly
      else case c_default_sql column of
        None \<Rightarrow> if c_nullable column then OnlineSafe else ExpandContract
      | Some dflt \<Rightarrow>
          (case bt_get (x_default_volatility_overrides ctx) (table, c_name column) of
             Some DvImmutable \<Rightarrow> OnlineSafe
           | Some DvStable \<Rightarrow> OnlineSafe
           | Some DvVolatile \<Rightarrow> ExpandContract
           | None \<Rightarrow>
               (case classify_default_expression dflt of
                  VImmutable \<Rightarrow> OnlineSafe
                | VStable \<Rightarrow> OnlineSafe
                | VVolatile \<Rightarrow> ExpandContract)))"

definition classify_codec_transition ::
  "string option \<Rightarrow> string option \<Rightarrow> OnlineSafetyClassification" where
  "classify_codec_transition from to =
     (case (from, to) of
        (Some a, Some b) \<Rightarrow> if a = b then OnlineSafe else ExpandContract
      | (None, Some _) \<Rightarrow> OfflineOnly
      | (Some _, None) \<Rightarrow> OfflineOnly
      | (None, None) \<Rightarrow> OnlineSafe)"

fun classify_column_change ::
  "ColumnChange \<Rightarrow> ClassifyContext \<Rightarrow> OnlineSafetyClassification" where
  "classify_column_change (SetNullable now_nullable) ctx =
     (if now_nullable then OnlineSafe else classify_validation_against_threshold ctx)"
| "classify_column_change (SetDefault _) ctx = OnlineSafe"
| "classify_column_change (ChangeType _ _ (Some _)) ctx = OfflineOnly"
| "classify_column_change (ChangeType from to None) ctx = classify_type_change from to"
| "classify_column_change (SetCheck _ to) ctx =
     (if to \<noteq> None then classify_validation_against_threshold ctx else OnlineSafe)"
| "classify_column_change (SetUnique new_unique) ctx =
     (if new_unique then ExpandContract else OnlineSafe)"
| "classify_column_change (SetIndexed now_indexed) ctx =
     (if now_indexed then ExpandContract else OnlineSafe)"
| "classify_column_change (SetGenerated _ _) ctx = OfflineOnly"
| "classify_column_change (SetIdentity _ _) ctx = OnlineSafe"
| "classify_column_change (SetComment _ _) ctx = OnlineSafe"
| "classify_column_change (CodecChange from to) ctx = classify_codec_transition from to"

definition classify_index_addition ::
  "IndexSchema \<Rightarrow> ClassifyContext \<Rightarrow> OnlineSafetyClassification" where
  "classify_index_addition index ctx =
     (case i_kind index of
        UniqueConstraint \<Rightarrow> ExpandContract
      | UniqueIndex \<Rightarrow> ExpandContract
      | NonUnique \<Rightarrow>
          if i_requires_out_of_transaction index then OnlineSafe
          else safe_if_empty ctx ExpandContract)"

definition classify_drop_table :: "string \<Rightarrow> ClassifyContext \<Rightarrow> OnlineSafetyClassification" where
  "classify_drop_table table ctx =
     (let inbound = (case bt_get (x_inbound_fk_counts ctx) table of Some n \<Rightarrow> n | None \<Rightarrow> 0)
      in if inbound \<ge> x_multi_fk_threshold ctx then ExpandContract else FastLockDestructiveGuarded)"

section \<open>Operations and deltas\<close>

definition is_pk_type_flip_operation :: "SchemaOperation \<Rightarrow> bool" where
  "is_pk_type_flip_operation op =
     (case op of PkTypeFlip _ _ _ \<Rightarrow> True | PkTypeFlipGroup _ \<Rightarrow> True
      | PkTypeFlipMultiGroup _ \<Rightarrow> True | _ \<Rightarrow> False)"

fun classify_applicable ::
  "SchemaOperation \<Rightarrow> ClassifyContext \<Rightarrow> OnlineSafetyClassification" where
  "classify_applicable (AddColumn table column) ctx = classify_add_column table column ctx"
| "classify_applicable (DropColumn _ _) ctx = FastLockDestructiveGuarded"
| "classify_applicable (RenameColumn _ _ _) ctx = OnlineSafe"
| "classify_applicable (AlterColumn _ _ change) ctx = classify_column_change change ctx"
| "classify_applicable (AddForeignKey _ _ _) ctx = classify_fk_addition ctx"
| "classify_applicable (DropForeignKey _ _ _) ctx = OnlineSafe"
| "classify_applicable (AddExclusionConstraint _ _) ctx = safe_if_empty ctx OfflineOnly"
| "classify_applicable (DropExclusionConstraint _ _ _) ctx = OnlineSafe"
| "classify_applicable (AddIndex index) ctx = classify_index_addition index ctx"
| "classify_applicable (DropIndex _) ctx = OnlineSafe"
| "classify_applicable (AddTable _) ctx = OnlineSafe"
| "classify_applicable (DropTable table) ctx = classify_drop_table table ctx"
| "classify_applicable (RenameTable _ _) ctx = OnlineSafe"
| "classify_applicable (AddEnum _) ctx = OnlineSafe"
| "classify_applicable (AddEnumVariant _ _ _) ctx = OnlineSafe"
| "classify_applicable (DropEnum _) ctx = OfflineOnly"
| "classify_applicable (RenameApp _ _) ctx = OnlineSafe"
| "classify_applicable (MoveModelBetweenApps _ _ _) ctx = OnlineSafe"
| "classify_applicable (SetTableComment _ _ _) ctx = OnlineSafe"
| "classify_applicable (SetStorageParams _ _ _) ctx = OnlineSafe"
| "classify_applicable (SetTablespace _ _ _) ctx = OfflineOnly"
| "classify_applicable (PkTypeFlip _ _ _) ctx = OfflineOnly"
| "classify_applicable (PkTypeFlipGroup _) ctx = OfflineOnly"
| "classify_applicable (PkTypeFlipMultiGroup _) ctx = OfflineOnly"
| "classify_applicable (Unsupported _) ctx = OfflineOnly"

definition classify_operation_online ::
  "SchemaOperation \<Rightarrow> ClassifyContext \<Rightarrow> OnlineSafetyClassification" where
  "classify_operation_online op ctx =
     (if is_pk_type_flip_operation op then OfflineOnly
      else if \<not> classifier_applies ctx then OnlineSafe
      else classify_applicable op ctx)"

definition index_targets_overlap :: "IndexTargetSchema \<Rightarrow> IndexTargetSchema \<Rightarrow> bool" where
  "index_targets_overlap left right =
     (case (left, right) of
        (Columns left_cols, Columns right_cols) \<Rightarrow>
          list_ex (\<lambda>l. list_ex (\<lambda>r. ic_name l = ic_name r) right_cols) left_cols
      | _ \<Rightarrow> False)"

definition indexes_replace_each_other :: "IndexSchema \<Rightarrow> IndexSchema \<Rightarrow> bool" where
  "indexes_replace_each_other add dropped \<longleftrightarrow>
     i_table add = i_table dropped \<and> index_targets_overlap (i_target add) (i_target dropped)"

definition replacement_in_tx :: "IndexSchema \<Rightarrow> IndexSchema \<Rightarrow> bool" where
  "replacement_in_tx add dropped \<longleftrightarrow>
     indexes_replace_each_other add dropped
     \<and> (\<not> i_requires_out_of_transaction add \<or> \<not> i_requires_out_of_transaction dropped)"

definition index_replacement_requires_refusal ::
  "SchemaOperation \<Rightarrow> SchemaOperation list \<Rightarrow> bool" where
  "index_replacement_requires_refusal op ops =
     (case op of
        AddIndex add \<Rightarrow>
          list_ex (\<lambda>other. case other of DropIndex dropped \<Rightarrow> replacement_in_tx add dropped | _ \<Rightarrow> False) ops
      | DropIndex dropped \<Rightarrow>
          list_ex (\<lambda>other. case other of AddIndex add \<Rightarrow> replacement_in_tx add dropped | _ \<Rightarrow> False) ops
      | _ \<Rightarrow> False)"

text \<open>The per-table tally of foreign-key additions, a \<open>u32\<close> each.\<close>

definition count_fk :: "SchemaOperation \<Rightarrow> (string, u32) btree \<Rightarrow> (string, u32) btree" where
  "count_fk op counts =
     (case op of
        AddForeignKey table _ _ \<Rightarrow>
          bt_put table ((case bt_get counts table of Some n \<Rightarrow> n | None \<Rightarrow> 0) + 1) counts
      | _ \<Rightarrow> counts)"

definition fk_addition_counts :: "SchemaOperation list \<Rightarrow> (string, u32) btree" where
  "fk_addition_counts ops = foldl (\<lambda>counts op. count_fk op counts) [] ops"

definition delta_verdict ::
  "SchemaOperation list \<Rightarrow> ClassifyContext \<Rightarrow> SchemaOperation \<Rightarrow> OnlineSafetyClassification" where
  "delta_verdict ops ctx op =
     (let verdict = classify_operation_online op ctx;
          verdict = (case op of
            AddForeignKey table _ _ \<Rightarrow>
              (case bt_get (fk_addition_counts ops) table of
                 Some count \<Rightarrow> if count \<ge> x_multi_fk_threshold ctx then ExpandContract else verdict
               | None \<Rightarrow> verdict)
          | _ \<Rightarrow> verdict)
      in if index_replacement_requires_refusal op ops then OfflineOnly else verdict)"

definition classify_delta ::
  "SchemaOperation list \<Rightarrow> ClassifyContext \<Rightarrow> (SchemaOperation \<times> OnlineSafetyClassification) list" where
  "classify_delta ops ctx =
     (if \<not> classifier_applies ctx
      then map (\<lambda>op. (op, OnlineSafe)) (filter (\<lambda>op. \<not> is_pk_type_flip_operation op) ops)
      else map (\<lambda>op. (op, delta_verdict ops ctx op))
             (filter (\<lambda>op. \<not> is_pk_type_flip_operation op) ops))"

section \<open>Strictness\<close>

text \<open>
  How much a verdict restrains the operator: online, a guarded lock or a multi-step plan, or
  not at all online.
\<close>

fun strictness :: "OnlineSafetyClassification \<Rightarrow> nat" where
  "strictness OnlineSafe = 0"
| "strictness FastLockDestructiveGuarded = 1"
| "strictness ExpandContract = 1"
| "strictness OfflineOnly = 2"

definition grown_to :: "u64 option \<Rightarrow> u64 option \<Rightarrow> bool" where
  "grown_to r r' = (case (r, r') of (_, None) \<Rightarrow> True | (None, Some _) \<Rightarrow> False | (Some a, Some b) \<Rightarrow> a \<le> b)"

lemma grown_cases:
  assumes "grown_to r r'"
  obtains "r' = None" | a b where "r = Some a" "r' = Some b" "a \<le> b"
  using assms by (auto simp: grown_to_def split: option.splits)

lemma safe_if_empty_mono:
  assumes "grown_to (x_estimated_rows ctx) r"
  shows "strictness (safe_if_empty ctx c) \<le> strictness (safe_if_empty (ctx\<lparr>x_estimated_rows := r\<rparr>) c)"
  using assms by (rule grown_cases) (auto simp: safe_if_empty_def)

lemma threshold_mono:
  assumes "grown_to (x_estimated_rows ctx) r"
  shows "strictness (classify_validation_against_threshold ctx)
    \<le> strictness (classify_validation_against_threshold (ctx\<lparr>x_estimated_rows := r\<rparr>))"
  using assms
  by (rule grown_cases) (auto simp: classify_validation_against_threshold_def split: option.splits)

lemma column_change_mono:
  assumes "grown_to (x_estimated_rows ctx) r"
  shows "strictness (classify_column_change c ctx)
    \<le> strictness (classify_column_change c (ctx\<lparr>x_estimated_rows := r\<rparr>))"
proof (cases c)
  case (ChangeType f t u)
  then show ?thesis by (cases u) simp_all
qed (simp_all add: threshold_mono [OF assms])

lemma add_column_mono:
  assumes "grown_to (x_estimated_rows ctx) r"
  shows "strictness (classify_add_column t c ctx)
    \<le> strictness (classify_add_column t c (ctx\<lparr>x_estimated_rows := r\<rparr>))"
  using safe_if_empty_mono [OF assms]
  unfolding classify_add_column_def by (simp split: option.split)

lemma index_mono:
  assumes "grown_to (x_estimated_rows ctx) r"
  shows "strictness (classify_index_addition i ctx)
    \<le> strictness (classify_index_addition i (ctx\<lparr>x_estimated_rows := r\<rparr>))"
  using safe_if_empty_mono [OF assms]
  by (simp add: classify_index_addition_def split: IndexKindSchema.split)

lemma applies_rows [simp]: "classifier_applies (ctx\<lparr>x_estimated_rows := r\<rparr>) = classifier_applies ctx"
  by (simp add: classifier_applies_def split: TargetDatabase.split)

text \<open>
  the verdict on an operation never gets milder as the table's row estimate
  grows, nor when the estimate becomes unknown: an unknown size is judged like the largest.
\<close>

theorem rows_monotone:
  assumes "grown_to (x_estimated_rows ctx) r"
  shows "strictness (classify_operation_online op ctx)
    \<le> strictness (classify_operation_online op (ctx\<lparr>x_estimated_rows := r\<rparr>))"
proof -
  have "strictness (classify_applicable op ctx)
      \<le> strictness (classify_applicable op (ctx\<lparr>x_estimated_rows := r\<rparr>))"
    using assms safe_if_empty_mono threshold_mono column_change_mono add_column_mono index_mono
    by (cases op) (simp_all add: classify_fk_addition_def classify_drop_table_def)
  then show ?thesis by (simp add: classify_operation_online_def)
qed

lemma fk_verdict:
  assumes "classifier_applies ctx"
  shows "strictness (classify_operation_online (AddForeignKey t c fk) ctx) \<le> 1"
  using assms
  by (auto simp: classify_operation_online_def is_pk_type_flip_operation_def classify_fk_addition_def
      classify_validation_against_threshold_def split: option.split)

lemma delta_verdict_stricter:
  assumes "classifier_applies ctx"
  shows "strictness (classify_operation_online op ctx) \<le> strictness (delta_verdict ops ctx op)"
proof -
  have top: "strictness v \<le> strictness OfflineOnly" for v by (cases v) simp_all
  show ?thesis
    using fk_verdict [OF assms] top
    by (cases op) (auto simp: delta_verdict_def Let_def split: option.split)
qed

text \<open>
  classifying a delta keeps every operation but the PK flips, once
  and in order, and judging operations together never gives a milder verdict than judging
  each alone.
\<close>

lemma delta_classification:
  "map fst (classify_delta ops ctx) = filter (\<lambda>op. \<not> is_pk_type_flip_operation op) ops
   \<and> (\<forall>(op, v)\<in>set (classify_delta ops ctx).
        strictness (classify_operation_online op ctx) \<le> strictness v)"
proof (cases "classifier_applies ctx")
  case True
  then show ?thesis using delta_verdict_stricter [OF True] by (auto simp: classify_delta_def o_def)
next
  case False
  then show ?thesis
    by (auto simp: classify_delta_def o_def classify_operation_online_def)
qed

section \<open>Many foreign keys, replaced indexes\<close>

definition fks_on :: "SchemaOperation list \<Rightarrow> string \<Rightarrow> nat" where
  "fks_on ops t = length (filter (\<lambda>op. case op of AddForeignKey t' _ _ \<Rightarrow> t' = t | _ \<Rightarrow> False) ops)"

lemma fk_counts_ok: "bt_ok (fk_addition_counts ops)"
  by (induction ops rule: rev_induct)
    (auto simp: fk_addition_counts_def count_fk_def bt.ok_put split: SchemaOperation.split)

lemma fk_counts_get:
  "bt_get (fk_addition_counts ops) t = (if fks_on ops t = 0 then None else Some (of_nat (fks_on ops t)))"
proof (induction ops rule: rev_induct)
  case Nil
  then show ?case by (simp add: fk_addition_counts_def fks_on_def bt.get_empty)
next
  case (snoc op ops)
  have step: "fk_addition_counts (ops @ [op]) = count_fk op (fk_addition_counts ops)"
    by (simp add: fk_addition_counts_def)
  show ?case
  proof (cases "\<exists>t' c fk. op = AddForeignKey t' c fk")
    case True
    then obtain t' c fk where op: "op = AddForeignKey t' c fk" by blast
    have "fks_on (ops @ [op]) t = fks_on ops t + (if t' = t then 1 else 0)"
      by (simp add: fks_on_def op)
    then show ?thesis
      using snoc
      by (auto simp: step [unfolded op] op count_fk_def bt.get_put [OF fk_counts_ok] add.commute)
  next
    case False
    then have "count_fk op m = m" "fks_on (ops @ [op]) t = fks_on ops t" for m
      by (cases op; simp add: count_fk_def fks_on_def)+
    with snoc step show ?thesis by simp
  qed
qed

text \<open>
  when a delta adds at least the configured number of foreign
  keys to one table, each of them needs an expand/contract plan however small the table, up
  to the point where the 32-bit tally would wrap.
\<close>

lemma many_fks_expand_contract:
  assumes "classifier_applies ctx" "AddForeignKey t c fk \<in> set ops"
    and "unat (x_multi_fk_threshold ctx) \<le> fks_on ops t" "fks_on ops t < 2 ^ 32"
  shows "(AddForeignKey t c fk, ExpandContract) \<in> set (classify_delta ops ctx)"
proof -
  have "fks_on ops t \<noteq> 0"
    using assms(2) by (force simp: fks_on_def filter_empty_conv)
  moreover have "x_multi_fk_threshold ctx \<le> of_nat (fks_on ops t)"
    using assms(3,4) by (simp add: word_le_nat_alt unat_of_nat)
  ultimately have "delta_verdict ops ctx (AddForeignKey t c fk) = ExpandContract"
    by (simp add: delta_verdict_def fk_counts_get index_replacement_requires_refusal_def)
  with assms(1,2) show ?thesis
    by (auto simp: classify_delta_def is_pk_type_flip_operation_def image_iff)
qed

text \<open>
  a delta that replaces an index of a table, dropping one and
  adding another over a common column, is refused online, both halves of it, unless both run
  outside a transaction.
\<close>

theorem index_replacement_refused:
  assumes "classifier_applies ctx" "AddIndex add \<in> set ops" "DropIndex dropped \<in> set ops"
    and "i_table add = i_table dropped" "i_target add = Columns ls" "i_target dropped = Columns rs"
    and "ic_name ` set ls \<inter> ic_name ` set rs \<noteq> {}"
    and "\<not> (i_requires_out_of_transaction add \<and> i_requires_out_of_transaction dropped)"
  shows "(AddIndex add, OfflineOnly) \<in> set (classify_delta ops ctx)
       \<and> (DropIndex dropped, OfflineOnly) \<in> set (classify_delta ops ctx)"
proof -
  have "index_targets_overlap (i_target add) (i_target dropped)"
    using assms(5-7) by (auto simp: index_targets_overlap_def list_ex_iff)
  then have "replacement_in_tx add dropped"
    using assms by (simp add: replacement_in_tx_def indexes_replace_each_other_def)
  then have "index_replacement_requires_refusal (AddIndex add) ops"
    "index_replacement_requires_refusal (DropIndex dropped) ops"
    using assms(2,3) by (force simp: index_replacement_requires_refusal_def list_ex_iff)+
  then have "delta_verdict ops ctx (AddIndex add) = OfflineOnly"
    "delta_verdict ops ctx (DropIndex dropped) = OfflineOnly"
    by (simp_all add: delta_verdict_def Let_def)
  with assms(1-3) show ?thesis
    by (auto simp: classify_delta_def is_pk_type_flip_operation_def image_iff)
qed

section \<open>Type changes and the values a type holds\<close>

datatype SqlValue = IntV int | TextV string | NumV rat

definition int_values :: "nat \<Rightarrow> int set" where
  "int_values w = {- (2 ^ (w - 1)) ..< 2 ^ (w - 1)}"

definition numeric_values :: "nat \<Rightarrow> nat \<Rightarrow> rat set" where
  "numeric_values p s = {x. \<exists>k. x = of_int k / 10 ^ s \<and> \<bar>k\<bar> < 10 ^ p}"

text \<open>What a column of a (normalised) type can store, for the types the rules name.\<close>

definition storable :: "string \<Rightarrow> SqlValue set option" where
  "storable t =
     (case canonical_int_width t of
        Some w \<Rightarrow> Some (IntV ` int_values w)
      | None \<Rightarrow>
          if t = ''text'' then Some (range TextV)
          else (case parse_varchar t of
             Some (_, Some n) \<Rightarrow> Some (TextV ` {s. length s \<le> unat n})
           | Some (kind, None) \<Rightarrow>
               Some (if kind = ''char'' then TextV ` {s. length s \<le> 1} else range TextV)
           | None \<Rightarrow>
               (case parse_numeric_params t of
                  Some (Bounded p s) \<Rightarrow> Some (NumV ` numeric_values (unat p) (unat s))
                | Some Unbounded \<Rightarrow> Some (range NumV)
                | None \<Rightarrow> None)))"

definition normal_type :: "string \<Rightarrow> string" where
  "normal_type t = to_ascii_lowercase (trim t)"

lemma int_names:
  "canonical_int_width t = Some w \<longleftrightarrow>
    (t, w) \<in> {(''bigint'', 64), (''int8'', 64), (''integer'', 32), (''int'', 32), (''int4'', 32),
             (''smallint'', 16), (''int2'', 16)}"
  by (auto simp: canonical_int_width_def split: if_splits)

lemma int_values_mono: "w \<le> w' \<Longrightarrow> int_values w \<subseteq> int_values w'"
proof -
  assume "w \<le> w'"
  then have "(2::int) ^ (w - 1) \<le> 2 ^ (w' - 1)" by (intro power_increasing) auto
  then show ?thesis by (auto simp: int_values_def)
qed

lemma int_values_subset:
  assumes "0 < w" "0 < w'"
  shows "int_values w \<subseteq> int_values w' \<longleftrightarrow> w \<le> w'"
proof
  assume sub: "int_values w \<subseteq> int_values w'"
  have "- (2 ^ (w - 1)) \<in> int_values w" by (simp add: int_values_def)
  with sub have "(2::int) ^ (w - 1) \<le> 2 ^ (w' - 1)" by (auto simp: int_values_def)
  then show "w \<le> w'" using assms by (simp add: power_increasing_iff)
qed (rule int_values_mono)

lemma eval_trim_names:
  "trim ''bigint'' = ''bigint''" "trim ''int8'' = ''int8''" "trim ''integer'' = ''integer''"
  "trim ''int'' = ''int''" "trim ''int4'' = ''int4''" "trim ''smallint'' = ''smallint''"
  "trim ''int2'' = ''int2''" "trim ''text'' = ''text''"
  by code_simp+

lemma int_not_varchar: "canonical_int_width t = Some w \<Longrightarrow> parse_varchar t = None"
  by (auto simp: int_names parse_varchar_def eval_trim_names)

lemma text_not_varchar: "parse_varchar ''text'' = None"
  by (simp add: parse_varchar_def eval_trim_names)

lemma storable_varchar:
  assumes "parse_varchar t = Some (k, n)"
  shows "storable t = Some (case n of Some n \<Rightarrow> TextV ` {s. length s \<le> unat n}
      | None \<Rightarrow> if k = ''char'' then TextV ` {s. length s \<le> 1} else range TextV)"
proof -
  have "canonical_int_width t = None" "t \<noteq> ''text''"
    using assms int_not_varchar text_not_varchar by fastforce+
  with assms show ?thesis by (simp add: storable_def split: option.split)
qed

lemma varchar_pair_Some:
  "varchar_pair f t = Some (a, b) \<Longrightarrow> \<exists>k. parse_varchar f = Some (k, Some a) \<and> parse_varchar t = Some (k, Some b)"
  by (auto simp: varchar_pair_def split: option.splits prod.splits if_splits)

text \<open>
  C32: a type change let through as online safe never loses a
  value: every value the old type can store, the new type can store.
\<close>

theorem online_type_change_keeps_values:
  assumes "classify_type_change from to = OnlineSafe" "from \<noteq> to"
  shows "\<exists>A B. storable (normal_type from) = Some A \<and> storable (normal_type to) = Some B \<and> A \<subseteq> B"
proof -
  let ?f = "normal_type from" and ?t = "normal_type to"
  have w: "is_binary_coercible_widening from to"
    using assms by (auto simp: classify_type_change_def split: if_splits)
  have "widening_int ?f ?t \<or> (\<exists>a b. varchar_pair ?f ?t = Some (a, b) \<and> a \<le> b)
      \<or> parse_varchar ?f \<noteq> None \<and> ?t = ''text''"
    using w unfolding is_binary_coercible_widening_def Let_def normal_type_def [symmetric]
    by (cases "varchar_pair ?f ?t") (simp_all split: if_splits prod.splits)
  then consider (int) "widening_int ?f ?t"
    | (len) a b where "varchar_pair ?f ?t = Some (a, b)" "a \<le> b"
    | (unb) k n where "parse_varchar ?f = Some (k, n)" "?t = ''text''"
    by force
  then show ?thesis
  proof cases
    case int
    then obtain a b where ab: "canonical_int_width ?f = Some a" "canonical_int_width ?t = Some b" "a \<le> b"
      by (auto simp: widening_int_def canonical_int_width_def)
    then have "storable ?f = Some (IntV ` int_values a)" "storable ?t = Some (IntV ` int_values b)"
      by (simp_all add: storable_def)
    with int_values_mono [OF ab(3)] show ?thesis by blast
  next
    case len
    then have "unat a \<le> unat b" by (simp add: word_le_nat_alt)
    with varchar_pair_Some [OF len(1)] show ?thesis by (auto simp: storable_varchar)
  next
    case unb
    have "storable ''text'' = Some (range TextV)" by (simp add: storable_def canonical_int_width_def)
    with unb storable_varchar [OF unb(1)] show ?thesis by (auto split: option.splits)
  qed
qed

section \<open>Refused type changes\<close>

lemma coprime_pred_power: "0 < n \<Longrightarrow> coprime ((10::int) ^ n - 1) (10 ^ m)"
proof -
  assume n: "0 < n"
  have "coprime ((10::int) ^ n - 1) (10 ^ n)" 
  proof (rule coprimeI)
    fix d :: int assume d: "d dvd 10 ^ n - 1" "d dvd 10 ^ n"
    have "10 ^ n - (10 ^ n - 1) = (1::int)" by simp
    with dvd_diff [OF d(2,1)] show "is_unit d" by metis
  qed
  then have "coprime ((10::int) ^ n - 1) 10" using n by (simp add: coprime_power_right_iff)
  then show ?thesis by simp
qed

lemma numeric_subset_iff:
  assumes "fs \<le> fp" "ts \<le> tp" "0 < fp"
  shows "numeric_values fp fs \<subseteq> numeric_values tp ts \<longleftrightarrow> fs \<le> ts \<and> fp - fs \<le> tp - ts"
proof
  assume r: "fs \<le> ts \<and> fp - fs \<le> tp - ts"
  have le: "fp + (ts - fs) \<le> tp" using r assms by linarith
  show "numeric_values fp fs \<subseteq> numeric_values tp ts"
  proof
    fix x assume "x \<in> numeric_values fp fs"
    then obtain k where k: "x = of_int k / 10 ^ fs" "\<bar>k\<bar> < 10 ^ fp" by (auto simp: numeric_values_def)
    have "(10::rat) ^ ts = 10 ^ fs * 10 ^ (ts - fs)" using r by (simp flip: power_add)
    then have "x = of_int (k * 10 ^ (ts - fs)) / 10 ^ ts" using k(1) by simp
    moreover have "\<bar>k * 10 ^ (ts - fs)\<bar> < 10 ^ tp"
    proof -
      have "\<bar>k * 10 ^ (ts - fs)\<bar> < 10 ^ fp * 10 ^ (ts - fs)" using k(2) by (simp add: abs_mult)
      also have "\<dots> \<le> 10 ^ tp" using le by (simp flip: power_add)
      finally show ?thesis .
    qed
    ultimately show "x \<in> numeric_values tp ts" unfolding numeric_values_def by blast
  qed
next
  assume sub: "numeric_values fp fs \<subseteq> numeric_values tp ts"
  let ?k = "(10::int) ^ fp - 1"
  have "(of_int ?k / 10 ^ fs :: rat) \<in> numeric_values fp fs"
    unfolding numeric_values_def by (intro CollectI exI [of _ ?k]) simp
  with sub obtain k' where eq: "(of_int ?k / 10 ^ fs :: rat) = of_int k' / 10 ^ ts" and k': "\<bar>k'\<bar> < 10 ^ tp"
    by (auto simp: numeric_values_def)
  from eq have "(of_int (?k * 10 ^ ts) :: rat) = of_int (k' * 10 ^ fs)"
    by (simp add: field_simps)
  then have int: "?k * 10 ^ ts = k' * 10 ^ fs" by (simp only: of_int_eq_iff)
  then have "10 ^ fs dvd ?k * 10 ^ ts" by simp
  then have "(10::int) ^ fs dvd 10 ^ ts"
    using coprime_pred_power [OF assms(3), of fs] by (simp add: coprime_dvd_mult_right_iff coprime_commute)
  then have fts: "fs \<le> ts" by (simp add: dvd_power_iff)
  have "(10::int) ^ ts = 10 ^ fs * 10 ^ (ts - fs)" using fts by (simp flip: power_add)
  with int have "?k * 10 ^ (ts - fs) = k'" by (simp add: mult.left_commute)
  then have lt: "?k * 10 ^ (ts - fs) < 10 ^ tp" using k' by auto
  have "(10::int) ^ (fp - 1) \<le> ?k"
    using assms(3) power_Suc [of "10::int" "fp - 1"] by (simp add: int_one_le_iff_zero_less)
  then have "(10::int) ^ (fp - 1) * 10 ^ (ts - fs) \<le> ?k * 10 ^ (ts - fs)" by simp
  from le_less_trans [OF this lt] have "(10::int) ^ (fp - 1 + (ts - fs)) < 10 ^ tp"
    by (simp only: power_add)
  then have "fp - 1 + (ts - fs) < tp" by (simp add: power_strict_increasing_iff)
  then show "fs \<le> ts \<and> fp - fs \<le> tp - ts" using fts assms by linarith
qed

lemma numeric_narrows_iff:
  assumes "fs \<le> fp" "ts \<le> tp" "0 < fp"
  shows "numeric_narrows (Bounded fp fs) (Bounded tp ts) \<longleftrightarrow>
    \<not> numeric_values (unat fp) (unat fs) \<subseteq> numeric_values (unat tp) (unat ts)"
proof -
  have "unat fs \<le> unat fp" "unat ts \<le> unat tp" "0 < unat fp"
    using assms by (simp_all add: word_le_nat_alt unat_gt_0 word_neq_0_conv)
  from numeric_subset_iff [OF this] this show ?thesis
    by (simp add: numeric_narrows_def word_less_nat_alt unat_saturating_sub) linarith
qed

lemma names_not_numeric:
  "parse_numeric_params ''bigint'' = None" "parse_numeric_params ''int8'' = None"
  "parse_numeric_params ''integer'' = None" "parse_numeric_params ''int'' = None"
  "parse_numeric_params ''int4'' = None" "parse_numeric_params ''smallint'' = None"
  "parse_numeric_params ''int2'' = None" "parse_numeric_params ''text'' = None"
  by code_simp+

lemma numeric_not_others:
  assumes "parse_numeric_params t = Some m"
  shows "parse_varchar t = None" "canonical_int_width t = None" "t \<noteq> ''text''"
proof -
  have "strip_prefix ''numeric'' (trim t) \<noteq> None \<or> strip_prefix ''decimal'' (trim t) \<noteq> None"
  proof (rule ccontr)
    assume "\<not> (strip_prefix ''numeric'' (trim t) \<noteq> None \<or> strip_prefix ''decimal'' (trim t) \<noteq> None)"
    then show False using assms by (simp add: parse_numeric_params_def Let_def)
  qed
  then obtain r where "strip_prefix ''numeric'' (trim t) = Some r \<or> strip_prefix ''decimal'' (trim t) = Some r"
    by blast
  then have "trim t = ''numeric'' @ r \<or> trim t = ''decimal'' @ r"
    by (simp only: strip_prefix_Some)
  then have "strip_prefix ''character varying'' (trim t) = None" "strip_prefix ''varchar'' (trim t) = None"
    "strip_prefix ''character'' (trim t) = None" "strip_prefix ''char'' (trim t) = None"
    by auto
  then show "parse_varchar t = None"
    by (simp add: parse_varchar_def Let_def)
  have named: "t \<notin> {''bigint'', ''int8'', ''integer'', ''int'', ''int4'', ''smallint'', ''int2'', ''text''}"
    using assms by (auto simp only: names_not_numeric insert_iff empty_iff option.distinct)
  show "canonical_int_width t = None"
    using named unfolding canonical_int_width_def by (simp only: insert_iff de_Morgan_disj if_False simp_thms)
  show "t \<noteq> ''text''" using named by (simp only: insert_iff de_Morgan_disj simp_thms)
qed

lemma int_not_numeric: "canonical_int_width t = Some w \<Longrightarrow> parse_numeric_params t = None"
  using numeric_not_others(2) by fastforce

text \<open>
  a change between two bounded numeric types is refused online
  exactly when some value of the old type does not fit the new one, in its integer digits or
  its scale; otherwise it becomes an expand/contract plan.
\<close>

theorem numeric_change_refused:
  assumes "from \<noteq> to"
    and "parse_numeric_params (normal_type from) = Some (Bounded fp fs)"
    and "parse_numeric_params (normal_type to) = Some (Bounded tp ts)"
    and "fs \<le> fp" "ts \<le> tp" "0 < fp"
  shows "classify_type_change from to =
    (if numeric_values (unat fp) (unat fs) \<subseteq> numeric_values (unat tp) (unat ts)
     then ExpandContract else OfflineOnly)"
proof -
  note f = numeric_not_others [OF assms(2)] and t = numeric_not_others [OF assms(3)]
  have "\<not> widening_int (normal_type from) (normal_type to)"
    using f(2) by (auto simp: widening_int_def canonical_int_width_def)
  then have "\<not> is_binary_coercible_widening from to"
    using f(1) by (simp add: is_binary_coercible_widening_def varchar_pair_def Let_def flip: normal_type_def)
  moreover have "is_narrowing_or_truncating from to = numeric_narrows (Bounded fp fs) (Bounded tp ts)"
    using f t assms(2,3)
    by (simp add: is_narrowing_or_truncating_def int_narrows_def varchar_pair_def Let_def flip: normal_type_def)
  ultimately show ?thesis
    using assms(1) numeric_narrows_iff [OF assms(4-6)] by (simp add: classify_type_change_def)
qed

text \<open>
  a change between two integer types is refused online exactly when
  the new type cannot hold every value of the old one, whatever aliases name the two types.
\<close>

lemma int_change_refused:
  assumes "from \<noteq> to"
    and "canonical_int_width (normal_type from) = Some a"
    and "canonical_int_width (normal_type to) = Some b"
  shows "classify_type_change from to = OfflineOnly \<longleftrightarrow> \<not> int_values a \<subseteq> int_values b"
proof -
  have pos: "0 < a" "0 < b" using assms(2,3) by (auto simp: canonical_int_width_def split: if_splits)
  have wid: "widening_int (normal_type from) (normal_type to) \<Longrightarrow> a \<le> b"
    using assms(2,3) by (auto simp: widening_int_def canonical_int_width_def)
  have "normal_type to \<noteq> ''text''" using assms(3) by (auto simp: canonical_int_width_def)
  then have "is_binary_coercible_widening from to = widening_int (normal_type from) (normal_type to)"
    using int_not_varchar [OF assms(2)] int_not_varchar [OF assms(3)]
    by (simp add: is_binary_coercible_widening_def varchar_pair_def Let_def flip: normal_type_def)
  moreover have "is_narrowing_or_truncating from to \<longleftrightarrow> b < a"
    using int_not_varchar [OF assms(2)] int_not_varchar [OF assms(3)] int_not_numeric [OF assms(2)] assms(2,3)
    by (simp add: is_narrowing_or_truncating_def int_narrows_def varchar_pair_def Let_def flip: normal_type_def)
  ultimately show ?thesis
    using assms(1) wid int_values_subset [OF pos] by (auto simp: classify_type_change_def)
qed

end
