(* ===== verification/Live_Plan.thy ===== *)
theory Live_Plan
  imports Rust_Str Schema
begin

text \<open>
  Live plans, \<open>djogi/src/live_migrate/plan.rs\<close>: step kinds and classifications with their
  database labels, steps and their parameters, the scan for destructive SQL, and the
  validation of a plan. Validation is shown to accept exactly the well-formed plans, and the
  scan to accept exactly the texts with a destructive phrase at word boundaries.
\<close>

section \<open>Kinds and labels\<close>

datatype StepKind =
    SkExpandSchema | SkBeginCompatibilityWindow | SkBackfillChunked | SkValidateBackfill
  | SkCutoverReads | SkCutoverWrites | SkFinalizeConstraints | SkCleanupLegacyState
  | SkRunReversibleSchemaOp

definition STEP_KIND_LABELS :: "(StepKind \<times> string) list" where
  "STEP_KIND_LABELS =
     [(SkExpandSchema, ''expand_schema''),
      (SkBeginCompatibilityWindow, ''begin_compatibility_window''),
      (SkBackfillChunked, ''backfill_chunked''),
      (SkValidateBackfill, ''validate_backfill''),
      (SkCutoverReads, ''cutover_reads''),
      (SkCutoverWrites, ''cutover_writes''),
      (SkFinalizeConstraints, ''finalize_constraints''),
      (SkCleanupLegacyState, ''cleanup_legacy_state''),
      (SkRunReversibleSchemaOp, ''run_reversible_schema_op'')]"

datatype PlanClassification = PcOnlineSafe | PcExpandContract | PcOfflineOnly

definition PLAN_CLASSIFICATION_LABELS :: "(PlanClassification \<times> string) list" where
  "PLAN_CLASSIFICATION_LABELS =
     [(PcOnlineSafe, ''online_safe''),
      (PcExpandContract, ''expand_contract''),
      (PcOfflineOnly, ''offline_only'')]"

interpretation step_labels: label_table STEP_KIND_LABELS
proof
  fix v show "v \<in> fst ` set STEP_KIND_LABELS"
    by (cases v) (simp_all add: STEP_KIND_LABELS_def)
qed (simp_all add: STEP_KIND_LABELS_def)

interpretation class_labels: label_table PLAN_CLASSIFICATION_LABELS
proof
  fix v show "v \<in> fst ` set PLAN_CLASSIFICATION_LABELS"
    by (cases v) (simp_all add: PLAN_CLASSIFICATION_LABELS_def)
qed (simp_all add: PLAN_CLASSIFICATION_LABELS_def)

text \<open>The \<open>expect\<close> of \<open>as_db_str\<close> is the value \<^const>\<open>None\<close>.\<close>

definition step_as_db_str :: "StepKind \<Rightarrow> string option" where
  "step_as_db_str k = label_of STEP_KIND_LABELS k"

definition classification_as_db_str :: "PlanClassification \<Rightarrow> string option" where
  "classification_as_db_str c = label_of PLAN_CLASSIFICATION_LABELS c"

definition classification_from_db_str :: "string \<Rightarrow> PlanClassification option" where
  "classification_from_db_str s = variant_of PLAN_CLASSIFICATION_LABELS s"

fun plan_classification_from :: "OnlineSafetyClassification \<Rightarrow> PlanClassification option" where
  "plan_classification_from OnlineSafe = Some PcOnlineSafe"
| "plan_classification_from ExpandContract = Some PcExpandContract"
| "plan_classification_from OfflineOnly = Some PcOfflineOnly"
| "plan_classification_from FastLockDestructiveGuarded = None"

section \<open>Steps\<close>

datatype StepParameters =
    ExpandSchema (expand_sql: "string list")
  | BeginCompatibilityWindow (hooks: "string list")
  | BackfillChunked (bf_table: string) (predicate_template: string) (chunk_size: u32)
  | ValidateBackfill (gate_query: string)
  | CutoverReads (reads_description: string)
  | CutoverWrites (writes_description: string)
  | FinalizeConstraints (finalize_sql: "string list")
  | CleanupLegacyState (cleanup_sql: "string list")
  | RunReversibleSchemaOp (up_sql: string) (down_sql: string)

fun parameters_kind :: "StepParameters \<Rightarrow> StepKind" where
  "parameters_kind (ExpandSchema _) = SkExpandSchema"
| "parameters_kind (BeginCompatibilityWindow _) = SkBeginCompatibilityWindow"
| "parameters_kind (BackfillChunked _ _ _) = SkBackfillChunked"
| "parameters_kind (ValidateBackfill _) = SkValidateBackfill"
| "parameters_kind (CutoverReads _) = SkCutoverReads"
| "parameters_kind (CutoverWrites _) = SkCutoverWrites"
| "parameters_kind (FinalizeConstraints _) = SkFinalizeConstraints"
| "parameters_kind (CleanupLegacyState _) = SkCleanupLegacyState"
| "parameters_kind (RunReversibleSchemaOp _ _) = SkRunReversibleSchemaOp"

record Step =
  st_kind :: StepKind
  st_ordinal :: u32
  st_parameters :: StepParameters

definition is_consistent :: "Step \<Rightarrow> bool" where
  "is_consistent s \<longleftrightarrow> st_kind s = parameters_kind (st_parameters s)"

section \<open>The scan for destructive SQL\<close>

definition is_ident_byte :: "char \<Rightarrow> bool" where
  "is_ident_byte b \<longleftrightarrow> is_ascii_alphanumeric b \<or> b = CHR ''_''"

definition is_ws_byte :: "char \<Rightarrow> bool" where
  "is_ws_byte b \<longleftrightarrow> b \<in> {CHR '' '', CHR 0x09, CHR 0x0A, CHR 0x0D}"

definition bytes_match_kw :: "string \<Rightarrow> string \<Rightarrow> bool" where
  "bytes_match_kw input kw =
     (if length input < length kw then False
      else list_all (\<lambda>(a, b). to_ascii_lower_byte a = to_ascii_lower_byte b) (zip input kw))"

definition DROP_KIND_KEYWORDS :: "string list" where
  "DROP_KIND_KEYWORDS =
     [''TABLE'', ''COLUMN'', ''INDEX'', ''CONSTRAINT'', ''SCHEMA'', ''TYPE'', ''VIEW'',
      ''FUNCTION'', ''TRIGGER'']"

definition ends_word :: "string \<Rightarrow> bool" where
  "ends_word rest \<longleftrightarrow> rest = [] \<or> \<not> is_ident_byte (hd rest)"

text \<open>The two tests at one position, on the bytes from there on.\<close>

definition truncate_at :: "string \<Rightarrow> bool" where
  "truncate_at s \<longleftrightarrow>
     bytes_match_kw s ''TRUNCATE'' \<and> ends_word (drop (length ''TRUNCATE'') s)"

definition drop_at :: "string \<Rightarrow> bool" where
  "drop_at s \<longleftrightarrow>
     bytes_match_kw s ''DROP''
     \<and> (let after = drop (length ''DROP'') s
        in after \<noteq> [] \<and> \<not> is_ident_byte (hd after)
           \<and> (let target = dropWhile is_ws_byte after
              in target \<noteq> []
                 \<and> list_ex (\<lambda>kw. bytes_match_kw target kw \<and> ends_word (drop (length kw) target))
                     DROP_KIND_KEYWORDS))"

text \<open>The outer loop: the byte before the current one, and the bytes from it on.\<close>

fun destructive_scan :: "char option \<Rightarrow> string \<Rightarrow> bool" where
  "destructive_scan prev [] = False"
| "destructive_scan prev (c # cs) =
     (if (case prev of None \<Rightarrow> True | Some p \<Rightarrow> \<not> is_ident_byte p)
         \<and> (truncate_at (c # cs) \<or> drop_at (c # cs))
      then True else destructive_scan (Some c) cs)"

definition sql_contains_destructive_token :: "string \<Rightarrow> bool" where
  "sql_contains_destructive_token sql = destructive_scan None sql"

definition emits_destructive_sql :: "Step \<Rightarrow> bool" where
  "emits_destructive_sql s =
     (case (st_kind s, st_parameters s) of
        (SkCleanupLegacyState, _) \<Rightarrow> True
      | (SkRunReversibleSchemaOp, RunReversibleSchemaOp up _) \<Rightarrow> sql_contains_destructive_token up
      | _ \<Rightarrow> False)"

section \<open>Plans\<close>

record PlanHeader =
  ph_plan_id :: i64
  ph_slug :: string
  ph_classification :: PlanClassification
  ph_originating_migration :: string
  ph_target_database :: string
  ph_app_label :: string

record LivePlan =
  lp_header :: PlanHeader
  lp_steps :: "Step list"

definition has_destructive_steps :: "LivePlan \<Rightarrow> bool" where
  "has_destructive_steps p = list_ex emits_destructive_sql (lp_steps p)"

datatype PlanValidationError =
    EmptySteps
  | TooManySteps
  | KindMismatch (km_ordinal: u32) (km_declared: StepKind) (km_parameters_kind: StepKind)
  | OrdinalGap (og_position: nat) (og_expected: u32) (og_observed: u32)
  | SlugByte (sb_offset: nat) (sb_byte: nat)
  | EmptySlug

fun slug_scan :: "nat \<Rightarrow> string \<Rightarrow> PlanValidationError option" where
  "slug_scan offset [] = None"
| "slug_scan offset (b # bs) =
     (if is_ascii_alphanumeric b \<or> b = CHR ''_'' then slug_scan (Suc offset) bs
      else Some (SlugByte offset (byte b)))"

definition validate_slug_bytes :: "string \<Rightarrow> PlanValidationError option" where
  "validate_slug_bytes slug = (if slug = [] then Some EmptySlug else slug_scan 0 slug)"

fun validate_steps :: "nat \<Rightarrow> Step list \<Rightarrow> PlanValidationError option" where
  "validate_steps idx [] = None"
| "validate_steps idx (s # steps) =
     (if \<not> is_consistent s
      then Some (KindMismatch (st_ordinal s) (st_kind s) (parameters_kind (st_parameters s)))
      else if idx \<ge> 2 ^ 32 then Some TooManySteps
      else if st_ordinal s \<noteq> of_nat idx then Some (OrdinalGap idx (of_nat idx) (st_ordinal s))
      else validate_steps (Suc idx) steps)"

text \<open>\<^const>\<open>None\<close> is \<open>Ok(())\<close>.\<close>

definition validate :: "LivePlan \<Rightarrow> PlanValidationError option" where
  "validate p =
     (if lp_steps p = [] then Some EmptySteps
      else case validate_steps 0 (lp_steps p) of
        Some e \<Rightarrow> Some e
      | None \<Rightarrow> validate_slug_bytes (ph_slug (lp_header p)))"

section \<open>Validation accepts exactly the well-formed plans\<close>

definition step_ok :: "nat \<Rightarrow> Step \<Rightarrow> bool" where
  "step_ok i s \<longleftrightarrow> is_consistent s \<and> i < 2 ^ 32 \<and> unat (st_ordinal s) = i"

lemma ordinal_iff: "i < 2 ^ 32 \<Longrightarrow> (st_ordinal s = of_nat i) = (unat (st_ordinal s) = i)"
  by (auto simp: unat_of_nat)

lemma validate_steps_None:
  "validate_steps k steps = None \<longleftrightarrow> (\<forall>i<length steps. step_ok (k + i) (steps ! i))"
proof (induction k steps rule: validate_steps.induct)
  case (2 k s steps)
  have all: "(\<forall>i<length (s # steps). step_ok (k + i) ((s # steps) ! i)) \<longleftrightarrow>
      step_ok k s \<and> (\<forall>i<length steps. step_ok (Suc k + i) (steps ! i))"
    by (auto simp: less_Suc_eq_0_disj)
  show ?case
  proof (cases "step_ok k s")
    case True
    then have "is_consistent s" "\<not> k \<ge> 2 ^ 32" "st_ordinal s = of_nat k"
      using ordinal_iff by (auto simp: step_ok_def)
    with 2 True all show ?thesis by simp
  next
    case False
    then have "\<not> is_consistent s \<or> k \<ge> 2 ^ 32 \<or> st_ordinal s \<noteq> of_nat k"
      using ordinal_iff [of k s] by (auto simp: step_ok_def)
    with False all show ?thesis by auto
  qed
qed simp

lemma slug_scan_None: "slug_scan k s = None \<longleftrightarrow> (\<forall>b\<in>set s. is_ident_byte b)"
  by (induction k s rule: slug_scan.induct) (simp_all add: is_ident_byte_def)

text \<open>
  a live plan validates exactly when it has at least one step, every
  step's kind agrees with its parameters, the ordinals count 0, 1, 2, ... without gap (and
  fit 32 bits), and the slug is a non-empty word over letters, digits and underscore.
\<close>

lemma validate_ok_iff:
  "validate p = None \<longleftrightarrow>
     lp_steps p \<noteq> []
     \<and> (\<forall>i<length (lp_steps p). is_consistent (lp_steps p ! i)
          \<and> i < 2 ^ 32 \<and> unat (st_ordinal (lp_steps p ! i)) = i)
     \<and> ph_slug (lp_header p) \<noteq> [] \<and> (\<forall>b\<in>set (ph_slug (lp_header p)). is_ident_byte b)"
proof -
  have "validate p = None \<longleftrightarrow> lp_steps p \<noteq> [] \<and> validate_steps 0 (lp_steps p) = None
      \<and> validate_slug_bytes (ph_slug (lp_header p)) = None"
    by (simp add: validate_def split: option.split)
  then show ?thesis
    by (auto simp: validate_steps_None step_ok_def validate_slug_bytes_def slug_scan_None)
qed

text \<open>
  an invalid plan is reported at its first bad step: the step before it
  are all well formed, and the error names the mismatching kinds, the missing room or the two
  ordinals of that very step.
\<close>

lemma validate_first_error:
  assumes "validate_steps 0 steps = Some e"
  shows "\<exists>i<length steps. (\<forall>j<i. step_ok j (steps ! j)) \<and> \<not> step_ok i (steps ! i) \<and>
    e = (if \<not> is_consistent (steps ! i)
         then KindMismatch (st_ordinal (steps ! i)) (st_kind (steps ! i))
                (parameters_kind (st_parameters (steps ! i)))
         else if i \<ge> 2 ^ 32 then TooManySteps
         else OrdinalGap i (of_nat i) (st_ordinal (steps ! i)))"
proof -
  have "validate_steps k steps = Some e \<Longrightarrow>
    \<exists>i<length steps. (\<forall>j<i. step_ok (k + j) (steps ! j)) \<and> \<not> step_ok (k + i) (steps ! i) \<and>
    e = (if \<not> is_consistent (steps ! i)
         then KindMismatch (st_ordinal (steps ! i)) (st_kind (steps ! i))
                (parameters_kind (st_parameters (steps ! i)))
         else if k + i \<ge> 2 ^ 32 then TooManySteps
         else OrdinalGap (k + i) (of_nat (k + i)) (st_ordinal (steps ! i)))" for k
  proof (induction k steps rule: validate_steps.induct)
    case (2 k s steps)
    show ?case
    proof (cases "step_ok k s")
      case True
      then have c: "is_consistent s" "\<not> k \<ge> 2 ^ 32" "st_ordinal s = of_nat k"
        using ordinal_iff by (auto simp: step_ok_def)
      with "2.prems" have "validate_steps (Suc k) steps = Some e" by simp
      from "2.IH" [OF _ c(2) _ this] c obtain i where i: "i < length steps"
        "\<forall>j<i. step_ok (Suc k + j) (steps ! j)" "\<not> step_ok (Suc k + i) (steps ! i)"
        "e = (if \<not> is_consistent (steps ! i)
         then KindMismatch (st_ordinal (steps ! i)) (st_kind (steps ! i))
                (parameters_kind (st_parameters (steps ! i)))
         else if Suc k + i \<ge> 2 ^ 32 then TooManySteps
         else OrdinalGap (Suc k + i) (of_nat (Suc k + i)) (st_ordinal (steps ! i)))"
        by blast
      have "\<forall>j<Suc i. step_ok (k + j) ((s # steps) ! j)"
        using True i(2) by (auto simp: less_Suc_eq_0_disj)
      with i show ?thesis by (intro exI [of _ "Suc i"]) simp
    next
      case False
      then have "\<not> is_consistent s \<or> k \<ge> 2 ^ 32 \<or> st_ordinal s \<noteq> of_nat k"
        using ordinal_iff [of k s] by (auto simp: step_ok_def)
      with "2.prems" False show ?thesis by (intro exI [of _ 0]) (auto split: if_splits)
    qed
  qed simp
  from this [of 0] assms show ?thesis by (simp only: add_0)
qed

section \<open>The scan finds exactly the destructive phrases\<close>

lemma bytes_match_kw_iff:
  "bytes_match_kw s kw \<longleftrightarrow> (\<exists>w r. s = w @ r \<and> to_ascii_lowercase w = to_ascii_lowercase kw)"
proof (induction kw arbitrary: s)
  case Nil
  then show ?case by (auto simp: bytes_match_kw_def to_ascii_lowercase_def)
next
  case (Cons k kw)
  show ?case
  proof (cases s)
    case Nil
    then show ?thesis by (simp add: bytes_match_kw_def to_ascii_lowercase_def)
  next
    case (Cons c cs)
    have "bytes_match_kw s (k # kw) \<longleftrightarrow> to_ascii_lower_byte c = to_ascii_lower_byte k \<and> bytes_match_kw cs kw"
      by (simp add: bytes_match_kw_def Cons)
    also have "\<dots> \<longleftrightarrow> (\<exists>w r. s = w @ r \<and> to_ascii_lowercase w = to_ascii_lowercase (k # kw))"
    proof
      assume "to_ascii_lower_byte c = to_ascii_lower_byte k \<and> bytes_match_kw cs kw"
      then obtain w r where "cs = w @ r" "to_ascii_lowercase (c # w) = to_ascii_lowercase (k # kw)"
        unfolding Cons.IH by (auto simp: to_ascii_lowercase_def)
      with Cons show "\<exists>w r. s = w @ r \<and> to_ascii_lowercase w = to_ascii_lowercase (k # kw)"
        by (metis append_Cons)
    qed (auto simp: Cons.IH Cons to_ascii_lowercase_def Cons_eq_append_conv)
    finally show ?thesis .
  qed
qed

lemma match_drop:
  "bytes_match_kw s kw \<and> P (drop (length kw) s) \<longleftrightarrow>
    (\<exists>w r. s = w @ r \<and> to_ascii_lowercase w = to_ascii_lowercase kw \<and> P r)"
proof -
  have "length w = length kw" if "to_ascii_lowercase w = to_ascii_lowercase kw" for w
    using that by (metis length_map to_ascii_lowercase_def)
  then have "(\<exists>w r. s = w @ r \<and> to_ascii_lowercase w = to_ascii_lowercase kw) \<and> P (drop (length kw) s)
      \<longleftrightarrow> (\<exists>w r. s = w @ r \<and> to_ascii_lowercase w = to_ascii_lowercase kw \<and> P r)"
    by (metis append_eq_conv_conj)
  then show ?thesis by (simp only: bytes_match_kw_iff)
qed

lemma lower_alpha: "is_ascii_alpha (to_ascii_lower_byte c) \<Longrightarrow> is_ascii_alpha c"
  by (auto simp: to_ascii_lower_byte_def is_ascii_alpha_def split: if_splits)

lemma alpha_ident: "is_ascii_alpha c \<Longrightarrow> is_ident_byte c \<and> \<not> is_ws_byte c"
  by (auto simp: is_ident_byte_def is_ascii_alphanumeric_def is_ws_byte_def is_ascii_alpha_def byte_def)

lemma ws_not_ident: "is_ws_byte c \<Longrightarrow> \<not> is_ident_byte c"
  by (auto simp: is_ident_byte_def is_ascii_alphanumeric_def is_ws_byte_def is_ascii_alpha_def
      is_ascii_digit_def byte_def)

lemma keyword_alpha:
  assumes "kw \<in> set DROP_KIND_KEYWORDS" "to_ascii_lowercase k = to_ascii_lowercase kw"
  shows "k \<noteq> [] \<and> is_ascii_alpha (hd k)"
proof -
  have "kw \<noteq> [] \<and> is_ascii_alpha (to_ascii_lower_byte (hd kw))"
    using assms(1)
    by (auto simp: DROP_KIND_KEYWORDS_def to_ascii_lower_byte_def is_ascii_alpha_def byte_def)
  with assms(2) show ?thesis
    by (cases k; cases kw) (auto simp: to_ascii_lowercase_def intro: lower_alpha)
qed

lemma drop_target:
  "(target \<noteq> [] \<and> list_ex (\<lambda>kw. bytes_match_kw target kw \<and> ends_word (drop (length kw) target))
        DROP_KIND_KEYWORDS) \<longleftrightarrow>
    (\<exists>kw\<in>set DROP_KIND_KEYWORDS. \<exists>k b. target = k @ b
      \<and> to_ascii_lowercase k = to_ascii_lowercase kw \<and> ends_word b)"
proof -
  have "list_ex (\<lambda>kw. bytes_match_kw target kw \<and> ends_word (drop (length kw) target)) DROP_KIND_KEYWORDS
      \<longleftrightarrow> (\<exists>kw\<in>set DROP_KIND_KEYWORDS. \<exists>k b. target = k @ b
        \<and> to_ascii_lowercase k = to_ascii_lowercase kw \<and> ends_word b)"
    by (simp only: list_ex_iff match_drop)
  moreover have "target \<noteq> []" if "kw \<in> set DROP_KIND_KEYWORDS" "target = k @ b"
    "to_ascii_lowercase k = to_ascii_lowercase kw" for kw k b
    using keyword_alpha [OF that(1,3)] that(2) by simp
  ultimately show ?thesis by blast
qed

lemma drop_at_iff:
  "drop_at s \<longleftrightarrow>
    (\<exists>d ws k b kw. s = d @ ws @ k @ b \<and> to_ascii_lowercase d = ''drop'' \<and> ws \<noteq> []
       \<and> (\<forall>c\<in>set ws. is_ws_byte c) \<and> kw \<in> set DROP_KIND_KEYWORDS
       \<and> to_ascii_lowercase k = to_ascii_lowercase kw \<and> ends_word b)" (is "_ = ?R")
proof -
  let ?kind = "\<lambda>target. \<exists>kw\<in>set DROP_KIND_KEYWORDS. \<exists>k b. target = k @ b
      \<and> to_ascii_lowercase k = to_ascii_lowercase kw \<and> ends_word b"
  have low: "to_ascii_lowercase ''DROP'' = ''drop''"
    by code_simp
  have "drop_at s \<longleftrightarrow> (\<exists>d after. s = d @ after \<and> to_ascii_lowercase d = ''drop''
      \<and> after \<noteq> [] \<and> \<not> is_ident_byte (hd after) \<and> ?kind (dropWhile is_ws_byte after))"
    unfolding drop_at_def Let_def drop_target
    using match_drop [of s "''DROP''" "\<lambda>after. after \<noteq> [] \<and> \<not> is_ident_byte (hd after)
        \<and> ?kind (dropWhile is_ws_byte after)"] by (simp only: low conj_assoc)
  also have "\<dots> \<longleftrightarrow> ?R"
  proof
    assume "\<exists>d after. s = d @ after \<and> to_ascii_lowercase d = ''drop''
      \<and> after \<noteq> [] \<and> \<not> is_ident_byte (hd after) \<and> ?kind (dropWhile is_ws_byte after)"
    then obtain d after kw k b where *: "s = d @ after" "to_ascii_lowercase d = ''drop''"
      "after \<noteq> []" "\<not> is_ident_byte (hd after)" "kw \<in> set DROP_KIND_KEYWORDS"
      "dropWhile is_ws_byte after = k @ b" "to_ascii_lowercase k = to_ascii_lowercase kw" "ends_word b"
      by blast
    have "takeWhile is_ws_byte after \<noteq> []"
    proof
      assume "takeWhile is_ws_byte after = []"
      then have "after = k @ b" using *(6) by (metis append_Nil takeWhile_dropWhile_id)
      with keyword_alpha [OF *(5,7)] alpha_ident *(4) show False by auto
    qed
    moreover have "s = d @ takeWhile is_ws_byte after @ k @ b"
      using *(1,6) by (metis takeWhile_dropWhile_id)
    ultimately show ?R using * by (blast dest: set_takeWhileD)
  next
    assume ?R
    then obtain d ws k b kw where *: "s = d @ ws @ k @ b" "to_ascii_lowercase d = ''drop''" "ws \<noteq> []"
      "\<forall>c\<in>set ws. is_ws_byte c" "kw \<in> set DROP_KIND_KEYWORDS"
      "to_ascii_lowercase k = to_ascii_lowercase kw" "ends_word b" by blast
    have k: "k \<noteq> []" "\<not> is_ws_byte (hd k)" using keyword_alpha [OF *(5,6)] alpha_ident by auto
    have "dropWhile is_ws_byte (ws @ k @ b) = dropWhile is_ws_byte (k @ b)"
      by (rule dropWhile_append2) (use *(4) in blast)
    also have "\<dots> = k @ b" using k by (cases k) auto
    finally have "?kind (dropWhile is_ws_byte (ws @ k @ b))" using *(5-7) by auto
    moreover have "\<not> is_ident_byte (hd (ws @ k @ b))" using *(3,4) ws_not_ident by (cases ws) auto
    ultimately show "\<exists>d after. s = d @ after \<and> to_ascii_lowercase d = ''drop''
      \<and> after \<noteq> [] \<and> \<not> is_ident_byte (hd after) \<and> ?kind (dropWhile is_ws_byte after)"
      using *(1-3) by blast
  qed
  finally show ?thesis .
qed

lemma truncate_at_iff:
  "truncate_at s \<longleftrightarrow> (\<exists>w b. s = w @ b \<and> to_ascii_lowercase w = ''truncate'' \<and> ends_word b)"
proof -
  have "to_ascii_lowercase ''TRUNCATE'' = ''truncate''"
    by code_simp
  then show ?thesis unfolding truncate_at_def match_drop [of s "''TRUNCATE''" ends_word] by simp
qed

definition starts_word :: "string \<Rightarrow> bool" where
  "starts_word before \<longleftrightarrow> before = [] \<or> \<not> is_ident_byte (last before)"

lemma scan_iff:
  "destructive_scan prev s \<longleftrightarrow>
    (\<exists>a b. s = a @ b \<and> starts_word (case prev of None \<Rightarrow> a | Some p \<Rightarrow> p # a)
       \<and> b \<noteq> [] \<and> (truncate_at b \<or> drop_at b))"
proof (induction prev s rule: destructive_scan.induct)
  case (2 prev c cs)
  have hd: "(case prev of None \<Rightarrow> True | Some p \<Rightarrow> \<not> is_ident_byte p)
      \<longleftrightarrow> starts_word (case prev of None \<Rightarrow> [] | Some p \<Rightarrow> [p])"
    by (simp add: starts_word_def split: option.split)
  have tl: "starts_word (case prev of None \<Rightarrow> c # a | Some p \<Rightarrow> p # c # a) = starts_word (c # a)" for a
    by (simp add: starts_word_def split: option.split)
  have split: "(\<exists>a b. c # cs = a @ b \<and> P a b) \<longleftrightarrow> P [] (c # cs) \<or> (\<exists>a b. cs = a @ b \<and> P (c # a) b)" for P
    by (auto simp: Cons_eq_append_conv)
  show ?case
    using 2 unfolding split by (auto simp: hd tl)
qed simp

text \<open>
  a step's SQL counts as destructive exactly when, at word
  boundaries and in any letter case, it contains the word TRUNCATE or the word DROP, white
  space, and one of the nine object kinds.
\<close>

theorem destructive_token_iff:
  "sql_contains_destructive_token s \<longleftrightarrow>
    (\<exists>a w b. s = a @ w @ b \<and> starts_word a \<and> ends_word b \<and>
       (to_ascii_lowercase w = ''truncate''
        \<or> (\<exists>d ws k kw. w = d @ ws @ k \<and> to_ascii_lowercase d = ''drop'' \<and> ws \<noteq> []
             \<and> (\<forall>c\<in>set ws. is_ws_byte c) \<and> kw \<in> set DROP_KIND_KEYWORDS
             \<and> to_ascii_lowercase k = to_ascii_lowercase kw)))" (is "_ = ?R")
proof
  assume "sql_contains_destructive_token s"
  then obtain a c where ac: "s = a @ c" "starts_word a" "truncate_at c \<or> drop_at c"
    by (auto simp: sql_contains_destructive_token_def scan_iff)
  from ac(3) show ?R
  proof
    assume "truncate_at c"
    with ac show ?R by (auto simp: truncate_at_iff)
  next
    assume "drop_at c"
    then obtain d ws k b kw where *: "c = d @ ws @ k @ b" "to_ascii_lowercase d = ''drop''" "ws \<noteq> []"
      "\<forall>c\<in>set ws. is_ws_byte c" "kw \<in> set DROP_KIND_KEYWORDS"
      "to_ascii_lowercase k = to_ascii_lowercase kw" "ends_word b"
      unfolding drop_at_iff by blast
    then have "s = a @ (d @ ws @ k) @ b" using ac(1) by simp
    with ac(2) * show ?R by blast
  qed
next
  assume ?R
  then obtain a w b where s: "s = a @ w @ b" "starts_word a" "ends_word b" and
    w: "to_ascii_lowercase w = ''truncate''
        \<or> (\<exists>d ws k kw. w = d @ ws @ k \<and> to_ascii_lowercase d = ''drop'' \<and> ws \<noteq> []
             \<and> (\<forall>c\<in>set ws. is_ws_byte c) \<and> kw \<in> set DROP_KIND_KEYWORDS
             \<and> to_ascii_lowercase k = to_ascii_lowercase kw)" by blast
  from w have "truncate_at (w @ b) \<or> drop_at (w @ b)"
    unfolding truncate_at_iff drop_at_iff using s(3) by (metis append.assoc)
  moreover have "w \<noteq> []" using w by (auto simp: to_ascii_lowercase_def)
  ultimately have "s = a @ (w @ b) \<and> starts_word a \<and> w @ b \<noteq> [] \<and> (truncate_at (w @ b) \<or> drop_at (w @ b))"
    using s(1,2) by simp
  then show "sql_contains_destructive_token s"
    unfolding sql_contains_destructive_token_def scan_iff option.case by blast
qed

text \<open>
  dropping a column without the optional word COLUMN is not counted
  as destructive, so such a step passes the gate that asks for a justification.
\<close>

theorem bare_drop_not_flagged:
  "\<not> emits_destructive_sql
     \<lparr>st_kind = SkRunReversibleSchemaOp, st_ordinal = n,
      st_parameters = RunReversibleSchemaOp ''ALTER TABLE users DROP email'' down\<rparr>"
proof -
  have "\<not> sql_contains_destructive_token ''ALTER TABLE users DROP email''" by code_simp
  then show ?thesis by (simp add: emits_destructive_sql_def)
qed

text \<open>
  step kinds and classifications survive the trip through their
  database labels, every variant has a label, and a label decodes only to the variant it came
  from.
\<close>

lemma classification_labels:
  "step_as_db_str k \<noteq> None \<and> (step_as_db_str k = step_as_db_str k' \<longrightarrow> k = k')
   \<and> classification_as_db_str c \<noteq> None
   \<and> (classification_from_db_str s = Some c \<longleftrightarrow> classification_as_db_str c = Some s)"
  using step_labels.label_not_None step_labels.label_inj class_labels.label_not_None
    class_labels.roundtrip
  by (auto simp: step_as_db_str_def classification_as_db_str_def classification_from_db_str_def)

end
