(* ===== verification/Live_State.thy ===== *)
theory Live_State
  imports Live_Plan
begin

text \<open>
  The plan table, \<open>djogi/src/live_migrate/state.rs\<close>. The SQL the functions send is modelled on
  the rows of \<open>djogi_live_plans\<close>: its primary key, its two CHECK lists, its VARCHAR(68)
  column and the bucket predicate of every statement. Reachable tables are those the
  functions build from the empty one; on them decoding never fails, and each update touches
  exactly its row and columns. The validity test of \<open>HeerId::from_i64\<close> (an external crate) is
  the parameter \<open>heer_ok\<close>; database time is a number.
\<close>

section \<open>Status labels\<close>

datatype PlanStatus =
    Pending | Running | Paused | Validating | Cutover | Finalizing | Complete | Abandoned
  | Failed | FailedRetriable | FailedTerminal

definition PLAN_STATUS_LABELS :: "(PlanStatus \<times> string) list" where
  "PLAN_STATUS_LABELS =
     [(Pending, ''pending''), (Running, ''running''), (Paused, ''paused''),
      (Validating, ''validating''), (Cutover, ''cutover''), (Finalizing, ''finalizing''),
      (Complete, ''complete''), (Abandoned, ''abandoned''), (Failed, ''failed''),
      (FailedRetriable, ''failed_retriable''), (FailedTerminal, ''failed_terminal'')]"

interpretation status_labels: label_table PLAN_STATUS_LABELS
proof
  fix v show "v \<in> fst ` set PLAN_STATUS_LABELS"
    by (cases v) (simp_all add: PLAN_STATUS_LABELS_def)
qed (simp_all add: PLAN_STATUS_LABELS_def)

definition status_as_db_str :: "PlanStatus \<Rightarrow> string option" where
  "status_as_db_str s = label_of PLAN_STATUS_LABELS s"

definition status_from_db_str :: "string \<Rightarrow> PlanStatus option" where
  "status_from_db_str s = variant_of PLAN_STATUS_LABELS s"

section \<open>Rows and the table\<close>

record LivePlanRow =
  l_plan_id :: i64
  l_slug :: string
  l_plan_file_checksum :: string
  l_classification :: PlanClassification
  l_status :: PlanStatus
  l_current_step :: "string option"
  l_current_step_index :: i32
  l_backfill_rows_done :: i64
  l_backfill_rows_total :: "i64 option"
  l_started_at :: "int option"
  l_last_progress_at :: "int option"
  l_completed_at :: "int option"
  l_last_error :: "string option"
  l_originating_migration :: string
  l_target_database :: string
  l_app_label :: string
  l_daemon_session_token :: "string option"

text \<open>A row as the database stores it: both labels are text.\<close>

record DbRow =
  db_plan_id :: i64
  db_slug :: string
  db_plan_file_checksum :: string
  db_classification :: string
  db_status :: string
  db_current_step :: "string option"
  db_current_step_index :: i32
  db_backfill_rows_done :: i64
  db_backfill_rows_total :: "i64 option"
  db_started_at :: "int option"
  db_last_progress_at :: "int option"
  db_completed_at :: "int option"
  db_last_error :: "string option"
  db_originating_migration :: string
  db_target_database :: string
  db_app_label :: string
  db_daemon_session_token :: "string option"

type_synonym table = "DbRow list"

datatype DbError =
    UniqueViolation
  | CheckViolation
  | ValueTooLong
  | InvalidPlanId i64
  | UnknownClassification string
  | UnknownStatus string
  | Panicked

text \<open>The constraints of \<open>INSTALL_SQL\<close>.\<close>

definition CLASSIFICATION_CHECK :: "string list" where
  "CLASSIFICATION_CHECK = [''online_safe'', ''expand_contract'', ''offline_only'']"

definition STATUS_CHECK :: "string list" where
  "STATUS_CHECK =
     [''pending'', ''running'', ''paused'', ''validating'', ''cutover'', ''finalizing'',
      ''complete'', ''abandoned'', ''failed'', ''failed_retriable'', ''failed_terminal'']"

definition row_checks :: "DbRow \<Rightarrow> bool" where
  "row_checks r \<longleftrightarrow>
     db_classification r \<in> set CLASSIFICATION_CHECK \<and> db_status r \<in> set STATUS_CHECK"

text \<open>Assignment to \<open>VARCHAR(n)\<close>: longer text is an error unless only blanks exceed it.\<close>

definition varchar_assign :: "nat \<Rightarrow> string \<Rightarrow> string option" where
  "varchar_assign n s =
     (if length s \<le> n then Some s
      else if list_all (\<lambda>c. c = CHR '' '') (drop n s) then Some (take n s) else None)"

definition in_bucket :: "i64 \<Rightarrow> string \<Rightarrow> string \<Rightarrow> DbRow \<Rightarrow> bool" where
  "in_bucket plan_id target_database app_label r \<longleftrightarrow>
     db_target_database r = target_database \<and> db_app_label r = app_label
     \<and> db_plan_id r = plan_id"

section \<open>The statements\<close>

definition insert_row :: "LivePlanRow \<Rightarrow> table \<Rightarrow> DbError + table" where
  "insert_row row tbl =
     (case (classification_as_db_str (l_classification row), status_as_db_str (l_status row)) of
        (Some classification, Some status) \<Rightarrow>
          (case varchar_assign 68 (l_plan_file_checksum row) of
             None \<Rightarrow> Inl ValueTooLong
           | Some checksum \<Rightarrow>
               let r = \<lparr>db_plan_id = l_plan_id row, db_slug = l_slug row,
                        db_plan_file_checksum = checksum,
                        db_classification = classification, db_status = status,
                        db_current_step = l_current_step row,
                        db_current_step_index = l_current_step_index row,
                        db_backfill_rows_done = l_backfill_rows_done row,
                        db_backfill_rows_total = l_backfill_rows_total row,
                        db_started_at = l_started_at row,
                        db_last_progress_at = l_last_progress_at row,
                        db_completed_at = l_completed_at row,
                        db_last_error = l_last_error row,
                        db_originating_migration = l_originating_migration row,
                        db_target_database = l_target_database row,
                        db_app_label = l_app_label row,
                        db_daemon_session_token = l_daemon_session_token row\<rparr>
               in if \<not> row_checks r then Inl CheckViolation
                  else if list_ex (\<lambda>r'. db_plan_id r' = db_plan_id r) tbl then Inl UniqueViolation
                  else Inr (tbl @ [r]))
      | _ \<Rightarrow> Inl Panicked)"

definition row_to_live_plan_row :: "(i64 \<Rightarrow> bool) \<Rightarrow> DbRow \<Rightarrow> DbError + LivePlanRow" where
  "row_to_live_plan_row heer_ok r =
     (if \<not> heer_ok (db_plan_id r) then Inl (InvalidPlanId (db_plan_id r))
      else case classification_from_db_str (db_classification r) of
        None \<Rightarrow> Inl (UnknownClassification (db_classification r))
      | Some classification \<Rightarrow>
          (case status_from_db_str (db_status r) of
             None \<Rightarrow> Inl (UnknownStatus (db_status r))
           | Some status \<Rightarrow>
               Inr \<lparr>l_plan_id = db_plan_id r, l_slug = db_slug r,
                    l_plan_file_checksum = db_plan_file_checksum r,
                    l_classification = classification, l_status = status,
                    l_current_step = db_current_step r,
                    l_current_step_index = db_current_step_index r,
                    l_backfill_rows_done = db_backfill_rows_done r,
                    l_backfill_rows_total = db_backfill_rows_total r,
                    l_started_at = db_started_at r,
                    l_last_progress_at = db_last_progress_at r,
                    l_completed_at = db_completed_at r,
                    l_last_error = db_last_error r,
                    l_originating_migration = db_originating_migration r,
                    l_target_database = db_target_database r,
                    l_app_label = db_app_label r,
                    l_daemon_session_token = db_daemon_session_token r\<rparr>))"

definition fetch_row_by_id ::
  "(i64 \<Rightarrow> bool) \<Rightarrow> i64 \<Rightarrow> string \<Rightarrow> string \<Rightarrow> table \<Rightarrow> DbError + LivePlanRow option" where
  "fetch_row_by_id heer_ok plan_id target_database app_label tbl =
     (case find (in_bucket plan_id target_database app_label) tbl of
        None \<Rightarrow> Inr None
      | Some r \<Rightarrow>
          (case row_to_live_plan_row heer_ok r of Inl e \<Rightarrow> Inl e | Inr row \<Rightarrow> Inr (Some row)))"

text \<open>\<open>UPDATE .. WHERE target_database = $1 AND app_label = $2 AND plan_id = $3\<close>\<close>

definition update_where ::
  "i64 \<Rightarrow> string \<Rightarrow> string \<Rightarrow> (DbRow \<Rightarrow> DbRow) \<Rightarrow> table \<Rightarrow> DbError + table" where
  "update_where plan_id target_database app_label set_columns tbl =
     (let tbl' = map (\<lambda>r. if in_bucket plan_id target_database app_label r
                          then set_columns r else r) tbl
      in if list_all row_checks tbl' then Inr tbl' else Inl CheckViolation)"

definition update_progress ::
  "int \<Rightarrow> i64 \<Rightarrow> string \<Rightarrow> string \<Rightarrow> i64 \<Rightarrow> table \<Rightarrow> DbError + table" where
  "update_progress now plan_id target_database app_label rows_done =
     update_where plan_id target_database app_label
       (\<lambda>r. r\<lparr>db_backfill_rows_done := rows_done, db_last_progress_at := Some now\<rparr>)"

definition update_step_index ::
  "i64 \<Rightarrow> string \<Rightarrow> string \<Rightarrow> i32 \<Rightarrow> string option \<Rightarrow> table \<Rightarrow> DbError + table" where
  "update_step_index plan_id target_database app_label new_index new_step_label =
     update_where plan_id target_database app_label
       (\<lambda>r. r\<lparr>db_current_step_index := new_index, db_current_step := new_step_label\<rparr>)"

definition stamp_completed_at ::
  "int \<Rightarrow> i64 \<Rightarrow> string \<Rightarrow> string \<Rightarrow> table \<Rightarrow> DbError + table" where
  "stamp_completed_at now plan_id target_database app_label =
     update_where plan_id target_database app_label (\<lambda>r. r\<lparr>db_completed_at := Some now\<rparr>)"

definition update_status ::
  "i64 \<Rightarrow> string \<Rightarrow> string \<Rightarrow> PlanStatus \<Rightarrow> table \<Rightarrow> DbError + table" where
  "update_status plan_id target_database app_label new_status tbl =
     (case status_as_db_str new_status of
        None \<Rightarrow> Inl Panicked
      | Some status \<Rightarrow>
          update_where plan_id target_database app_label (\<lambda>r. r\<lparr>db_status := status\<rparr>) tbl)"

definition update_status_with_error ::
  "i64 \<Rightarrow> string \<Rightarrow> string \<Rightarrow> PlanStatus \<Rightarrow> string \<Rightarrow> table \<Rightarrow> DbError + table" where
  "update_status_with_error plan_id target_database app_label status error_msg tbl =
     (case status_as_db_str status of
        None \<Rightarrow> Inl Panicked
      | Some status_str \<Rightarrow>
          update_where plan_id target_database app_label
            (\<lambda>r. r\<lparr>db_status := status_str, db_last_error := Some error_msg\<rparr>) tbl)"

definition record_failure ::
  "i64 \<Rightarrow> string \<Rightarrow> string \<Rightarrow> string \<Rightarrow> bool \<Rightarrow> table \<Rightarrow> DbError + table" where
  "record_failure plan_id target_database app_label error_msg retriable =
     update_status_with_error plan_id target_database app_label
       (if retriable then FailedRetriable else FailedTerminal) error_msg"

section \<open>Constraints and decoding\<close>

lemma check_lists:
  "set CLASSIFICATION_CHECK = snd ` set PLAN_CLASSIFICATION_LABELS"
  "set STATUS_CHECK = snd ` set PLAN_STATUS_LABELS"
  by (auto simp: CLASSIFICATION_CHECK_def PLAN_CLASSIFICATION_LABELS_def STATUS_CHECK_def
      PLAN_STATUS_LABELS_def)

lemma status_label_ok: "status_as_db_str s = Some l \<Longrightarrow> l \<in> set STATUS_CHECK"
  by (force simp: check_lists status_as_db_str_def status_labels.label_of_iff)

lemma class_label_ok: "classification_as_db_str c = Some l \<Longrightarrow> l \<in> set CLASSIFICATION_CHECK"
  by (force simp: check_lists classification_as_db_str_def class_labels.label_of_iff)

lemma status_total: "\<exists>l. status_as_db_str s = Some l"
  using status_labels.label_not_None [of s] by (auto simp: status_as_db_str_def)

lemma class_total: "\<exists>l. classification_as_db_str c = Some l"
  using class_labels.label_not_None [of c] by (auto simp: classification_as_db_str_def)

lemma status_back: "status_as_db_str s = Some l \<Longrightarrow> status_from_db_str l = Some s"
  by (simp add: status_as_db_str_def status_from_db_str_def status_labels.roundtrip)

lemma class_back: "classification_as_db_str c = Some l \<Longrightarrow> classification_from_db_str l = Some c"
  by (simp add: classification_as_db_str_def classification_from_db_str_def class_labels.roundtrip)

lemma decode_checked:
  assumes "row_checks r"
  shows "\<exists>c s. classification_from_db_str (db_classification r) = Some c
    \<and> status_from_db_str (db_status r) = Some s"
proof -
  have "status_from_db_str (db_status r) \<noteq> None"
    using assms by (simp add: row_checks_def check_lists status_from_db_str_def status_labels.variant_of_None)
  moreover have "classification_from_db_str (db_classification r) \<noteq> None"
    using assms
    by (simp add: row_checks_def check_lists classification_from_db_str_def class_labels.variant_of_None)
  ultimately show ?thesis by blast
qed

text \<open>
  the database accepts exactly the statuses and classifications the
  program knows: the CHECK lists of the table and the two label tables have the same labels,
  every status is stored under an accepted label, and reading the label gives the status back.
\<close>

lemma status_labels_agree:
  "(l \<in> set STATUS_CHECK \<longleftrightarrow> status_from_db_str l \<noteq> None)
   \<and> (c \<in> set CLASSIFICATION_CHECK \<longleftrightarrow> classification_from_db_str c \<noteq> None)
   \<and> (\<exists>l. status_as_db_str s = Some l \<and> l \<in> set STATUS_CHECK)
   \<and> (status_as_db_str s = Some l \<longleftrightarrow> status_from_db_str l = Some s)"
  using status_total [of s] status_label_ok [of s]
  by (auto simp: check_lists status_from_db_str_def status_as_db_str_def classification_from_db_str_def
      status_labels.variant_of_None class_labels.variant_of_None status_labels.roundtrip)

section \<open>Updates\<close>

text \<open>
  The contract of a column update: it keeps the row's key, respects the CHECK lists and, seen
  through the decoding, is an update of the typed row.
\<close>

locale row_update =
  fixes set_columns :: "DbRow \<Rightarrow> DbRow" and set_fields :: "LivePlanRow \<Rightarrow> LivePlanRow"
  assumes keeps_id: "db_plan_id (set_columns r) = db_plan_id r"
    and keeps_database: "db_target_database (set_columns r) = db_target_database r"
    and keeps_app: "db_app_label (set_columns r) = db_app_label r"
    and keeps_checks: "row_checks r \<Longrightarrow> row_checks (set_columns r)"
    and decodes: "row_checks r \<Longrightarrow>
      row_to_live_plan_row ok (set_columns r) = map_sum id set_fields (row_to_live_plan_row ok r)"
begin

lemma keeps_bucket: "in_bucket i d a (set_columns r) = in_bucket i d a r"
  by (simp add: in_bucket_def keeps_id keeps_database keeps_app)

lemma update_ok:
  assumes "list_all row_checks tbl"
  shows "\<exists>tbl'. update_where i d a set_columns tbl = Inr tbl' \<and> list_all row_checks tbl'
    \<and> map db_plan_id tbl' = map db_plan_id tbl"
  using assms by (auto simp: update_where_def Let_def list_all_iff keeps_checks keeps_id)

lemma update_find:
  "find (in_bucket i' d' a') (map (\<lambda>r. if in_bucket i d a r then set_columns r else r) tbl)
    = map_option (\<lambda>r. if in_bucket i d a r then set_columns r else r) (find (in_bucket i' d' a') tbl)"
  by (induction tbl) (auto simp: keeps_bucket)

lemma update_fetch:
  assumes "list_all row_checks tbl" "update_where i d a set_columns tbl = Inr tbl'"
  shows "fetch_row_by_id ok i' d' a' tbl' =
    (if (i', d', a') = (i, d, a)
     then map_sum id (map_option set_fields) (fetch_row_by_id ok i d a tbl)
     else fetch_row_by_id ok i' d' a' tbl)"
proof -
  have t: "tbl' = map (\<lambda>r. if in_bucket i d a r then set_columns r else r) tbl"
    using assms(2) by (simp add: update_where_def Let_def split: if_splits)
  show ?thesis
  proof (cases "find (in_bucket i' d' a') tbl")
    case None
    then show ?thesis by (auto simp: fetch_row_by_id_def t update_find)
  next
    case (Some r)
    then have r: "r \<in> set tbl" "in_bucket i' d' a' r" by (auto simp: find_Some_iff)
    then have c: "row_checks r" using assms(1) by (simp add: list_all_iff)
    have "in_bucket i d a r \<longleftrightarrow> (i', d', a') = (i, d, a)" using r(2) by (auto simp: in_bucket_def)
    with Some c show ?thesis
      by (auto simp: fetch_row_by_id_def t update_find decodes split: sum.splits)
  qed
qed

end

lemma decode_cases:
  assumes "row_checks r"
  obtains (invalid) "\<not> ok (db_plan_id r)" "row_to_live_plan_row ok r = Inl (InvalidPlanId (db_plan_id r))"
  | (decoded) c s where "ok (db_plan_id r)" "classification_from_db_str (db_classification r) = Some c"
      "status_from_db_str (db_status r) = Some s"
  using decode_checked [OF assms] by (cases "ok (db_plan_id r)") (auto simp: row_to_live_plan_row_def)

interpretation progress: row_update
  "\<lambda>r. r\<lparr>db_backfill_rows_done := n, db_last_progress_at := Some now\<rparr>"
  "\<lambda>l. l\<lparr>l_backfill_rows_done := n, l_last_progress_at := Some now\<rparr>" for n now
  by unfold_locales (auto simp: row_checks_def row_to_live_plan_row_def split: option.split)

interpretation step_index: row_update
  "\<lambda>r. r\<lparr>db_current_step_index := n, db_current_step := label\<rparr>"
  "\<lambda>l. l\<lparr>l_current_step_index := n, l_current_step := label\<rparr>" for n label
  by unfold_locales (auto simp: row_checks_def row_to_live_plan_row_def split: option.split)

interpretation completed: row_update
  "\<lambda>r. r\<lparr>db_completed_at := Some now\<rparr>" "\<lambda>l. l\<lparr>l_completed_at := Some now\<rparr>" for now
  by unfold_locales (auto simp: row_checks_def row_to_live_plan_row_def split: option.split)

lemma status_update:
  assumes "status_as_db_str s = Some l"
  shows "row_update (\<lambda>r. r\<lparr>db_status := l\<rparr>) (\<lambda>row. row\<lparr>l_status := s\<rparr>)"
proof
  fix r ok assume c: "row_checks r"
  then show "row_checks (r\<lparr>db_status := l\<rparr>)"
    using status_label_ok [OF assms] by (simp add: row_checks_def)
  show "row_to_live_plan_row ok (r\<lparr>db_status := l\<rparr>)
      = map_sum id (\<lambda>row. row\<lparr>l_status := s\<rparr>) (row_to_live_plan_row ok r)"
    using c by (rule decode_cases [where ok = ok])
      (simp_all add: row_to_live_plan_row_def status_back [OF assms])
qed simp_all

lemma status_error_update:
  assumes "status_as_db_str s = Some l"
  shows "row_update (\<lambda>r. r\<lparr>db_status := l, db_last_error := Some m\<rparr>)
    (\<lambda>row. row\<lparr>l_status := s, l_last_error := Some m\<rparr>)"
proof
  fix r ok assume c: "row_checks r"
  then show "row_checks (r\<lparr>db_status := l, db_last_error := Some m\<rparr>)"
    using status_label_ok [OF assms] by (simp add: row_checks_def)
  show "row_to_live_plan_row ok (r\<lparr>db_status := l, db_last_error := Some m\<rparr>)
      = map_sum id (\<lambda>row. row\<lparr>l_status := s, l_last_error := Some m\<rparr>) (row_to_live_plan_row ok r)"
    using c by (rule decode_cases [where ok = ok])
      (simp_all add: row_to_live_plan_row_def status_back [OF assms])
qed simp_all

section \<open>The table as a state machine\<close>

datatype StateOp =
    InsertRow LivePlanRow
  | UpdateProgress int i64 string string i64
  | UpdateStepIndex i64 string string i32 "string option"
  | StampCompletedAt int i64 string string
  | UpdateStatus i64 string string PlanStatus
  | UpdateStatusWithError i64 string string PlanStatus string
  | RecordFailure i64 string string string bool

fun exec :: "StateOp \<Rightarrow> table \<Rightarrow> DbError + table" where
  "exec (InsertRow row) = insert_row row"
| "exec (UpdateProgress now i d a n) = update_progress now i d a n"
| "exec (UpdateStepIndex i d a n l) = update_step_index i d a n l"
| "exec (StampCompletedAt now i d a) = stamp_completed_at now i d a"
| "exec (UpdateStatus i d a s) = update_status i d a s"
| "exec (UpdateStatusWithError i d a s m) = update_status_with_error i d a s m"
| "exec (RecordFailure i d a m retriable) = record_failure i d a m retriable"

inductive reachable :: "table \<Rightarrow> bool" where
  empty: "reachable []"
| step: "reachable t \<Longrightarrow> exec op t = Inr t' \<Longrightarrow> reachable t'"

definition table_ok :: "table \<Rightarrow> bool" where
  "table_ok t \<longleftrightarrow> distinct (map db_plan_id t) \<and> list_all row_checks t"

text \<open>What an update means for the typed row, and which row it is for.\<close>

fun update_key :: "StateOp \<Rightarrow> (i64 \<times> string \<times> string) option" where
  "update_key (InsertRow _) = None"
| "update_key (UpdateProgress _ i d a _) = Some (i, d, a)"
| "update_key (UpdateStepIndex i d a _ _) = Some (i, d, a)"
| "update_key (StampCompletedAt _ i d a) = Some (i, d, a)"
| "update_key (UpdateStatus i d a _) = Some (i, d, a)"
| "update_key (UpdateStatusWithError i d a _ _) = Some (i, d, a)"
| "update_key (RecordFailure i d a _ _) = Some (i, d, a)"

fun update_fields :: "StateOp \<Rightarrow> LivePlanRow \<Rightarrow> LivePlanRow" where
  "update_fields (InsertRow _) l = l"
| "update_fields (UpdateProgress now _ _ _ n) l =
     l\<lparr>l_backfill_rows_done := n, l_last_progress_at := Some now\<rparr>"
| "update_fields (UpdateStepIndex _ _ _ n label) l =
     l\<lparr>l_current_step_index := n, l_current_step := label\<rparr>"
| "update_fields (StampCompletedAt now _ _ _) l = l\<lparr>l_completed_at := Some now\<rparr>"
| "update_fields (UpdateStatus _ _ _ s) l = l\<lparr>l_status := s\<rparr>"
| "update_fields (UpdateStatusWithError _ _ _ s m) l = l\<lparr>l_status := s, l_last_error := Some m\<rparr>"
| "update_fields (RecordFailure _ _ _ m retriable) l =
     l\<lparr>l_status := (if retriable then FailedRetriable else FailedTerminal), l_last_error := Some m\<rparr>"

text \<open>Every update is a column update of the contract.\<close>

lemma update_fields_fun:
  "update_fields (UpdateProgress now i d a n) =
     (\<lambda>l. l\<lparr>l_backfill_rows_done := n, l_last_progress_at := Some now\<rparr>)"
  "update_fields (UpdateStepIndex i d a k label) =
     (\<lambda>l. l\<lparr>l_current_step_index := k, l_current_step := label\<rparr>)"
  "update_fields (StampCompletedAt now i d a) = (\<lambda>l. l\<lparr>l_completed_at := Some now\<rparr>)"
  "update_fields (UpdateStatus i d a s) = (\<lambda>l. l\<lparr>l_status := s\<rparr>)"
  "update_fields (UpdateStatusWithError i d a s m) = (\<lambda>l. l\<lparr>l_status := s, l_last_error := Some m\<rparr>)"
  "update_fields (RecordFailure i d a m b) =
     (\<lambda>l. l\<lparr>l_status := (if b then FailedRetriable else FailedTerminal), l_last_error := Some m\<rparr>)"
  by (simp_all add: fun_eq_iff)

lemma exec_update:
  assumes "update_key op = Some (i, d, a)"
  shows "\<exists>f. row_update f (update_fields op) \<and> exec op = update_where i d a f"
proof (cases op)
  case (UpdateStatus i' d' a' s)
  obtain l where l: "status_as_db_str s = Some l" using status_total by blast
  then have "exec op = update_where i d a (\<lambda>r. r\<lparr>db_status := l\<rparr>)"
    using UpdateStatus assms by (simp add: update_status_def fun_eq_iff)
  with status_update [OF l] UpdateStatus show ?thesis by (auto simp: update_fields_fun)
next
  case (UpdateStatusWithError i' d' a' s m)
  obtain l where l: "status_as_db_str s = Some l" using status_total by blast
  then have "exec op = update_where i d a (\<lambda>r. r\<lparr>db_status := l, db_last_error := Some m\<rparr>)"
    using UpdateStatusWithError assms by (simp add: update_status_with_error_def fun_eq_iff)
  with status_error_update [OF l] UpdateStatusWithError show ?thesis by (auto simp: update_fields_fun)
next
  case (RecordFailure i' d' a' m retriable)
  let ?s = "if retriable then FailedRetriable else FailedTerminal"
  obtain l where l: "status_as_db_str ?s = Some l" using status_total by blast
  then have "exec op = update_where i d a (\<lambda>r. r\<lparr>db_status := l, db_last_error := Some m\<rparr>)"
    using RecordFailure assms by (simp add: record_failure_def update_status_with_error_def fun_eq_iff)
  with status_error_update [OF l, of m] show ?thesis unfolding RecordFailure update_fields_fun by blast
next
  case (UpdateProgress now i' d' a' n)
  with assms progress.row_update_axioms [where n = n and now = now] show ?thesis
    by (auto simp: update_fields_fun update_progress_def fun_eq_iff)
next
  case (UpdateStepIndex i' d' a' n label)
  with assms step_index.row_update_axioms [where n = n and label = label] show ?thesis
    by (auto simp: update_fields_fun update_step_index_def fun_eq_iff)
next
  case (StampCompletedAt now i' d' a')
  with assms completed.row_update_axioms [of now] show ?thesis
    by (auto simp: update_fields_fun stamp_completed_at_def fun_eq_iff)
qed (use assms in simp)

lemma insert_row_cases:
  assumes "insert_row row t = Inr t'"
  obtains r where "t' = t @ [r]" "row_checks r" "\<forall>r'\<in>set t. db_plan_id r' \<noteq> db_plan_id r"
  using assms
  by (auto simp: insert_row_def Let_def list_ex_iff split: option.splits if_splits)

lemma reachable_table_ok_fact:
  "reachable t \<Longrightarrow> table_ok t"
proof (induction rule: reachable.induct)
  case empty
  then show ?case by (simp add: table_ok_def)
next
  case (step t op t')
  show ?case
  proof (cases "update_key op")
    case None
    then obtain row where "op = InsertRow row" by (cases op) auto
    with step.hyps(2) have "insert_row row t = Inr t'" by simp
    then obtain r where r: "t' = t @ [r]" "row_checks r" "\<forall>r'\<in>set t. db_plan_id r' \<noteq> db_plan_id r"
      by (rule insert_row_cases)
    then have "db_plan_id r \<notin> db_plan_id ` set t" by auto
    with r step.IH show ?thesis by (simp add: table_ok_def)
  next
    case (Some k)
    then obtain i d a where "update_key op = Some (i, d, a)" by (cases k) auto
    from exec_update [OF this] obtain f where f: "row_update f (update_fields op)"
      "exec op = update_where i d a f" by blast
    with step.IH step.hyps(2) row_update.update_ok [OF f(1), of t i d a] show ?thesis
      by (auto simp: table_ok_def)
  qed
qed

text \<open>
  C34: in every table the functions can build, starting empty and through any sequence of inserts
  and updates that succeed, plan ids are unique, and when the ids are valid (the type of a plan's
  id admits no other) every row decodes, and fetching it by its id and bucket returns it.
\<close>

theorem reachable_rows_decode:
  assumes "reachable t" "\<forall>r\<in>set t. ok (db_plan_id r)"
  shows "distinct (map db_plan_id t)
    \<and> (\<forall>r\<in>set t. \<exists>row. row_to_live_plan_row ok r = Inr row
        \<and> fetch_row_by_id ok (db_plan_id r) (db_target_database r) (db_app_label r) t = Inr (Some row))"
proof -
  have t: "table_ok t" using reachable_table_ok_fact assms(1) by blast
  then have distinct: "distinct (map db_plan_id t)" by (simp add: table_ok_def)
  have "\<exists>row. row_to_live_plan_row ok r = Inr row
      \<and> fetch_row_by_id ok (db_plan_id r) (db_target_database r) (db_app_label r) t = Inr (Some row)"
    if r: "r \<in> set t" for r
  proof -
    have checks: "row_checks r" "ok (db_plan_id r)" using t r assms(2) by (simp_all add: table_ok_def list_all_iff)
    from checks(1) have "\<exists>row. row_to_live_plan_row ok r = Inr row"
      by (rule decode_cases [where ok = ok]) (use checks(2) in \<open>simp_all add: row_to_live_plan_row_def\<close>)
    then obtain row where row: "row_to_live_plan_row ok r = Inr row" by blast
    obtain r' where r': "find (in_bucket (db_plan_id r) (db_target_database r) (db_app_label r)) t = Some r'"
      using r by (cases "find (in_bucket (db_plan_id r) (db_target_database r) (db_app_label r)) t")
        (auto simp: find_None_iff in_bucket_def)
    then have "r' \<in> set t" "db_plan_id r' = db_plan_id r" by (auto simp: find_Some_iff in_bucket_def)
    then have "r' = r" using distinct r by (auto simp: distinct_map inj_on_def)
    with r' row show ?thesis by (simp add: fetch_row_by_id_def)
  qed
  with distinct show ?thesis by blast
qed

text \<open>
  C33: on a reachable table an update always succeeds, and afterwards
  every bucket's plan reads as before except the addressed one, which reads with exactly the
  updated fields changed. If there is no such plan the update reports success and changes
  nothing.
\<close>

theorem update_touches_one_row:
  assumes "reachable t" "update_key op = Some (i, d, a)"
  shows "\<exists>t'. exec op t = Inr t' \<and>
    (\<forall>i' d' a'. fetch_row_by_id ok i' d' a' t' =
      (if (i', d', a') = (i, d, a)
       then map_sum id (map_option (update_fields op)) (fetch_row_by_id ok i d a t)
       else fetch_row_by_id ok i' d' a' t))"
proof -
  have c: "list_all row_checks t"
    using reachable_table_ok_fact assms(1) by (simp add: table_ok_def)
  obtain f where f: "row_update f (update_fields op)" "exec op = update_where i d a f"
    using exec_update [OF assms(2)] by blast
  with row_update.update_ok [OF f(1) c] row_update.update_fetch [OF f(1) c] show ?thesis
    by (metis (no_types, lifting))
qed

text \<open>
  a plan inserted under a fresh, valid id is read back from its bucket
  exactly as written, and no other bucket's plan changes.
\<close>

theorem insert_then_fetch:
  assumes "reachable t" "\<forall>r\<in>set t. db_plan_id r \<noteq> l_plan_id row"
    and "length (l_plan_file_checksum row) \<le> 68" "ok (l_plan_id row)"
  shows "\<exists>t'. insert_row row t = Inr t' \<and>
    (\<forall>i d a. fetch_row_by_id ok i d a t' =
      (if (i, d, a) = (l_plan_id row, l_target_database row, l_app_label row)
       then Inr (Some row) else fetch_row_by_id ok i d a t))"
proof -
  obtain c where c: "classification_as_db_str (l_classification row) = Some c" using class_total by blast
  obtain s where s: "status_as_db_str (l_status row) = Some s" using status_total by blast
  obtain r where r: "insert_row row t = Inr (t @ [r])" "row_to_live_plan_row ok r = Inr row"
    "\<And>i d a. in_bucket i d a r \<longleftrightarrow> (i, d, a) = (l_plan_id row, l_target_database row, l_app_label row)"
    using assms(2-4) c s class_label_ok [OF c] status_label_ok [OF s]
    by (auto simp: insert_row_def varchar_assign_def Let_def row_checks_def list_ex_iff
        row_to_live_plan_row_def class_back status_back in_bucket_def)
  have old: "find (in_bucket i d a) t = None" if "i = l_plan_id row" for i d a
    using assms(2) that by (auto simp: find_None_iff in_bucket_def)
  have "find P (t @ [r]) = (case find P t of Some x \<Rightarrow> Some x | None \<Rightarrow> if P r then Some r else None)" for P
    by (induction t) auto
  then show ?thesis
    using r old by (auto simp: fetch_row_by_id_def split: option.splits)
qed

end
