(* ===== verification/Pk_Promote.thy ===== *)
theory Pk_Promote
  imports Pk_Cluster Diff_Schema "HOL-Library.Product_Lexorder" "HOL-Library.Multiset"
begin

text \<open>
  From bare \<open>PkTypeFlip\<close> operations to flip groups, and from snapshot maps to deltas:
  \<open>promote_pk_flips_to_groups\<close> and \<open>diff_bucket_maps\<close> of \<open>djogi/src/migrate/diff.rs\<close>. Every
  column that references a flipping parent ends up in exactly one list of its group, and a
  table moved between apps is moved, never dropped and recreated.
\<close>

section \<open>Classifying the references to one parent\<close>

fun find_map :: "('a \<Rightarrow> 'b option) \<Rightarrow> 'a list \<Rightarrow> 'b option" where
  "find_map f [] = None"
| "find_map f (x # xs) = (case f x of Some y \<Rightarrow> Some y | None \<Rightarrow> find_map f xs)"

definition family_for_kind :: "PkKindSchema \<Rightarrow> PkFlipFamily option" where
  "family_for_kind k =
     (case k of HeerId \<Rightarrow> Some Heer | HeerIdRecencyBiased \<Rightarrow> Some Heer
      | RanjId \<Rightarrow> Some Ranj | RanjIdRecencyBiased \<Rightarrow> Some Ranj | _ \<Rightarrow> None)"

definition flip_direction :: "PkKindSchema \<Rightarrow> PkKindSchema \<Rightarrow> PkFlipDirection" where
  "flip_direction from to =
     (if (from, to) = (HeerId, HeerIdRecencyBiased) \<or> (from, to) = (RanjId, RanjIdRecencyBiased)
      then AscToDesc
      else if (from, to) = (HeerIdRecencyBiased, HeerId) \<or> (from, to) = (RanjIdRecencyBiased, RanjId)
      then DescToAsc
      else AscToDesc)"

definition flip_family :: "PkKindSchema \<Rightarrow> PkFlipFamily" where
  "flip_family from = (case family_for_kind from of Some f \<Rightarrow> f | None \<Rightarrow> Heer)"

text \<open>The vectors the scan over all columns fills.\<close>

record FlipScan =
  fs_children :: "PkFlipChild list"
  fs_self_cols :: "string list"
  fs_self_constraints :: "string list"
  fs_self_deferrable :: "bool list"
  fs_self_initially_deferred :: "bool list"
  fs_join_tables :: "PkFlipJoinTable list"
  fs_cycles :: "PkFlipCycle list"

definition empty_scan :: FlipScan where
  "empty_scan = \<lparr>fs_children = [], fs_self_cols = [], fs_self_constraints = [],
     fs_self_deferrable = [], fs_self_initially_deferred = [], fs_join_tables = [], fs_cycles = []\<rparr>"

definition fk_name :: "string \<Rightarrow> string \<Rightarrow> string" where
  "fk_name table column = table @ ''_'' @ column @ ''_fkey''"

text \<open>The parent's own column that points back at another table, if any.\<close>

definition cycle_back :: "AppliedSchema \<Rightarrow> string \<Rightarrow> string \<Rightarrow> string option" where
  "cycle_back after parent_table other =
     (case bt_get (s_models after) parent_table of
        None \<Rightarrow> None
      | Some parent_schema \<Rightarrow>
          find_map (\<lambda>pc. case c_foreign_key pc of
              Some pfk \<Rightarrow> if fk_ref_table pfk = other then Some (c_name pc) else None
            | None \<Rightarrow> None) (t_columns parent_schema))"

text \<open>The other side of a through table: its first foreign key to a different table.\<close>

definition join_partner ::
  "string list \<Rightarrow> string \<Rightarrow> TableSchema \<Rightarrow> string \<Rightarrow> (string \<times> string) option" where
  "join_partner migrating parent_table other_table column =
     (case find_map (\<lambda>pc.
          if c_name pc = column then None
          else case c_foreign_key pc of
            None \<Rightarrow> None
          | Some pfk \<Rightarrow> if fk_ref_table pfk = parent_table then None
                       else Some (c_name pc, fk_ref_table pfk)) (t_columns other_table) of
        Some (pcol, partner_target) \<Rightarrow>
          if partner_target \<in> set migrating then Some (pcol, partner_target) else None
      | None \<Rightarrow> None)"

definition partner_deferral :: "TableSchema \<Rightarrow> string option \<Rightarrow> bool \<times> bool" where
  "partner_deferral other_table partner_col =
     (case partner_col of
        None \<Rightarrow> (False, False)
      | Some name \<Rightarrow>
          (case find (\<lambda>c. c_name c = name) (t_columns other_table) of
             None \<Rightarrow> (False, False)
           | Some c \<Rightarrow>
               (case c_foreign_key c of
                  None \<Rightarrow> (False, False)
                | Some fk \<Rightarrow> (fk_deferrable fk, fk_initially_deferred fk))))"

definition flip_child ::
  "PkFlipFamily \<Rightarrow> string \<Rightarrow> ColumnSchema \<Rightarrow> ForeignKeySchema \<Rightarrow> bool \<Rightarrow> PkFlipChild" where
  "flip_child family other col fk cyclic =
     \<lparr>ch_table = other, ch_fk_column = c_name col, ch_fk_constraint_name = fk_name other (c_name col),
      ch_on_delete = fk_on_delete fk,
      ch_fk_deferrable = (if cyclic then True else fk_deferrable fk),
      ch_fk_initially_deferred = (if cyclic then True else fk_initially_deferred fk),
      ch_fk_nullable = c_nullable col, ch_fk_unique = c_unique col,
      ch_family = family, ch_cycle_flag = cyclic\<rparr>"

definition flip_join_table ::
  "string list \<Rightarrow> PkFlipFamily \<Rightarrow> string \<Rightarrow> string \<Rightarrow> TableSchema \<Rightarrow> ColumnSchema \<Rightarrow> ForeignKeySchema \<Rightarrow>
   PkFlipJoinTable" where
  "flip_join_table migrating family parent_table other other_table col fk =
     (let partner = join_partner migrating parent_table other_table (c_name col);
          partner_col = map_option fst partner;
          deferral = partner_deferral other_table partner_col
      in \<lparr>jt_table = other, jt_fk_to_parent_column = c_name col,
          jt_fk_to_parent_constraint = fk_name other (c_name col),
          jt_fk_to_parent_deferrable = fk_deferrable fk,
          jt_fk_to_parent_initially_deferred = fk_initially_deferred fk,
          jt_fk_to_partner_column = partner_col,
          jt_fk_to_partner_constraint = map_option (fk_name other) partner_col,
          jt_fk_to_partner_table = map_option snd partner,
          jt_fk_to_partner_deferrable = fst deferral,
          jt_fk_to_partner_initially_deferred = snd deferral,
          jt_family = family\<rparr>)"

definition scan_column ::
  "AppliedSchema \<Rightarrow> string list \<Rightarrow> PkFlipFamily \<Rightarrow> string \<Rightarrow> string \<Rightarrow> TableSchema \<Rightarrow>
   ColumnSchema \<Rightarrow> FlipScan \<Rightarrow> FlipScan" where
  "scan_column after migrating family parent_table other other_table col st =
     (case c_foreign_key col of
        None \<Rightarrow> st
      | Some fk \<Rightarrow>
          if fk_ref_table fk \<noteq> parent_table then st
          else if other = parent_table
          then st\<lparr>fs_self_cols := fs_self_cols st @ [c_name col],
                  fs_self_constraints := fs_self_constraints st @ [fk_name other (c_name col)],
                  fs_self_deferrable := fs_self_deferrable st @ [fk_deferrable fk],
                  fs_self_initially_deferred :=
                    fs_self_initially_deferred st @ [fk_initially_deferred fk]\<rparr>
          else case cycle_back after parent_table other of
            Some self_fk_col \<Rightarrow>
              st\<lparr>fs_cycles := fs_cycles st @
                   [\<lparr>cy_peer_table = other, cy_peer_fk_column = c_name col,
                     cy_self_fk_column = self_fk_col\<rparr>],
                 fs_children := fs_children st @ [flip_child family other col fk True]\<rparr>
          | None \<Rightarrow>
              if t_is_through other_table
              then st\<lparr>fs_join_tables := fs_join_tables st @
                     [flip_join_table migrating family parent_table other other_table col fk]\<rparr>
              else st\<lparr>fs_children := fs_children st @ [flip_child family other col fk False]\<rparr>)"

definition scan_parent ::
  "AppliedSchema \<Rightarrow> string list \<Rightarrow> PkFlipFamily \<Rightarrow> string \<Rightarrow> FlipScan" where
  "scan_parent after migrating family parent_table =
     fold (\<lambda>(other, other_table).
         fold (scan_column after migrating family parent_table other other_table)
           (t_columns other_table))
       (s_models after) empty_scan"

section \<open>The closure bound\<close>

definition MAX_CLOSURE_DEPTH :: nat where
  "MAX_CLOSURE_DEPTH = 65"

definition next_frontier :: "AppliedSchema \<Rightarrow> string list \<Rightarrow> string list \<Rightarrow> string list" where
  "next_frontier after visited frontier =
     bs_collect (map fst (filter (\<lambda>(name, t).
         name \<notin> set visited
         \<and> list_ex (\<lambda>c. case c_foreign_key c of
               Some fk \<Rightarrow> fk_ref_table fk \<in> set frontier | None \<Rightarrow> False) (t_columns t))
       (s_models after)))"

text \<open>The loop over \<open>1..=MAX_CLOSURE_DEPTH\<close>: \<open>left\<close> rounds remain, the last of them fails.\<close>

fun closure_rounds ::
  "AppliedSchema \<Rightarrow> string \<Rightarrow> nat \<Rightarrow> string list \<Rightarrow> string list \<Rightarrow> string list \<Rightarrow> DiffError option" where
  "closure_rounds after parent_table 0 visited frontier chain = None"
| "closure_rounds after parent_table (Suc left) visited frontier chain =
     (if frontier = [] then None
      else let nxt = next_frontier after visited frontier
        in if nxt = [] then None
        else let chain' = chain @ [hd nxt]; visited' = fold bs_put nxt visited
          in if left = 0
             then Some (PkFlipCascadeDepthExceeded parent_table chain' MAX_CLOSURE_DEPTH)
             else closure_rounds after parent_table left visited' nxt chain')"

definition closure_error :: "AppliedSchema \<Rightarrow> string \<Rightarrow> FlipScan \<Rightarrow> DiffError option" where
  "closure_error after parent_table st =
     (let visited = bs_collect (parent_table # map ch_table (fs_children st)
                                  @ map jt_table (fs_join_tables st))
      in closure_rounds after parent_table MAX_CLOSURE_DEPTH visited visited [parent_table])"

section \<open>The groups\<close>

definition self_fk_of :: "FlipScan \<Rightarrow> PkFlipSelfFk option" where
  "self_fk_of st =
     (let zipped = sort_key fst
            (zip (fs_self_cols st) (zip (fs_self_constraints st)
              (zip (fs_self_deferrable st) (fs_self_initially_deferred st))));
          force = fs_cycles st \<noteq> []
      in if zipped = [] then None
         else Some \<lparr>sf_fk_columns = map fst zipped,
                    sf_fk_constraint_names = map (fst \<circ> snd) zipped,
                    sf_fk_deferrable = map (\<lambda>x. if force then True else fst (snd (snd x))) zipped,
                    sf_fk_initially_deferred =
                      map (\<lambda>x. if force then True else snd (snd (snd x))) zipped\<rparr>)"

definition co_destructive_op :: "SchemaOperation \<Rightarrow> bool" where
  "co_destructive_op op =
     (case op of DropTable _ \<Rightarrow> True | DropColumn _ _ \<Rightarrow> True | DropEnum _ \<Rightarrow> True
      | DropIndex _ \<Rightarrow> True | DropForeignKey _ _ _ \<Rightarrow> True | _ \<Rightarrow> False)"

definition co_lossy_op :: "SchemaOperation \<Rightarrow> bool" where
  "co_lossy_op op =
     (case op of
        AlterColumn _ _ change \<Rightarrow> change = SetNullable False
      | AddColumn _ column \<Rightarrow> \<not> c_nullable column \<and> c_default_sql column = None
      | _ \<Rightarrow> False)"

definition flip_group ::
  "AppliedSchema \<Rightarrow> SchemaOperation list \<Rightarrow> string \<Rightarrow> PkKindSchema \<Rightarrow> PkKindSchema \<Rightarrow> FlipScan \<Rightarrow>
   PkTypeFlipGroup" where
  "flip_group after ops parent_table parent_from parent_to st =
     \<lparr>pg_parent_table = parent_table, pg_parent_from = parent_from, pg_parent_to = parent_to,
      pg_direction = flip_direction parent_from parent_to,
      pg_children = sort_key (\<lambda>c. (ch_table c, ch_fk_column c)) (fs_children st),
      pg_self_fk = self_fk_of st,
      pg_join_tables = sort_key (\<lambda>j. (jt_table j, jt_fk_to_parent_column j)) (fs_join_tables st),
      pg_cycles = sort_key cy_peer_table (fs_cycles st),
      pg_partitioned_parent =
        (case bt_get (s_models after) parent_table of
           Some t \<Rightarrow> map_option (\<lambda>p. \<lparr>pm_partition = p\<rparr>) (t_partition t)
         | None \<Rightarrow> None),
      pg_co_destructive = list_ex co_destructive_op ops,
      pg_co_lossy = list_ex co_lossy_op ops,
      pg_join_table_option = OptionA\<rparr>"

definition pk_flips :: "SchemaOperation list \<Rightarrow> (string \<times> PkKindSchema \<times> PkKindSchema) list" where
  "pk_flips ops =
     List.map_filter (\<lambda>op. case op of PkTypeFlip t f k \<Rightarrow> Some (t, f, k) | _ \<Rightarrow> None) ops"

definition not_pk_flip :: "SchemaOperation \<Rightarrow> bool" where
  "not_pk_flip op = (case op of PkTypeFlip _ _ _ \<Rightarrow> False | _ \<Rightarrow> True)"

fun promote_parents ::
  "AppliedSchema \<Rightarrow> string list \<Rightarrow> (string \<times> PkKindSchema \<times> PkKindSchema) list \<Rightarrow>
   SchemaOperation list \<Rightarrow> DiffError + SchemaOperation list" where
  "promote_parents after migrating [] ops = Inr ops"
| "promote_parents after migrating ((parent_table, from, to) # parents) ops =
     (let st = scan_parent after migrating (flip_family from) parent_table
      in case closure_error after parent_table st of
        Some e \<Rightarrow> Inl e
      | None \<Rightarrow>
          promote_parents after migrating parents
            (ops @ [PkTypeFlipGroup (flip_group after ops parent_table from to st)]))"

definition promote_pk_flips_to_groups ::
  "AppliedSchema \<Rightarrow> SchemaOperation list \<Rightarrow> DiffError + SchemaOperation list" where
  "promote_pk_flips_to_groups after ops =
     (let parents = pk_flips ops
      in if parents = [] then Inr ops
         else promote_parents after (bs_collect (map fst parents)) parents (filter not_pk_flip ops))"

section \<open>All buckets\<close>

record TableMove =
  mv_src :: BucketKey
  mv_dest :: BucketKey
  mv_table :: string

definition table_moves ::
  "(BucketKey, AppliedSchema) btree \<Rightarrow> (BucketKey, AppliedSchema) btree \<Rightarrow> TableMove list" where
  "table_moves before after =
     concat (map (\<lambda>(dest, dest_schema).
       List.map_filter (\<lambda>(name, table).
           case t_moved_from_app table of
             None \<Rightarrow> None
           | Some from_app \<Rightarrow>
               let src = BucketKey (database dest) from_app
               in case bt_get before src of
                    None \<Rightarrow> None
                  | Some src_schema \<Rightarrow>
                      if \<not> bt_has (s_models src_schema) name then None
                      else Some \<lparr>mv_src = src, mv_dest = dest, mv_table = name\<rparr>)
         (s_models dest_schema)) after)"

definition keep_unmoved :: "TableMove list \<Rightarrow> BucketKey \<Rightarrow> SchemaOperation \<Rightarrow> bool" where
  "keep_unmoved moves bucket op =
     (case op of
        DropTable name \<Rightarrow> \<not> list_ex (\<lambda>m. mv_src m = bucket \<and> mv_table m = name) moves
      | AddTable t \<Rightarrow> \<not> list_ex (\<lambda>m. mv_dest m = bucket \<and> mv_table m = t_table t) moves
      | _ \<Rightarrow> True)"

definition move_operations :: "TableMove list \<Rightarrow> BucketKey \<Rightarrow> SchemaOperation list" where
  "move_operations moves bucket =
     map (\<lambda>m. MoveModelBetweenApps (mv_table m) (app (mv_src m)) (app (mv_dest m)))
       (filter (\<lambda>m. mv_dest m = bucket) moves)"

definition bucket_schema :: "(BucketKey, AppliedSchema) btree \<Rightarrow> BucketKey \<Rightarrow> AppliedSchema" where
  "bucket_schema m bucket = (case bt_get m bucket of Some s \<Rightarrow> s | None \<Rightarrow> empty_schema)"

text \<open>One bucket's operations before the flips are promoted.\<close>

definition bucket_operations ::
  "(BucketKey, AppliedSchema) btree \<Rightarrow> (BucketKey, AppliedSchema) btree \<Rightarrow> BucketKey \<Rightarrow>
   SchemaOperation list" where
  "bucket_operations before after bucket =
     filter (keep_unmoved (table_moves before after) bucket)
       (d_operations (diff_schemas (bucket_schema before bucket) (bucket_schema after bucket) bucket))
     @ move_operations (table_moves before after) bucket"

text \<open>The outer option is clustering not returning.\<close>

definition bucket_delta ::
  "(BucketKey, AppliedSchema) btree \<Rightarrow> (BucketKey, AppliedSchema) btree \<Rightarrow> BucketKey \<Rightarrow>
   (DiffError + SchemaDelta) option" where
  "bucket_delta before after bucket =
     (case promote_pk_flips_to_groups (bucket_schema after bucket)
             (bucket_operations before after bucket) of
        Inl e \<Rightarrow> Some (Inl e)
      | Inr ops \<Rightarrow>
          (case reject_partitioned_multi_parent_clusters ops of
             None \<Rightarrow> None
           | Some (Some e) \<Rightarrow> Some (Inl e)
           | Some None \<Rightarrow>
               Some (Inr \<lparr>d_bucket = bucket, d_operations = ops,
                         d_classification = classify ops\<rparr>)))"

fun bucket_deltas ::
  "(BucketKey, AppliedSchema) btree \<Rightarrow> (BucketKey, AppliedSchema) btree \<Rightarrow> BucketKey list \<Rightarrow>
   (DiffError + SchemaDelta list) option" where
  "bucket_deltas before after [] = Some (Inr [])"
| "bucket_deltas before after (bucket # buckets) =
     (case bucket_delta before after bucket of
        None \<Rightarrow> None
      | Some (Inl e) \<Rightarrow> Some (Inl e)
      | Some (Inr \<delta>) \<Rightarrow>
          (case bucket_deltas before after buckets of
             None \<Rightarrow> None
           | Some (Inl e) \<Rightarrow> Some (Inl e)
           | Some (Inr \<delta>s) \<Rightarrow> Some (Inr (\<delta> # \<delta>s))))"

definition diff_bucket_maps ::
  "(BucketKey, AppliedSchema) btree \<Rightarrow> (BucketKey, AppliedSchema) btree \<Rightarrow>
   (DiffError + SchemaDelta list) option" where
  "diff_bucket_maps before after =
     bucket_deltas before after (bs_collect (bt_keys before @ bt_keys after))"

section \<open>Every reference lands in one list\<close>

text \<open>The columns of the new schema that reference a parent, as the scan meets them.\<close>

definition table_refs :: "string \<Rightarrow> string \<times> TableSchema \<Rightarrow> (string \<times> string) list" where
  "table_refs parent_table entry =
     map (\<lambda>c. (fst entry, c_name c))
       (filter (\<lambda>c. \<exists>fk. c_foreign_key c = Some fk \<and> fk_ref_table fk = parent_table)
         (t_columns (snd entry)))"

definition refs_to :: "AppliedSchema \<Rightarrow> string \<Rightarrow> (string \<times> string) list" where
  "refs_to after parent_table = concat (map (table_refs parent_table) (s_models after))"

definition scan_refs :: "string \<Rightarrow> FlipScan \<Rightarrow> (string \<times> string) multiset" where
  "scan_refs parent_table st =
     mset (map (Pair parent_table) (fs_self_cols st))
     + mset (map (\<lambda>c. (ch_table c, ch_fk_column c)) (fs_children st))
     + mset (map (\<lambda>j. (jt_table j, jt_fk_to_parent_column j)) (fs_join_tables st))"

definition scan_aligned :: "FlipScan \<Rightarrow> bool" where
  "scan_aligned st \<longleftrightarrow>
     length (fs_self_constraints st) = length (fs_self_cols st)
     \<and> length (fs_self_deferrable st) = length (fs_self_cols st)
     \<and> length (fs_self_initially_deferred st) = length (fs_self_cols st)"

lemma scan_column_refs:
  "scan_refs p (scan_column after mig fam p n t col st) =
     scan_refs p st
     + (if \<exists>fk. c_foreign_key col = Some fk \<and> fk_ref_table fk = p then {#(n, c_name col)#} else {#})"
  by (auto simp: scan_column_def scan_refs_def flip_child_def flip_join_table_def Let_def
      split: option.split)

lemma scan_column_aligned: "scan_aligned st \<Longrightarrow> scan_aligned (scan_column after mig fam p n t col st)"
  by (auto simp: scan_column_def scan_aligned_def split: option.split)

lemma scan_columns_refs:
  "scan_refs p (fold (scan_column after mig fam p n t) cols st) =
     scan_refs p st + mset (map (\<lambda>c. (n, c_name c))
       (filter (\<lambda>c. \<exists>fk. c_foreign_key c = Some fk \<and> fk_ref_table fk = p) cols))"
  by (induction cols arbitrary: st) (auto simp: scan_column_refs)

lemma scan_columns_aligned:
  "scan_aligned st \<Longrightarrow> scan_aligned (fold (scan_column after mig fam p n t) cols st)"
  by (induction cols arbitrary: st) (auto simp: scan_column_aligned)

lemma scan_tables:
  "scan_refs p (fold (\<lambda>(n, t). fold (scan_column after mig fam p n t) (t_columns t)) ms st)
      = scan_refs p st + mset (concat (map (table_refs p) ms))"
  "scan_aligned st \<Longrightarrow>
    scan_aligned (fold (\<lambda>(n, t). fold (scan_column after mig fam p n t) (t_columns t)) ms st)"
  by (induction ms arbitrary: st)
    (auto simp: scan_columns_refs scan_columns_aligned table_refs_def split: prod.splits)

lemma scan_parent_refs:
  "scan_refs p (scan_parent after mig fam p) = mset (refs_to after p)"
  "scan_aligned (scan_parent after mig fam p)"
proof -
  have "scan_refs p empty_scan = {#}" "scan_aligned empty_scan"
    by (simp_all add: empty_scan_def scan_refs_def scan_aligned_def)
  then show "scan_refs p (scan_parent after mig fam p) = mset (refs_to after p)"
    "scan_aligned (scan_parent after mig fam p)"
    by (simp_all add: scan_parent_def refs_to_def scan_tables)
qed

definition self_columns :: "PkTypeFlipGroup \<Rightarrow> string list" where
  "self_columns g = (case pg_self_fk g of Some s \<Rightarrow> sf_fk_columns s | None \<Rightarrow> [])"

definition group_refs :: "PkTypeFlipGroup \<Rightarrow> (string \<times> string) multiset" where
  "group_refs g =
     mset (map (Pair (pg_parent_table g)) (self_columns g))
     + mset (map (\<lambda>c. (ch_table c, ch_fk_column c)) (pg_children g))
     + mset (map (\<lambda>j. (jt_table j, jt_fk_to_parent_column j)) (pg_join_tables g))"

lemma self_fk_columns:
  assumes "scan_aligned st"
  shows "mset (case self_fk_of st of Some s \<Rightarrow> sf_fk_columns s | None \<Rightarrow> []) = mset (fs_self_cols st)"
proof -
  let ?z = "zip (fs_self_cols st) (zip (fs_self_constraints st)
              (zip (fs_self_deferrable st) (fs_self_initially_deferred st)))"
  have len: "map fst ?z = fs_self_cols st" using assms by (simp add: scan_aligned_def)
  have "mset (map fst (sort_key fst ?z)) = mset (map fst ?z)"
    by (simp only: mset_map mset_sort)
  moreover have "sort_key fst ?z = [] \<longleftrightarrow> ?z = []" by (metis length_0_conv length_sort)
  ultimately show ?thesis using len by (auto simp: self_fk_of_def Let_def)
qed

lemma flip_group_refs:
  assumes "scan_aligned st"
  shows "group_refs (flip_group after ops p f t st) = scan_refs p st"
  using self_fk_columns [OF assms]
  by (simp add: group_refs_def scan_refs_def flip_group_def self_columns_def flip: mset_map)
    (simp add: image_mset.compositionality)

section \<open>Promotion\<close>

lemma promote_parents_result:
  "promote_parents after mig parents ops = Inr out \<Longrightarrow>
    \<exists>gs. out = ops @ map PkTypeFlipGroup gs
      \<and> map (\<lambda>g. (pg_parent_table g, pg_parent_from g, pg_parent_to g)) gs = parents
      \<and> (\<forall>g\<in>set gs. group_refs g = mset (refs_to after (pg_parent_table g)))"
proof (induction after mig parents ops rule: promote_parents.induct)
  case (1 after mig ops)
  then show ?case by (intro exI [of _ "[]"]) simp
next
  case (2 after mig p f t parents ops)
  let ?st = "scan_parent after mig (flip_family f) p"
  let ?g = "flip_group after ops p f t ?st"
  have none: "closure_error after p ?st = None"
    using "2.prems" by (simp add: Let_def split: option.splits)
  then have "promote_parents after mig parents (ops @ [PkTypeFlipGroup ?g]) = Inr out"
    using "2.prems" by (simp add: Let_def)
  from "2.IH" [OF refl none this] obtain gs where gs: "out = (ops @ [PkTypeFlipGroup ?g]) @ map PkTypeFlipGroup gs"
    "map (\<lambda>g. (pg_parent_table g, pg_parent_from g, pg_parent_to g)) gs = parents"
    "\<forall>g\<in>set gs. group_refs g = mset (refs_to after (pg_parent_table g))" by blast
  have "group_refs ?g = mset (refs_to after p)"
    by (simp add: flip_group_refs scan_parent_refs)
  moreover have "pg_parent_table ?g = p" "pg_parent_from ?g = f" "pg_parent_to ?g = t"
    by (simp_all add: flip_group_def)
  ultimately show ?case using gs by (intro exI [of _ "?g # gs"]) simp
qed

lemma no_flips: "pk_flips ops = [] \<Longrightarrow> filter not_pk_flip ops = ops"
proof (induction ops)
  case (Cons op ops)
  then show ?case by (cases op) (simp_all add: pk_flips_def not_pk_flip_def List.map_filter_def)
qed simp

text \<open>
  C24: promotion replaces each primary-key flip by one group, in
  order, behind all other operations unchanged; and each group accounts for every column that
  references its parent exactly once, as a self reference, a child or a join table, and for
  no other column.
\<close>

theorem promote_covers_references:
  assumes "promote_pk_flips_to_groups after ops = Inr out"
  shows "\<exists>gs. out = filter not_pk_flip ops @ map PkTypeFlipGroup gs
    \<and> map (\<lambda>g. (pg_parent_table g, pg_parent_from g, pg_parent_to g)) gs = pk_flips ops
    \<and> (\<forall>g\<in>set gs. group_refs g = mset (refs_to after (pg_parent_table g)))"
proof (cases "pk_flips ops = []")
  case True
  with assms no_flips show ?thesis by (intro exI [of _ "[]"]) (simp add: promote_pk_flips_to_groups_def)
next
  case False
  with assms have "promote_parents after (bs_collect (map fst (pk_flips ops))) (pk_flips ops)
      (filter not_pk_flip ops) = Inr out"
    by (simp add: promote_pk_flips_to_groups_def Let_def)
  from promote_parents_result [OF this] show ?thesis .
qed

section \<open>The closure bound\<close>

lemma set_next_frontier:
  "set (next_frontier after visited frontier) \<subseteq> set (bt_keys (s_models after)) - set visited"
  by (auto simp: next_frontier_def bt_keys_def)

lemma set_fold_bs_put: "set (fold bs_put xs s) = set xs \<union> set s"
  by (induction xs arbitrary: s) auto

lemma closure_rounds_error:
  "closure_rounds after p left visited frontier chain = Some e \<Longrightarrow>
    \<exists>more. e = PkFlipCascadeDepthExceeded p (chain @ more) MAX_CLOSURE_DEPTH \<and> length more = left
      \<and> left \<le> card (set (bt_keys (s_models after)) - set visited)"
proof (induction after p left visited frontier chain rule: closure_rounds.induct)
  case (2 after p left visited frontier chain)
  let ?nxt = "next_frontier after visited frontier"
  let ?names = "set (bt_keys (s_models after))"
  have ne: "frontier \<noteq> []" "?nxt \<noteq> []"
    using "2.prems" by (auto simp: Let_def split: if_splits)
  have sub: "set ?nxt \<subseteq> ?names - set visited" by (rule set_next_frontier)
  have fin: "finite (?names - set visited)" by simp
  show ?case
  proof (cases "left = 0")
    case True
    have "?names - set visited \<noteq> {}" using sub ne(2) by (cases ?nxt) auto
    with fin have "1 \<le> card (?names - set visited)" by (simp add: Suc_le_eq card_gt_0_iff)
    with True "2.prems" ne show ?thesis by (auto simp: Let_def intro!: exI [of _ "[hd ?nxt]"])
  next
    case False
    let ?v = "fold bs_put ?nxt visited"
    have "closure_rounds after p left ?v ?nxt (chain @ [hd ?nxt]) = Some e"
      using "2.prems" ne False by (simp add: Let_def)
    from "2.IH" [OF ne(1) refl ne(2) refl refl False this] obtain more where
      m: "e = PkFlipCascadeDepthExceeded p ((chain @ [hd ?nxt]) @ more) MAX_CLOSURE_DEPTH" "length more = left"
      "left \<le> card (?names - set ?v)" by blast
    have "?names - set ?v \<subset> ?names - set visited"
      using sub ne(2) by (cases ?nxt) (auto simp: set_fold_bs_put)
    then have "card (?names - set ?v) < card (?names - set visited)"
      by (rule psubset_card_mono [OF fin])
    with m show ?thesis by (intro exI [of _ "hd ?nxt # more"]) simp
  qed
qed simp

lemma promote_parents_error:
  "promote_parents after mig parents ops = Inl e \<Longrightarrow>
    \<exists>p\<in>fst ` set parents. \<exists>fam. closure_error after p (scan_parent after mig fam p) = Some e"
  by (induction after mig parents ops rule: promote_parents.induct)
    (auto simp: Let_def split: option.splits)

lemma promotion_error:
  assumes "promote_pk_flips_to_groups after ops = Inl e"
  shows "\<exists>p more. e = PkFlipCascadeDepthExceeded p (p # more) MAX_CLOSURE_DEPTH \<and> length more = 65
    \<and> p \<in> fst ` set (pk_flips ops) \<and> 65 \<le> length (s_models after)"
proof -
  obtain p fam mig where p: "p \<in> fst ` set (pk_flips ops)"
    "closure_error after p (scan_parent after mig fam p) = Some e"
  proof -
    have "promote_parents after (bs_collect (map fst (pk_flips ops))) (pk_flips ops)
        (filter not_pk_flip ops) = Inl e"
      using assms by (cases "pk_flips ops = []") (simp_all add: promote_pk_flips_to_groups_def Let_def)
    from promote_parents_error [OF this] that show thesis by blast
  qed
  from closure_rounds_error [OF p(2) [unfolded closure_error_def Let_def]] obtain more V where
    m: "e = PkFlipCascadeDepthExceeded p ([p] @ more) MAX_CLOSURE_DEPTH" "length more = MAX_CLOSURE_DEPTH"
    "MAX_CLOSURE_DEPTH \<le> card (set (bt_keys (s_models after)) - V)" by blast
  have "card (set (bt_keys (s_models after)) - V) \<le> card (set (bt_keys (s_models after)))"
    by (intro card_mono) auto
  also have "\<dots> \<le> length (s_models after)"
    using card_length [of "bt_keys (s_models after)"] by (simp add: bt_keys_def)
  finally have "65 \<le> length (s_models after)" using m(3) by (simp add: MAX_CLOSURE_DEPTH_def)
  with m p(1) show ?thesis by (auto simp: MAX_CLOSURE_DEPTH_def)
qed

text \<open>
  The only error of promotion is the depth bound: it names a flipping
  parent and a chain of 65 further tables below it. A schema with fewer than 65 tables is
  never refused.
\<close>

lemma promote_error_depth:
  "(length (s_models after) < 65 \<longrightarrow> (\<exists>out. promote_pk_flips_to_groups after ops = Inr out))
   \<and> (\<forall>e. promote_pk_flips_to_groups after ops = Inl e \<longrightarrow>
        (\<exists>p more. e = PkFlipCascadeDepthExceeded p (p # more) MAX_CLOSURE_DEPTH \<and> length more = 65
          \<and> p \<in> fst ` set (pk_flips ops)))"
proof (intro conjI allI impI)
  assume "length (s_models after) < 65"
  then show "\<exists>out. promote_pk_flips_to_groups after ops = Inr out"
    using promotion_error [of after ops] by (cases "promote_pk_flips_to_groups after ops") auto
qed (use promotion_error in blast)

section \<open>The co-occurrence flags\<close>

text \<open>
  the flags a group carries about its delta agree with the
  severities of the other operations with two exceptions: dropping an exclusion constraint is
  destructive but does not set the destructive flag, and adding a generated column without
  default is additive but sets the lossy flag.
\<close>

lemma co_flags_versus_severity:
  "(severity_of op = SevDestructive \<longleftrightarrow>
      co_destructive_op op \<or> (\<exists>t n x. op = DropExclusionConstraint t n x))
   \<and> (co_lossy_op op \<longleftrightarrow>
      severity_of op = SevLossy
      \<or> (\<exists>t c. op = AddColumn t c \<and> \<not> c_nullable c \<and> c_default_sql c = None \<and> c_generated c \<noteq> None))"
  by (cases op) (auto simp: co_destructive_op_def co_lossy_op_def)

section \<open>Moves between apps\<close>

lemma bucket_deltas_result:
  "bucket_deltas before after buckets = Some (Inr \<delta>s) \<Longrightarrow>
    map d_bucket \<delta>s = buckets
    \<and> (\<forall>\<delta>\<in>set \<delta>s. bucket_delta before after (d_bucket \<delta>) = Some (Inr \<delta>))"
proof (induction before after buckets arbitrary: \<delta>s rule: bucket_deltas.induct)
  case (2 before after bucket buckets)
  obtain \<delta> rest where *: "bucket_delta before after bucket = Some (Inr \<delta>)"
    "bucket_deltas before after buckets = Some (Inr rest)" "\<delta>s = \<delta> # rest"
    using "2.prems" by (auto split: option.splits sum.splits)
  have "d_bucket \<delta> = bucket"
    using *(1) by (auto simp: bucket_delta_def split: sum.splits option.splits)
  with "2.IH" [OF *(1) refl *(2)] * show ?case by simp
qed simp

lemma bucket_delta_ops:
  assumes "bucket_delta before after bucket = Some (Inr \<delta>)"
  shows "\<exists>gs. d_operations \<delta> = filter not_pk_flip (bucket_operations before after bucket)
      @ map PkTypeFlipGroup gs"
    and "d_classification \<delta> = classify (d_operations \<delta>)"
proof -
  from assms have p: "promote_pk_flips_to_groups (bucket_schema after bucket)
      (bucket_operations before after bucket) = Inr (d_operations \<delta>)"
    by (auto simp: bucket_delta_def split: sum.splits option.splits)
  show "d_classification \<delta> = classify (d_operations \<delta>)"
    using assms by (auto simp: bucket_delta_def split: sum.splits option.splits)
  show "\<exists>gs. d_operations \<delta> = filter not_pk_flip (bucket_operations before after bucket)
      @ map PkTypeFlipGroup gs"
  proof (cases "pk_flips (bucket_operations before after bucket) = []")
    case True
    with p no_flips show ?thesis
      by (intro exI [of _ "[]"]) (simp add: promote_pk_flips_to_groups_def)
  next
    case False
    with p have "promote_parents (bucket_schema after bucket)
        (bs_collect (map fst (pk_flips (bucket_operations before after bucket))))
        (pk_flips (bucket_operations before after bucket))
        (filter not_pk_flip (bucket_operations before after bucket)) = Inr (d_operations \<delta>)"
      by (simp add: promote_pk_flips_to_groups_def Let_def)
    from promote_parents_result [OF this] show ?thesis by blast
  qed
qed

text \<open>
  C25: diffing all buckets gives one delta per bucket, in bucket order, each
  classified from its own operations. A table declared as moved from another app that held it
  is not dropped in the old app nor created in the new one; the new app's delta moves it.
\<close>

theorem moved_tables_move:
  assumes "diff_bucket_maps before after = Some (Inr \<delta>s)"
  shows "map d_bucket \<delta>s = bs_collect (bt_keys before @ bt_keys after)
    \<and> (\<forall>\<delta>\<in>set \<delta>s. d_classification \<delta> = classify (d_operations \<delta>)
        \<and> (\<forall>m\<in>set (table_moves before after).
            (d_bucket \<delta> = mv_src m \<longrightarrow> DropTable (mv_table m) \<notin> set (d_operations \<delta>))
          \<and> (d_bucket \<delta> = mv_dest m \<longrightarrow>
               (\<forall>t. t_table t = mv_table m \<longrightarrow> AddTable t \<notin> set (d_operations \<delta>))
               \<and> MoveModelBetweenApps (mv_table m) (app (mv_src m)) (app (mv_dest m))
                   \<in> set (d_operations \<delta>))))"
proof -
  let ?moves = "table_moves before after"
  note r = bucket_deltas_result [OF assms [unfolded diff_bucket_maps_def]]
  have "d_classification \<delta> = classify (d_operations \<delta>)
        \<and> (\<forall>m\<in>set ?moves.
            (d_bucket \<delta> = mv_src m \<longrightarrow> DropTable (mv_table m) \<notin> set (d_operations \<delta>))
          \<and> (d_bucket \<delta> = mv_dest m \<longrightarrow>
               (\<forall>t. t_table t = mv_table m \<longrightarrow> AddTable t \<notin> set (d_operations \<delta>))
               \<and> MoveModelBetweenApps (mv_table m) (app (mv_src m)) (app (mv_dest m))
                   \<in> set (d_operations \<delta>)))" if "\<delta> \<in> set \<delta>s" for \<delta>
  proof -
    from r that have d: "bucket_delta before after (d_bucket \<delta>) = Some (Inr \<delta>)" by blast
    obtain gs where ops: "d_operations \<delta> = filter not_pk_flip (bucket_operations before after (d_bucket \<delta>))
      @ map PkTypeFlipGroup gs" using bucket_delta_ops(1) [OF d] by blast
    have moved: "MoveModelBetweenApps x y z \<in> set (d_operations \<delta>)"
      if "MoveModelBetweenApps x y z \<in> set (move_operations ?moves (d_bucket \<delta>))" for x y z
      using that by (simp add: ops bucket_operations_def not_pk_flip_def)
    have dropped: "keep_unmoved ?moves (d_bucket \<delta>) (DropTable n)"
      if "DropTable n \<in> set (d_operations \<delta>)" for n
      using that by (auto simp: ops bucket_operations_def move_operations_def)
    have added: "keep_unmoved ?moves (d_bucket \<delta>) (AddTable t)"
      if "AddTable t \<in> set (d_operations \<delta>)" for t
      using that by (auto simp: ops bucket_operations_def move_operations_def)
    show ?thesis
      using bucket_delta_ops(2) [OF d] moved dropped added
      by (fastforce simp: keep_unmoved_def list_ex_iff move_operations_def)
  qed
  with r show ?thesis by blast
qed

end
