(* ===== verification/Diff_Silent.thy ===== *)
theory Diff_Silent
  imports Diff_Schema
begin

text \<open>
  What the differ leaves out: table properties whose change makes two schemas unequal but
  which no pass of \<open>diff_schemas\<close> compares.
\<close>

section \<open>Changes the differ does not see\<close>

text \<open>Only the partitioning, row-level security, tenancy and text search of the tables change.\<close>

definition reshape ::
  "(TableSchema \<Rightarrow> PartitionSchema option) \<Rightarrow> (TableSchema \<Rightarrow> bool) \<Rightarrow> (TableSchema \<Rightarrow> string option) \<Rightarrow>
   (TableSchema \<Rightarrow> FtsSchema option) \<Rightarrow> AppliedSchema \<Rightarrow> AppliedSchema" where
  "reshape part rls tenant fts s =
     s\<lparr>s_models := map (\<lambda>(k, t). (k, t\<lparr>t_partition := part t, t_rls_enabled := rls t,
        t_tenant_key := tenant t, t_fts := fts t\<rparr>)) (s_models s)\<rparr>"

definition no_pending_renames :: "AppliedSchema \<Rightarrow> bool" where
  "no_pending_renames s \<longleftrightarrow>
     (\<forall>(k, t)\<in>set (s_models s).
        (case t_renamed_from t of Some prev \<Rightarrow> \<not> bt_has (s_models s) prev | None \<Rightarrow> True)
        \<and> (\<forall>c\<in>set (t_columns t). case c_renamed_from c of
             Some prev \<Rightarrow> prev \<notin> set (map c_name (t_columns t)) | None \<Rightarrow> True))"

lemma bt_get_member: "bt_ok m \<Longrightarrow> (k, v) \<in> set m \<Longrightarrow> bt_get m k = Some v"
  by (simp add: bt_get_def bt_ok_distinct)

lemma map_filter_empty: "(\<forall>x\<in>set xs. f x = None) \<Longrightarrow> List.map_filter f xs = []"
  by (simp add: List.map_filter_def)

lemma same_columns:
  assumes "t_columns t' = t_columns t" "t_table t' = t_table t"
    "\<forall>c\<in>set (t_columns t). case c_renamed_from c of
       Some prev \<Rightarrow> prev \<notin> set (map c_name (t_columns t)) | None \<Rightarrow> True"
  shows "diff_columns_in_table t t' = ([], [])"
proof -
  let ?cols = "cols_by_name (t_columns t)"
  have "column_rename_targets ?cols ?cols = []"
  proof -
    have "(case c_renamed_from c of None \<Rightarrow> None
          | Some prev \<Rightarrow> if bt_has ?cols prev then Some (prev, c_name c) else None) = None"
      if "c \<in> set (bt_values ?cols)" for c
    proof -
      have "c \<in> set (t_columns t)"
        using that cols_by_name_get by (auto simp: bt_values_def dest: bt_get_member [OF cols_by_name_ok])
      then show ?thesis using assms(3) by (auto simp: cols_by_name_has split: option.split)
    qed
    then show ?thesis by (simp add: column_rename_targets_def map_filter_empty bt_collect_def)
  qed
  moreover have "(case bt_get ?cols (fst x) of None \<Rightarrow> []
      | Some bc \<Rightarrow> if column_eq bc (snd x) then [] else emit_alter_column t' bc (snd x)) = []"
    if "x \<in> set ?cols" for x
    using bt_get_member [OF cols_by_name_ok, of "fst x" "snd x"] that by (simp add: col_eq.eq_refl)
  ultimately show ?thesis
    using assms(1,2)
    by (auto simp: diff_columns_in_table_def Let_def cols_by_name_has filter_empty_conv split_beta
        bt_has_iff [of "cols_by_name _", symmetric])
qed

lemma bt_has_member: "(k, v) \<in> set m \<Longrightarrow> bt_has m k"
  by (force simp: bt_has_iff bt_keys_def)

lemma bt_get_collect: "(k, v) \<in> set (bt_collect kvs) \<Longrightarrow> bt_get (bt_collect kvs) k = Some v"
  by (rule bt_get_member [OF bt.ok_collect])

lemma same_exclusions:
  "t_exclusion_constraints t' = t_exclusion_constraints t \<Longrightarrow> diff_exclusion_constraints_in_table t t' = []"
  by (auto simp: diff_exclusion_constraints_in_table_def excl_by_name_def Let_def bt_has_def
      bt_get_collect split: prod.splits)

lemma same_indexes: "diff_indexes s (s\<lparr>s_models := m\<rparr>) [] = []"
  by (auto simp: diff_indexes_def idx_by_name_def Let_def bt_has_def bt_get_collect
      index_logical_eq_def bt_get_def [of "[]"] split: prod.splits)

lemma same_enums: "bt_ok (s_enums s) \<Longrightarrow> diff_enums s (s\<lparr>s_models := m\<rparr>) = []"
  by (auto simp: diff_enums_def bt_get_member filter_empty_conv bt_has_iff split: prod.splits)

text \<open>
  A change of a table's partitioning, row-level security, tenancy or text search
  alone makes the schemas unequal but produces no operation: the delta is empty and classified
  as a no-op, not as unsupported.
\<close>

theorem reshaping_is_silent:
  assumes "schema_ok s" "no_pending_renames s"
  shows "diff_schemas s (reshape part rls tenant fts s) bucket
    = \<lparr>d_bucket = bucket, d_operations = [], d_classification = NoOp\<rparr>"
proof -
  let ?r = "\<lambda>t. t\<lparr>t_partition := part t, t_rls_enabled := rls t, t_tenant_key := tenant t, t_fts := fts t\<rparr>"
  let ?a = "reshape part rls tenant fts s"
  have a: "?a = s\<lparr>s_models := map (\<lambda>(k, t). (k, ?r t)) (s_models s)\<rparr>" by (simp add: reshape_def)
  have mem: "bt_get (s_models s) k = Some t \<and> k = t_table t" if "(k, t) \<in> set (s_models s)" for k t
    using that assms(1) bt_get_member by (fastforce simp: schema_ok_def)
  have keys: "bt_has (s_models ?a) k = bt_has (s_models s) k" for k
    by (simp add: a bt_has_iff bt_keys_def split_beta comp_def)
  have pair: "diff_table_pair t (?r t) m = []" if "(k, t) \<in> set (s_models s)" for k t m
  proof -
    have "diff_columns_in_table t (?r t) = ([], [])"
      using that assms(2) by (intro same_columns) (auto simp: no_pending_renames_def)
    moreover have "diff_exclusion_constraints_in_table t (?r t) = []" by (rule same_exclusions) simp
    ultimately show ?thesis
      by (simp add: diff_table_pair_def diff_pk_in_table_def diff_app_move_in_table_def
          diff_table_metadata_in_table_def Let_def)
  qed
  have targets: "table_rename_targets s ?a = []"
  proof -
    have "(case t_renamed_from t' of None \<Rightarrow> None
        | Some prev \<Rightarrow> if bt_has (s_models s) prev then Some (prev, t_table t') else None) = None"
      if "t' \<in> set (bt_values (s_models ?a))" for t'
      using that assms(2)
      by (fastforce simp: a bt_values_def no_pending_renames_def split: option.split)
    then show ?thesis by (simp add: table_rename_targets_def map_filter_empty bt_collect_def)
  qed
  have "diff_tables s ?a [] [] = []"
    using mem pair keys [unfolded a]
    by (auto simp: diff_tables_def a filter_empty_conv bt_values_def bt_has_member
        simp flip: bt_has_iff split: prod.splits)
  moreover have "diff_indexes s ?a [] = []" "diff_enums s ?a = []"
    using assms(1) by (simp_all only: a same_indexes same_enums schema_ok_def)
  ultimately show ?thesis
    by (simp add: diff_schemas_def targets Let_def bt_values_def)
qed

end
