(* ===== verification/Storage_Params.thy ===== *)
theory Storage_Params
  imports Sql_Text
begin

text \<open>
  Storage parameters, the one place where text from a model attribute is put unquoted into
  \<open>ALTER TABLE ... SET (...)\<close>: what the parser lets through, that the rendered list is inert
  text, and that rendering is a normal form of the parsed text.
\<close>

section \<open>Characters let through\<close>

definition plain :: "char \<Rightarrow> bool" where
  "plain c \<longleftrightarrow> is_ascii_alphanumeric c \<or> c = CHR ''_'' \<or> c = CHR ''.''"

lemmas plain_defs = plain_def is_ascii_alphanumeric_def is_ascii_alpha_def is_ascii_digit_def byte_def

lemma not_plain [simp]:
  "\<not> plain (CHR '','')" "\<not> plain (CHR ''='')" "\<not> plain (CHR '' '')" "\<not> plain (CHR '';'')"
  "\<not> plain (CHR '')'')" "\<not> plain (CHR 0x27)"
  by (simp_all add: plain_defs)

lemma key_plain:
  assumes "validate_storage_param_key k = None"
  shows "k \<noteq> [] \<and> (\<forall>c\<in>set k. plain c)"
  using assms
  by (cases k) (auto simp: validate_storage_param_key_def plain_def is_ascii_alphanumeric_def
      list_all_iff split: if_splits)

lemma number_scan_plain: "number_scan seen b a s \<Longrightarrow> c \<in> set s \<Longrightarrow> plain c"
  by (induction seen b a s rule: number_scan.induct)
    (auto simp: plain_def is_ascii_alphanumeric_def split: if_splits)

lemma value_plain:
  assumes "validate_storage_param_value v = None"
  shows "v \<noteq> [] \<and> (\<forall>c\<in>set v. plain c)"
proof -
  have "plain c" if "is_storage_param_word v" "c \<in> set v" for c
    using that by (cases v) (auto simp: is_storage_param_word_def plain_def is_ascii_alphanumeric_def
        list_all_iff)
  then show ?thesis
    using assms number_scan_plain
    by (auto simp: validate_storage_param_value_def is_storage_param_number_def split: if_splits)
qed

section \<open>Trimming and splitting\<close>

lemma whitespace_edges:
  "\<forall>w\<in>set utf8_whitespace. w \<noteq> [] \<and> \<not> plain (hd w) \<and> \<not> plain (last w)"
  by code_simp

lemma strip_first_None: "strip_first ws s = None \<longleftrightarrow> (\<forall>w\<in>set ws. strip_prefix w s = None)"
  by (induction ws) (auto split: option.split)

lemma strip_all_plain:
  assumes "\<forall>w\<in>set ws. w \<noteq> [] \<and> \<not> plain (hd w)" "plain c"
  shows "strip_all ws (c # s) = c # s"
proof -
  have "strip_prefix w (c # s) = None" if "w \<in> set ws" for w
    using assms that by (cases w) auto
  then have "strip_first ws (c # s) = None" by (simp add: strip_first_None)
  then show ?thesis by (simp add: strip_all.simps)
qed

lemma trim_start_plain: "plain c \<Longrightarrow> trim_start (c # s) = c # s"
  by (simp add: trim_start_def strip_all_plain whitespace_edges)

lemma trim_start_space: "plain c \<Longrightarrow> trim_start (CHR '' '' # c # s) = c # s"
proof -
  have "trim_start (CHR '' '' # c # s) = trim_start (c # s)"
    by (subst trim_start_def, subst strip_all.simps) (simp add: utf8_whitespace_def trim_start_def)
  then show "plain c \<Longrightarrow> trim_start (CHR '' '' # c # s) = c # s" by (simp add: trim_start_plain)
qed

lemma trim_end_plain: "plain c \<Longrightarrow> trim_end (s @ [c]) = s @ [c]"
  using whitespace_edges
  by (simp add: trim_end_def strip_all_plain hd_rev)

text \<open>A text that starts and ends with such a character.\<close>

definition edged :: "string \<Rightarrow> bool" where
  "edged s \<longleftrightarrow> s \<noteq> [] \<and> plain (hd s) \<and> plain (last s)"

lemma edged_plain: "s \<noteq> [] \<Longrightarrow> \<forall>c\<in>set s. plain c \<Longrightarrow> edged s"
  by (simp add: edged_def)

lemma edged_join: "edged s \<Longrightarrow> edged t \<Longrightarrow> edged (s @ m @ t)"
  by (simp add: edged_def)

lemma trim_edged: "edged s \<Longrightarrow> trim s = s"
proof -
  assume e: "edged s"
  then obtain c r where "s = c # r" "plain c" by (cases s) (auto simp: edged_def)
  moreover obtain u d where "s = u @ [d]" "plain d"
    using e by (cases s rule: rev_cases) (auto simp: edged_def)
  ultimately show "trim s = s"
    by (metis trim_def trim_end_plain trim_start_plain)
qed

lemma trim_space_edged: "edged s \<Longrightarrow> trim (CHR '' '' # s) = s"
proof -
  assume e: "edged s"
  then obtain c r where "s = c # r" "plain c" by (cases s) (auto simp: edged_def)
  then have "trim (CHR '' '' # s) = trim s" by (simp add: trim_def trim_start_space trim_start_plain)
  then show "trim (CHR '' '' # s) = s" using e by (simp add: trim_edged)
qed

lemma split_at_piece: "c \<notin> set x \<Longrightarrow> split_at c (x @ c # y) = x # split_at c y"
  by (induction x) auto

lemma split_at_last: "c \<notin> set x \<Longrightarrow> split_at c x = [x]"
  by (induction x) auto

lemma split_once_piece: "c \<notin> set x \<Longrightarrow> split_once c (x @ c # y) = Some (x, y)"
  by (induction x) auto

section \<open>Entries\<close>

definition entry_ok :: "StorageParamEntry \<Rightarrow> bool" where
  "entry_ok e \<longleftrightarrow>
     validate_storage_param_key (sp_key e) = None \<and> to_ascii_lowercase (sp_key e) = sp_key e
     \<and> validate_storage_param_value (sp_value e) = None"

lemma byte_eq: "byte c = byte d \<longleftrightarrow> c = d"
  unfolding byte_def by simp

lemma byte_lower:
  "byte (to_ascii_lower_byte c) = (if 65 \<le> byte c \<and> byte c \<le> 90 then byte c + 32 else byte c)"
  by (simp add: to_ascii_lower_byte_def) (simp add: byte_def)

lemma lowercase_alnum:
  "is_ascii_alpha (to_ascii_lower_byte c) = is_ascii_alpha c"
  "is_ascii_alphanumeric (to_ascii_lower_byte c) = is_ascii_alphanumeric c"
  "to_ascii_lower_byte c = CHR ''_'' \<longleftrightarrow> c = CHR ''_''"
proof -
  show "is_ascii_alpha (to_ascii_lower_byte c) = is_ascii_alpha c"
    by (auto simp: is_ascii_alpha_def byte_lower)
  then show "is_ascii_alphanumeric (to_ascii_lower_byte c) = is_ascii_alphanumeric c"
    by (auto simp: is_ascii_alphanumeric_def is_ascii_digit_def byte_lower)
  have "byte (CHR ''_'') = 95" by (simp add: byte_def)
  then show "to_ascii_lower_byte c = CHR ''_'' \<longleftrightarrow> c = CHR ''_''"
    by (simp flip: byte_eq add: byte_lower)
qed

lemma validate_key_lowercase:
  "validate_storage_param_key (to_ascii_lowercase k) = validate_storage_param_key k"
  by (cases k) (auto simp: validate_storage_param_key_def to_ascii_lowercase_def lowercase_alnum
      list_all_iff)

lemma parse_entry_ok: "parse_storage_entry part = Inr e \<Longrightarrow> entry_ok e"
  by (auto simp: parse_storage_entry_def entry_ok_def Let_def validate_key_lowercase
      split: if_splits option.splits prod.splits)

abbreviation render_entry :: "StorageParamEntry \<Rightarrow> string" where
  "render_entry e \<equiv> sp_key e @ ''='' @ sp_value e"

lemma entry_plain:
  assumes "entry_ok e" "\<not> plain c"
  shows "c \<notin> set (sp_key e)" "c \<notin> set (sp_value e)"
  using assms key_plain [of "sp_key e"] value_plain [of "sp_value e"] by (auto simp: entry_ok_def)

lemma entry_edged:
  assumes "entry_ok e"
  shows "edged (sp_key e)" "edged (sp_value e)" "edged (render_entry e)"
proof -
  show "edged (sp_key e)" "edged (sp_value e)"
    using assms key_plain [of "sp_key e"] value_plain [of "sp_value e"]
    by (simp_all add: entry_ok_def edged_plain)
  then show "edged (render_entry e)" by (rule edged_join)
qed

lemma parse_rendered_entry:
  assumes "entry_ok e"
  shows "parse_storage_entry (render_entry e) = Inr e"
    and "parse_storage_entry (CHR '' '' # render_entry e) = Inr e"
proof -
  have "CHR ''='' \<notin> set (sp_key e)" "CHR ''='' \<notin> set (sp_value e)"
    using assms entry_plain not_plain by blast+
  moreover have "render_entry e \<noteq> []" by simp
  ultimately have "parse_storage_entry p = Inr e" if "trim p = render_entry e" for p
    using that assms entry_edged [OF assms]
    by (simp add: parse_storage_entry_def split_once_piece trim_edged entry_ok_def Let_def)
  then show "parse_storage_entry (render_entry e) = Inr e"
    "parse_storage_entry (CHR '' '' # render_entry e) = Inr e"
    using entry_edged(3) [OF assms] trim_edged trim_space_edged by blast+
qed

lemma parse_parts_ok:
  "parse_storage_parts seen parts = Inr es \<Longrightarrow>
     list_all entry_ok es \<and> distinct (map sp_key es) \<and> set (map sp_key es) \<inter> set seen = {}
     \<and> length es = length parts"
proof (induction parts arbitrary: seen es)
  case (Cons part parts)
  then show ?case
    by (fastforce split: sum.splits if_splits dest!: parse_entry_ok)
qed simp

lemma parse_parts_rendered:
  assumes "list_all2 (\<lambda>p e. parse_storage_entry p = Inr e) parts es" "distinct (map sp_key es)"
    "set (map sp_key es) \<inter> set seen = {}"
  shows "parse_storage_parts seen parts = Inr es"
  using assms by (induction parts es arbitrary: seen rule: list_all2_induct) auto

lemma split_rendered:
  assumes "list_all entry_ok (e # es)"
  shows "split_at (CHR '','') (render_storage_param_entries (e # es))
    = render_entry e # map (\<lambda>e. CHR '' '' # render_entry e) es"
  using assms
proof (induction es arbitrary: e)
  case Nil
  then have "CHR '','' \<notin> set (render_entry e)" by (simp add: entry_plain)
  then show ?case by (simp add: render_storage_param_entries_def split_at_last)
next
  case (Cons e' es)
  then have no: "CHR '','' \<notin> set (render_entry e)" by (simp add: entry_plain)
  have "render_storage_param_entries (e # e' # es)
      = render_entry e @ CHR '','' # CHR '' '' # render_storage_param_entries (e' # es)"
    by (simp add: render_storage_param_entries_def)
  with Cons split_at_piece [OF no] show ?case by simp
qed

lemma rendered_edged:
  "list_all entry_ok (e # es) \<Longrightarrow> edged (render_storage_param_entries (e # es))"
proof (induction es arbitrary: e)
  case (Cons e' es)
  have "render_storage_param_entries (e # e' # es)
      = render_entry e @ '', '' @ render_storage_param_entries (e' # es)"
    by (simp add: render_storage_param_entries_def)
  with Cons entry_edged(3) [of e] show ?case by (simp only: edged_join list.pred_inject)
qed (simp add: render_storage_param_entries_def entry_edged(3) [simplified])

lemma rendered_chars:
  "list_all entry_ok es \<Longrightarrow> c \<in> set (render_storage_param_entries es) \<Longrightarrow>
     plain c \<or> c \<in> set ''=, ''"
proof (induction es rule: induct_list012)
  case (2 e)
  then show ?case using key_plain value_plain
    by (auto simp: render_storage_param_entries_def entry_ok_def)
next
  case (3 e e' es)
  have "render_storage_param_entries (e # e' # es)
      = render_entry e @ '', '' @ render_storage_param_entries (e' # es)"
    by (simp add: render_storage_param_entries_def)
  with 3 show ?case using key_plain value_plain by (auto simp: entry_ok_def)
qed (simp add: render_storage_param_entries_def)

text \<open>
  Storage parameters that parse are put into the SQL as inert text: the
  rendered list has only letters, digits, underscores, dots and the separators of the list, so
  no quote, comment, parenthesis or semicolon; its keys are distinct; and it parses back to the
  same entries, so rendering is a normal form.
\<close>

theorem storage_params_round_trip:
  assumes "parse_storage_params params = Inr entries"
  shows "parse_storage_params (render_storage_param_entries entries) = Inr entries
    \<and> entries \<noteq> [] \<and> distinct (map sp_key entries)
    \<and> (\<forall>c\<in>set (render_storage_param_entries entries). plain c \<or> c \<in> set ''=, '')"
proof -
  from assms have parts: "parse_storage_parts [] (split_at (CHR '','') params) = Inr entries"
    by (auto simp: parse_storage_params_def split: if_splits)
  note ok = parse_parts_ok [OF this]
  then have "entries \<noteq> []" using split_at_not_Nil by force
  then obtain e es where es: "entries = e # es" by (cases entries) auto
  have "parse_storage_parts [] (render_entry e # map (\<lambda>e. CHR '' '' # render_entry e) es) = Inr entries"
    using ok parse_rendered_entry
    by (intro parse_parts_rendered) (auto simp: es list_all2_map1 list_all2_same list_all_iff)
  moreover have "trim (render_storage_param_entries entries) \<noteq> []"
    using rendered_edged [of e es] ok trim_edged by (auto simp: es edged_def)
  ultimately show ?thesis
    using ok split_rendered [of e es] rendered_chars [of entries]
    by (auto simp: es parse_storage_params_def)
qed

end
