(* ===== verification/Sql_Lex.thy ===== *)
theory Sql_Lex
  imports Sql_Emit
begin

text \<open>
  What the server reads. A lexer for the fragment of PostgreSQL's lexical syntax that the
  emitter produces (with \<open>standard_conforming_strings\<close> on): words, quoted identifiers,
  string and escape-string literals, line comments and symbols. A quoted identifier must not
  be empty and is cut to 63 bytes. Against it the quoting functions and whole statements are
  read back. (A statement with a NUL byte never reaches the server: the protocol cannot carry
  it.)
\<close>

section \<open>The lexer\<close>

datatype Token = Word string | Quoted string | Literal string | Sym char

text \<open>Text between quotes: a doubled quote is one quote character.\<close>

fun read_quoted :: "char \<Rightarrow> string \<Rightarrow> (string \<times> string) option" where
  "read_quoted q [] = None"
| "read_quoted q [c] = (if c = q then Some ([], []) else None)"
| "read_quoted q (c # d # r) =
     (if c = q
      then (if d = q then map_option (apfst ((#) q)) (read_quoted q r) else Some ([], d # r))
      else map_option (apfst ((#) c)) (read_quoted q (d # r)))"

text \<open>An escape string; of the backslash escapes only the two the emitter could need.\<close>

fun read_escaped :: "string \<Rightarrow> (string \<times> string) option" where
  "read_escaped [] = None"
| "read_escaped [c] = (if c = sq then Some ([], []) else None)"
| "read_escaped (c # d # r) =
     (if c = bs
      then (if d = bs \<or> d = sq then map_option (apfst ((#) d)) (read_escaped r) else None)
      else if c = sq
      then (if d = sq then map_option (apfst ((#) sq)) (read_escaped r) else Some ([], d # r))
      else map_option (apfst ((#) c)) (read_escaped (d # r)))"

text \<open>
  \<open>truncate_identifier\<close> of the server: what is longer than 63 bytes is cut there, or before the
  character that straddles the limit.
\<close>

fun char_cut :: "nat \<Rightarrow> string \<Rightarrow> nat" where
  "char_cut 0 s = 0"
| "char_cut (Suc n) s = (if byte (s ! Suc n) div 64 = 2 then char_cut n s else Suc n)"

definition clip :: "string \<Rightarrow> string" where
  "clip s = (if length s \<le> 63 then s else take (char_cut 63 s) s)"

lemma char_cut_le: "char_cut n s \<le> n"
  by (induction n) auto

lemma clip_same: "clip s = s \<longleftrightarrow> length s \<le> 63"
proof
  have "length (take (char_cut 63 s) s) \<le> 63" using char_cut_le [of 63 s] by simp
  then show "clip s = s \<Longrightarrow> length s \<le> 63" by (auto simp: clip_def split: if_splits)
qed (simp add: clip_def)

definition is_space :: "char \<Rightarrow> bool" where
  "is_space c \<longleftrightarrow> c = CHR '' '' \<or> c = CHR 0x0A \<or> c = CHR 0x0D \<or> c = CHR 0x09"

definition is_word_char :: "char \<Rightarrow> bool" where
  "is_word_char c \<longleftrightarrow> is_ascii_alphanumeric c \<or> c = CHR ''_'' \<or> byte c \<ge> 128"

lemma read_quoted_shorter: "read_quoted q s = Some (a, r) \<Longrightarrow> length r < length s"
  by (induction q s arbitrary: a r rule: read_quoted.induct) (fastforce split: if_splits)+

lemma read_escaped_shorter: "read_escaped s = Some (a, r) \<Longrightarrow> length r < length s"
  by (induction s arbitrary: a r rule: read_escaped.induct) (fastforce split: if_splits)+

function lex :: "string \<Rightarrow> Token list option" where
  "lex [] = Some []"
| "lex (c # r) =
     (if is_space c then lex r
      else if c = dq
      then (case read_quoted dq r of
              None \<Rightarrow> None
            | Some (a, r') \<Rightarrow> if a = [] then None else map_option ((#) (Quoted (clip a))) (lex r'))
      else if c = sq
      then (case read_quoted sq r of
              None \<Rightarrow> None | Some (a, r') \<Rightarrow> map_option ((#) (Literal a)) (lex r'))
      else if (c = CHR ''E'' \<or> c = CHR ''e'') \<and> r \<noteq> [] \<and> hd r = sq
      then (case read_escaped (tl r) of
              None \<Rightarrow> None | Some (a, r') \<Rightarrow> map_option ((#) (Literal a)) (lex r'))
      else if is_word_char c
      then map_option ((#) (Word (c # takeWhile is_word_char r))) (lex (dropWhile is_word_char r))
      else if c = CHR ''-'' \<and> r \<noteq> [] \<and> hd r = CHR ''-''
      then lex (dropWhile (\<lambda>d. d \<noteq> CHR 0x0A) r)
      else map_option ((#) (Sym c)) (lex r))"
  by pat_completeness auto
termination
proof (relation "measure length", goal_cases)
  case (5 c r p a r')
  then show ?case using read_escaped_shorter [of "tl r" a r'] by (cases r) auto
next
  case (6 c r)
  then show ?case by (simp add: length_dropWhile_le le_imp_less_Suc)
next
  case (7 c r)
  then show ?case by (simp add: length_dropWhile_le le_imp_less_Suc)
qed (auto dest: read_quoted_shorter)

declare lex.simps(2) [simp del]

section \<open>Quoted text\<close>

text \<open>The text that pushing every byte as a character produces.\<close>

definition pushed :: "string \<Rightarrow> string" where
  "pushed s = concat (map as_char s)"

lemma char_of_byte [simp]: "byte (char_of n) = n mod 256"
  by (simp add: byte_def)

lemma as_char_plain: "c \<in> set (as_char b) \<Longrightarrow> byte b < 128 \<and> c = b \<or> byte c \<ge> 128"
proof -
  have "byte b < 256" by (simp add: byte_def)
  then have "byte b div 64 < 4" by linarith
  then have "(192 + byte b div 64) mod 256 = 192 + byte b div 64"
    "(128 + byte b mod 64) mod 256 = 128 + byte b mod 64" by simp_all
  then show "c \<in> set (as_char b) \<Longrightarrow> byte b < 128 \<and> c = b \<or> byte c \<ge> 128"
    by (auto simp: as_char_def split: if_splits)
qed

lemma as_char_ascii: "byte b < 128 \<Longrightarrow> as_char b = [b]"
  by (simp add: as_char_def)

lemma as_char_same: "as_char b = [b] \<longleftrightarrow> byte b < 128"
  by (simp add: as_char_def)

lemma length_as_char: "length (as_char b) = (if byte b < 128 then 1 else 2)"
  by (simp add: as_char_def)

lemma pushed_Nil [simp]: "pushed [] = []"
  by (simp add: pushed_def)

lemma pushed_Cons [simp]: "pushed (b # s) = as_char b @ pushed s"
  by (simp add: pushed_def)

lemma length_pushed: "length s \<le> length (pushed s)"
  by (induction s) (auto simp: length_as_char)

lemma pushed_same: "pushed s = s \<longleftrightarrow> is_ascii s"
proof (induction s)
  case (Cons b s)
  show ?case
  proof (cases "byte b < 128")
    case True
    with Cons show ?thesis by (simp add: as_char_ascii is_ascii_def)
  next
    case False
    have "length (pushed (b # s)) > length (b # s)"
      using length_pushed [of s] False by (simp add: length_as_char)
    then have "pushed (b # s) \<noteq> b # s" by (metis nat_neq_iff)
    with False show ?thesis by (simp add: is_ascii_def)
  qed
qed (simp add: is_ascii_def)

lemma read_quoted_plain:
  assumes "\<forall>c\<in>set p. c \<noteq> q" "r \<noteq> []"
  shows "read_quoted q (p @ r) = map_option (apfst ((@) p)) (read_quoted q r)"
  using assms
proof (induction p)
  case Nil
  show ?case by (cases "read_quoted q r") auto
next
  case (Cons c p)
  obtain d s where "p @ r = d # s" using Cons.prems by (cases "p @ r") auto
  with Cons show ?case by (simp add: option.map_comp o_def apfst_compose)
qed

text \<open>
  The body of a quoted text with its quotes doubled reads back as the pushed body, whatever
  bytes it has; only the quote character itself must be ASCII.
\<close>

lemma read_quoted_body:
  assumes "byte q < 128" "rest = [] \<or> hd rest \<noteq> q"
  shows "read_quoted q (concat (map (\<lambda>b. if b = q then [q, q] else as_char b) s) @ q # rest)
    = Some (pushed s, rest)"
proof (induction s)
  case Nil
  show ?case using assms by (cases rest) auto
next
  case (Cons b s)
  show ?case
  proof (cases "b = q")
    case True
    with Cons assms show ?thesis by (simp add: as_char_ascii)
  next
    case False
    then have "\<forall>c\<in>set (as_char b). c \<noteq> q" using as_char_plain assms(1) by fastforce
    with Cons False show ?thesis by (simp add: read_quoted_plain)
  qed
qed

lemma read_escaped_body:
  assumes "rest = [] \<or> hd rest \<noteq> sq"
  shows "read_escaped (concat (map (\<lambda>ch. if ch = sq then [sq, sq] else if ch = bs then [bs, bs] else [ch]) s)
    @ sq # rest) = Some (s, rest)"
proof (induction s)
  case Nil
  show ?case using assms by (cases rest) auto
next
  case (Cons c s)
  let ?body = "concat (map (\<lambda>ch. if ch = sq then [sq, sq] else if ch = bs then [bs, bs] else [ch]) s) @ sq # rest"
  obtain d r where "?body = d # r" by (cases ?body) auto
  with Cons show ?case by auto
qed

section \<open>Reading whole fragments\<close>

definition pre :: "Token list \<Rightarrow> Token list option \<Rightarrow> Token list option" where
  "pre ts rest = map_option ((@) ts) rest"

lemma pre_pre [simp]: "pre ts (pre us rest) = pre (ts @ us) rest"
  by (cases rest) (simp_all add: pre_def)

lemma pre_Some [simp]: "pre ts (Some us) = Some (ts @ us)"
  by (simp add: pre_def)

lemma pre_Cons: "map_option ((#) t) rest = pre [t] rest"
  by (cases rest) (simp_all add: pre_def)

text \<open>A text that cannot continue a quoted one or a word.\<close>

definition ends_token :: "string \<Rightarrow> bool" where
  "ends_token rest \<longleftrightarrow> rest = [] \<or> hd rest \<noteq> dq \<and> hd rest \<noteq> sq \<and> \<not> is_word_char (hd rest)"

lemma lex_quote_ident:
  assumes "ends_token rest" "s \<noteq> []"
  shows "lex (quote_ident s @ rest) = pre [Quoted (clip (pushed s))] (lex rest)"
proof -
  have "read_quoted dq (concat (map (\<lambda>b. if b = dq then [dq, dq] else as_char b) s) @ dq # rest)
      = Some (pushed s, rest)"
    using assms by (intro read_quoted_body) (auto simp: byte_def ends_token_def)
  moreover have "pushed s \<noteq> []" using assms(2) length_pushed [of s] by auto
  ultimately show ?thesis by (simp add: quote_ident_def lex.simps is_space_def pre_Cons)
qed

lemma lex_string_literal:
  assumes "ends_token rest"
  shows "lex (quote_string_literal s @ rest) = pre [Literal (pushed s)] (lex rest)"
proof -
  have "read_quoted sq (concat (map (\<lambda>b. if b = sq then [sq, sq] else as_char b) s) @ sq # rest)
      = Some (pushed s, rest)"
    using assms by (intro read_quoted_body) (auto simp: byte_def ends_token_def)
  then show ?thesis by (simp add: quote_string_literal_def lex.simps is_space_def pre_Cons)
qed

lemma lex_comment_literal:
  assumes "ends_token rest"
  shows "lex (render_comment_literal s @ rest) = pre [Literal s] (lex rest)"
proof -
  have "rest = [] \<or> hd rest \<noteq> sq" using assms by (auto simp: ends_token_def)
  from read_escaped_body [OF this, of s]
  show ?thesis by (simp add: render_comment_literal_def lex.simps is_space_def pre_Cons)
qed

text \<open>The fixed fragments of the statements, each ending where a token ends.\<close>

lemma lex_fragments:
  "lex (''ALTER TABLE '' @ x) = pre [Word ''ALTER'', Word ''TABLE''] (lex x)"
  "lex ('' ADD CONSTRAINT '' @ x) = pre [Word ''ADD'', Word ''CONSTRAINT''] (lex x)"
  "lex ('' FOREIGN KEY ('' @ x) = pre [Word ''FOREIGN'', Word ''KEY'', Sym (CHR ''('')] (lex x)"
  "lex ('') REFERENCES '' @ x) = pre [Sym (CHR '')''), Word ''REFERENCES''] (lex x)"
  "lex ('' ('' @ x) = pre [Sym (CHR ''('')] (lex x)"
  "lex ('') ON DELETE '' @ x) = pre [Sym (CHR '')''), Word ''ON'', Word ''DELETE''] (lex x)"
  "lex ''RESTRICT;'' = Some [Word ''RESTRICT'', Sym (CHR '';'')]"
  by (simp_all add: lex.simps pre_Cons is_space_def is_word_char_def is_ascii_alphanumeric_def
      is_ascii_alpha_def is_ascii_digit_def byte_def)

end
