(* ===== verification/Sql_Props.thy ===== *)
theory Sql_Props
  imports Sql_Lex Diff_Schema Pk_Promote
begin

text \<open>
  What the emitted SQL means: quoted names and foreign keys read back, rollback SQL is the
  forward SQL of the inverse operation, a destructive operation without a warning is rebuilt
  by its rollback, emission fails or panics on exactly the stated inputs and never panics on
  what the differ produces, and storage parameters are inert text.
\<close>

section \<open>Quoting\<close>

text \<open>
  C7: followed by a text that ends the token, a non-empty text that goes through one of the
  three quoting functions is read as one token, whatever bytes it has, and the rest of the
  statement is untouched. A comment reads back exactly. A label reads back with each byte above
  127 turned into two, so exactly when it is ASCII; a name likewise, and then cut to the
  server's 63 bytes, so an ASCII name reads back exactly when it has at most 63.
\<close>

theorem quoting_reads_back:
  assumes "ends_token rest" "s \<noteq> []"
  shows "lex (quote_ident s @ rest) = pre [Quoted (clip (pushed s))] (lex rest)
    \<and> lex (quote_string_literal s @ rest) = pre [Literal (pushed s)] (lex rest)
    \<and> lex (render_comment_literal s @ rest) = pre [Literal s] (lex rest)
    \<and> (pushed s = s \<longleftrightarrow> is_ascii s)
    \<and> (clip (pushed s) = pushed s \<longleftrightarrow> length (pushed s) \<le> 63)"
  using assms by (simp add: lex_quote_ident lex_string_literal lex_comment_literal pushed_same clip_same)

section \<open>A foreign key reads back\<close>

definition read_on_delete :: "Token list \<Rightarrow> (OnDeleteSchema \<times> Token list) option" where
  "read_on_delete ts =
     (case ts of
        Word w # r \<Rightarrow>
          if w = ''RESTRICT'' then Some (Restrict, r)
          else if w = ''CASCADE'' then Some (Cascade, r)
          else (case r of
              Word v # r' \<Rightarrow>
                if w = ''SET'' \<and> v = ''NULL'' then Some (SetNull, r')
                else if w = ''SET'' \<and> v = ''DEFAULT'' then Some (OnDeleteSchema.SetDefault, r')
                else if w = ''NO'' \<and> v = ''ACTION'' then Some (NoAction, r')
                else None
            | _ \<Rightarrow> None)
      | _ \<Rightarrow> None)"

text \<open>Deferrable, and initially deferred.\<close>

definition read_deferral :: "Token list \<Rightarrow> (bool \<times> bool) option" where
  "read_deferral ts =
     (let stop = [Sym (CHR '';'')]; mark = [Word ''DEFERRABLE'', Word ''INITIALLY'']
      in if ts = stop then Some (False, False)
      else if ts = mark @ Word ''DEFERRED'' # stop then Some (True, True)
      else if ts = mark @ Word ''IMMEDIATE'' # stop then Some (True, False)
      else None)"

definition read_add_fk :: "Token list \<Rightarrow> (string \<times> string \<times> string \<times> ForeignKeySchema) option" where
  "read_add_fk ts =
     (case ts of
        a # b # Quoted t # c # d # Quoted n # e # f # g # Quoted col # h # i # Quoted rt # j # Quoted rc
          # k # l # m # tail \<Rightarrow>
          if [a, b, c, d, e, f, g, h, i, j, k, l, m] =
             [Word ''ALTER'', Word ''TABLE'', Word ''ADD'', Word ''CONSTRAINT'', Word ''FOREIGN'',
              Word ''KEY'', Sym (CHR ''(''), Sym (CHR '')''), Word ''REFERENCES'', Sym (CHR ''(''),
              Sym (CHR '')''), Word ''ON'', Word ''DELETE'']
          then (case read_on_delete tail of
                  None \<Rightarrow> None
                | Some (action, rest) \<Rightarrow>
                    map_option (\<lambda>(def, ini). (t, n, col,
                        \<lparr>fk_deferrable = def, fk_initially_deferred = ini, fk_on_delete = action,
                         fk_ref_column = rc, fk_ref_table = rt\<rparr>)) (read_deferral rest))
          else None
      | _ \<Rightarrow> None)"

lemma lex_fk_tail:
  "lex (on_delete_sql d @ render_deferrable_clause a b @ '';'')
    = Some ((case d of Restrict \<Rightarrow> [Word ''RESTRICT''] | Cascade \<Rightarrow> [Word ''CASCADE'']
             | SetNull \<Rightarrow> [Word ''SET'', Word ''NULL'']
             | OnDeleteSchema.SetDefault \<Rightarrow> [Word ''SET'', Word ''DEFAULT'']
             | NoAction \<Rightarrow> [Word ''NO'', Word ''ACTION''])
        @ (if a then [Word ''DEFERRABLE'', Word ''INITIALLY'',
             Word (if b then ''DEFERRED'' else ''IMMEDIATE'')] else []) @ [Sym (CHR '';'')])"
  by (induct d; induct a; induct b; code_simp)

lemma ends_token_fragments:
  "ends_token ('' ADD CONSTRAINT '' @ x)" "ends_token ('' FOREIGN KEY ('' @ x)"
  "ends_token ('') REFERENCES '' @ x)" "ends_token ('' ('' @ x)" "ends_token ('') ON DELETE '' @ x)"
  by (simp_all add: ends_token_def is_word_char_def is_ascii_alphanumeric_def is_ascii_alpha_def
      is_ascii_digit_def byte_def)

text \<open>
  an emitted foreign key reads back as the same constraint: the table,
  the derived constraint name, the column, the referenced table and column, the delete action
  and the deferrability (a key that is not deferrable cannot start deferred), every name as
  the server sees it.
\<close>

definition server_name :: "string \<Rightarrow> string" where "server_name s = clip (pushed s)"

theorem foreign_key_reads_back:
  assumes "table \<noteq> []" "column \<noteq> []" "fk_ref_table fk \<noteq> []" "fk_ref_column fk \<noteq> []"
  shows "Option.bind (lex (render_add_fk build table column fk)) read_add_fk
    = Some (server_name table, server_name (fk_constraint_name build table column), server_name column,
        fk\<lparr>fk_ref_table := server_name (fk_ref_table fk), fk_ref_column := server_name (fk_ref_column fk),
           fk_initially_deferred := fk_deferrable fk \<and> fk_initially_deferred fk\<rparr>)"
proof -
  have name: "fk_constraint_name build table column \<noteq> []"
    by (simp add: fk_constraint_name_def truncate_constraint_def)
  let ?stop = "(case fk_on_delete fk of Restrict \<Rightarrow> [Word ''RESTRICT''] | Cascade \<Rightarrow> [Word ''CASCADE'']
             | SetNull \<Rightarrow> [Word ''SET'', Word ''NULL'']
             | OnDeleteSchema.SetDefault \<Rightarrow> [Word ''SET'', Word ''DEFAULT'']
             | NoAction \<Rightarrow> [Word ''NO'', Word ''ACTION''])
        @ (if fk_deferrable fk then [Word ''DEFERRABLE'', Word ''INITIALLY'',
             Word (if fk_initially_deferred fk then ''DEFERRED'' else ''IMMEDIATE'')] else [])
        @ [Sym (CHR '';'')]"
  have "lex (render_add_fk build table column fk) = Some
     ([Word ''ALTER'', Word ''TABLE'', Quoted (server_name table), Word ''ADD'', Word ''CONSTRAINT'',
       Quoted (server_name (fk_constraint_name build table column)), Word ''FOREIGN'', Word ''KEY'',
       Sym (CHR ''(''), Quoted (server_name column), Sym (CHR '')''), Word ''REFERENCES'',
       Quoted (server_name (fk_ref_table fk)), Sym (CHR ''(''), Quoted (server_name (fk_ref_column fk)),
       Sym (CHR '')''), Word ''ON'', Word ''DELETE''] @ ?stop)"
    unfolding render_add_fk_def server_name_def
    by (simp only: lex_fragments lex_quote_ident assms name ends_token_fragments lex_fk_tail pre_pre pre_Some
        not_False_eq_True)
      (simp only: append_Cons append_Nil)
  then show ?thesis
    by (cases fk) (simp add: read_add_fk_def read_on_delete_def read_deferral_def
        split: OnDeleteSchema.split)
qed

section \<open>Rollback\<close>

text \<open>The operation that undoes another, where the operation itself says how.\<close>

fun inverse_change :: "ColumnChange \<Rightarrow> ColumnChange option" where
  "inverse_change (SetNullable b) = Some (SetNullable (\<not> b))"
| "inverse_change (ChangeType from to using_expr) =
     (if using_expr = None \<and> \<not> type_change_likely_requires_using from to
      then Some (ChangeType to from None) else None)"
| "inverse_change (SetCheck from to) =
     (if from = None \<and> to = None then None else Some (SetCheck to from))"
| "inverse_change (SetUnique b) = Some (SetUnique (\<not> b))"
| "inverse_change (SetIndexed b) = Some (SetIndexed (\<not> b))"
| "inverse_change (SetIdentity from to) =
     (if from = None \<and> to = None then None else Some (SetIdentity to from))"
| "inverse_change (SetComment from to) = Some (SetComment to from)"
| "inverse_change _ = None"

fun inverse_op :: "SchemaOperation \<Rightarrow> SchemaOperation option" where
  "inverse_op (RenameTable from to) = Some (RenameTable to from)"
| "inverse_op (RenameColumn table from to) = Some (RenameColumn table to from)"
| "inverse_op (AlterColumn table column change) =
     map_option (AlterColumn table column) (inverse_change change)"
| "inverse_op (AddForeignKey table column fk) = Some (DropForeignKey table column fk)"
| "inverse_op (DropForeignKey table column fk) = Some (AddForeignKey table column fk)"
| "inverse_op (AddIndex idx) = Some (DropIndex idx)"
| "inverse_op (DropIndex idx) = Some (AddIndex idx)"
| "inverse_op (AddExclusionConstraint table x) = Some (DropExclusionConstraint table (x_name x) x)"
| "inverse_op (DropExclusionConstraint table name x) =
     Some (AddExclusionConstraint table (x\<lparr>x_name := name\<rparr>))"
| "inverse_op (SetTableComment table from to) = Some (SetTableComment table to from)"
| "inverse_op (SetStorageParams table from to) = Some (SetStorageParams table to from)"
| "inverse_op (SetTablespace table from to) = Some (SetTablespace table to from)"
| "inverse_op _ = None"

lemma requires_using_sym:
  "type_change_likely_requires_using from to = type_change_likely_requires_using to from"
  unfolding type_change_likely_requires_using_def Let_def by argo

lemma inverse_change_parts:
  assumes "inverse_change change = Some undo"
    "alter_parts_of build table column change = Some (up, down, label, lossy)"
  shows "\<exists>label' lossy'. alter_parts_of build table column undo = Some (down, up, label', lossy')"
  using assms
  by (cases change)
    (auto simp: alter_check_def alter_unique_def alter_indexed_def alter_identity_def alter_type_def
      requires_using_sym Let_def split: if_splits option.splits)

lemma render_exclusion_body_name [simp]:
  "render_exclusion_body (x\<lparr>x_name := name\<rparr>) = render_exclusion_body x"
  by (simp add: render_exclusion_body_def)

text \<open>
  C3: for every operation that \<^const>\<open>inverse_op\<close> gives an inverse (table and column renames, changes
  of nullability, uniqueness, index flag, check, identity and comment, type changes that need no
  \<open>USING\<close>, foreign keys, indexes, exclusion constraints, table comments, storage parameters and
  tablespaces), the rollback SQL is the forward SQL of the inverse and the other way around, so
  applying and rolling back runs the two operations after one another. Left out are the
  operations whose two texts differ by comments (app renames and moves, generation clauses) and
  those with nothing to restore from.
\<close>

theorem rollback_inverts:
  assumes "inverse_op op = Some undo" "lower_operation build op = Some (Inr sql)"
  shows "\<exists>sql'. lower_operation build undo = Some (Inr sql')
    \<and> os_up sql' = os_down sql \<and> os_down sql' = os_up sql"
proof (cases op)
  case (AlterColumn table column change)
  with assms obtain c' where c': "inverse_change change = Some c'" "undo = AlterColumn table column c'"
    by auto
  from assms(2) AlterColumn obtain p where p: "alter_parts_of build table column change = Some p"
    "sql = \<lparr>os_label = ''AlterColumn '' @ table @ ''.'' @ column @ '' ('' @ fst (snd (snd p)) @ '')'',
       os_up = fst p, os_down = fst (snd p), os_lossy = snd (snd (snd p))\<rparr>"
    by (auto simp: emit_alter_column_sql_def)
  obtain up down label lossy where "p = (up, down, label, lossy)" by (cases p)
  with inverse_change_parts [OF c'(1)] p c'(2) show ?thesis
    by (fastforce simp: emit_alter_column_sql_def)
qed (use assms in \<open>auto simp: emit_rename_table_def emit_rename_column_def emit_add_foreign_key_def
    emit_drop_foreign_key_def emit_drop_index_def emit_add_index_def Let_def
    emit_add_exclusion_constraint_def emit_drop_exclusion_constraint_def emit_set_table_comment_def
    emit_set_storage_params_def emit_set_tablespace_def split: if_splits sum.splits\<close>)

text \<open>
  C8: A destructive operation whose lowering carries no lossy-rollback warning is
  undone by its rollback: the rollback is the forward SQL of a non-destructive operation, whose
  own rollback is the operation itself. So no drop slips through unwarned.
\<close>

theorem unwarned_drops_come_back:
  assumes "severity_of op = SevDestructive" "lower_operation build op = Some (Inr sql)"
    "os_lossy sql = None"
  shows "\<exists>undo sql'. inverse_op op = Some undo \<and> severity_of undo \<noteq> SevDestructive
    \<and> lower_operation build undo = Some (Inr sql')
    \<and> os_up sql' = os_down sql \<and> os_down sql' = os_up sql"
proof -
  have "(\<exists>t c fk. op = DropForeignKey t c fk) \<or> (\<exists>t n x. op = DropExclusionConstraint t n x)"
    using assms
    by (cases op) (auto simp: emit_drop_table_def emit_drop_column_def emit_drop_enum_def
        emit_drop_index_def split: if_splits)
  then show ?thesis
    using assms
    by (auto simp: emit_add_foreign_key_def emit_drop_foreign_key_def
        emit_add_exclusion_constraint_def emit_drop_exclusion_constraint_def)
qed

section \<open>When emission fails\<close>

text \<open>A unique index is a B-tree; the emitter panics on any other.\<close>

definition btree_unique :: "IndexSchema \<Rightarrow> bool" where
  "btree_unique i \<longleftrightarrow> (i_kind i = UniqueIndex \<longrightarrow> i_index_type i = BTree)"

text \<open>A change between two generation clauses with the same expression.\<close>

fun same_expression :: "ColumnChange \<Rightarrow> bool" where
  "same_expression (SetGenerated (Some prev) (Some nxt)) = (g_expression prev = g_expression nxt)"
| "same_expression _ = False"

fun lowerable :: "build \<Rightarrow> SchemaOperation \<Rightarrow> bool" where
  "lowerable build (AlterColumn _ _ change) =
     (change \<noteq> SetGenerated None None \<and> change \<noteq> SetIdentity None None
      \<and> \<not> (debug_assertions build \<and> same_expression change))"
| "lowerable build (AddIndex i) = btree_unique i"
| "lowerable build (DropIndex i) = btree_unique i"
| "lowerable build _ = True"

definition bad_storage :: "string \<Rightarrow> SqlEmitError option" where
  "bad_storage params =
     (case parse_storage_params params of
        Inl reason \<Rightarrow> Some (InvalidStorageParams params reason) | Inr _ \<Rightarrow> None)"

fun lowering_error :: "SchemaOperation \<Rightarrow> SqlEmitError option" where
  "lowering_error (Unsupported reason) = Some (SeUnsupported reason)"
| "lowering_error (PkTypeFlip table from to) = Some (PkTypeFlipMustRouteToT9 table from to)"
| "lowering_error (AddTable t) = Option.bind (t_storage_params t) bad_storage"
| "lowering_error (SetStorageParams table from to) =
     (case Option.bind from bad_storage of Some e \<Rightarrow> Some e | None \<Rightarrow> Option.bind to bad_storage)"
| "lowering_error _ = None"

lemma alter_parts_None:
  "alter_parts_of build table column change = None
    \<longleftrightarrow> change = SetGenerated None None \<or> change = SetIdentity None None
      \<or> debug_assertions build \<and> same_expression change"
  by (cases change rule: same_expression.cases)
    (auto simp: alter_generated_def alter_identity_def Let_def split: option.splits)

lemma emit_index_None:
  "emit_add_index idx = None \<longleftrightarrow> \<not> btree_unique idx" "emit_drop_index idx = None \<longleftrightarrow> \<not> btree_unique idx"
  by (auto simp: emit_add_index_def emit_drop_index_def btree_unique_def Let_def)

lemma lower_panics: "lower_operation build op = None \<longleftrightarrow> \<not> lowerable build op"
  by (cases op) (auto simp: emit_alter_column_sql_def alter_parts_None emit_index_None)

lemmas storage_defs = storage_change_def render_set_storage_params_def render_reset_storage_params_def
  parse_storage_params_for_sql_def bad_storage_def

lemma storage_error:
  "emit_set_storage_params table from to = Inl e
    \<longleftrightarrow> lowering_error (SetStorageParams table from to) = Some e"
  "emit_add_table build t = Inl e \<longleftrightarrow> lowering_error (AddTable t) = Some e"
  by (auto simp: emit_set_storage_params_def emit_add_table_def storage_defs Let_def
      split: option.splits sum.splits)

text \<open>
  Lowering one operation panics exactly on an empty generated or identity
  change, on a unique index that is not a B-tree and, with debug assertions, on a change between
  generation clauses of the same expression. It fails exactly on an unsupported
  change, on a primary-key flip that was not promoted to a group, and on storage parameters
  that do not parse, the old ones before the new ones.
\<close>

theorem lowering_outcome:
  "(lower_operation build op = None \<longleftrightarrow> \<not> lowerable build op)
    \<and> (\<forall>e. lower_operation build op = Some (Inl e) \<longleftrightarrow> lowering_error op = Some e)"
proof -
  have "lower_operation build op = Some (Inl e) \<longleftrightarrow> lowering_error op = Some e" for e
    by (cases op) (auto simp: storage_error simp del: lowering_error.simps(3,4))
  then show ?thesis by (simp add: lower_panics)
qed

lemma lower_each_None:
  "lower_each build ops = None \<longleftrightarrow>
    (\<exists>before op rest. ops = before @ op # rest \<and> \<not> lowerable build op \<and> (\<forall>o'\<in>set before. \<exists>sql. lower_operation build o' = Some (Inr sql)))"
proof (induction ops)
  case (Cons o' ops)
  have split: "(\<exists>before op rest. o' # ops = before @ op # rest \<and> P before op) \<longleftrightarrow>
      P [] o' \<or> (\<exists>before op rest. ops = before @ op # rest \<and> P (o' # before) op)" for P
    by (metis (no_types, lifting) append_Cons append_Nil list.inject neq_Nil_conv)
  show ?case
  proof (cases "\<exists>sql. lower_operation build o' = Some (Inr sql)")
    case True
    then have "lower_each build (o' # ops) = None \<longleftrightarrow> lower_each build ops = None" "lowerable build o'"
      using lower_panics [of build o'] by (auto split: option.splits sum.splits)
    then show ?thesis unfolding split Cons.IH using True by simp
  next
    case False
    then have "lower_each build (o' # ops) = None \<longleftrightarrow> \<not> lowerable build o'"
      using lower_panics [of build o'] by (auto split: option.splits sum.splits)
    then show ?thesis unfolding split using False by simp
  qed
qed simp

definition release_build :: "build \<Rightarrow> build" where
  "release_build build = build\<lparr>debug_assertions := False\<rparr>"

lemma release_asserts [simp]: "\<not> debug_assertions (release_build build)"
  by (simp add: release_build_def)

fun keeps_expression :: "SchemaOperation \<Rightarrow> bool" where
  "keeps_expression (AlterColumn _ _ change) = same_expression change"
| "keeps_expression _ = False"

lemma lowerable_release:
  "lowerable build op \<longleftrightarrow> lowerable (release_build build) op \<and> \<not> (debug_assertions build \<and> keeps_expression op)"
  by (cases op) auto

lemma classify_NoOp: "classify ops = NoOp \<longleftrightarrow> ops = []"
  by (auto simp: classify_def severity_class_def split: option.split Severity.split)

lemma column_changes_lowerable:
  "ch \<in> set (column_changes b a) \<Longrightarrow> ch \<noteq> SetGenerated None None \<and> ch \<noteq> SetIdentity None None"
  by (auto simp: column_changes_def check_transition_def Let_def split: if_splits option.splits)

lemma list_all_concat_map: "list_all P (concat (map f xs)) \<longleftrightarrow> (\<forall>x\<in>set xs. list_all P (f x))"
  by (induction xs) auto

lemmas list_all_rules = list_all_append list_all_concat_map list.pred_map list.pred_True comp_def split_beta

lemma emit_alter_lowerable: "list_all (lowerable (release_build build)) (emit_alter_column p b a)"
  using column_changes_lowerable [of _ b a]
  by (auto simp: emit_alter_column_def foreign_key_changes_def list_all_rules list_all_iff
      split: option.splits if_splits)

lemma diff_columns_lowerable: "list_all (lowerable (release_build build)) (fst (diff_columns_in_table b a))"
  unfolding diff_columns_in_table_def Let_def fst_conv
  by (simp add: list_all_rules emit_alter_lowerable split: option.split)

lemma diff_exclusions_lowerable: "list_all (lowerable (release_build build)) (diff_exclusion_constraints_in_table b a)"
  unfolding diff_exclusion_constraints_in_table_def Let_def
  by (simp add: list_all_rules split: option.split)

lemma diff_table_pair_lowerable: "list_all (lowerable (release_build build)) (diff_table_pair b a m)"
proof -
  have "list_all (lowerable (release_build build)) (diff_pk_in_table b a renames)" for renames
    unfolding diff_pk_in_table_def Let_def by (simp del: append_Cons)
  moreover have "list_all (lowerable (release_build build)) (diff_app_move_in_table b a)"
    "list_all (lowerable (release_build build)) (diff_table_metadata_in_table b a)"
    by (simp_all add: diff_app_move_in_table_def diff_table_metadata_in_table_def)
  ultimately show ?thesis
    using diff_columns_lowerable diff_exclusions_lowerable
    by (simp add: diff_table_pair_def list_all_rules)
qed

lemma idx_by_name_in: "(n, i) \<in> set (idx_by_name xs) \<Longrightarrow> i \<in> set xs"
  unfolding idx_by_name_def by (drule bt_collect_entry) auto

lemma idx_by_name_get: "bt_get (idx_by_name xs) n = Some i \<Longrightarrow> i \<in> set xs"
  by (metis bt_get_map_of idx_by_name_in map_of_SomeD)

lemma diff_indexes_lowerable:
  assumes "\<forall>i\<in>set (s_indexes b) \<union> set (s_indexes a). btree_unique i"
  shows "list_all (lowerable (release_build build)) (diff_indexes b a T)"
proof -
  have "btree_unique (snd x)" if "x \<in> set (idx_by_name (s_indexes s))" "s = b \<or> s = a" for x s
    using that assms idx_by_name_in [of "fst x" "snd x" "s_indexes s"] by auto
  moreover have "btree_unique i" if "bt_get (idx_by_name (s_indexes b)) n = Some i" for n i
    using that assms idx_by_name_get by auto
  ultimately show ?thesis
    unfolding diff_indexes_def Let_def by (simp add: list_all_rules split: option.split)
qed

text \<open>
  C20: as long as both schemas' unique indexes are B-trees, what the differ produces panics the
  emitter only in a build with debug assertions, and there exactly when a column's generation
  clause changes while its expression does not, and everything before that lowers: the emitter
  asserts that the expressions differ, but the differ compares the \<open>stored\<close> flag too. In a
  release_build build the operations always lower to SQL or to a reported error.
\<close>

theorem differ_never_panics_emitter:
  assumes "\<forall>i\<in>set (s_indexes b) \<union> set (s_indexes a). btree_unique i"
  shows "lower_delta build (diff_schemas b a k) = None \<longleftrightarrow> debug_assertions build
    \<and> (\<exists>before op rest. d_operations (diff_schemas b a k) = before @ op # rest \<and> keeps_expression op
        \<and> (\<forall>o'\<in>set before. \<exists>sql. lower_operation build o' = Some (Inr sql)))"
proof -
  have "list_all (lowerable (release_build build)) (diff_tables b a T ds)" for T ds
    unfolding diff_tables_def
    by (simp add: list_all_rules diff_table_pair_lowerable split: option.split)
  moreover have "list_all (lowerable (release_build build)) (diff_enums b a)"
    unfolding diff_enums_def added_variants_def removed_variants_def
    by (simp add: list_all_rules del: append_Cons split: option.split)
  ultimately have "list_all (lowerable (release_build build)) (d_operations (diff_schemas b a k))"
    using diff_indexes_lowerable [OF assms] by (simp add: diff_schemas_def Let_def)
  then have lowerable: "\<not> lowerable build op \<longleftrightarrow> debug_assertions build \<and> keeps_expression op"
    if "op \<in> set (d_operations (diff_schemas b a k))" for op
    using that by (auto simp: lowerable_release [of build op] list_all_iff)
  have "d_classification (diff_schemas b a k) = NoOp \<Longrightarrow> d_operations (diff_schemas b a k) = []"
    unfolding diff_schemas_classified by (simp add: classify_NoOp)
  then have "lower_delta build (diff_schemas b a k) = None
      \<longleftrightarrow> lower_each build (d_operations (diff_schemas b a k)) = None"
    by (auto simp: lower_delta_def)
  also have "\<dots> \<longleftrightarrow> debug_assertions build
    \<and> (\<exists>before op rest. d_operations (diff_schemas b a k) = before @ op # rest \<and> keeps_expression op
        \<and> (\<forall>o'\<in>set before. \<exists>sql. lower_operation build o' = Some (Inr sql)))"
    unfolding lower_each_None using lowerable by (metis in_set_conv_decomp)
  finally show ?thesis .
qed

section \<open>Constraint names\<close>

lemma length_pushed_eq: "length (pushed s) = length s + length (filter (\<lambda>c. 128 \<le> byte c) s)"
  by (induction s) (auto simp: length_as_char)

lemma length_truncate_constraint:
  "length (truncate_constraint build name)
    = (if length name \<le> 63 then length name
       else 63 + length (filter (\<lambda>c. 128 \<le> byte c) (take 46 name)))"
  using length_pushed_eq [of "take 46 name"]
  by (simp add: truncate_constraint_def pushed_def hex16_def)

definition overlong :: "string \<Rightarrow> bool" where
  "overlong name \<longleftrightarrow> length name > 63 \<and> \<not> is_ascii (take 46 name)"

lemma truncate_overlong: "63 < length (truncate_constraint build name) \<longleftrightarrow> overlong name"
  by (auto simp: length_truncate_constraint overlong_def is_ascii_def filter_empty_conv not_le)

lemma index_name_truncate:
  "index_name build table kind target =
     truncate_constraint build
       (table @ ''_'' @ (case target of NameColumns cols \<Rightarrow> join_str ''_'' cols | NameExpression \<Rightarrow> ''expr'')
        @ ''_'' @ (case kind of NameNonUnique \<Rightarrow> ''idx'' | NameUniqueConstraint \<Rightarrow> ''key''
                   | NameUniqueIndex \<Rightarrow> ''uidx''))"
  by (simp add: index_name_def truncate_constraint_def Let_def)

text \<open>
  A derived constraint or index name is longer than the server's limit of 63
  bytes exactly when the untruncated name is too long and has a byte above 127 among its first
  46: each such byte is written as two, so the truncated name overshoots and the server cuts
  the hash that was to keep it apart from others.
\<close>

lemma derived_names_fit:
  "(63 < length (fk_constraint_name build table column) \<longleftrightarrow> overlong (table @ ''_'' @ column @ ''_fkey''))
    \<and> (63 < length (check_constraint_name build table column)
        \<longleftrightarrow> overlong (table @ ''_'' @ column @ ''_check''))
    \<and> (63 < length (unique_constraint_name build table column)
        \<longleftrightarrow> overlong (table @ ''_'' @ column @ ''_key''))
    \<and> (63 < length (index_name build table NameNonUnique (NameColumns [column]))
        \<longleftrightarrow> overlong (table @ ''_'' @ column @ ''_idx''))"
  unfolding index_name_truncate fk_constraint_name_def check_constraint_name_def
    unique_constraint_name_def truncate_overlong by simp

text \<open>
  A promoted primary-key flip records its children's foreign keys under the
  untruncated name; for ASCII names it is the name the emitter gave the constraint exactly when
  it fits in 63 bytes. So the cutover of a flip drops a constraint that does not exist as soon
  as a name is longer.
\<close>

theorem flip_names_untruncated:
  assumes "is_ascii other" "is_ascii (c_name col)"
  shows "ch_fk_constraint_name (flip_child family other col fk cyclic)
      = fk_constraint_name build other (c_name col)
    \<longleftrightarrow> length other + length (c_name col) \<le> 57"
proof -
  let ?n = "other @ ''_'' @ c_name col @ ''_fkey''"
  have app: "is_ascii (x @ y) \<longleftrightarrow> is_ascii x \<and> is_ascii y" for x y by (auto simp: is_ascii_def)
  have "is_ascii ''_''" "is_ascii ''_fkey''" by code_simp+
  with assms have "is_ascii ?n" by (simp only: app)
  then have "\<not> overlong ?n" unfolding overlong_def is_ascii_def by (meson in_set_takeD)
  then have "length (truncate_constraint build ?n) \<le> 63" using truncate_overlong not_le by blast
  moreover have "truncate_constraint build ?n = ?n" if "length ?n \<le> 63"
    using that by (simp add: truncate_constraint_def)
  moreover have "length ?n = length other + length (c_name col) + 6" by simp
  ultimately have "?n = truncate_constraint build ?n \<longleftrightarrow> length ?n \<le> 63" by metis
  then show ?thesis by (simp add: flip_child_def fk_name_def fk_constraint_name_def)
qed

end
