(* ===== verification/Witnesses.thy ===== *)
theory Witnesses
  imports Ddl_Spec Keyed_Diff Diff_Schema Toposort Segment Volatility Online_Class Live_Plan
    Live_State Pk_Cluster Pk_Promote Diff_Silent Storage_Params Sql_Props
begin

text \<open>
  Concrete schemas, plans and rows, and for every property that has a hypothesis a closed
  instance of it: the hypotheses hold there, and the property is applied to that input.
\<close>

section \<open>Sample values\<close>

definition plain_column :: "string \<Rightarrow> string \<Rightarrow> ColumnSchema" where
  "plain_column name ty =
     \<lparr>c_check = None, c_codec = None, c_comment = None, c_default_sql = None,
      c_foreign_key = None, c_generated = None, c_identity = None, c_index_type = None,
      c_indexed = False, c_max_length = None, c_name = name, c_nullable = True,
      c_on_delete = None, c_outbox_exclude = False, c_rationale = None,
      c_relation_kind = None, c_renamed_from = None, c_sequence_within = None,
      c_sql_type = ty, c_unique = False, c_type_change_using = None\<rparr>"

definition fk_to :: "string \<Rightarrow> ForeignKeySchema" where
  "fk_to t = \<lparr>fk_deferrable = False, fk_initially_deferred = False, fk_on_delete = Cascade,
     fk_ref_column = ''id'', fk_ref_table = t\<rparr>"

definition fk_column :: "string \<Rightarrow> string \<Rightarrow> ColumnSchema" where
  "fk_column name t = (plain_column name ''bigint'')\<lparr>c_foreign_key := Some (fk_to t)\<rparr>"

definition plain_table :: "string \<Rightarrow> ColumnSchema list \<Rightarrow> TableSchema" where
  "plain_table name cols =
     \<lparr>t_app = None, t_columns = cols, t_exclusion_constraints = [], t_fts = None,
      t_is_through = False, t_moved_from_app = None, t_partition = None,
      t_primary_key = \<lparr>pk_columns = [''id''], pk_kind = HeerId\<rparr>, t_rationale = None,
      t_renamed_from = None, t_rls_enabled = False, t_storage_params = None, t_table = name,
      t_table_comment = None, t_tablespace = None, t_tenant_key = None\<rparr>"

definition plain_schema :: "TableSchema list \<Rightarrow> AppliedSchema" where
  "plain_schema ts = empty_schema\<lparr>s_models := bt_collect (map (\<lambda>t. (t_table t, t)) ts)\<rparr>"

definition plain_index :: "string \<Rightarrow> string \<Rightarrow> string \<Rightarrow> IndexSchema" where
  "plain_index name t c =
     \<lparr>i_extension_dependency = None, i_include = [], i_index_type = BTree, i_kind = NonUnique,
      i_name = name, i_nulls_not_distinct = False, i_predicate = None,
      i_requires_out_of_transaction = False, i_table = t,
      i_target = Columns [\<lparr>ic_name = c, ic_nulls = NullsDefault, ic_opclass = None, ic_order = Asc\<rparr>]\<rparr>"

text \<open>A bucket of the \<open>main\<close> database.\<close>

abbreviation bucket :: "string \<Rightarrow> BucketKey" where
  "bucket a \<equiv> BucketKey ''main'' a"

section \<open>The differ\<close>

definition users_before :: TableSchema where
  "users_before = plain_table ''users''
     [plain_column ''id'' ''bigint'', plain_column ''mail'' ''text'', plain_column ''age'' ''smallint'']"

definition users_after :: TableSchema where
  "users_after = plain_table ''users''
     [plain_column ''id'' ''bigint'',
      (plain_column ''email'' ''text'')\<lparr>c_renamed_from := Some ''mail'', c_unique := True\<rparr>,
      plain_column ''age'' ''integer'', fk_column ''org'' ''orgs'']"

theorem column_ops_reach_models_witness:
  "\<exists>m. run ddl_step (fst (diff_columns_in_table users_before users_after))
      (bt_get (cols_by_name (t_columns users_before))) = Some m
    \<and> (\<forall>n. map_option ddl_view (m n)
            = map_option (expected_ddl (old_column users_before users_after n))
                (bt_get (cols_by_name (t_columns users_after)) n))"
  by (rule column_ops_reach_models) code_simp+

theorem harmless_delta_keeps_data_witness:
  "bt_has (cols_by_name (t_columns users_after)) ''mail''
    \<or> bt_has (snd (diff_columns_in_table users_before users_after)) ''mail''"
proof -
  have c: "d_classification (diff_schemas (plain_schema [users_before])
      (plain_schema [users_after]) (bucket ''a'')) \<in> {NoOp, Additive, Reversible}"
  proof -
    have "d_classification (diff_schemas (plain_schema [users_before])
      (plain_schema [users_after]) (bucket ''a'')) = Reversible" by code_simp
    then show ?thesis by simp
  qed
  have ok: "schema_ok (plain_schema [users_after])" by code_simp
  have b: "bt_get (s_models (plain_schema [users_before])) ''users'' = Some users_before"
    by code_simp
  have a: "bt_get (s_models (plain_schema [users_after])) ''users'' = Some users_after"
    by code_simp
  have m: "bt_has (cols_by_name (t_columns users_before)) ''mail''"
    by code_simp
  have "surviving_name (plain_schema [users_before]) (plain_schema [users_after]) ''users'' = Some ''users''"
    by code_simp
  with harmless_delta_keeps_data [OF c ok b] a m show ?thesis by auto
qed

theorem enum_additions_result_witness:
  "run add_value (added_variants ''mood'' [''b''] [''a'', ''b'', ''c'', ''d'']) [''b'']
    = Some ([''a'', ''b''] @ rev [''c'', ''d''])"
  by (rule enum_additions_result) code_simp+

theorem toposort_creates_witness:
  "\<exists>out fups. toposort_add_tables
      [plain_table ''b'' [fk_column ''a_id'' ''a''], plain_table ''a'' [fk_column ''b_id'' ''b'']]
      = Some (out, fups)
    \<and> run create_step (map AddTable out @ fups) {''old''} = Some {''old'', ''a'', ''b''}"
proof -
  let ?ts = "[plain_table ''b'' [fk_column ''a_id'' ''a''], plain_table ''a'' [fk_column ''b_id'' ''b'']]"
  have "\<exists>out fups. toposort_add_tables ?ts = Some (out, fups)
      \<and> run create_step (map AddTable out @ fups) {''old''} = Some ({''old''} \<union> t_table ` set ?ts)"
    by (rule toposort_creates)
      (auto simp: plain_table_def fk_column_def plain_column_def inline_fks_def fk_to_def
        List.map_filter_simps)
  then show ?thesis by (simp add: plain_table_def insert_commute)
qed

theorem toposort_keeps_fks_witness:
  "case toposort_add_tables
      [plain_table ''b'' [fk_column ''a_id'' ''a''], plain_table ''a'' [fk_column ''b_id'' ''b'']] of
     Some (out, fups) \<Rightarrow>
       mset (concat (map inline_fks out)) + mset (List.map_filter fk_of_op fups)
         = mset [(''b'', ''a_id'', fk_to ''a''), (''a'', ''b_id'', fk_to ''b'')]
   | None \<Rightarrow> False"
proof -
  let ?ts = "[plain_table ''b'' [fk_column ''a_id'' ''a''], plain_table ''a'' [fk_column ''b_id'' ''b'']]"
  obtain out fups where t: "toposort_add_tables ?ts = Some (out, fups)"
    using toposort_parts by blast
  have "distinct (map t_table ?ts)" by (simp add: plain_table_def)
  from toposort_keeps_fks [OF this t] t show ?thesis
    by (simp add: plain_table_def fk_column_def plain_column_def inline_fks_def List.map_filter_simps)
qed

theorem toposort_follow_ups_cyclic_witness:
  "\<not> acyclic {(n, m). m \<in> needs (batch_by_name
      [plain_table ''b'' [fk_column ''a_id'' ''a''], plain_table ''a'' [fk_column ''b_id'' ''b'']]) n}"
proof -
  let ?ts = "[plain_table ''b'' [fk_column ''a_id'' ''a''], plain_table ''a'' [fk_column ''b_id'' ''b'']]"
  obtain out fups where t: "toposort_add_tables ?ts = Some (out, fups)"
    using toposort_parts by blast
  have "map_option (\<lambda>(out, fups). fups = []) (toposort_add_tables ?ts) = Some False"
    by code_simp
  with t have "fups \<noteq> []" by simp
  with toposort_follow_ups_cyclic [OF t] show ?thesis by simp
qed

section \<open>The planner\<close>

definition concurrent_index :: IndexSchema where
  "concurrent_index = (plain_index ''ix'' ''users'' ''mail'')\<lparr>i_requires_out_of_transaction := True\<rparr>"

definition sql_of :: "string \<Rightarrow> OperationSql" where
  "sql_of s = \<lparr>os_label = s, os_up = s, os_down = s, os_lossy = None\<rparr>"

text \<open>Concrete functions for the parameters of the planner.\<close>

abbreviation sample_build :: build where
  "sample_build \<equiv> \<lparr>default_hasher = \<lambda>s. of_nat (length s), debug_assertions = False\<rparr>"

definition sample_delta :: "SchemaOperation list \<Rightarrow> SchemaDelta" where
  "sample_delta ops =
     \<lparr>d_bucket = bucket ''a'', d_operations = ops, d_classification = classify ops\<rparr>"

theorem planner_swaps_fk_replacement_witness:
  "\<exists>out. order_operations [DropForeignKey ''t'' ''c'' (fk_to ''a''), AddForeignKey ''t'' ''c'' (fk_to ''b'')] = Some out
    \<and> DropForeignKey ''t'' ''c'' (fk_to ''a'') \<in> set out"
  using planner_swaps_fk_replacement [of "''t''" "''c''" "fk_to ''b''"
      "[DropForeignKey ''t'' ''c'' (fk_to ''a''), AddForeignKey ''t'' ''c'' (fk_to ''b'')]" "fk_to ''a''"]
  by auto

theorem plan_ordinary_delta_witness:
  "\<exists>plan add drop. plan_delta sample_build
        (sample_delta [DropTable ''t'', AddIndex concurrent_index]) = Some (Inr plan)
    \<and> well_cut (mp_segments plan)
    \<and> tagged_statements (mp_segments plan) = [(NonTransactional, add), (Transactional, drop)]
    \<and> os_label add = ''AddIndex ix'' \<and> os_label drop = ''DropTable t''"
proof -
  let ?d = "sample_delta [DropTable ''t'', AddIndex concurrent_index]"
  have n: "d_classification ?d \<noteq> NoOp" by code_simp
  have f: "flip_segments (d_operations ?d) = Some (Inr [])" by code_simp
  have o: "order_operations (d_operations ?d) = Some [AddIndex concurrent_index, DropTable ''t'']"
    by code_simp
  obtain add where a: "lower_operation sample_build (AddIndex concurrent_index) = Some (Inr add)"
    "os_label add = ''AddIndex ix''"
    by (simp add: emit_add_index_def concurrent_index_def plain_index_def Let_def)
  obtain drop where d: "lower_operation sample_build (DropTable ''t'') = Some (Inr drop)"
    "os_label drop = ''DropTable t''" "drop = emit_drop_table ''t''"
    by (simp add: emit_drop_table_def)
  have k: "classify_operation (AddIndex concurrent_index) = NonTransactional"
    "classify_operation (DropTable ''t'') = Transactional" by code_simp+
  have h: "helper_operations [add, drop] = []"
  proof -
    have "case lower_operation sample_build (AddIndex concurrent_index) of
        Some (Inr x) \<Rightarrow> helper_operations [x, emit_drop_table ''t''] = [] | _ \<Rightarrow> False" by code_simp
    with a d(3) show ?thesis by simp
  qed
  have "map (lower_operation sample_build) [AddIndex concurrent_index, DropTable ''t'']
      = map (Some \<circ> Inr) [add, drop]" using a d by simp
  with plan_ordinary_delta [OF n f, of sample_build] o
  obtain plan where "plan_delta sample_build ?d = Some (Inr plan)"
    "well_cut (mp_segments plan)"
    "tagged_statements (mp_segments plan) = map (Pair Transactional) (helper_operations [add, drop])
       @ zip (map classify_operation [AddIndex concurrent_index, DropTable ''t'']) [add, drop]"
    by (metis option.inject)
  with h k a d show ?thesis by (auto simp del: classify_operation.simps)
qed

definition sample_join :: "string \<Rightarrow> string \<Rightarrow> PkFlipJoinTable" where
  "sample_join t partner =
     \<lparr>jt_table = t, jt_fk_to_parent_column = ''p'', jt_fk_to_parent_constraint = ''pc'',
      jt_fk_to_parent_deferrable = False, jt_fk_to_parent_initially_deferred = False,
      jt_fk_to_partner_column = Some ''q'', jt_fk_to_partner_constraint = Some ''qc'',
      jt_fk_to_partner_table = Some partner, jt_fk_to_partner_deferrable = False,
      jt_fk_to_partner_initially_deferred = False, jt_family = Heer\<rparr>"

definition sample_group :: "string \<Rightarrow> PkFlipJoinTable list \<Rightarrow> PkTypeFlipGroup" where
  "sample_group t jts =
     \<lparr>pg_parent_table = t, pg_parent_from = HeerId, pg_parent_to = HeerIdRecencyBiased,
      pg_direction = AscToDesc, pg_children = [], pg_self_fk = None, pg_join_tables = jts,
      pg_cycles = [], pg_partitioned_parent = None, pg_co_destructive = False,
      pg_co_lossy = False, pg_join_table_option = OptionA\<rparr>"

theorem plan_flip_ignores_rest_witness:
  "plan_delta sample_build
      (sample_delta [DropTable ''t'', PkTypeFlipGroup (sample_group ''users'' [])])
    = Some (Inr \<lparr>mp_bucket = bucket ''a'', mp_classification = ClsPkTypeFlip True False,
        mp_segments = build_segments_standard (sample_group ''users'' [])\<rparr>)"
proof -
  let ?g = "sample_group ''users'' []"
  let ?d = "sample_delta [DropTable ''t'', PkTypeFlipGroup ?g]"
  have n: "d_classification ?d \<noteq> NoOp" by code_simp
  have "build_segments ?g = Some (Inr (build_segments_standard ?g))"
    by (simp add: build_segments_def validate_group_def targets_known_def sample_group_def)
  then have f: "flip_segments (d_operations ?d) = Some (Inr (build_segments_standard ?g))"
    by (simp add: sample_delta_def)
  have s: "build_segments_standard ?g \<noteq> []" by (simp add: build_segments_standard_def)
  have c: "d_bucket ?d = bucket ''a''" "d_classification ?d = ClsPkTypeFlip True False"
    by code_simp+
  from plan_flip_ignores_rest [OF n f s, of sample_build] show ?thesis by (simp only: c)
qed

section \<open>Emitted SQL\<close>

theorem quoting_reads_back_witness:
  "lex (quote_ident [CHR 0x78, dq, CHR 0x3B] @ ''; DROP'')
    = Some [Quoted [CHR 0x78, dq, CHR 0x3B], Sym (CHR '';''), Word ''DROP'']"
proof -
  have e: "ends_token ''; DROP''" "[CHR 0x78, dq, CHR 0x3B] \<noteq> []" by code_simp+
  have "lex ''; DROP'' = Some [Sym (CHR '';''), Word ''DROP'']" by code_simp
  moreover have "clip (pushed [CHR 0x78, dq, CHR 0x3B]) = [CHR 0x78, dq, CHR 0x3B]" by code_simp
  ultimately show ?thesis using quoting_reads_back [OF e] by simp
qed

theorem rollback_inverts_witness:
  "\<exists>sql'. lower_operation sample_build (RenameTable ''b'' ''a'') = Some (Inr sql')
    \<and> os_up sql' = os_down (emit_rename_table ''a'' ''b'')
    \<and> os_down sql' = os_up (emit_rename_table ''a'' ''b'')"
  by (rule rollback_inverts [of "RenameTable ''a'' ''b''"]) simp_all

theorem unwarned_drops_come_back_witness:
  "\<exists>undo sql'. inverse_op (DropForeignKey ''t'' ''c'' (fk_to ''a'')) = Some undo
    \<and> severity_of undo \<noteq> SevDestructive
    \<and> lower_operation sample_build undo = Some (Inr sql')
    \<and> os_up sql' = os_down (emit_drop_foreign_key sample_build ''t'' ''c'' (fk_to ''a''))
    \<and> os_down sql' = os_up (emit_drop_foreign_key sample_build ''t'' ''c'' (fk_to ''a''))"
  by (rule unwarned_drops_come_back) (simp_all add: emit_drop_foreign_key_def)

text \<open>A generated column that is no longer stored.\<close>

definition total_table :: "bool \<Rightarrow> TableSchema" where
  "total_table stored = plain_table ''t''
     [(plain_column ''total'' ''integer'')\<lparr>c_generated := Some \<lparr>g_expression = ''a + b'', g_stored = stored\<rparr>\<rparr>]"

theorem differ_never_panics_emitter_witness:
  "lower_delta sample_build (diff_schemas (plain_schema [total_table True]) (plain_schema [total_table False]) (bucket ''a'')) \<noteq> None
    \<and> lower_delta (sample_build\<lparr>debug_assertions := True\<rparr>)
        (diff_schemas (plain_schema [total_table True]) (plain_schema [total_table False]) (bucket ''a'')) = None"
proof -
  let ?b = "plain_schema [total_table True]" and ?a = "plain_schema [total_table False]"
  have trees: "\<forall>i\<in>set (s_indexes ?b) \<union> set (s_indexes ?a). btree_unique i"
    by (simp add: plain_schema_def empty_schema_def)
  have ops: "d_operations (diff_schemas ?b ?a (bucket ''a'')) = [] @ AlterColumn ''t'' ''total''
      (SetGenerated (Some \<lparr>g_expression = ''a + b'', g_stored = True\<rparr>) (Some \<lparr>g_expression = ''a + b'', g_stored = False\<rparr>)) # []"
    by code_simp
  show ?thesis
    unfolding differ_never_panics_emitter [OF trees]
    using ops by (intro conjI exI [of _ "[]"] exI) (auto simp del: append_Nil)
qed

theorem storage_params_round_trip_witness:
  "parse_storage_params ''fillfactor=70, autovacuum_enabled=false''
    = Inr [\<lparr>sp_key = ''fillfactor'', sp_value = ''70''\<rparr>, \<lparr>sp_key = ''autovacuum_enabled'', sp_value = ''false''\<rparr>]"
proof -
  let ?es = "[\<lparr>sp_key = ''fillfactor'', sp_value = ''70''\<rparr>, \<lparr>sp_key = ''autovacuum_enabled'', sp_value = ''false''\<rparr>]"
  have "parse_storage_params '' FILLFACTOR = 70,autovacuum_enabled=false'' = Inr ?es" by code_simp
  from storage_params_round_trip [OF this]
  have "parse_storage_params (render_storage_param_entries ?es) = Inr ?es" by blast
  moreover have "render_storage_param_entries ?es = ''fillfactor=70, autovacuum_enabled=false''"
    by code_simp
  ultimately show ?thesis by simp
qed

theorem flip_names_untruncated_witness:
  "ch_fk_constraint_name (flip_child Heer (replicate 60 (CHR ''t'')) (fk_column ''owner'' ''users'')
      (fk_to ''users'') False)
    \<noteq> fk_constraint_name sample_build (replicate 60 (CHR ''t'')) ''owner''"
proof -
  have t: "is_ascii (replicate 60 (CHR ''t''))" by code_simp
  have c: "is_ascii (c_name (fk_column ''owner'' ''users''))" by code_simp
  from flip_names_untruncated [OF t c, of Heer "fk_to ''users''" False sample_build]
  show ?thesis by (simp add: fk_column_def plain_column_def)
qed

theorem reshaping_is_silent_witness:
  "d_classification (diff_schemas (plain_schema [users_before])
      (reshape (\<lambda>_. Some (HashPartition ''id'' 4)) (\<lambda>_. True) (\<lambda>_. None) (\<lambda>_. None)
        (plain_schema [users_before])) (bucket ''a'')) = NoOp"
proof -
  have "schema_ok (plain_schema [users_before])" by code_simp
  moreover have "no_pending_renames (plain_schema [users_before])" by code_simp
  ultimately show ?thesis by (simp add: reshaping_is_silent)
qed

section \<open>Primary-key flips\<close>

text \<open>A chain: \<open>a\<close> and \<open>b\<close> share \<open>ab\<close>, \<open>b\<close> and \<open>c\<close> share \<open>bc\<close>.\<close>

definition chain_groups :: "SchemaOperation list" where
  "chain_groups =
     [PkTypeFlipGroup (sample_group ''c'' [sample_join ''bc'' ''b'']),
      PkTypeFlipGroup (sample_group ''a'' [sample_join ''ab'' ''b'']),
      PkTypeFlipGroup (sample_group ''b'' [sample_join ''ab'' ''a'', sample_join ''bc'' ''c''])]"

theorem clusters_are_components_witness:
  "\<exists>clusters. cluster_pk_flip_groups chain_groups = Some clusters"
proof -
  have "peer_edges (flip_groups chain_groups) \<noteq> []" by code_simp
  from clusters_are_components [OF this refl] show ?thesis by blast
qed

definition chain_merged :: "PkTypeFlipGroup list" where
  "chain_merged =
     [sample_group ''a'' [sample_join ''ab'' ''b''], sample_group ''b'' [], sample_group ''c'' []]"

declare uf_find.simps [code]

lemma chain_merge:
  "merge_cross_flipping_groups_into_multi chain_groups = Some (Inr [PkTypeFlipMultiGroup chain_merged])"
  by code_simp

text \<open>The table \<open>bc\<close> of the two later parents is gone.\<close>

theorem merge_loses_join_table_witness:
  "sample_join ''bc'' ''c'' \<notin> set (pg_join_tables (chain_merged ! 1))"
proof
  assume b: "sample_join ''bc'' ''c'' \<in> set (pg_join_tables (chain_merged ! 1))"
  have m: "PkTypeFlipMultiGroup chain_merged \<in> set [PkTypeFlipMultiGroup chain_merged]" by simp
  have n: "PkTypeFlipMultiGroup chain_merged \<notin> set chain_groups" by (simp add: chain_groups_def)
  have "chain_merged ! 1 \<in> set chain_merged" by (simp add: chain_merged_def)
  with merge_loses_join_table [OF chain_merge m n] b
  have "\<exists>jt'\<in>set (pg_join_tables (hd chain_merged)). jt_table jt' = ''bc''"
    by (fastforce simp: sample_join_def has_partner_column_def)
  then show False by (simp add: chain_merged_def sample_group_def sample_join_def)
qed

definition flip_schema :: AppliedSchema where
  "flip_schema = plain_schema
     [plain_table ''users'' [plain_column ''id'' ''bigint'', fk_column ''boss'' ''users''],
      plain_table ''posts'' [fk_column ''author'' ''users'', fk_column ''editor'' ''users''],
      (plain_table ''likes'' [fk_column ''who'' ''users'', fk_column ''what'' ''posts''])\<lparr>t_is_through := True\<rparr>]"

definition flip_ops :: "SchemaOperation list" where
  "flip_ops = [PkTypeFlip ''users'' HeerId HeerIdRecencyBiased, DropTable ''old'']"

lemma flip_promoted: "\<exists>out. promote_pk_flips_to_groups flip_schema flip_ops = Inr out"
proof -
  have "case_sum (\<lambda>_. False) (\<lambda>_. True) (promote_pk_flips_to_groups flip_schema flip_ops)"
    by code_simp
  then show ?thesis by (cases "promote_pk_flips_to_groups flip_schema flip_ops") simp_all
qed

theorem promote_covers_references_witness:
  "\<exists>g. promote_pk_flips_to_groups flip_schema flip_ops = Inr [DropTable ''old'', PkTypeFlipGroup g]
    \<and> group_refs g = {#(''users'', ''boss''), (''posts'', ''author''), (''posts'', ''editor''), (''likes'', ''who'')#}"
proof -
  obtain out where o: "promote_pk_flips_to_groups flip_schema flip_ops = Inr out"
    using flip_promoted by blast
  have f: "filter not_pk_flip flip_ops = [DropTable ''old'']"
    "pk_flips flip_ops = [(''users'', HeerId, HeerIdRecencyBiased)]" by code_simp+
  have r: "refs_to flip_schema ''users''
      = [(''likes'', ''who''), (''posts'', ''author''), (''posts'', ''editor''), (''users'', ''boss'')]"
  proof -
    have m: "s_models flip_schema = map (\<lambda>t. (t_table t, t))
      [(plain_table ''likes'' [fk_column ''who'' ''users'', fk_column ''what'' ''posts''])\<lparr>t_is_through := True\<rparr>,
       plain_table ''posts'' [fk_column ''author'' ''users'', fk_column ''editor'' ''users''],
       plain_table ''users'' [plain_column ''id'' ''bigint'', fk_column ''boss'' ''users'']]"
      by code_simp
    show ?thesis
      by (simp add: refs_to_def m table_refs_def plain_table_def fk_column_def plain_column_def fk_to_def)
  qed
  from promote_covers_references [OF o] r o f show ?thesis by (auto simp: map_eq_Cons_conv)
qed

definition orders_before :: "(BucketKey, AppliedSchema) btree" where
  "orders_before = [(bucket ''shop'', plain_schema [plain_table ''orders'' []])]"

definition orders_after :: "(BucketKey, AppliedSchema) btree" where
  "orders_after = [(bucket ''billing'',
     plain_schema [(plain_table ''orders'' [])\<lparr>t_moved_from_app := Some ''shop''\<rparr>])]"

theorem moved_tables_move_witness:
  "case diff_bucket_maps orders_before orders_after of
     Some (Inr \<delta>s) \<Rightarrow>
       map d_bucket \<delta>s = [bucket ''billing'', bucket ''shop'']
       \<and> MoveModelBetweenApps ''orders'' ''shop'' ''billing'' \<in> set (d_operations (\<delta>s ! 0))
       \<and> DropTable ''orders'' \<notin> set (d_operations (\<delta>s ! 1))
   | _ \<Rightarrow> False"
proof -
  have "map_option (case_sum (\<lambda>_. False) (\<lambda>_. True)) (diff_bucket_maps orders_before orders_after) = Some True"
    by code_simp
  then obtain \<delta>s where d: "diff_bucket_maps orders_before orders_after = Some (Inr \<delta>s)"
    using sum.exhaust by (fastforce split: sum.split_asm)
  have b: "bs_collect (bt_keys orders_before @ bt_keys orders_after) = [bucket ''billing'', bucket ''shop'']"
    by code_simp
  have m: "table_moves orders_before orders_after
      = [\<lparr>mv_src = bucket ''shop'', mv_dest = bucket ''billing'', mv_table = ''orders''\<rparr>]"
    by code_simp
  from moved_tables_move [OF d] b m have
    "map d_bucket \<delta>s = [bucket ''billing'', bucket ''shop'']"
    "\<And>\<delta>. \<delta> \<in> set \<delta>s \<Longrightarrow> d_bucket \<delta> = bucket ''shop'' \<Longrightarrow> DropTable ''orders'' \<notin> set (d_operations \<delta>)"
    "\<And>\<delta>. \<delta> \<in> set \<delta>s \<Longrightarrow> d_bucket \<delta> = bucket ''billing'' \<Longrightarrow>
      MoveModelBetweenApps ''orders'' ''shop'' ''billing'' \<in> set (d_operations \<delta>)"
    by simp_all
  then show ?thesis by (auto simp: d map_eq_Cons_conv)
qed

section \<open>Online classification\<close>

abbreviation sample_ctx :: ClassifyContext where
  "sample_ctx \<equiv> application_default [] []"

theorem rows_monotone_witness:
  "strictness (classify_operation_online (AddForeignKey ''t'' ''c'' (fk_to ''a''))
      (sample_ctx\<lparr>x_estimated_rows := Some 10\<rparr>))
    \<le> strictness (classify_operation_online (AddForeignKey ''t'' ''c'' (fk_to ''a''))
      (sample_ctx\<lparr>x_estimated_rows := Some 10, x_estimated_rows := Some 200000\<rparr>))"
  by (rule rows_monotone) (simp add: grown_to_def)

theorem index_replacement_refused_witness:
  "(AddIndex (plain_index ''new'' ''t'' ''c''), OfflineOnly)
      \<in> set (classify_delta [DropIndex (plain_index ''old'' ''t'' ''c''), AddIndex (plain_index ''new'' ''t'' ''c'')] sample_ctx)
    \<and> (DropIndex (plain_index ''old'' ''t'' ''c''), OfflineOnly)
      \<in> set (classify_delta [DropIndex (plain_index ''old'' ''t'' ''c''), AddIndex (plain_index ''new'' ''t'' ''c'')] sample_ctx)"
  by (rule index_replacement_refused)
    (auto simp: classifier_applies_def application_default_def plain_index_def)

theorem online_type_change_keeps_values_witness:
  "\<exists>A B. storable (normal_type ''varchar(10)'') = Some A \<and> storable (normal_type ''VARCHAR(20)'') = Some B \<and> A \<subseteq> B"
  by (rule online_type_change_keeps_values) code_simp+

theorem numeric_change_refused_witness:
  "\<not> numeric_values 10 2 \<subseteq> numeric_values 8 2"
proof -
  have c: "classify_type_change ''numeric(10,2)'' ''decimal(8, 2)'' = OfflineOnly" by code_simp
  have n: "''numeric(10,2)'' \<noteq> ''decimal(8, 2)''" by simp
  have f: "parse_numeric_params (normal_type ''numeric(10,2)'') = Some (Bounded 10 2)" by code_simp
  have t: "parse_numeric_params (normal_type ''decimal(8, 2)'') = Some (Bounded 8 2)" by code_simp
  from numeric_change_refused [OF n f t] c show ?thesis by (simp split: if_splits)
qed

section \<open>Live plans\<close>

definition sample_step :: "u32 \<Rightarrow> Step" where
  "sample_step n =
     \<lparr>st_kind = SkValidateBackfill, st_ordinal = n, st_parameters = ValidateBackfill ''SELECT 1''\<rparr>"

definition sample_plan :: LivePlan where
  "sample_plan =
     \<lparr>lp_header = \<lparr>ph_plan_id = 7, ph_slug = ''add_mail'', ph_classification = PcExpandContract,
        ph_originating_migration = ''0001'', ph_target_database = ''main'', ph_app_label = ''a''\<rparr>,
      lp_steps = [sample_step 0, sample_step 1]\<rparr>"

theorem destructive_token_iff_witness:
  "sql_contains_destructive_token ''; Drop  table x''"
proof -
  have p: "''; Drop  table x'' = ''; '' @ ''Drop  table'' @ '' x''" by simp
  have w: "''Drop  table'' = ''Drop'' @ ''  '' @ ''table''" by simp
  have f: "starts_word ''; ''" "ends_word '' x''" "to_ascii_lowercase ''Drop'' = ''drop''"
    "list_all is_ws_byte ''  ''" "''TABLE'' \<in> set DROP_KIND_KEYWORDS"
    "to_ascii_lowercase ''table'' = to_ascii_lowercase ''TABLE''" by code_simp+
  have ws: "\<forall>c\<in>set ''  ''. is_ws_byte c" using f(4) by (simp only: list_all_iff)
  show ?thesis
    by (rule iffD2 [OF destructive_token_iff], rule exI [of _ "''; ''"], rule exI [of _ "''Drop  table''"],
        rule exI [of _ "'' x''"], intro conjI disjI2 p f(1,2), rule exI [of _ "''Drop''"],
        rule exI [of _ "''  ''"], rule exI [of _ "''table''"], rule exI [of _ "''TABLE''"])
      (intro conjI w f(3) ws f(5,6), simp)
qed

definition sample_row :: "i64 \<Rightarrow> LivePlanRow" where
  "sample_row i =
     \<lparr>l_plan_id = i, l_slug = ''s'', l_plan_file_checksum = ''blake3:0'', l_classification = PcExpandContract,
      l_status = Pending, l_current_step = None, l_current_step_index = 0,
      l_backfill_rows_done = 0, l_backfill_rows_total = None, l_started_at = None,
      l_last_progress_at = None, l_completed_at = None, l_last_error = None,
      l_originating_migration = ''0001'', l_target_database = ''main'', l_app_label = ''a'',
      l_daemon_session_token = None\<rparr>"

definition sample_table :: table where
  "sample_table = (case insert_row (sample_row 7) [] of Inr t \<Rightarrow> t | Inl _ \<Rightarrow> [])"

lemma sample_reachable: "reachable sample_table"
proof -
  have "exec (InsertRow (sample_row 7)) [] = Inr sample_table" by code_simp
  with reachable.empty show ?thesis by (rule reachable.step)
qed

theorem reachable_rows_decode_witness:
  "\<exists>row. row_to_live_plan_row (\<lambda>i. 0 \<le> sint i) (hd sample_table) = Inr row
    \<and> fetch_row_by_id (\<lambda>i. 0 \<le> sint i) 7 ''main'' ''a'' sample_table = Inr (Some row)"
proof -
  have ids: "\<forall>r\<in>set sample_table. 0 \<le> sint (db_plan_id r)" by code_simp
  have "sample_table \<noteq> []" "db_plan_id (hd sample_table) = 7"
    "db_target_database (hd sample_table) = ''main''" "db_app_label (hd sample_table) = ''a''" by code_simp+
  with reachable_rows_decode [OF sample_reachable, of "\<lambda>i. 0 \<le> sint i", OF ids] show ?thesis
    by (metis list.set_sel(1))
qed

theorem update_touches_one_row_witness:
  "\<exists>t'. exec (UpdateStatus 7 ''main'' ''a'' Paused) sample_table = Inr t'
    \<and> fetch_row_by_id (\<lambda>_. True) 7 ''main'' ''a'' t' = Inr (Some ((sample_row 7)\<lparr>l_status := Paused\<rparr>))"
proof -
  have k: "update_key (UpdateStatus 7 ''main'' ''a'' Paused) = Some (7, ''main'', ''a'')" by simp
  have f: "fetch_row_by_id (\<lambda>_. True) 7 ''main'' ''a'' sample_table = Inr (Some (sample_row 7))"
    by code_simp
  from update_touches_one_row [OF sample_reachable k, of "\<lambda>_. True"] show ?thesis
    by (auto simp: f)
qed

theorem insert_then_fetch_witness:
  "\<exists>t'. insert_row (sample_row 8) sample_table = Inr t' \<and>
    (\<forall>i d a. fetch_row_by_id (\<lambda>_. True) i d a t' =
      (if (i, d, a) = (l_plan_id (sample_row 8), l_target_database (sample_row 8), l_app_label (sample_row 8))
       then Inr (Some (sample_row 8)) else fetch_row_by_id (\<lambda>_. True) i d a sample_table))"
proof -
  have "\<forall>r\<in>set sample_table. db_plan_id r \<noteq> l_plan_id (sample_row 8)" by code_simp
  moreover have "length (l_plan_file_checksum (sample_row 8)) \<le> 68" by code_simp
  ultimately show ?thesis by (rule insert_then_fetch [OF sample_reachable]) simp
qed

end
