(* ===== verification/Flip_Catalog.thy ===== *)
theory Flip_Catalog
  imports Pk_Flip Ddl_Spec
begin

text \<open>
  What the statements of a primary-key flip do to the catalog of the database: columns, NOT NULL
  marks, foreign keys, checks, primary keys, indexes and the autofill triggers of each table. A
  statement fails, as in PostgreSQL, when what it names is missing or already there, when a
  dropped column or key is still referenced, and when a foreign key's target has no unique
  index. Against it the script of a flip is run as a whole.
\<close>

section \<open>Catalogs\<close>

record FkDef =
  fd_col :: string
  fd_target :: string
  fd_target_col :: string
  fd_action :: OnDeleteSchema
  fd_def :: bool
  fd_ini :: bool

record Tab =
  tb_cols :: "string set"
  tb_required :: "string set"
  tb_fks :: "string \<rightharpoonup> FkDef"
  tb_checks :: "string \<rightharpoonup> string"
  tb_pk :: "(string \<times> string list) option"
  tb_indexes :: "string \<rightharpoonup> string list \<times> bool"
  tb_trigger :: bool
  tb_function :: bool

type_synonym Catalog = "string \<Rightarrow> Tab"

definition constraint_free :: "Tab \<Rightarrow> string \<Rightarrow> bool" where
  "constraint_free T c \<longleftrightarrow>
     tb_fks T c = None \<and> tb_checks T c = None \<and> (\<forall>cs. tb_pk T \<noteq> Some (c, cs))"

text \<open>Some foreign key of any table refers to the column.\<close>

definition referenced :: "Catalog \<Rightarrow> string \<Rightarrow> string \<Rightarrow> bool" where
  "referenced s t col \<longleftrightarrow>
     (\<exists>u n fd. tb_fks (s u) n = Some fd \<and> fd_target fd = t \<and> fd_target_col fd = col)"

definition unique_on :: "Tab \<Rightarrow> string \<Rightarrow> bool" where
  "unique_on T col \<longleftrightarrow>
     (\<exists>n. tb_pk T = Some (n, [col])) \<or> (\<exists>n. tb_indexes T n = Some ([col], True))"

definition index_free :: "Catalog \<Rightarrow> string \<Rightarrow> bool" where
  "index_free s name \<longleftrightarrow> (\<forall>u. tb_indexes (s u) name = None)"

text \<open>Entries of a map that satisfy a test.\<close>

definition keep :: "('v \<Rightarrow> bool) \<Rightarrow> ('k \<rightharpoonup> 'v) \<Rightarrow> 'k \<rightharpoonup> 'v" where
  "keep P m = (\<lambda>k. case m k of Some v \<Rightarrow> if P v then Some v else None | None \<Rightarrow> None)"

text \<open>A dropped column takes its own constraints and indexes with it.\<close>

definition without_column :: "string \<Rightarrow> Tab \<Rightarrow> Tab" where
  "without_column col T =
     T\<lparr>tb_cols := tb_cols T - {col}, tb_required := tb_required T - {col},
       tb_fks := keep (\<lambda>fd. fd_col fd \<noteq> col) (tb_fks T),
       tb_checks := keep (\<lambda>c. c \<noteq> col) (tb_checks T),
       tb_pk := (case tb_pk T of Some (n, cs) \<Rightarrow> if col \<in> set cs then None else Some (n, cs) | None \<Rightarrow> None),
       tb_indexes := keep (\<lambda>(cs, _). col \<notin> set cs) (tb_indexes T)\<rparr>"

definition renamed :: "string \<Rightarrow> string \<Rightarrow> string \<Rightarrow> string" where
  "renamed a b c = (if c = a then b else c)"

definition with_renamed :: "string \<Rightarrow> string \<Rightarrow> Tab \<Rightarrow> Tab" where
  "with_renamed a b T =
     T\<lparr>tb_cols := renamed a b ` tb_cols T, tb_required := renamed a b ` tb_required T,
       tb_fks := map_option (fd_col_update (renamed a b)) \<circ> tb_fks T,
       tb_checks := map_option (renamed a b) \<circ> tb_checks T,
       tb_pk := map_option (apsnd (map (renamed a b))) (tb_pk T),
       tb_indexes := map_option (apfst (map (renamed a b))) \<circ> tb_indexes T\<rparr>"

definition retarget :: "string \<Rightarrow> string \<Rightarrow> string \<Rightarrow> Tab \<Rightarrow> Tab" where
  "retarget t a b T =
     T\<lparr>tb_fks := map_option (\<lambda>fd. if fd_target fd = t then fd\<lparr>fd_target_col := renamed a b (fd_target_col fd)\<rparr>
         else fd) \<circ> tb_fks T\<rparr>"

definition drop_column :: "string \<Rightarrow> string \<Rightarrow> Catalog \<Rightarrow> Catalog option" where
  "drop_column t col s =
     (if col \<in> tb_cols (s t) \<and> \<not> referenced s t col then Some (s(t := without_column col (s t))) else None)"

definition drop_constraint_of :: "string \<Rightarrow> string \<Rightarrow> Catalog \<Rightarrow> Catalog option" where
  "drop_constraint_of t c s =
     (let T = s t
      in if tb_fks T c \<noteq> None then Some (s(t := T\<lparr>tb_fks := (tb_fks T)(c := None)\<rparr>))
         else if tb_checks T c \<noteq> None then Some (s(t := T\<lparr>tb_checks := (tb_checks T)(c := None)\<rparr>))
         else case tb_pk T of
           Some (n, cs) \<Rightarrow>
             if n = c \<and> (\<forall>col. cs = [col] \<longrightarrow> \<not> referenced s t col) then Some (s(t := T\<lparr>tb_pk := None\<rparr>)) else None
         | None \<Rightarrow> None)"

fun cat_step :: "FlipStmt \<Rightarrow> Catalog \<Rightarrow> Catalog option" where
  "cat_step (AddShadow t col ty) s =
     (if col \<in> tb_cols (s t) then None else Some (s(t := (s t)\<lparr>tb_cols := insert col (tb_cols (s t))\<rparr>)))"
| "cat_step (CreateAutofill t pairs f d) s = Some (s(t := (s t)\<lparr>tb_trigger := True, tb_function := True\<rparr>))"
| "cat_step (DropColumnIfExists t col) s = (if col \<in> tb_cols (s t) then drop_column t col s else Some s)"
| "cat_step (DropTriggerIfExists t) s = Some (s(t := (s t)\<lparr>tb_trigger := False\<rparr>))"
| "cat_step (DropFunctionIfExists t) s =
     Some (s(t := (s t)\<lparr>tb_trigger := False, tb_function := False\<rparr>))"
| "cat_step (DropTrigger t) s =
     (if tb_trigger (s t) then Some (s(t := (s t)\<lparr>tb_trigger := False\<rparr>)) else None)"
| "cat_step (DropFunction t) s =
     (if tb_function (s t) then Some (s(t := (s t)\<lparr>tb_trigger := False, tb_function := False\<rparr>)) else None)"
| "cat_step (DropConstraint t c) s = drop_constraint_of t c s"
| "cat_step (DropConstraintIfExists t c) s =
     (if constraint_free (s t) c then Some s else drop_constraint_of t c s)"
| "cat_step (AddFlipFk t c col target target_col action def ini nv) s =
     (if constraint_free (s t) c \<and> col \<in> tb_cols (s t) \<and> target_col \<in> tb_cols (s target)
         \<and> unique_on (s target) target_col
      then Some (s(t := (s t)\<lparr>tb_fks := (tb_fks (s t))(c \<mapsto>
        \<lparr>fd_col = col, fd_target = target, fd_target_col = target_col,
         fd_action = (case action of Some a \<Rightarrow> a | None \<Rightarrow> NoAction),
         fd_def = def, fd_ini = def \<and> ini\<rparr>)\<rparr>))
      else None)"
| "cat_step (ValidateConstraint t c) s =
     (if tb_fks (s t) c \<noteq> None \<or> tb_checks (s t) c \<noteq> None then Some s else None)"
| "cat_step (AddNotNullCheck t c col) s =
     (if constraint_free (s t) c \<and> col \<in> tb_cols (s t)
      then Some (s(t := (s t)\<lparr>tb_checks := (tb_checks (s t))(c \<mapsto> col)\<rparr>)) else None)"
| "cat_step (SetColumnNotNull t col) s =
     (if col \<in> tb_cols (s t) then Some (s(t := (s t)\<lparr>tb_required := insert col (tb_required (s t))\<rparr>)) else None)"
| "cat_step (DropColumnNotNull t col) s =
     (if col \<in> tb_cols (s t) then Some (s(t := (s t)\<lparr>tb_required := tb_required (s t) - {col}\<rparr>)) else None)"
| "cat_step (PrimaryKeyUsingIndex t c idx) s =
     (case (tb_pk (s t), tb_indexes (s t) idx) of
        (None, Some (cs, True)) \<Rightarrow>
          if constraint_free (s t) c
          then Some (s(t := (s t)\<lparr>tb_pk := Some (c, cs), tb_indexes := (tb_indexes (s t))(idx := None),
                 tb_required := tb_required (s t) \<union> set cs\<rparr>))
          else None
      | _ \<Rightarrow> None)"
| "cat_step (AddPrimaryKey t part col) s =
     (if tb_pk (s t) = None \<and> part \<in> tb_cols (s t) \<and> col \<in> tb_cols (s t)
      then Some (s(t := (s t)\<lparr>tb_pk := Some (pkey_name t, [part, col]),
             tb_required := tb_required (s t) \<union> {part, col}\<rparr>)) else None)"
| "cat_step (SetNextDefault t col fn) s = (if col \<in> tb_cols (s t) then Some s else None)"
| "cat_step (DropColumnDefault t col) s = (if col \<in> tb_cols (s t) then Some s else None)"
| "cat_step (DropTableColumn t col) s = drop_column t col s"
| "cat_step (RenameTableColumn t a b) s =
     (if a \<in> tb_cols (s t) \<and> b \<notin> tb_cols (s t)
      then Some (retarget t a b \<circ> s(t := with_renamed a b (s t))) else None)"
| "cat_step SetConstraintsDeferred s = Some s"
| "cat_step (CreateConcurrently uniq name t col) s =
     (if index_free s name \<and> col \<in> tb_cols (s t)
      then Some (s(t := (s t)\<lparr>tb_indexes := (tb_indexes (s t))(name \<mapsto> ([col], uniq))\<rparr>)) else None)"
| "cat_step (DropIndexIfExists name) s =
     Some (\<lambda>t. (s t)\<lparr>tb_indexes := (tb_indexes (s t))(name := None)\<rparr>)"
| "cat_step (CreateOnOnly uniq name t cols) s =
     (if index_free s name \<and> set cols \<subseteq> tb_cols (s t)
      then Some (s(t := (s t)\<lparr>tb_indexes := (tb_indexes (s t))(name \<mapsto> (cols, uniq))\<rparr>)) else None)"
| "cat_step (Backfill t src dst f d) s =
     (if src \<in> tb_cols (s t) \<and> dst \<in> tb_cols (s t) then Some s else None)"
| "cat_step (VerifyNoNull t dst) s = (if dst \<in> tb_cols (s t) then Some s else None)"
| "cat_step (VerifyFlipped t src dst fn) s =
     (if src \<in> tb_cols (s t) \<and> dst \<in> tb_cols (s t) then Some s else None)"
| "cat_step (Note txt) s = Some s"

section \<open>The script of a flip\<close>

text \<open>All statements of the plan, in order.\<close>

definition flip_script :: "PkTypeFlipGroup \<Rightarrow> FlipStmt list" where
  "flip_script g =
     preparation_up g Standard @ map snd (backfill_jobs g Standard) @ map snd (verify_jobs g Standard)
     @ map (shadow_index_stmt \<circ> snd) (index_jobs g Standard)
     @ concat (map shadow_fk_stmts (shadow_refs g)) @ not_null_up g @ cutover_up g"

end
