(* ===== verification/Flip_Sites.thy ===== *)
theory Flip_Sites
  imports Flip_Catalog
begin

text \<open>
  Running a flip. When every table is touched once, the script of a flip ends, and the catalog
  is the old one up to what is stated here; when a table is touched twice, it always fails.
\<close>

section \<open>A table is only dropped from once\<close>

fun trigger_drops :: "FlipStmt list \<Rightarrow> string list" where
  "trigger_drops [] = []"
| "trigger_drops (DropTrigger t # ss) = t # trigger_drops ss"
| "trigger_drops (_ # ss) = trigger_drops ss"

fun creates_autofill :: "FlipStmt \<Rightarrow> bool" where
  "creates_autofill (CreateAutofill _ _ _ _) = True"
| "creates_autofill _ = False"

lemma trigger_drops_append [simp]: "trigger_drops (xs @ ys) = trigger_drops xs @ trigger_drops ys"
  by (induction xs rule: trigger_drops.induct) simp_all

lemma trigger_drops_concat: "trigger_drops (concat xss) = concat (map trigger_drops xss)"
  by (induction xss) simp_all

lemma drop_column_trigger: "drop_column t col s = Some s' \<Longrightarrow> tb_trigger (s' u) = tb_trigger (s u)"
  by (auto simp: drop_column_def without_column_def split: if_splits)

lemma drop_constraint_trigger:
  "drop_constraint_of t c s = Some s' \<Longrightarrow> tb_trigger (s' u) = tb_trigger (s u)"
  by (auto simp: drop_constraint_of_def Let_def split: if_splits option.splits)

lemma trigger_not_new:
  assumes "cat_step op s = Some s'" "\<not> creates_autofill op" "tb_trigger (s' u)"
  shows "tb_trigger (s u)"
  using assms
  by (cases op) (auto simp: drop_column_trigger drop_constraint_trigger retarget_def with_renamed_def
      split: if_splits option.splits prod.splits bool.splits)

lemma trigger_drops_distinct:
  assumes "run cat_step ss s = Some s'" "\<forall>op\<in>set ss. \<not> creates_autofill op"
  shows "distinct (trigger_drops ss) \<and> (\<forall>t\<in>set (trigger_drops ss). tb_trigger (s t))"
  using assms
proof (induction ss arbitrary: s)
  case (Cons op ss)
  then obtain s1 where s1: "cat_step op s = Some s1" "run cat_step ss s1 = Some s'"
    by (auto split: option.splits)
  with Cons have ih: "distinct (trigger_drops ss)" "\<forall>t\<in>set (trigger_drops ss). tb_trigger (s1 t)"
    by simp_all
  have old: "\<forall>t\<in>set (trigger_drops ss). tb_trigger (s t)"
    using ih(2) trigger_not_new [OF s1(1)] Cons.prems(2) by simp
  show ?case
  proof (cases "\<exists>t. op = DropTrigger t")
    case True
    then obtain t where t: "op = DropTrigger t" by blast
    with s1(1) have "tb_trigger (s t)" "\<not> tb_trigger (s1 t)" by (auto split: if_splits)
    with ih old t show ?thesis by auto
  next
    case False
    then have "trigger_drops (op # ss) = trigger_drops ss" by (cases op) simp_all
    with ih old show ?thesis by simp
  qed
qed simp

definition touched_tables :: "PkTypeFlipGroup \<Rightarrow> string list" where
  "touched_tables g =
     pg_parent_table g # map ch_table (pg_children g) @ map jt_table (pg_join_tables g)"

lemma trigger_drops_map:
  "(\<And>x t. f x \<noteq> DropTrigger t) \<Longrightarrow> trigger_drops (map f xs) = []"
proof (induction xs)
  case (Cons x xs)
  then show ?case by (cases "f x") simp_all
qed simp

lemma trigger_drops_one:
  "trigger_drops (cutover_phase_drop_old_fks g) = []"
  "trigger_drops (cutover_phase_promote_parent g) = [pg_parent_table g]"
  "trigger_drops (finalise_child g ch) = [ch_table ch]"
  "trigger_drops (finalise_join g jt) = [jt_table jt]"
  "trigger_drops (defer_if_cycles b) = []"
  by (auto simp: cutover_phase_drop_old_fks_def cutover_phase_promote_parent_def finalise_child_def
      finalise_join_def readd_self_fks_def layout_note_def defer_if_cycles_def Let_def
      trigger_drops_map trigger_drops_concat comp_def split_beta split: option.split)

lemma cutover_drops: "trigger_drops (cutover_up g) = touched_tables g"
proof -
  have "concat (map (\<lambda>x. [f x]) xs) = map f xs" for f :: "'a \<Rightarrow> string" and xs
    by (induction xs) simp_all
  then show ?thesis
    by (simp add: cutover_up_def touched_tables_def trigger_drops_one trigger_drops_concat comp_def
        cutover_phase_finalise_children_def cutover_phase_finalise_join_tables_def)
qed

lemma cutover_creates_nothing: "\<forall>op\<in>set (cutover_up g). \<not> creates_autofill op"
  by (auto simp: cutover_up_def cutover_phase_drop_old_fks_def cutover_phase_promote_parent_def
      cutover_phase_finalise_children_def cutover_phase_finalise_join_tables_def
      finalise_child_def finalise_join_def readd_self_fks_def layout_note_def defer_if_cycles_def Let_def
      split: option.splits if_splits)

text \<open>
  C29: A flip whose group has two references from one table cannot be applied: the
  second reference's cutover drops the table's autofill trigger again, and the statement fails,
  on any database. The same holds when the parent itself, or a join table, is listed twice.
\<close>

theorem shared_table_breaks_flip:
  assumes "\<not> distinct (touched_tables g)"
  shows "run cat_step (flip_script g) s = None"
proof (rule ccontr)
  assume "run cat_step (flip_script g) s \<noteq> None"
  then obtain s1 s' where "run cat_step (cutover_up g) s1 = Some s'"
    by (auto simp: flip_script_def run_append split: option.splits)
  from trigger_drops_distinct [OF this cutover_creates_nothing] assms show False
    by (simp add: cutover_drops)
qed

section \<open>References of a group, one per table\<close>

text \<open>
  What children and join tables with one shadow column have in common: a reference from a
  column of another table to the parent.
\<close>

record Site =
  si_tab :: string
  si_col :: string
  si_cons :: string
  si_action :: "OnDeleteSchema option"
  si_def :: bool
  si_ini :: bool
  si_required :: bool
  si_unique :: bool

definition child_site :: "PkFlipChild \<Rightarrow> Site" where
  "child_site ch =
     \<lparr>si_tab = ch_table ch, si_col = ch_fk_column ch, si_cons = ch_fk_constraint_name ch,
      si_action = Some (ch_on_delete ch), si_def = ch_fk_deferrable ch,
      si_ini = ch_fk_initially_deferred ch, si_required = (\<not> ch_fk_nullable ch),
      si_unique = ch_fk_unique ch\<rparr>"

definition join_site :: "PkFlipJoinTable \<Rightarrow> Site" where
  "join_site jt =
     \<lparr>si_tab = jt_table jt, si_col = jt_fk_to_parent_column jt, si_cons = jt_fk_to_parent_constraint jt,
      si_action = None, si_def = jt_fk_to_parent_deferrable jt,
      si_ini = jt_fk_to_parent_initially_deferred jt, si_required = False, si_unique = False\<rparr>"

definition sites :: "PkTypeFlipGroup \<Rightarrow> Site list" where
  "sites g = map child_site (pg_children g) @ map join_site (pg_join_tables g)"

text \<open>Groups with references from other tables only, one column each.\<close>

definition plain_group :: "PkTypeFlipGroup \<Rightarrow> bool" where
  "plain_group g \<longleftrightarrow>
     pg_partitioned_parent g = None \<and> pg_self_fk g = None
     \<and> (\<forall>jt\<in>set (pg_join_tables g). jt_shadow_pairs jt g
          = [(jt_fk_to_parent_column jt, jt_fk_to_parent_constraint jt)])"

subsection \<open>Statements up to what the catalog does not record\<close>

fun norm :: "FlipStmt \<Rightarrow> FlipStmt list" where
  "norm (AddShadow t col ty) = [AddShadow t col []]"
| "norm (CreateAutofill t pairs f d) = [CreateAutofill t [] Heer AscToDesc]"
| "norm (Backfill t src dst f d) = [Backfill t src dst Heer AscToDesc]"
| "norm (VerifyFlipped t src dst fn) = [VerifyFlipped t src dst []]"
| "norm (SetNextDefault t col fn) = [SetNextDefault t col []]"
| "norm SetConstraintsDeferred = []"
| "norm (Note txt) = []"
| "norm s = [s]"

lemma run_norm: "run cat_step (concat (map norm ss)) s = run cat_step ss s"
proof (induction ss arbitrary: s)
  case (Cons op ss)
  have "run cat_step (norm op) s = cat_step op s"
    by (cases op) (auto split: option.split)
  with Cons show ?case by (auto simp: run_append split: option.split)
qed simp

definition site_prep :: "Site \<Rightarrow> FlipStmt list" where
  "site_prep i = [AddShadow (si_tab i) (shadow (si_col i)) [], CreateAutofill (si_tab i) [] Heer AscToDesc]"

definition site_backfill :: "Site \<Rightarrow> FlipStmt list" where
  "site_backfill i = [Backfill (si_tab i) (si_col i) (shadow (si_col i)) Heer AscToDesc]"

definition site_verify :: "Site \<Rightarrow> FlipStmt list" where
  "site_verify i =
     (if si_required i then [VerifyNoNull (si_tab i) (shadow (si_col i))]
      else [VerifyFlipped (si_tab i) (si_col i) (shadow (si_col i)) []])"

definition site_index :: "Site \<Rightarrow> FlipStmt list" where
  "site_index i =
     [CreateConcurrently (si_unique i) (shadow_index (si_tab i) (si_col i)) (si_tab i) (shadow (si_col i))]"

definition site_fk :: "string \<Rightarrow> Site \<Rightarrow> FlipStmt list" where
  "site_fk p i = shadow_fk_stmts (si_tab i, si_col i, p, si_def i, si_ini i)"

definition site_required :: "Site \<Rightarrow> FlipStmt list" where
  "site_required i = (if si_required i then not_null_stmts (si_tab i) (shadow (si_col i)) else [])"

definition site_drop :: "Site \<Rightarrow> FlipStmt list" where
  "site_drop i = [DropConstraint (si_tab i) (si_cons i)]"

definition site_final :: "string \<Rightarrow> Site \<Rightarrow> FlipStmt list" where
  "site_final p i =
     (let t = si_tab i; col = si_col i
      in [DropTableColumn t col, DropTrigger t, DropFunction t, DropConstraint t (shadow_fk t col),
          RenameTableColumn t (shadow col) col,
          AddFlipFk t (si_cons i) col p ''id'' (si_action i) (si_def i) (si_ini i) False])"

definition all_sites :: "(Site \<Rightarrow> FlipStmt list) \<Rightarrow> Site list \<Rightarrow> FlipStmt list" where
  "all_sites f is = concat (map f is)"

definition parent_promote :: "string \<Rightarrow> FlipStmt list" where
  "parent_promote p =
     [DropConstraint p (pkey_name p), PrimaryKeyUsingIndex p (pkey_name p) (shadow_index p ''id''),
      SetNextDefault p (shadow ''id'') [], DropColumnDefault p ''id'', DropTableColumn p ''id'',
      DropTrigger p, DropFunction p, RenameTableColumn p (shadow ''id'') ''id'']"

definition site_script :: "string \<Rightarrow> Site list \<Rightarrow> FlipStmt list" where
  "site_script p is =
     [AddShadow p (shadow ''id'') [], CreateAutofill p [] Heer AscToDesc] @ all_sites site_prep is
     @ [Backfill p ''id'' (shadow ''id'') Heer AscToDesc] @ all_sites site_backfill is
     @ [VerifyNoNull p (shadow ''id'')] @ all_sites site_verify is
     @ [CreateConcurrently True (shadow_index p ''id'') p (shadow ''id'')] @ all_sites site_index is
     @ all_sites (site_fk p) is
     @ not_null_stmts p (shadow ''id'') @ all_sites site_required is
     @ all_sites site_drop is
     @ parent_promote p @ all_sites (site_final p) is"

lemma concat_map_concat: "concat (map f (concat xss)) = concat (map (\<lambda>xs. concat (map f xs)) xss)"
  by (induction xss) simp_all

lemma concat_concat_map: "concat (concat (map f xs)) = concat (map (\<lambda>x. concat (f x)) xs)"
  by (induction xs) simp_all

lemma all_sites_append: "all_sites f (xs @ ys) = all_sites f xs @ all_sites f ys"
  by (simp add: all_sites_def)

lemma flip_script_sites:
  assumes "plain_group g"
  shows "concat (map norm (flip_script g)) = site_script (pg_parent_table g) (sites g)"
proof -
  let ?p = "pg_parent_table g" and ?jts = "pg_join_tables g" and ?n = "\<lambda>ss. concat (map norm ss)"
  have n: "?n (xs @ ys) = ?n xs @ ?n ys" for xs ys by simp
  have jt: "jt_shadow_pairs jt g = [(jt_fk_to_parent_column jt, jt_fk_to_parent_constraint jt)]"
    "jt_target jt g (jt_fk_to_parent_column jt) = Some ?p"
    "jt_flags jt (jt_fk_to_parent_column jt) = (jt_fk_to_parent_deferrable jt, jt_fk_to_parent_initially_deferred jt)"
    if "jt \<in> set ?jts" for jt
    using assms that by (auto simp: plain_group_def jt_target_def jt_flags_def)
  have self: "self_cols g = []" "paired_self_cols g = []" "pg_self_fk g = None" "pg_partitioned_parent g = None"
    using assms by (simp_all add: plain_group_def self_cols_def paired_self_cols_def)
  have neg: "(if \<not> b then x else y) = (if b then y else x)" for b and x y :: "FlipStmt list"
    by simp
  note base = sites_def all_sites_def child_site_def join_site_def Let_def comp_def concat_map_concat
    map_concat concat_concat_map self includes_parent_def split_beta
  have "?n (preparation_up g Standard) =
      [AddShadow ?p (shadow ''id'') [], CreateAutofill ?p [] Heer AscToDesc] @ all_sites site_prep (sites g)"
    by (simp add: preparation_up_def prep_parent_def prep_child_def prep_join_def site_prep_def
        PARENT_PK_COLUMN_def base jt cong: map_cong)
  moreover have "?n (map snd (backfill_jobs g Standard)) =
      [Backfill ?p ''id'' (shadow ''id'') Heer AscToDesc] @ all_sites site_backfill (sites g)"
    by (simp add: backfill_jobs_def site_backfill_def base jt cong: map_cong)
  moreover have "?n (map snd (verify_jobs g Standard)) =
      [VerifyNoNull ?p (shadow ''id'')] @ all_sites site_verify (sites g)"
    by (simp add: verify_jobs_def site_verify_def base jt if_distrib [where f = norm]
        neg cong: map_cong if_cong)
  moreover have "?n (map (shadow_index_stmt \<circ> snd) (index_jobs g Standard)) =
      [CreateConcurrently True (shadow_index ?p ''id'') ?p (shadow ''id'')] @ all_sites site_index (sites g)"
    by (simp add: index_jobs_def shadow_index_stmt_def site_index_def base jt cong: map_cong)
  moreover have "?n (concat (map shadow_fk_stmts (shadow_refs g))) = all_sites (site_fk ?p) (sites g)"
    by (simp add: shadow_refs_def shadow_fk_stmts_def site_fk_def base jt cong: map_cong)
  moreover have "?n (not_null_up g) = not_null_stmts ?p (shadow ''id'') @ all_sites site_required (sites g)"
  proof -
    have "concat (map f (filter P xs)) = concat (map (\<lambda>x. if P x then f x else []) xs)"
      for f :: "PkFlipChild \<Rightarrow> FlipStmt list" and P xs by (induction xs) simp_all
    then show ?thesis
      by (simp add: not_null_up_def required_columns_def not_null_stmts_def site_required_def base
          if_distrib cong: if_cong)
  qed
  moreover have "?n (cutover_up g) = all_sites site_drop (sites g) @ parent_promote ?p
      @ all_sites (site_final ?p) (sites g)"
    by (simp add: cutover_up_def defer_if_cycles_def cutover_phase_drop_old_fks_def
        cutover_phase_promote_parent_def readd_self_fks_def cutover_phase_finalise_children_def
        cutover_phase_finalise_join_tables_def finalise_child_def finalise_join_def layout_note_def
        site_drop_def parent_promote_def site_final_def base jt cong: map_cong)
  ultimately show ?thesis
    by (simp only: flip_script_def site_script_def n append_assoc)
qed

end
