(* ===== verification/Flip_Stages.thy ===== *)
theory Flip_Stages
  imports Flip_Sites
begin

text \<open>
  The stages of a flip before the cutover's swap, each run over all sites at once: one lemma
  lifts a stage from a single table to the group, and one lemma per stage says what it leaves.
\<close>

section \<open>Running the sites\<close>

text \<open>A catalog in which the parent and the sites' tables have been changed.\<close>

definition patched :: "string \<Rightarrow> Site list \<Rightarrow> Catalog \<Rightarrow> Tab \<Rightarrow> (Site \<Rightarrow> Tab) \<Rightarrow> Catalog" where
  "patched p is s X F =
     (\<lambda>t. if t = p then X
          else case find (\<lambda>i. si_tab i = t) is of Some i \<Rightarrow> F i | None \<Rightarrow> s t)"

definition apart :: "string \<Rightarrow> Site list \<Rightarrow> bool" where
  "apart p is \<longleftrightarrow> distinct (p # map si_tab is)"

lemma patched_parent [simp]: "patched p is s X F p = X"
  by (simp add: patched_def)

lemma find_site: "distinct (map si_tab is) \<Longrightarrow> i \<in> set is \<Longrightarrow> find (\<lambda>j. si_tab j = si_tab i) is = Some i"
  by (induction "is") (auto simp: image_iff)

lemma patched_site: "apart p is \<Longrightarrow> i \<in> set is \<Longrightarrow> patched p is s X F (si_tab i) = F i"
  by (auto simp: patched_def apart_def find_site)

lemma patched_cases:
  "t = p \<and> patched p is s X F t = X
   \<or> (\<exists>i\<in>set is. t = si_tab i \<and> t \<noteq> p \<and> patched p is s X F t = F i)
   \<or> t \<noteq> p \<and> t \<notin> si_tab ` set is \<and> patched p is s X F t = s t"
proof (cases "find (\<lambda>i. si_tab i = t) is")
  case None
  then have "t \<notin> si_tab ` set is" by (auto simp: find_None_iff)
  with None show ?thesis by (auto simp: patched_def)
next
  case (Some i)
  then have "i \<in> set is" "si_tab i = t" by (auto simp: find_Some_iff)
  with Some show ?thesis by (auto simp: patched_def)
qed

lemma patched_cong:
  assumes "\<And>i. i \<in> set is \<Longrightarrow> F i = F' i"
  shows "patched p is s X F = patched p is s X F'"
proof -
  have "find P is = Some i \<Longrightarrow> F i = F' i" for P i
    using assms by (auto simp: find_Some_iff)
  then show ?thesis by (auto simp: patched_def split: option.split)
qed

lemma patched_same: "patched p is s (s p) (\<lambda>i. s (si_tab i)) = s"
proof
  fix t
  from patched_cases [of t p "is" s "s p" "\<lambda>i. s (si_tab i)"]
  show "patched p is s (s p) (\<lambda>i. s (si_tab i)) t = s t" by auto
qed

lemma patched_upd_parent [simp]: "(patched p is s X F)(p := Y) = patched p is s Y F"
  by (auto simp: patched_def)

lemma patched_upd_site:
  assumes "apart p is" "i \<in> set is"
  shows "(patched p is s X F)(si_tab i := T) = patched p is s X (F(i := T))"
proof
  fix t
  have d: "distinct (map si_tab is)" "si_tab i \<noteq> p" using assms by (auto simp: apart_def)
  show "((patched p is s X F)(si_tab i := T)) t = patched p is s X (F(i := T)) t"
  proof (cases "t = si_tab i")
    case True
    with assms d show ?thesis by (simp add: patched_site)
  next
    case False
    have "find (\<lambda>j. si_tab j = t) is \<noteq> Some i" using False by (auto simp: find_Some_iff)
    with False show ?thesis by (auto simp: patched_def split: option.split)
  qed
qed

text \<open>Every site takes its stage once; the others are still before it or already past it.\<close>

definition midway :: "Site list \<Rightarrow> (Site \<Rightarrow> Tab) \<Rightarrow> (Site \<Rightarrow> Tab) \<Rightarrow> (Site \<Rightarrow> Tab) \<Rightarrow> bool" where
  "midway is F F' Q \<longleftrightarrow> (\<forall>j\<in>set is. Q j = F j \<or> Q j = F' j)"

lemma run_stage:
  assumes ap: "apart p is"
    and step: "\<And>i Q. i \<in> set is \<Longrightarrow> midway is F F' Q \<Longrightarrow> Q i = F i \<Longrightarrow>
      run cat_step (f i) (patched p is s X Q) = Some (patched p is s X (Q(i := F' i)))"
  shows "run cat_step (all_sites f is) (patched p is s X F) = Some (patched p is s X F')"
proof -
  have dist: "distinct is" using ap by (simp add: apart_def distinct_map)
  have "run cat_step (all_sites f js) (patched p is s X Q) = Some (patched p is s X (\<lambda>j. if j \<in> set js then F' j else Q j))"
    if "set js \<subseteq> set is" "distinct js" "midway is F F' Q" "\<forall>j\<in>set js. Q j = F j" for js Q
    using that
  proof (induction js arbitrary: Q)
    case (Cons i js)
    have i: "run cat_step (f i) (patched p is s X Q) = Some (patched p is s X (Q(i := F' i)))"
      using Cons.prems by (intro step) auto
    have m: "midway is F F' (Q(i := F' i))" using Cons.prems(3) by (auto simp: midway_def)
    have q: "\<forall>j\<in>set js. (Q(i := F' i)) j = F j" using Cons.prems by auto
    have "(\<lambda>j. if j \<in> set js then F' j else (Q(i := F' i)) j) = (\<lambda>j. if j \<in> set (i # js) then F' j else Q j)"
      by auto
    moreover have "run cat_step (all_sites f js) (patched p is s X (Q(i := F' i)))
        = Some (patched p is s X (\<lambda>j. if j \<in> set js then F' j else (Q(i := F' i)) j))"
      by (rule Cons.IH [OF _ _ m q]) (use Cons.prems in auto)
    ultimately show ?case
      by (simp only: all_sites_def list.map concat.simps run_append i option.case)
  qed (simp add: all_sites_def)
  from this [of "is" F] dist
  have "run cat_step (all_sites f is) (patched p is s X F)
      = Some (patched p is s X (\<lambda>j. if j \<in> set is then F' j else F j))"
    by (simp add: midway_def)
  moreover have "patched p is s X (\<lambda>j. if j \<in> set is then F' j else F j) = patched p is s X F'"
    by (rule patched_cong) simp
  ultimately show ?thesis by simp
qed

text \<open>A stage that only looks.\<close>

lemma run_check_stage:
  assumes "apart p is" "\<And>i. i \<in> set is \<Longrightarrow> run cat_step (f i) (patched p is s X F) = Some (patched p is s X F)"
  shows "run cat_step (all_sites f is) (patched p is s X F) = Some (patched p is s X F)"
proof -
  have "run cat_step (all_sites f js) (patched p is s X F) = Some (patched p is s X F)" if "set js \<subseteq> set is" for js
    using that assms(2) by (induction js) (auto simp: all_sites_def run_append)
  then show ?thesis by blast
qed


section \<open>Catalogs a flip can start from\<close>

definition tab_ok :: "Tab \<Rightarrow> bool" where
  "tab_ok T \<longleftrightarrow>
     tb_required T \<subseteq> tb_cols T
     \<and> (\<forall>n fd. tb_fks T n = Some fd \<longrightarrow>
          fd_col fd \<in> tb_cols T \<and> tb_checks T n = None \<and> (\<forall>cs. tb_pk T \<noteq> Some (n, cs)))
     \<and> (\<forall>n c. tb_checks T n = Some c \<longrightarrow> c \<in> tb_cols T \<and> (\<forall>cs. tb_pk T \<noteq> Some (n, cs)))
     \<and> (\<forall>n cs. tb_pk T = Some (n, cs) \<longrightarrow> set cs \<subseteq> tb_cols T)
     \<and> (\<forall>n cs u. tb_indexes T n = Some (cs, u) \<longrightarrow> set cs \<subseteq> tb_cols T)"

definition nn_name :: "string \<Rightarrow> string \<Rightarrow> string" where
  "nn_name t col = t @ ''_'' @ shadow col @ ''_nn''"

definition site_ready :: "Catalog \<Rightarrow> Site \<Rightarrow> bool" where
  "site_ready s i \<longleftrightarrow>
     (let t = si_tab i; T = s t; c = si_col i
      in c \<in> tb_cols T \<and> shadow c \<notin> tb_cols T
         \<and> (\<exists>fd. tb_fks T (si_cons i) = Some fd \<and> fd_col fd = c)
         \<and> \<not> referenced s t c \<and> \<not> referenced s t (shadow c) \<and> index_free s (shadow_index t c)
         \<and> constraint_free T (shadow_fk t c) \<and> constraint_free T (nn_name t c))"

definition parent_ready :: "Catalog \<Rightarrow> string \<Rightarrow> bool" where
  "parent_ready s p \<longleftrightarrow>
     ''id'' \<in> tb_cols (s p) \<and> shadow ''id'' \<notin> tb_cols (s p)
     \<and> tb_pk (s p) = Some (pkey_name p, [''id''])
     \<and> \<not> referenced s p (shadow ''id'') \<and> index_free s (shadow_index p ''id'')
     \<and> constraint_free (s p) (nn_name p ''id'')"

definition ready :: "Catalog \<Rightarrow> string \<Rightarrow> Site list \<Rightarrow> bool" where
  "ready s p is \<longleftrightarrow>
     apart p is \<and> (\<forall>t. tab_ok (s t)) \<and> parent_ready s p \<and> (\<forall>i\<in>set is. site_ready s i)
     \<and> (\<forall>u n fd. tb_fks (s u) n = Some fd \<longrightarrow> fd_target fd = p \<longrightarrow> fd_target_col fd = ''id'' \<longrightarrow>
          (\<exists>i\<in>set is. u = si_tab i \<and> n = si_cons i))
     \<and> distinct (shadow_index p ''id'' # map (\<lambda>i. shadow_index (si_tab i) (si_col i)) is)"

text \<open>The tables after the flip.\<close>

definition site_after :: "string \<Rightarrow> Site \<Rightarrow> Tab \<Rightarrow> Tab" where
  "site_after p i T =
     (let c = si_col i; W = without_column c T
      in W\<lparr>tb_cols := tb_cols T,
           tb_required := (tb_required T - {c}) \<union> (if si_required i then {c} else {}),
           tb_fks := (tb_fks W)(si_cons i \<mapsto>
             \<lparr>fd_col = c, fd_target = p, fd_target_col = ''id'',
              fd_action = (case si_action i of Some a \<Rightarrow> a | None \<Rightarrow> NoAction),
              fd_def = si_def i, fd_ini = si_def i \<and> si_ini i\<rparr>),
           tb_indexes := (tb_indexes W)(shadow_index (si_tab i) c \<mapsto> ([c], si_unique i)),
           tb_trigger := False, tb_function := False\<rparr>)"

definition parent_after :: "string \<Rightarrow> Tab \<Rightarrow> Tab" where
  "parent_after p T =
     (without_column ''id'' T)\<lparr>tb_cols := tb_cols T, tb_required := insert ''id'' (tb_required T),
       tb_pk := Some (pkey_name p, [''id'']), tb_trigger := False, tb_function := False\<rparr>"

subsection \<open>The stages of one table\<close>

definition at_prep :: "string \<Rightarrow> Tab \<Rightarrow> Tab" where
  "at_prep c T = T\<lparr>tb_cols := insert (shadow c) (tb_cols T), tb_trigger := True, tb_function := True\<rparr>"

definition at_index :: "string \<Rightarrow> string \<Rightarrow> bool \<Rightarrow> Tab \<Rightarrow> Tab" where
  "at_index t c uniq T =
     (at_prep c T)\<lparr>tb_indexes := (tb_indexes T)(shadow_index t c \<mapsto> ([shadow c], uniq))\<rparr>"

definition shadow_row :: "string \<Rightarrow> Site \<Rightarrow> FkDef" where
  "shadow_row p i =
     \<lparr>fd_col = shadow (si_col i), fd_target = p, fd_target_col = shadow ''id'', fd_action = NoAction,
      fd_def = si_def i, fd_ini = si_def i \<and> si_ini i\<rparr>"

definition at_fk :: "string \<Rightarrow> Site \<Rightarrow> Tab \<Rightarrow> Tab" where
  "at_fk p i T =
     (at_index (si_tab i) (si_col i) (si_unique i) T)\<lparr>tb_fks :=
        (tb_fks T)(shadow_fk (si_tab i) (si_col i) \<mapsto> shadow_row p i)\<rparr>"

definition at_required :: "string \<Rightarrow> Site \<Rightarrow> Tab \<Rightarrow> Tab" where
  "at_required p i T =
     (at_fk p i T)\<lparr>tb_required := (if si_required i then insert (shadow (si_col i)) else id) (tb_required T)\<rparr>"

definition at_drop :: "string \<Rightarrow> Site \<Rightarrow> Tab \<Rightarrow> Tab" where
  "at_drop p i T =
     (at_required p i T)\<lparr>tb_fks :=
        ((tb_fks T)(shadow_fk (si_tab i) (si_col i) \<mapsto> shadow_row p i))(si_cons i := None)\<rparr>"

lemma shadow_ne [simp]: "shadow c \<noteq> c" "c \<noteq> shadow c"
  by (simp_all add: SHADOW_SUFFIX_def)

lemma names_ne [simp]:
  "nn_name t c \<noteq> shadow_fk u d" "shadow_fk u d \<noteq> nn_name t c"
  by (auto simp: nn_name_def shadow_fk_def dest: arg_cong [where f = last])

lemma not_null_shadow:
  "not_null_stmts t (shadow c) =
     [AddNotNullCheck t (nn_name t c) (shadow c), ValidateConstraint t (nn_name t c),
      SetColumnNotNull t (shadow c), DropConstraint t (nn_name t c)]"
  by (simp add: not_null_stmts_def nn_name_def Let_def)

lemma readyD:
  assumes "ready s p is"
  shows "apart p is" "tab_ok (s t)" "parent_ready s p" "i \<in> set is \<Longrightarrow> site_ready s i"
  using assms by (simp_all add: ready_def)

lemma siteD:
  assumes "ready s p is" "i \<in> set is"
  shows "si_col i \<in> tb_cols (s (si_tab i))" "shadow (si_col i) \<notin> tb_cols (s (si_tab i))"
    "\<exists>fd. tb_fks (s (si_tab i)) (si_cons i) = Some fd \<and> fd_col fd = si_col i"
    "\<not> referenced s (si_tab i) (si_col i)" "index_free s (shadow_index (si_tab i) (si_col i))"
    "constraint_free (s (si_tab i)) (shadow_fk (si_tab i) (si_col i))"
    "constraint_free (s (si_tab i)) (nn_name (si_tab i) (si_col i))" "si_tab i \<noteq> p"
    "shadow_index (si_tab i) (si_col i) \<noteq> shadow_index p ''id''"
    "si_cons i \<noteq> shadow_fk (si_tab i) (si_col i)" "\<not> referenced s (si_tab i) (shadow (si_col i))"
proof -
  have ap: "apart p is" and d: "distinct (shadow_index p ''id'' # map (\<lambda>i. shadow_index (si_tab i) (si_col i)) is)"
    using assms(1) by (simp_all add: ready_def)
  show "si_tab i \<noteq> p" using ap assms(2) by (auto simp: apart_def)
  show "shadow_index (si_tab i) (si_col i) \<noteq> shadow_index p ''id''" using d assms(2) by force
  from readyD(4) [OF assms] show
    "si_col i \<in> tb_cols (s (si_tab i))" "shadow (si_col i) \<notin> tb_cols (s (si_tab i))"
    "\<exists>fd. tb_fks (s (si_tab i)) (si_cons i) = Some fd \<and> fd_col fd = si_col i"
    "\<not> referenced s (si_tab i) (si_col i)" "index_free s (shadow_index (si_tab i) (si_col i))"
    "constraint_free (s (si_tab i)) (shadow_fk (si_tab i) (si_col i))"
    "constraint_free (s (si_tab i)) (nn_name (si_tab i) (si_col i))"
    "si_cons i \<noteq> shadow_fk (si_tab i) (si_col i)" "\<not> referenced s (si_tab i) (shadow (si_col i))"
    by (auto simp: site_ready_def Let_def constraint_free_def)
qed

lemma index_free_patched:
  assumes "index_free s n" "tb_indexes X n = None" "\<And>i. i \<in> set is \<Longrightarrow> tb_indexes (F i) n = None"
  shows "index_free (patched p is s X F) n"
  unfolding index_free_def
proof
  fix t
  show "tb_indexes (patched p is s X F t) n = None"
    using patched_cases [of t p "is" s X F] assms by (auto simp: index_free_def)
qed

lemma stage_prep:
  assumes "ready s p is"
  shows "run cat_step (all_sites site_prep is) (patched p is s X (\<lambda>i. s (si_tab i)))
    = Some (patched p is s X (\<lambda>i. at_prep (si_col i) (s (si_tab i))))"
proof (rule run_stage)
  show "apart p is" using assms by (simp add: readyD)
  fix i Q
  assume "i \<in> set is" "Q i = s (si_tab i)"
  with readyD(1) [OF assms] siteD [OF assms] show "run cat_step (site_prep i) (patched p is s X Q)
      = Some (patched p is s X (Q(i := at_prep (si_col i) (s (si_tab i)))))"
    by (simp add: site_prep_def patched_site patched_upd_site at_prep_def)
qed

lemma stage_index:
  assumes "ready s p is" "\<And>n. n \<noteq> shadow_index p ''id'' \<Longrightarrow> tb_indexes X n = tb_indexes (s p) n"
  shows "run cat_step (all_sites site_index is) (patched p is s X (\<lambda>i. at_prep (si_col i) (s (si_tab i))))
    = Some (patched p is s X (\<lambda>i. at_index (si_tab i) (si_col i) (si_unique i) (s (si_tab i))))"
proof (rule run_stage)
  show "apart p is" using assms by (simp add: readyD)
  fix i Q
  assume i: "i \<in> set is" and Q: "Q i = at_prep (si_col i) (s (si_tab i))"
    and m: "midway is (\<lambda>i. at_prep (si_col i) (s (si_tab i)))
        (\<lambda>i. at_index (si_tab i) (si_col i) (si_unique i) (s (si_tab i))) Q"
  let ?n = "shadow_index (si_tab i) (si_col i)"
  have free: "index_free s ?n" using siteD [OF assms(1) i] by simp
  have "index_free (patched p is s X Q) ?n"
  proof (rule index_free_patched [OF free])
    show "tb_indexes X ?n = None"
      using assms(2) [of ?n] siteD [OF assms(1) i] free by (simp add: index_free_def)
    fix j
    assume j: "j \<in> set is"
    have "?n \<noteq> shadow_index (si_tab j) (si_col j)" if "j \<noteq> i"
      using assms(1) i j that by (auto simp: ready_def inj_on_def distinct_map)
    then show "tb_indexes (Q j) ?n = None"
      using m j Q free
      by (cases "j = i") (auto simp: midway_def at_prep_def at_index_def index_free_def)
  qed
  with readyD [OF assms(1)] i Q show "run cat_step (site_index i) (patched p is s X Q)
      = Some (patched p is s X (Q(i := at_index (si_tab i) (si_col i) (si_unique i) (s (si_tab i)))))"
    by (simp add: site_index_def patched_site patched_upd_site at_index_def) (simp add: at_prep_def)
qed

lemma stage_fk:
  assumes "ready s p is" "shadow ''id'' \<in> tb_cols X" "unique_on X (shadow ''id'')"
  shows "run cat_step (all_sites (site_fk p) is)
      (patched p is s X (\<lambda>i. at_index (si_tab i) (si_col i) (si_unique i) (s (si_tab i))))
    = Some (patched p is s X (\<lambda>i. at_fk p i (s (si_tab i))))"
proof (rule run_stage)
  show "apart p is" using assms by (simp add: readyD)
  fix i Q
  assume i: "i \<in> set is" and Q: "Q i = at_index (si_tab i) (si_col i) (si_unique i) (s (si_tab i))"
  have "constraint_free (Q i) (shadow_fk (si_tab i) (si_col i))"
    using siteD(6) [OF assms(1) i] Q by (simp add: constraint_free_def at_index_def at_prep_def)
  then show "run cat_step (site_fk p i) (patched p is s X Q)
      = Some (patched p is s X (Q(i := at_fk p i (s (si_tab i)))))"
    using i Q assms readyD(1) [OF assms(1)]
    by (simp add: site_fk_def shadow_fk_stmts_def patched_site patched_upd_site at_fk_def shadow_row_def)
      (simp add: at_index_def at_prep_def)
qed

lemma stage_required:
  assumes "ready s p is"
  shows "run cat_step (all_sites site_required is) (patched p is s X (\<lambda>i. at_fk p i (s (si_tab i))))
    = Some (patched p is s X (\<lambda>i. at_required p i (s (si_tab i))))"
proof (rule run_stage)
  show "apart p is" using assms by (simp add: readyD)
  fix i Q
  assume i: "i \<in> set is" and Q: "Q i = at_fk p i (s (si_tab i))"
  let ?n = "nn_name (si_tab i) (si_col i)"
  have free: "constraint_free (Q i) ?n"
    using siteD(7) [OF assms i] Q by (simp add: constraint_free_def at_fk_def at_index_def at_prep_def)
  then have "(tb_checks (Q i))(?n := None) = tb_checks (Q i)" "tb_fks (Q i) ?n = None"
    by (auto simp: constraint_free_def)
  note facts = this free i Q readyD(1) [OF assms]
  show "run cat_step (site_required i) (patched p is s X Q)
      = Some (patched p is s X (Q(i := at_required p i (s (si_tab i)))))"
  proof (cases "si_required i")
    case True
    with facts show ?thesis
      by (simp add: site_required_def not_null_shadow patched_site patched_upd_site at_required_def
          drop_constraint_of_def Let_def)
        (simp add: at_fk_def at_index_def at_prep_def)
  next
    case False
    then have "at_required p i (s (si_tab i)) = Q i" using Q
      by (simp add: at_required_def at_fk_def at_index_def at_prep_def)
    with False show ?thesis by (simp add: site_required_def)
  qed
qed

lemma stage_drop:
  assumes "ready s p is"
  shows "run cat_step (all_sites site_drop is) (patched p is s X (\<lambda>i. at_required p i (s (si_tab i))))
    = Some (patched p is s X (\<lambda>i. at_drop p i (s (si_tab i))))"
proof (rule run_stage)
  show "apart p is" using assms by (simp add: readyD)
  fix i Q
  assume i: "i \<in> set is" and Q: "Q i = at_required p i (s (si_tab i))"
  then have "tb_fks (Q i) (si_cons i) \<noteq> None" using siteD(3) [OF assms i]
    by (auto simp: at_required_def at_fk_def)
  with i Q readyD(1) [OF assms] show "run cat_step (site_drop i) (patched p is s X Q)
      = Some (patched p is s X (Q(i := at_drop p i (s (si_tab i)))))"
    by (simp add: site_drop_def patched_site patched_upd_site drop_constraint_of_def Let_def)
      (simp add: at_drop_def at_required_def at_fk_def)
qed

end
