(* ===== verification/Flip_Run.thy ===== *)
theory Flip_Run
  imports Flip_Stages
begin

section \<open>Swapping a column for its shadow\<close>

lemma suffix_ne [simp]: "SHADOW_SUFFIX \<noteq> []" "[] \<noteq> SHADOW_SUFFIX"
  by (simp_all add: SHADOW_SUFFIX_def)

lemma rename_cols: "c \<in> C \<Longrightarrow> shadow c \<notin> C \<Longrightarrow> renamed (shadow c) c ` (insert (shadow c) C - {c}) = C"
  by (auto simp: renamed_def image_iff)

lemma rename_required:
  assumes "R \<subseteq> C" "shadow c \<notin> C"
  shows "renamed (shadow c) c ` (R - {c}) = R - {c}"
    and "renamed (shadow c) c ` (insert (shadow c) R - {c}) = insert c R"
proof -
  have n: "renamed (shadow c) c d = d" if "d \<in> R" for d
    using assms that by (auto simp: renamed_def)
  then show first: "renamed (shadow c) c ` (R - {c}) = R - {c}"
    by force
  have "insert (shadow c) R - {c} = insert (shadow c) (R - {c})" by auto
  with first show "renamed (shadow c) c ` (insert (shadow c) R - {c}) = insert c R"
    by (auto simp: renamed_def)
qed

lemma rename_list: "set cs \<subseteq> C \<Longrightarrow> shadow c \<notin> C \<Longrightarrow> map (renamed (shadow c) c) cs = cs"
  by (rule map_idI) (auto simp: renamed_def)

lemma tab_okD:
  assumes "tab_ok T"
  shows "tb_required T \<subseteq> tb_cols T" "tb_fks T n = Some fd \<Longrightarrow> fd_col fd \<in> tb_cols T"
    "tb_fks T n = Some fd \<Longrightarrow> tb_checks T n = None" "tb_fks T n = Some fd \<Longrightarrow> tb_pk T \<noteq> Some (n, cs)"
    "tb_checks T n = Some c \<Longrightarrow> c \<in> tb_cols T" "tb_checks T n = Some c \<Longrightarrow> tb_pk T \<noteq> Some (n, cs)"
    "tb_pk T = Some (n, cs) \<Longrightarrow> set cs \<subseteq> tb_cols T" "tb_indexes T n = Some (cs, u) \<Longrightarrow> set cs \<subseteq> tb_cols T"
  using assms unfolding tab_ok_def by blast+

lemma rename_maps:
  assumes "tab_ok T" "shadow c \<notin> tb_cols T"
  shows "map_option (fd_col_update (renamed (shadow c) c)) \<circ> keep P (tb_fks T) = keep P (tb_fks T)"
    and "map_option (renamed (shadow c) c) \<circ> keep Q (tb_checks T) = keep Q (tb_checks T)"
    and "map_option (apfst (map (renamed (shadow c) c))) \<circ> keep R (tb_indexes T) = keep R (tb_indexes T)"
proof -
  have "fd_col_update (renamed (shadow c) c) fd = fd" if "tb_fks T n = Some fd" for n fd
    using tab_okD(2) [OF assms(1) that] assms(2) by (cases fd) (auto simp: renamed_def)
  then show "map_option (fd_col_update (renamed (shadow c) c)) \<circ> keep P (tb_fks T) = keep P (tb_fks T)"
    by (auto simp: keep_def fun_eq_iff split: option.split)
  have "renamed (shadow c) c d = d" if "tb_checks T n = Some d" for n d
    using tab_okD(5) [OF assms(1) that] assms(2) by (auto simp: renamed_def)
  then show "map_option (renamed (shadow c) c) \<circ> keep Q (tb_checks T) = keep Q (tb_checks T)"
    by (auto simp: keep_def fun_eq_iff split: option.split)
  have "map (renamed (shadow c) c) cs = cs" if "tb_indexes T n = Some (cs, u)" for n cs u
    using rename_list tab_okD(8) [OF assms(1) that] assms(2) by blast
  then show "map_option (apfst (map (renamed (shadow c) c))) \<circ> keep R (tb_indexes T) = keep R (tb_indexes T)"
    by (auto simp: keep_def fun_eq_iff split: option.split)
qed

lemma keep_upd: "keep P (m(n \<mapsto> v)) = (if P v then (keep P m)(n \<mapsto> v) else (keep P m)(n := None))"
  by (auto simp: keep_def fun_eq_iff)

lemma keep_del: "keep P (m(n := None)) = (keep P m)(n := None)"
  by (auto simp: keep_def fun_eq_iff)

lemma comp_upd: "map_option f \<circ> m(n \<mapsto> v) = (map_option f \<circ> m)(n \<mapsto> f v)"
  "map_option f \<circ> m(n := None) = (map_option f \<circ> m)(n := None)"
  by (auto simp: fun_eq_iff)

section \<open>References to a column\<close>

lemma referenced_patched:
  assumes "\<And>u n fd. u \<noteq> p \<Longrightarrow> u \<notin> si_tab ` set is \<Longrightarrow> tb_fks (s u) n = Some fd \<Longrightarrow>
      \<not> (fd_target fd = t \<and> fd_target_col fd = c)"
    and "\<And>n fd. tb_fks X n = Some fd \<Longrightarrow> \<not> (fd_target fd = t \<and> fd_target_col fd = c)"
    and "\<And>i n fd. i \<in> set is \<Longrightarrow> tb_fks (F i) n = Some fd \<Longrightarrow> \<not> (fd_target fd = t \<and> fd_target_col fd = c)"
  shows "\<not> referenced (patched p is s X F) t c"
proof
  assume "referenced (patched p is s X F) t c"
  then obtain u n fd where fd: "tb_fks (patched p is s X F u) n = Some fd" "fd_target fd = t" "fd_target_col fd = c"
    by (auto simp: referenced_def)
  from patched_cases [of u p "is" s X F] show False
  proof (elim disjE conjE bexE)
    assume "patched p is s X F u = X"
    with fd assms(2) show False by metis
  next
    fix i assume "i \<in> set is" "patched p is s X F u = F i"
    with fd assms(3) show False by metis
  next
    assume "u \<noteq> p" "u \<notin> si_tab ` set is" "patched p is s X F u = s u"
    with fd assms(1) show False by metis
  qed
qed

lemma retarget_id:
  assumes "\<And>n fd. tb_fks T n = Some fd \<Longrightarrow> \<not> (fd_target fd = t \<and> fd_target_col fd = a)"
  shows "retarget t a b T = T"
proof -
  have "(if fd_target fd = t then fd\<lparr>fd_target_col := renamed a b (fd_target_col fd)\<rparr> else fd) = fd"
    if "tb_fks T n = Some fd" for n fd
    using assms [OF that] by (cases fd) (auto simp: renamed_def)
  then have "(map_option (\<lambda>fd. if fd_target fd = t then fd\<lparr>fd_target_col := renamed a b (fd_target_col fd)\<rparr>
      else fd) \<circ> tb_fks T) n = tb_fks T n" for n
    by (cases "tb_fks T n") simp_all
  then have "map_option (\<lambda>fd. if fd_target fd = t then fd\<lparr>fd_target_col := renamed a b (fd_target_col fd)\<rparr>
      else fd) \<circ> tb_fks T = tb_fks T"
    by (rule ext)
  then show ?thesis by (simp add: retarget_def)
qed

lemma retarget_unreferenced: "\<not> referenced s t a \<Longrightarrow> retarget t a b \<circ> s = s"
  by (rule ext) (auto simp: referenced_def intro!: retarget_id)

lemma retarget_patched:
  assumes "\<not> referenced s t a"
  shows "retarget t a b \<circ> patched p is s X F = patched p is s (retarget t a b X) (retarget t a b \<circ> F)"
proof
  fix u
  have "retarget t a b (s u) = s u"
    using fun_cong [OF retarget_unreferenced [OF assms, of b], of u] by simp
  then show "(retarget t a b \<circ> patched p is s X F) u
      = patched p is s (retarget t a b X) (retarget t a b \<circ> F) u"
    by (auto simp: patched_def split: option.split)
qed


section \<open>The parent\<close>

definition key_required :: "string \<Rightarrow> string \<Rightarrow> Tab \<Rightarrow> Tab" where
  "key_required t c T = (at_index t c True T)\<lparr>tb_required := insert (shadow c) (tb_required T)\<rparr>"

lemma constraint_free_pk:
  assumes "tab_ok T" "tb_pk T = Some (n, cs)"
  shows "tb_fks T n = None" "tb_checks T n = None"
  using tab_okD(4,6) [OF assms(1)] assms(2) by (metis option.exhaust)+

lemma renamed_shadow: "renamed (shadow c) c (shadow c) = c"
  by (simp add: renamed_def)

lemma promoted_key:
  assumes "tab_ok T" "shadow c \<notin> tb_cols T" "c \<in> tb_cols T" "tb_indexes T (shadow_index t c) = None"
  shows "with_renamed (shadow c) c ((without_column c ((key_required t c T)\<lparr>tb_pk := Some (k, [shadow c]),
      tb_indexes := tb_indexes T\<rparr>))\<lparr>tb_trigger := False, tb_function := False\<rparr>)
    = (without_column c T)\<lparr>tb_cols := tb_cols T, tb_required := insert c (tb_required T),
       tb_pk := Some (k, [c]), tb_trigger := False, tb_function := False\<rparr>"
  using rename_maps [OF assms(1,2)] rename_cols [OF assms(3,2)]
    rename_required(2) [OF tab_okD(1) [OF assms(1)] assms(2)]
  by (intro Tab.equality)
    (simp_all add: with_renamed_def without_column_def key_required_def at_index_def at_prep_def renamed_shadow
      del: image_insert insert_Diff_if)

lemma foreign_keys_to_parent:
  assumes "ready s p is" "tb_fks (s u) n = Some fd" "fd_target fd = p" "fd_target_col fd = ''id''"
  shows "\<exists>i\<in>set is. u = si_tab i \<and> n = si_cons i"
  using assms by (simp add: ready_def)

lemma run_promote:
  assumes r: "ready s p is"
    and F: "\<And>i n fd. i \<in> set is \<Longrightarrow> tb_fks (F i) n = Some fd \<Longrightarrow>
      \<not> (fd_target fd = p \<and> fd_target_col fd = ''id'')"
  shows "run cat_step (parent_promote p) (patched p is s (key_required p ''id'' (s p)) F)
    = Some (patched p is s (parent_after p (s p)) (retarget p (shadow ''id'') ''id'' \<circ> F))"
proof -
  let ?T = "s p" and ?c = "''id''"
  have pr: "?c \<in> tb_cols ?T" "shadow ?c \<notin> tb_cols ?T" "tb_pk ?T = Some (pkey_name p, [?c])"
    "\<not> referenced s p (shadow ?c)" "tb_indexes ?T (shadow_index p ?c) = None"
    using readyD(3) [OF r] by (simp_all add: parent_ready_def index_free_def)
  have nr: "\<not> referenced (patched p is s X F) p ?c" if "tb_fks X = tb_fks ?T" for X
  proof (rule referenced_patched)
    show "\<not> (fd_target fd = p \<and> fd_target_col fd = ?c)" if "tb_fks X n = Some fd" for n fd
      using foreign_keys_to_parent [OF r, of p n fd] readyD(1) [OF r] that \<open>tb_fks X = tb_fks ?T\<close>
      by (auto simp: apart_def)
  qed (use F foreign_keys_to_parent [OF r] in blast)+
  have cf: "tb_fks ?T (pkey_name p) = None" "tb_checks ?T (pkey_name p) = None"
    using constraint_free_pk [OF readyD(2) [OF r] pr(3)] by simp_all
  have i: "(tb_indexes ?T)(shadow_index p ?c := None) = tb_indexes ?T" using pr(5) by auto
  let ?Y = "parent_after p ?T"
  have "retarget p (shadow ?c) ?c ?Y = ?Y"
  proof (rule retarget_id)
    fix n fd
    assume "tb_fks ?Y n = Some fd"
    then have "tb_fks ?T n = Some fd"
      by (auto simp: parent_after_def without_column_def keep_def split: option.splits if_splits)
    with pr(4) show "\<not> (fd_target fd = p \<and> fd_target_col fd = shadow ?c)"
      by (auto simp: referenced_def)
  qed
  with retarget_patched [OF pr(4), of ?c p "is" ?Y F]
  have "retarget p (shadow ?c) ?c \<circ> patched p is s ?Y F
      = patched p is s ?Y (retarget p (shadow ?c) ?c \<circ> F)" by simp
  moreover have "run cat_step (parent_promote p) (patched p is s (key_required p ?c ?T) F)
      = Some (retarget p (shadow ?c) ?c \<circ> patched p is s ?Y F)"
  proof -
    let ?K = "key_required p ?c ?T"
    let ?K1 = "?K\<lparr>tb_pk := None\<rparr>"
    let ?K2 = "?K\<lparr>tb_pk := Some (pkey_name p, [shadow ?c]), tb_indexes := tb_indexes ?T\<rparr>"
    let ?K3 = "without_column ?c ?K2"
    let ?K5 = "?K3\<lparr>tb_trigger := False, tb_function := False\<rparr>"
    have fields: "tb_fks ?K = tb_fks ?T" "tb_checks ?K = tb_checks ?T" "tb_pk ?K = tb_pk ?T"
      "tb_indexes ?K = (tb_indexes ?T)(shadow_index p ?c \<mapsto> ([shadow ?c], True))"
      "tb_cols ?K = insert (shadow ?c) (tb_cols ?T)" "tb_required ?K = insert (shadow ?c) (tb_required ?T)"
      "tb_trigger ?K" "tb_function ?K"
      by (simp_all add: key_required_def at_index_def at_prep_def)
    have 1: "cat_step (DropConstraint p (pkey_name p)) (patched p is s ?K F) = Some (patched p is s ?K1 F)"
      using nr [of ?K] by (simp add: drop_constraint_of_def Let_def fields cf pr(3))
    have 2: "cat_step (PrimaryKeyUsingIndex p (pkey_name p) (shadow_index p ?c)) (patched p is s ?K1 F)
        = Some (patched p is s ?K2 F)"
      using i by (simp add: fields cf constraint_free_def)
        (intro arg_cong [where f = "\<lambda>X. patched p is s X F"] Tab.equality;
          simp add: key_required_def at_index_def at_prep_def)
    have 3: "cat_step (DropTableColumn p ?c) (patched p is s ?K2 F) = Some (patched p is s ?K3 F)"
      using nr [of ?K2] pr(1) by (simp add: drop_column_def fields)
    have 4: "?c \<notin> tb_cols ?K5" "shadow ?c \<in> tb_cols ?K5" "tb_trigger ?K3" "tb_function ?K3"
      by (simp_all add: without_column_def fields)
    have "with_renamed (shadow ?c) ?c ?K5 = ?Y"
      using promoted_key [OF readyD(2) [OF r] pr(2,1,5)] by (simp add: parent_after_def)
    with 1 2 3 4 pr(1) show ?thesis
      by (simp add: parent_promote_def fields del: cat_step.simps(8,15,19))
  qed
  ultimately show ?thesis by simp
qed

section \<open>The references\<close>

text \<open>The row of a site after the parent was renamed under it.\<close>

definition new_row :: "string \<Rightarrow> Site \<Rightarrow> FkDef" where
  "new_row p i = (shadow_row p i)\<lparr>fd_target_col := ''id''\<rparr>"

definition at_swap :: "string \<Rightarrow> Site \<Rightarrow> Tab \<Rightarrow> Tab" where
  "at_swap p i T =
     (at_required p i T)\<lparr>tb_fks :=
        ((tb_fks T)(shadow_fk (si_tab i) (si_col i) \<mapsto> new_row p i))(si_cons i := None)\<rparr>"

lemma retarget_drop:
  assumes "ready s p is" "i \<in> set is"
  shows "retarget p (shadow ''id'') ''id'' (at_drop p i (s (si_tab i))) = at_swap p i (s (si_tab i))"
proof -
  define sid where "sid = shadow ''id''"
  let ?T = "s (si_tab i)"
  let ?f = "\<lambda>fd. if fd_target fd = p then fd\<lparr>fd_target_col := renamed sid ''id'' (fd_target_col fd)\<rparr> else fd"
  have "?f fd = fd" if "tb_fks ?T n = Some fd" for n fd
  proof -
    have "\<not> referenced s p sid" using readyD(3) [OF assms(1)] by (simp add: parent_ready_def sid_def)
    with that have "fd_target fd = p \<Longrightarrow> fd_target_col fd \<noteq> sid" by (metis referenced_def)
    then show ?thesis by (cases "fd_target fd = p"; cases fd) (simp_all add: renamed_def)
  qed
  then have "(map_option ?f \<circ> tb_fks ?T) n = tb_fks ?T n" for n
    by (cases "tb_fks ?T n") simp_all
  then have m: "map_option ?f \<circ> tb_fks ?T = tb_fks ?T" by (rule ext)
  have "shadow_row p i = \<lparr>fd_col = shadow (si_col i), fd_target = p, fd_target_col = sid, fd_action = NoAction,
      fd_def = si_def i, fd_ini = si_def i \<and> si_ini i\<rparr>"
    "new_row p i = \<lparr>fd_col = shadow (si_col i), fd_target = p, fd_target_col = ''id'', fd_action = NoAction,
      fd_def = si_def i, fd_ini = si_def i \<and> si_ini i\<rparr>"
    by (simp_all add: shadow_row_def new_row_def sid_def)
  with m have "retarget p sid ''id'' (at_drop p i ?T) = at_swap p i ?T"
    by (simp add: retarget_def at_drop_def at_swap_def comp_upd renamed_def)
  then show ?thesis by (simp add: sid_def)
qed

lemma swapped_site:
  assumes r: "ready s p is" "i \<in> set is"
  defines "T \<equiv> s (si_tab i)" and "c \<equiv> si_col i"
  defines "W \<equiv> without_column c (at_swap p i T)"
  shows "with_renamed (shadow c) c (W\<lparr>tb_trigger := False, tb_function := False,
        tb_fks := (tb_fks W)(shadow_fk (si_tab i) c := None)\<rparr>)
      = (site_after p i T)\<lparr>tb_fks := (tb_fks (without_column c T))(si_cons i := None)\<rparr>"
    (is "?L = ?R")
proof (rule Tab.equality)
  note d = siteD [OF r, folded T_def c_def]
  note ok = readyD(2) [OF r(1), of "si_tab i", folded T_def]
  note defs = W_def with_renamed_def without_column_def site_after_def Let_def at_swap_def at_required_def
    at_fk_def at_index_def at_prep_def c_def [symmetric] keep_upd keep_del comp_upd
  show "tb_cols ?L = tb_cols ?R"
    using rename_cols [OF d(1,2)] by (simp add: defs del: image_insert insert_Diff_if)
  show "tb_required ?L = tb_required ?R"
    using rename_required [OF tab_okD(1) [OF ok] d(2)] by (simp add: defs del: image_insert insert_Diff_if)
  have "keep (\<lambda>fd. fd_col fd \<noteq> c) (tb_fks T) (shadow_fk (si_tab i) c) = None"
    using d(6) by (simp add: keep_def constraint_free_def)
  then show "tb_fks ?L = tb_fks ?R"
    using rename_maps(1) [OF ok d(2)]
    by (simp add: defs new_row_def shadow_row_def) (auto simp: fun_eq_iff)
  show "tb_checks ?L = tb_checks ?R" using rename_maps(2) [OF ok d(2)] by (simp add: defs)
  show "tb_indexes ?L = tb_indexes ?R"
    using rename_maps(3) [OF ok d(2)] by (simp add: defs renamed_shadow)
  show "tb_pk ?L = tb_pk ?R"
    using rename_list [OF tab_okD(7) [OF ok] d(2)] by (auto simp: defs split: option.split)
qed (simp_all add: W_def with_renamed_def site_after_def Let_def)

text \<open>The last stage of a site.\<close>

lemma swap_fields:
  "tb_trigger (at_swap p i T)" "tb_function (at_swap p i T)"
  "tb_cols (at_swap p i T) = insert (shadow (si_col i)) (tb_cols T)"
  "tb_fks (at_swap p i T) = ((tb_fks T)(shadow_fk (si_tab i) (si_col i) \<mapsto> new_row p i))(si_cons i := None)"
  by (simp_all add: at_swap_def at_required_def at_fk_def at_index_def at_prep_def)

lemma old_key_row:
  assumes "tb_fks (at_swap p i T) n = Some fd \<or> tb_fks (site_after p i T) n = Some fd"
  shows "tb_fks T n = Some fd \<or> fd_target fd = p \<and> fd_target_col fd = ''id''"
  using assms by (auto simp: swap_fields site_after_def without_column_def keep_def Let_def new_row_def
      shadow_row_def split: if_splits option.splits)

lemma unreferenced_site:
  assumes r: "ready s p is" "i \<in> set is"
    and Q: "\<And>j n fd. j \<in> set is \<Longrightarrow> tb_fks (Q j) n = Some fd \<Longrightarrow>
      tb_fks (s (si_tab j)) n = Some fd \<or> fd_target fd = p \<and> fd_target_col fd = ''id''"
    and col: "\<not> referenced s (si_tab i) col"
  shows "\<not> referenced (patched p is s (parent_after p (s p)) Q) (si_tab i) col"
proof (rule referenced_patched)
  have p: "si_tab i \<noteq> p" using siteD(8) [OF r] .
  show "\<not> (fd_target fd = si_tab i \<and> fd_target_col fd = col)" if "tb_fks (s u) n = Some fd" for u n fd
    using col that by (auto simp: referenced_def)
  show "\<not> (fd_target fd = si_tab i \<and> fd_target_col fd = col)"
    if "tb_fks (parent_after p (s p)) n = Some fd" for n fd
  proof -
    have "tb_fks (s p) n = Some fd" using that
      by (auto simp: parent_after_def without_column_def keep_def split: option.splits if_splits)
    with col show ?thesis by (auto simp: referenced_def)
  qed
  show "\<not> (fd_target fd = si_tab i \<and> fd_target_col fd = col)"
    if "j \<in> set is" "tb_fks (Q j) n = Some fd" for j n fd
    using Q [OF that] col p by (auto simp: referenced_def)
qed

lemma stage_final:
  assumes r: "ready s p is"
  shows "run cat_step (all_sites (site_final p) is)
      (patched p is s (parent_after p (s p)) (\<lambda>i. at_swap p i (s (si_tab i))))
    = Some (patched p is s (parent_after p (s p)) (\<lambda>i. site_after p i (s (si_tab i))))"
proof (rule run_stage)
  show ap: "apart p is" using r by (simp add: readyD)
  fix i Q
  assume i: "i \<in> set is" and Qi: "Q i = at_swap p i (s (si_tab i))"
    and m: "midway is (\<lambda>i. at_swap p i (s (si_tab i))) (\<lambda>i. site_after p i (s (si_tab i))) Q"
  let ?t = "si_tab i" and ?c = "si_col i" and ?X = "parent_after p (s p)"
  let ?P = "\<lambda>Q. patched p is s ?X Q" and ?T = "s (si_tab i)"
  note d = siteD [OF r i] and ok = readyD(2) [OF r, of "si_tab i"]
  have Q: "tb_fks (s (si_tab j)) n = Some fd \<or> fd_target fd = p \<and> fd_target_col fd = ''id''"
    if "j \<in> set is" "tb_fks (Q j) n = Some fd" for j n fd
    using m that old_key_row [of p j "s (si_tab j)" n fd] by (auto simp: midway_def)
  let ?W = "without_column ?c (Q i)"
  let ?W2 = "?W\<lparr>tb_trigger := False, tb_function := False\<rparr>"
  let ?W3 = "?W\<lparr>tb_trigger := False, tb_function := False, tb_fks := (tb_fks ?W)(shadow_fk ?t ?c := None)\<rparr>"
  let ?W4 = "(site_after p i ?T)\<lparr>tb_fks := (tb_fks (without_column ?c ?T))(si_cons i := None)\<rparr>"
  have "\<not> referenced (?P Q) ?t ?c" by (rule unreferenced_site [OF r i Q d(4)])
  then have 1: "cat_step (DropTableColumn ?t ?c) (?P Q) = Some (?P (Q(i := ?W)))"
    using i ap d(1) Qi by (simp add: drop_column_def patched_site patched_upd_site swap_fields)
  have row: "tb_fks ?W (shadow_fk ?t ?c) \<noteq> None"
    using d(10) by (simp add: Qi without_column_def keep_def swap_fields new_row_def shadow_row_def)
  have 2: "cat_step (DropConstraint ?t (shadow_fk ?t ?c)) (?P (Q(i := ?W2))) = Some (?P (Q(i := ?W3)))"
    using i ap row by (simp add: drop_constraint_of_def Let_def patched_site patched_upd_site)
  have old: "tb_fks ?W4 n = Some fd \<Longrightarrow> tb_fks ?T n = Some fd" for n fd
    by (auto simp: without_column_def keep_def split: if_splits option.splits)
  have "\<not> referenced (?P (Q(i := ?W4))) ?t (shadow ?c)"
    using Q old by (intro unreferenced_site [OF r i _ d(11)]) (auto split: if_splits)
  note 3 = retarget_unreferenced [OF this]
  have "?c \<notin> tb_cols ?W3" "shadow ?c \<in> tb_cols ?W3"
    by (simp_all add: Qi without_column_def swap_fields)
  then have 4: "cat_step (RenameTableColumn ?t (shadow ?c) ?c) (?P (Q(i := ?W3))) = Some (?P (Q(i := ?W4)))"
    using i ap 3 swapped_site [OF r i] by (simp add: patched_site patched_upd_site Qi)
  have "tb_checks ?T (si_cons i) = None" "tb_pk ?T \<noteq> Some (si_cons i, cs)" for cs
    using d(3) tab_okD(3,4) [OF ok] by metis+
  then have cf: "constraint_free ?W4 (si_cons i)"
    by (auto simp: constraint_free_def site_after_def without_column_def keep_def Let_def split: option.split)
  have x: "unique_on ?X ''id''" "''id'' \<in> tb_cols ?X" "?c \<in> tb_cols ?W4"
    using readyD(3) [OF r] d(1) by (simp_all add: unique_on_def parent_after_def parent_ready_def site_after_def Let_def)
  have 5: "cat_step (AddFlipFk ?t (si_cons i) ?c p ''id'' (si_action i) (si_def i) (si_ini i) False)
      (?P (Q(i := ?W4))) = Some (?P (Q(i := site_after p i ?T)))"
  proof -
    have "(site_after p i ?T)\<lparr>tb_fks := (tb_fks (without_column ?c ?T))(si_cons i \<mapsto>
        \<lparr>fd_col = ?c, fd_target = p, fd_target_col = ''id'',
         fd_action = (case si_action i of Some a \<Rightarrow> a | None \<Rightarrow> NoAction),
         fd_def = si_def i, fd_ini = si_def i \<and> si_ini i\<rparr>)\<rparr> = site_after p i ?T"
      by (rule Tab.equality) (simp_all add: site_after_def Let_def)
    with cf show ?thesis
      using i ap x by (simp add: patched_site patched_upd_site)
  qed
  have 6: "tb_trigger ?W" "tb_function ?W" by (simp_all add: without_column_def Qi swap_fields)
  show "run cat_step (site_final p i) (?P Q) = Some (?P (Q(i := site_after p i ?T)))"
    using 1 2 4 5 6 i ap
    by (simp add: site_final_def Let_def patched_site patched_upd_site del: cat_step.simps(8,10,19,20))
qed

section \<open>The whole script\<close>

lemma run_not_null:
  assumes "shadow c \<in> tb_cols X" "constraint_free X (nn_name p c)"
  shows "run cat_step (not_null_stmts p (shadow c)) (patched p is s X F)
    = Some (patched p is s (X\<lparr>tb_required := insert (shadow c) (tb_required X)\<rparr>) F)"
proof -
  have "(tb_checks X)(nn_name p c := None) = tb_checks X" "tb_fks X (nn_name p c) = None"
    using assms(2) by (auto simp: constraint_free_def)
  with assms show ?thesis
    by (simp add: not_null_shadow drop_constraint_of_def Let_def)
qed

lemma run_site_script:
  assumes r: "ready s p is"
  shows "run cat_step (site_script p is) s
    = Some (patched p is s (parent_after p (s p)) (\<lambda>i. site_after p i (s (si_tab i))))"
proof -
  let ?T = "s p" and ?c = "''id''"
  let ?P = "patched p is s" and ?F = "\<lambda>i. s (si_tab i)" and ?ap = "at_prep ?c (s p)"
  have pr: "?c \<in> tb_cols ?T" "shadow ?c \<notin> tb_cols ?T" "\<not> referenced s p (shadow ?c)"
    "index_free s (shadow_index p ?c)" "constraint_free ?T (nn_name p ?c)"
    using readyD(3) [OF r] by (simp_all add: parent_ready_def)
  have ap: "apart p is" using r by (rule readyD)
  have prep: "run cat_step [AddShadow p (shadow ?c) [], CreateAutofill p [] Heer AscToDesc] (?P ?T ?F)
      = Some (?P ?ap ?F)"
    using pr by (simp add: at_prep_def)
  let ?F1 = "\<lambda>i. at_prep (si_col i) (s (si_tab i))"
  have cols: "?c \<in> tb_cols ?ap" "shadow ?c \<in> tb_cols ?ap" using pr by (simp_all add: at_prep_def)
  have bk: "run cat_step [Backfill p ?c (shadow ?c) Heer AscToDesc] (?P ?ap ?F1) = Some (?P ?ap ?F1)"
    and ver: "run cat_step [VerifyNoNull p (shadow ?c)] (?P ?ap ?F1) = Some (?P ?ap ?F1)"
    using cols by simp_all
  have sback: "run cat_step (all_sites site_backfill is) (?P ?ap ?F1) = Some (?P ?ap ?F1)"
    and sver: "run cat_step (all_sites site_verify is) (?P ?ap ?F1) = Some (?P ?ap ?F1)"
    using siteD(1) [OF r]
    by (auto intro!: run_check_stage [OF ap] simp: site_backfill_def site_verify_def patched_site [OF ap] at_prep_def)
  let ?ai = "at_index p ?c True ?T"
  have "index_free (?P ?ap ?F1) (shadow_index p ?c)"
    using pr(4) by (intro index_free_patched) (simp_all add: index_free_def at_prep_def)
  then have idx: "run cat_step [CreateConcurrently True (shadow_index p ?c) p (shadow ?c)] (?P ?ap ?F1) = Some (?P ?ai ?F1)"
    using cols by (simp add: at_index_def) (simp add: at_prep_def)
  let ?F2 = "\<lambda>i. at_fk p i (s (si_tab i))"
  have fields: "shadow ?c \<in> tb_cols ?ai" "unique_on ?ai (shadow ?c)" "constraint_free ?ai (nn_name p ?c)"
    "\<And>n. n \<noteq> shadow_index p ?c \<Longrightarrow> tb_indexes ?ai n = tb_indexes ?T n"
    using pr(5) by (auto simp: at_index_def at_prep_def unique_on_def constraint_free_def)
  have sidx: "run cat_step (all_sites site_index is) (?P ?ai ?F1)
      = Some (?P ?ai (\<lambda>i. at_index (si_tab i) (si_col i) (si_unique i) (s (si_tab i))))"
    by (rule stage_index [OF r]) (rule fields(4))
  have nn: "run cat_step (not_null_stmts p (shadow ?c)) (?P ?ai ?F2) = Some (?P (key_required p ?c ?T) ?F2)"
    using run_not_null [OF fields(1,3)] by (simp add: key_required_def) (simp add: at_index_def at_prep_def)
  have promote: "run cat_step (parent_promote p) (?P (key_required p ?c ?T) (\<lambda>i. at_drop p i (s (si_tab i))))
      = Some (?P (parent_after p ?T) (\<lambda>i. at_swap p i (s (si_tab i))))"
  proof -
    have old: "\<not> (fd_target fd = p \<and> fd_target_col fd = ?c)"
      if i: "i \<in> set is" and n: "tb_fks (at_drop p i (s (si_tab i))) n = Some fd" for i n fd
    proof
      assume fd: "fd_target fd = p \<and> fd_target_col fd = ?c"
      have "fd_target_col (shadow_row p i) \<noteq> ?c" by (simp add: shadow_row_def)
      then have "n \<noteq> si_cons i" "tb_fks (s (si_tab i)) n = Some fd"
        using n fd by (auto simp: at_drop_def split: if_splits)
      with foreign_keys_to_parent [OF r] fd obtain j where "j \<in> set is" "si_tab i = si_tab j" "n = si_cons j"
        by blast
      with i ap \<open>n \<noteq> si_cons i\<close> show False
        by (auto simp: apart_def distinct_map inj_on_def)
    qed
    have "run cat_step (parent_promote p) (?P (key_required p ?c ?T) (\<lambda>i. at_drop p i (s (si_tab i))))
      = Some (?P (parent_after p ?T) (retarget p (shadow ?c) ?c \<circ> (\<lambda>i. at_drop p i (s (si_tab i)))))"
      by (rule run_promote [OF r]) (rule old)
    moreover have "?P X (retarget p (shadow ?c) ?c \<circ> (\<lambda>i. at_drop p i (s (si_tab i))))
        = ?P X (\<lambda>i. at_swap p i (s (si_tab i)))" for X
      using retarget_drop [OF r] by (intro patched_cong) simp
    ultimately show ?thesis by simp
  qed
  show ?thesis
    by (subst patched_same [symmetric, of s p "is"], unfold site_script_def)
      (simp only: run_append prep stage_prep [OF r] bk sback ver sver idx
        sidx stage_fk [OF r fields(1,2)] nn stage_required [OF r] stage_drop [OF r]
        promote stage_final [OF r] option.case)
qed

lemma run_flip:
  assumes "plain_group g" "ready s (pg_parent_table g) (sites g)"
  shows "run cat_step (flip_script g) s
    = Some (patched (pg_parent_table g) (sites g) s
        (parent_after (pg_parent_table g) (s (pg_parent_table g)))
        (\<lambda>i. site_after (pg_parent_table g) i (s (si_tab i))))"
  using run_site_script [OF assms(2)] flip_script_sites [OF assms(1)] run_norm [of "flip_script g" s] by simp


end
