(* ===== verification/Flip_Props.thy ===== *)
theory Flip_Props
  imports Flip_Run Segment
begin

text \<open>
  What the plan of a flip is and what it leaves behind: its operations are the script in order,
  its preparation can be rolled back, a second flip of the same reference is blocked, and join
  tables lose what a flip does not carry over.
\<close>

section \<open>The plan is the script\<close>

text \<open>The statements of each operation of the plan, with the kind of its segment.\<close>

definition flip_parts :: "PkTypeFlipGroup \<Rightarrow> (SegmentKind \<times> FlipStmt list) list" where
  "flip_parts g =
     [(Transactional, preparation_up g Standard)]
     @ map (\<lambda>(_, x). (NonTransactional, [x])) (backfill_jobs g Standard)
     @ map (\<lambda>(_, x). (Transactional, [x])) (verify_jobs g Standard)
     @ map (\<lambda>(_, j). (NonTransactional, [shadow_index_stmt j])) (index_jobs g Standard)
     @ map (\<lambda>x. (Transactional, [x])) (concat (map shadow_fk_stmts (shadow_refs g)))
     @ [(Transactional, not_null_up g)] @ [(Transactional, cutover_up g)]"

text \<open>The text of an operation: a block of lines, or one bare statement.\<close>

definition op_text :: "FlipStmt list \<Rightarrow> string \<Rightarrow> bool" where
  "op_text ss txt \<longleftrightarrow> txt = block_text ss \<or> (\<exists>x. ss = [x] \<and> txt = stmt_sql x)"

fun leaves_transaction :: "FlipStmt \<Rightarrow> bool" where
  "leaves_transaction (CreateConcurrently _ _ _ _) = True"
| "leaves_transaction (Backfill _ _ _ _ _) = True"
| "leaves_transaction _ = False"

lemma concat_singles: "concat (map (\<lambda>x. [f x]) xs) = map f xs"
  by (induction xs) simp_all

lemma flip_parts_script: "concat (map snd (flip_parts g)) = flip_script g"
  by (simp add: flip_parts_def flip_script_def comp_def split_beta concat_singles)

lemma block_leaves_nothing:
  "\<forall>x\<in>set (preparation_up g m). \<not> leaves_transaction x"
  "\<forall>x\<in>set (not_null_up g). \<not> leaves_transaction x"
  "\<forall>x\<in>set (cutover_up g). \<not> leaves_transaction x"
  by (auto simp: preparation_up_def prep_parent_def prep_child_def prep_join_def not_null_up_def
      not_null_stmts_def cutover_up_def cutover_phase_drop_old_fks_def cutover_phase_promote_parent_def
      cutover_phase_finalise_children_def cutover_phase_finalise_join_tables_def
      finalise_child_def finalise_join_def readd_self_fks_def layout_note_def defer_if_cycles_def Let_def
      split: option.splits if_splits)

lemma flip_parts_kinds:
  assumes "(k, ss) \<in> set (flip_parts g)"
  shows "if k = NonTransactional then \<exists>x. ss = [x] \<and> leaves_transaction x
    else k = Transactional \<and> (\<forall>x\<in>set ss. \<not> leaves_transaction x)"
  using assms block_leaves_nothing
  by (auto simp: flip_parts_def backfill_jobs_def verify_jobs_def shadow_index_stmt_def shadow_fk_stmts_def
      includes_parent_def Let_def split: if_splits)

lemma tagged_tx: "tagged_statements [\<lparr>sg_kind = k, sg_statements = ss\<rparr>] = map (Pair k) ss"
  "tagged_statements (tx_if_any ss) = map (Pair Transactional) ss"
  by (simp_all add: tagged_statements_def tx_if_any_def)

lemma tagged_Cons: "tagged_statements (s # segs) = tagged_statements [s] @ tagged_statements segs"
  by (simp add: tagged_statements_def)

lemma os_up_flip_op [simp]: "os_up (flip_op label up down) = up"
  by (simp add: flip_op_def)

lemma op_text_one: "op_text [x] (stmt_sql x)" "op_text ss (block_text ss)"
  by (auto simp: op_text_def)

lemma list_all2_maps:
  "(\<And>x. x \<in> set xs \<Longrightarrow> R (f x) (h x)) \<Longrightarrow> list_all2 R (map f xs) (map h xs)"
  by (simp add: list.rel_map list.rel_refl_strong)

text \<open>
  C27: when the parent is not partitioned, the operations of the plan carry exactly the statements
  of the script, in its order: an operation's text is that of its statements. The segments outside a transaction hold single
  statements that cannot run inside one, index builds and batched backfills, and no other
  segment holds such a statement.
\<close>

theorem flip_plan_is_script:
  assumes "build_segments g = Some (Inr segs)" "pg_partitioned_parent g = None"
  shows "\<exists>parts. concat (map snd parts) = flip_script g
    \<and> list_all2 (\<lambda>(k, op) (k', ss). k = k' \<and> op_text ss (os_up op)) (tagged_statements segs) parts
    \<and> (\<forall>(k, ss)\<in>set parts. if k = NonTransactional then \<exists>x. ss = [x] \<and> leaves_transaction x
         else k = Transactional \<and> (\<forall>x\<in>set ss. \<not> leaves_transaction x))"
proof (intro exI conjI)
  let ?R = "\<lambda>(k, op) (k', ss). k = k' \<and> op_text ss (os_up op)"
  show "concat (map snd (flip_parts g)) = flip_script g" by (rule flip_parts_script)
  show "\<forall>(k, ss)\<in>set (flip_parts g). if k = NonTransactional then \<exists>x. ss = [x] \<and> leaves_transaction x
         else k = Transactional \<and> (\<forall>x\<in>set ss. \<not> leaves_transaction x)"
    using flip_parts_kinds by fast
  have segs: "segs = build_segments_standard g"
    using assms by (auto simp: build_segments_def split: option.splits if_splits)
  have fk: "list_all2 ?R (map (Pair Transactional) (emit_child_fk_statements g))
      (map (\<lambda>x. (Transactional, [x])) (concat (map shadow_fk_stmts (shadow_refs g))))"
  proof -
    have "list_all2 ?R (map (Pair Transactional) (concat (map (\<lambda>(t, col, target, def, ini). [flip_op (a t col) (stmt_sql (AddFlipFk t (shadow_fk t col) (shadow col) target (shadow ''id'') None def ini True)) (b t col), flip_op (c t col) (stmt_sql (ValidateConstraint t (shadow_fk t col))) []]) rs)))
      (map (\<lambda>x. (Transactional, [x])) (concat (map shadow_fk_stmts rs)))" for a b c rs
      by (induction rs) (auto simp: shadow_fk_stmts_def op_text_one simp del: stmt_sql.simps)
    then show ?thesis unfolding emit_child_fk_statements_def by this
  qed
  show "list_all2 ?R (tagged_statements segs) (flip_parts g)"
    unfolding segs build_segments_standard_def flip_parts_def
    by (simp only: tagged_Cons [of _ "_ # _"] tagged_statements_append tagged_tx append_assoc)
      (intro list_all2_appendI fk;
        auto simp: emit_preparation_with_mode_def emit_backfill_statements_with_mode_def
          emit_verification_statements_with_mode_def emit_concurrent_index_statements_with_mode_def
          emit_not_null_proof_def emit_cutover_def lossy_op_def Let_def op_text_one
          intro!: list_all2_maps simp del: stmt_sql.simps)
qed

section \<open>A second flip of one reference\<close>

fun keeps_indexes :: "FlipStmt \<Rightarrow> bool" where
  "keeps_indexes (AddShadow _ _ _) = True"
| "keeps_indexes (CreateAutofill _ _ _ _) = True"
| "keeps_indexes (Backfill _ _ _ _ _) = True"
| "keeps_indexes (VerifyNoNull _ _) = True"
| "keeps_indexes (VerifyFlipped _ _ _ _) = True"
| "keeps_indexes (CreateConcurrently _ _ _ _) = True"
| "keeps_indexes _ = False"

lemma index_stays:
  assumes "keeps_indexes op" "cat_step op s = Some s'" "tb_indexes (s u) n \<noteq> None"
  shows "tb_indexes (s' u) n \<noteq> None"
  using assms by (cases op) (auto split: if_splits)

lemma taken_index_blocks:
  assumes "\<forall>op\<in>set ss. keeps_indexes op" "tb_indexes (s u) n \<noteq> None"
  shows "run cat_step (ss @ CreateConcurrently uniq n t col # rest) s = None"
  using assms
proof (induction ss arbitrary: s)
  case Nil
  then have "\<not> index_free s n" by (auto simp: index_free_def)
  then show ?case by simp
next
  case (Cons op ss)
  show ?case
  proof (cases "cat_step op s")
    case (Some s')
    with Cons index_stays [of op s s' u n] show ?thesis by simp
  qed simp
qed

lemma leftover_index_blocks:
  assumes "plain_group g" "i \<in> set (sites g)" "tb_indexes (s u) (shadow_index (si_tab i) (si_col i)) \<noteq> None"
  shows "run cat_step (flip_script g) s = None"
proof -
  obtain pre post where split: "sites g = pre @ i # post" using assms(2) by (auto simp: in_set_conv_decomp)
  let ?p = "pg_parent_table g"
  let ?ss = "[AddShadow ?p (shadow ''id'') [], CreateAutofill ?p [] Heer AscToDesc] @ all_sites site_prep (sites g)
     @ [Backfill ?p ''id'' (shadow ''id'') Heer AscToDesc] @ all_sites site_backfill (sites g)
     @ [VerifyNoNull ?p (shadow ''id'')] @ all_sites site_verify (sites g)
     @ [CreateConcurrently True (shadow_index ?p ''id'') ?p (shadow ''id'')] @ all_sites site_index pre"
  have "\<forall>op\<in>set ?ss. keeps_indexes op"
    by (auto simp: all_sites_def site_prep_def site_backfill_def site_verify_def site_index_def)
  from taken_index_blocks [OF this, of s u "shadow_index (si_tab i) (si_col i)"] assms(3)
  have "run cat_step (?ss @ CreateConcurrently (si_unique i) (shadow_index (si_tab i) (si_col i)) (si_tab i)
      (shadow (si_col i)) # rest) s = None" for rest by blast
  moreover obtain rest where "site_script ?p (sites g)
      = ?ss @ CreateConcurrently (si_unique i) (shadow_index (si_tab i) (si_col i)) (si_tab i)
      (shadow (si_col i)) # rest"
    by (simp add: site_script_def split all_sites_def site_index_def)
  ultimately have "run cat_step (site_script ?p (sites g)) s = None" by simp
  then show ?thesis using flip_script_sites [OF assms(1)] run_norm [of "flip_script g" s] by simp
qed

text \<open>
  C30: a flip cannot be flipped back: the index built on a reference's shadow column keeps the
  name \<open>idx_<table>_<column>_desc\<close> when the column is renamed, and any later flip of the
  same reference, in either direction, fails on it when it builds its own.
\<close>

theorem flip_blocks_the_next:
  assumes "plain_group g" "ready s (pg_parent_table g) (sites g)" "i \<in> set (sites g)"
    and "plain_group g'" "i' \<in> set (sites g')" "si_tab i' = si_tab i" "si_col i' = si_col i"
  shows "\<exists>s'. run cat_step (flip_script g) s = Some s' \<and> run cat_step (flip_script g') s' = None"
proof -
  let ?s' = "patched (pg_parent_table g) (sites g) s (parent_after (pg_parent_table g) (s (pg_parent_table g)))
      (\<lambda>i. site_after (pg_parent_table g) i (s (si_tab i)))"
  have "tb_indexes (?s' (si_tab i)) (shadow_index (si_tab i) (si_col i)) \<noteq> None"
    using assms(3) readyD(1) [OF assms(2)] by (simp add: patched_site site_after_def Let_def)
  with leftover_index_blocks [OF assms(4,5)] assms(6,7) have "run cat_step (flip_script g') ?s' = None"
    by metis
  with run_flip [OF assms(1,2)] show ?thesis by blast
qed

section \<open>Join tables\<close>

text \<open>
  C31: a join table comes out of a flip without what its reference had: the column to the
  parent is nullable, its foreign key has no delete action whatever it had before, and a
  primary key over the column is gone.
\<close>

theorem flip_strips_join_tables:
  assumes "plain_group g" "ready s (pg_parent_table g) (sites g)" "jt \<in> set (pg_join_tables g)"
  shows "\<exists>s' fd. run cat_step (flip_script g) s = Some s'
    \<and> tb_fks (s' (jt_table jt)) (jt_fk_to_parent_constraint jt) = Some fd
    \<and> fd_target fd = pg_parent_table g \<and> fd_action fd = NoAction
    \<and> jt_fk_to_parent_column jt \<notin> tb_required (s' (jt_table jt))
    \<and> (\<forall>n cs. tb_pk (s' (jt_table jt)) = Some (n, cs) \<longrightarrow> jt_fk_to_parent_column jt \<notin> set cs)"
proof -
  let ?p = "pg_parent_table g"
  let ?s' = "patched ?p (sites g) s (parent_after ?p (s ?p)) (\<lambda>i. site_after ?p i (s (si_tab i)))"
  have i: "join_site jt \<in> set (sites g)" using assms(3) by (simp add: sites_def)
  have "?s' (si_tab (join_site jt)) = site_after ?p (join_site jt) (s (si_tab (join_site jt)))"
    using patched_site [OF readyD(1) [OF assms(2)] i] .
  then have "?s' (jt_table jt) = site_after ?p (join_site jt) (s (jt_table jt))"
    by (simp add: join_site_def)
  with run_flip [OF assms(1,2)] show ?thesis
    by (auto simp: site_after_def join_site_def without_column_def Let_def split: option.splits if_splits)
qed

end
