(* ===== verification/Flip_Undo.thy ===== *)
theory Flip_Undo
  imports Flip_Run
begin

section \<open>Rolling the preparation back\<close>

text \<open>A catalog with added columns \<open>A\<close> and autofill triggers and functions on \<open>R\<close> and \<open>F\<close>.\<close>

definition extended ::
  "Catalog \<Rightarrow> (string \<times> string) set \<Rightarrow> string set \<Rightarrow> string set \<Rightarrow> Catalog" where
  "extended s A R F =
     (\<lambda>t. (s t)\<lparr>tb_cols := tb_cols (s t) \<union> {c. (t, c) \<in> A},
                tb_trigger := tb_trigger (s t) \<or> t \<in> R, tb_function := tb_function (s t) \<or> t \<in> F\<rparr>)"

text \<open>Foreign keys refer to columns there are.\<close>

definition consistent :: "Catalog \<Rightarrow> bool" where
  "consistent s \<longleftrightarrow>
     (\<forall>t. tab_ok (s t))
     \<and> (\<forall>u n fd. tb_fks (s u) n = Some fd \<longrightarrow> fd_target_col fd \<in> tb_cols (s (fd_target fd)))"

fun shadows :: "FlipStmt list \<Rightarrow> (string \<times> string) set" where
  "shadows [] = {}"
| "shadows (AddShadow t c ty # ss) = insert (t, c) (shadows ss)"
| "shadows (_ # ss) = shadows ss"

fun autofills :: "FlipStmt list \<Rightarrow> string set" where
  "autofills [] = {}"
| "autofills (CreateAutofill t pairs f d # ss) = insert t (autofills ss)"
| "autofills (_ # ss) = autofills ss"

fun prepares :: "FlipStmt \<Rightarrow> bool" where
  "prepares (AddShadow _ _ _) = True"
| "prepares (CreateAutofill _ _ _ _) = True"
| "prepares _ = False"

lemma run_prepare:
  assumes "\<forall>op\<in>set ss. prepares op" "run cat_step ss (extended s A R F) = Some s'"
  shows "s' = extended s (A \<union> shadows ss) (R \<union> autofills ss) (F \<union> autofills ss)
    \<and> (\<forall>(t, c)\<in>shadows ss. c \<notin> tb_cols (s t))"
  using assms
proof (induction ss arbitrary: A R F)
  case (Cons op ss)
  then consider (add) t c ty where "op = AddShadow t c ty" | (fill) t pairs f d where "op = CreateAutofill t pairs f d"
    by (cases op) auto
  then show ?case
  proof cases
    case add
    have "(extended s A R F)(t := (extended s A R F t)\<lparr>tb_cols := insert c (tb_cols (extended s A R F t))\<rparr>)
        = extended s (insert (t, c) A) R F"
      by (rule ext) (auto simp: extended_def intro!: Tab.equality)
    moreover have "c \<notin> tb_cols (s t)" if "c \<notin> tb_cols (extended s A R F t)"
      using that by (simp add: extended_def)
    ultimately show ?thesis using Cons.prems Cons.IH [of "insert (t, c) A" R F] add
      by (simp split: if_splits)
  next
    case fill
    have "(extended s A R F)(t := (extended s A R F t)\<lparr>tb_trigger := True, tb_function := True\<rparr>)
        = extended s A (insert t R) (insert t F)"
      by (rule ext) (auto simp: extended_def intro!: Tab.equality)
    with Cons.prems Cons.IH [of A "insert t R" "insert t F"] fill show ?thesis by simp
  qed
qed simp

fun column_drops :: "FlipStmt list \<Rightarrow> (string \<times> string) set" where
  "column_drops [] = {}"
| "column_drops (DropColumnIfExists t c # ss) = insert (t, c) (column_drops ss)"
| "column_drops (_ # ss) = column_drops ss"

fun trigger_undos :: "FlipStmt list \<Rightarrow> string set" where
  "trigger_undos [] = {}"
| "trigger_undos (DropTriggerIfExists t # ss) = insert t (trigger_undos ss)"
| "trigger_undos (DropFunctionIfExists t # ss) = insert t (trigger_undos ss)"
| "trigger_undos (_ # ss) = trigger_undos ss"

fun function_undos :: "FlipStmt list \<Rightarrow> string set" where
  "function_undos [] = {}"
| "function_undos (DropFunctionIfExists t # ss) = insert t (function_undos ss)"
| "function_undos (_ # ss) = function_undos ss"

fun undoes :: "FlipStmt \<Rightarrow> bool" where
  "undoes (DropColumnIfExists _ _) = True"
| "undoes (DropTriggerIfExists _) = True"
| "undoes (DropFunctionIfExists _) = True"
| "undoes _ = False"

lemma without_new_column:
  assumes "tab_ok T" "c \<notin> tb_cols T"
  shows "without_column c (T\<lparr>tb_cols := tb_cols T \<union> D, tb_trigger := x, tb_function := y\<rparr>)
    = T\<lparr>tb_cols := tb_cols T \<union> (D - {c}), tb_trigger := x, tb_function := y\<rparr>"
proof -
  have "keep (\<lambda>fd. fd_col fd \<noteq> c) (tb_fks T) = tb_fks T" "keep (\<lambda>d. d \<noteq> c) (tb_checks T) = tb_checks T"
    using tab_okD(2,5) [OF assms(1)] assms(2) by (auto simp: keep_def fun_eq_iff split: option.split)
  moreover have "keep (\<lambda>(cs, _). c \<notin> set cs) (tb_indexes T) = tb_indexes T"
    using tab_okD(8) [OF assms(1)] assms(2) by (force simp: keep_def fun_eq_iff split: option.split)
  moreover have "tb_required T - {c} = tb_required T" using tab_okD(1) [OF assms(1)] assms(2) by auto
  moreover have "(case tb_pk T of Some (n, cs) \<Rightarrow> if c \<in> set cs then None else Some (n, cs) | None \<Rightarrow> None) = tb_pk T"
    using tab_okD(7) [OF assms(1)] assms(2) by (auto split: option.split)
  moreover have "tb_cols T - {c} = tb_cols T" using assms(2) by simp
  ultimately show ?thesis
    by (intro Tab.equality) (simp_all add: without_column_def Un_Diff)
qed

lemma run_undo:
  assumes "consistent s" "\<forall>op\<in>set ss. undoes op" "\<forall>(t, c)\<in>column_drops ss. c \<notin> tb_cols (s t)"
    and "\<forall>t\<in>trigger_undos ss. \<not> tb_trigger (s t) \<and> \<not> tb_function (s t)"
  shows "run cat_step ss (extended s A R F)
    = Some (extended s (A - column_drops ss) (R - trigger_undos ss) (F - function_undos ss))"
  using assms(2-)
proof (induction ss arbitrary: A R F)
  case (Cons op ss)
  then consider (col) t c where "op = DropColumnIfExists t c" | (trig) t where "op = DropTriggerIfExists t"
    | (fn) t where "op = DropFunctionIfExists t"
    by (cases op) auto
  then show ?case
  proof cases
    case col
    let ?X = "extended s A R F"
    have c: "c \<notin> tb_cols (s t)" using Cons.prems(2) col by simp
    have "\<not> referenced ?X t c"
      using assms(1) c by (auto simp: referenced_def extended_def consistent_def)
    moreover have "without_column c (?X t) = extended s (A - {(t, c)}) R F t"
    proof -
      have "{d. (t, d) \<in> A} - {c} = {d. (t, d) \<in> A \<and> d \<noteq> c}" by auto
      moreover note without_new_column [of "s t" c _ _ "{d. (t, d) \<in> A}"]
      ultimately show ?thesis using assms(1) c
        by (simp add: extended_def consistent_def)
    qed
    then have "?X(t := without_column c (?X t)) = extended s (A - {(t, c)}) R F"
      by (auto simp: fun_eq_iff extended_def)
    moreover have "extended s (A - {(t, c)}) R F = ?X" if "c \<notin> tb_cols (?X t)"
      using that by (simp add: extended_def Diff_triv)
    ultimately have "cat_step op ?X = Some (extended s (A - {(t, c)}) R F)"
      using col by (cases "c \<in> tb_cols (?X t)") (simp_all add: drop_column_def)
    with Cons.prems Cons.IH [of "A - {(t, c)}" R F] col show ?thesis by (simp add: Diff_insert2 [symmetric])
  next
    case trig
    have "(extended s A R F)(t := (extended s A R F t)\<lparr>tb_trigger := False\<rparr>) = extended s A (R - {t}) F"
      using Cons.prems(3) trig by (auto simp: fun_eq_iff extended_def intro!: Tab.equality)
    with Cons.prems Cons.IH [of A "R - {t}" F] trig show ?thesis by (simp add: Diff_insert2 [symmetric])
  next
    case fn
    have "(extended s A R F)(t := (extended s A R F t)\<lparr>tb_trigger := False, tb_function := False\<rparr>)
        = extended s A (R - {t}) (F - {t})"
      using Cons.prems(3) fn by (auto simp: fun_eq_iff extended_def intro!: Tab.equality)
    with Cons.prems Cons.IH [of A "R - {t}" "F - {t}"] fn show ?thesis by (simp add: Diff_insert2 [symmetric])
  qed
qed simp

lemma extended_none [simp]: "extended s {} {} {} = s"
  by (auto simp: extended_def)

lemma shadows_append [simp]: "shadows (xs @ ys) = shadows xs \<union> shadows ys"
  by (induction xs rule: shadows.induct) simp_all

lemma autofills_append [simp]: "autofills (xs @ ys) = autofills xs \<union> autofills ys"
  by (induction xs rule: autofills.induct) simp_all

lemma column_drops_append [simp]: "column_drops (xs @ ys) = column_drops xs \<union> column_drops ys"
  by (induction xs rule: column_drops.induct) simp_all

lemma trigger_undos_append [simp]: "trigger_undos (xs @ ys) = trigger_undos xs \<union> trigger_undos ys"
  by (induction xs rule: trigger_undos.induct) simp_all

lemma function_undos_append [simp]: "function_undos (xs @ ys) = function_undos xs \<union> function_undos ys"
  by (induction xs rule: function_undos.induct) simp_all

lemma collected_concat:
  "shadows (concat xss) = (\<Union>xs\<in>set xss. shadows xs)" "autofills (concat xss) = (\<Union>xs\<in>set xss. autofills xs)"
  "column_drops (concat xss) = (\<Union>xs\<in>set xss. column_drops xs)"
  "trigger_undos (concat xss) = (\<Union>xs\<in>set xss. trigger_undos xs)"
  "function_undos (concat xss) = (\<Union>xs\<in>set xss. function_undos xs)"
  by (induction xss) simp_all

lemma collected_maps:
  "shadows (map (\<lambda>c. AddShadow t (f c) ty) cs) = (\<lambda>c. (t, f c)) ` set cs"
  "autofills (map (\<lambda>c. AddShadow t (f c) ty) cs) = {}"
  by (induction cs) simp_all

lemma collected_drops:
  "column_drops (map (\<lambda>c. DropColumnIfExists t (g c)) cs) = (\<lambda>c. (t, g c)) ` set cs"
  "trigger_undos (map (\<lambda>c. DropColumnIfExists t (g c)) cs) = {}"
  "function_undos (map (\<lambda>c. DropColumnIfExists t (g c)) cs) = {}"
  by (induction cs) simp_all

lemma preparation_pieces:
  "shadows (prep_child g ch) = column_drops (unprep_child ch)"
  "autofills (prep_child g ch) = trigger_undos (unprep_child ch)"
  "function_undos (unprep_child ch) = trigger_undos (unprep_child ch)"
  "shadows (prep_join g jt) = column_drops (unprep_join g jt)"
  "autofills (prep_join g jt) = trigger_undos (unprep_join g jt)"
  "function_undos (unprep_join g jt) = trigger_undos (unprep_join g jt)"
  "shadows (prep_parent g cs) = column_drops (unprep_parent g cs)"
  "autofills (prep_parent g cs) = trigger_undos (unprep_parent g cs)"
  "function_undos (unprep_parent g cs) = trigger_undos (unprep_parent g cs)"
  by (simp_all add: prep_child_def unprep_child_def prep_join_def unprep_join_def prep_parent_def
      unprep_parent_def Let_def collected_maps collected_drops split_def image_image comp_def)

lemma preparation_collected:
  "shadows (preparation_up g m) = column_drops (preparation_down g m)"
  "autofills (preparation_up g m) = trigger_undos (preparation_down g m)"
  "function_undos (preparation_down g m) = trigger_undos (preparation_down g m)"
  by (simp_all add: preparation_up_def preparation_down_def collected_concat preparation_pieces)

lemma preparation_kinds:
  "\<forall>op\<in>set (preparation_up g m). prepares op" "\<forall>op\<in>set (preparation_down g m). undoes op"
  by (auto simp: preparation_up_def preparation_down_def prep_parent_def prep_child_def prep_join_def
      unprep_parent_def unprep_child_def unprep_join_def Let_def)

text \<open>
  C28: the rollback of a flip's preparation is exact: wherever the statements that add the
  shadow columns and their triggers have run, the operation's down statements bring back the
  catalog as it was, for any group, self references and repeated tables included, as long as
  the touched tables had no autofill trigger or function of their own.
\<close>

theorem preparation_undone:
  assumes "consistent s" "run cat_step (preparation_up g m) s = Some s'"
    and "\<forall>t\<in>autofills (preparation_up g m). \<not> tb_trigger (s t) \<and> \<not> tb_function (s t)"
  shows "run cat_step (preparation_down g m) s' = Some s"
proof -
  let ?A = "shadows (preparation_up g m)" and ?R = "autofills (preparation_up g m)"
  have "s' = extended s ?A ?R ?R" "\<forall>(t, c)\<in>?A. c \<notin> tb_cols (s t)"
    using run_prepare [OF preparation_kinds(1), of g m s "{}" "{}" "{}"] assms(2) by simp_all
  then show ?thesis
    using run_undo [OF assms(1) preparation_kinds(2), of g m ?A ?R ?R] assms(3)
    by (simp add: preparation_collected)
qed

end
