(* ===== verification/Flip_Witness.thy ===== *)
theory Flip_Witness
  imports Flip_Props Flip_Undo
begin

text \<open>
  The properties of a flip at a concrete catalog: users, their posts, and a join table of users
  and tags whose primary key spans both columns.
\<close>

definition no_table :: Tab where
  "no_table = \<lparr>tb_cols = {}, tb_required = {}, tb_fks = Map.empty, tb_checks = Map.empty, tb_pk = None,
     tb_indexes = Map.empty, tb_trigger = False, tb_function = False\<rparr>"

definition user_fk :: "string \<Rightarrow> FkDef" where
  "user_fk col =
     \<lparr>fd_col = col, fd_target = ''users'', fd_target_col = ''id'', fd_action = Cascade, fd_def = False, fd_ini = False\<rparr>"

definition blog :: Catalog where
  "blog t =
     (if t = ''users'' then no_table\<lparr>tb_cols := {''id'', ''name''}, tb_required := {''id''},
          tb_pk := Some (''users_pkey'', [''id''])\<rparr>
      else if t = ''posts'' then no_table\<lparr>tb_cols := {''id'', ''author''}, tb_required := {''id'', ''author''},
          tb_pk := Some (''posts_pkey'', [''id'']), tb_fks := [''posts_author_fkey'' \<mapsto> user_fk ''author'']\<rparr>
      else if t = ''tags'' then no_table\<lparr>tb_cols := {''user'', ''tag''}, tb_required := {''user'', ''tag''},
          tb_pk := Some (''tags_pkey'', [''user'', ''tag'']), tb_fks := [''tags_user_fkey'' \<mapsto> user_fk ''user'']\<rparr>
      else no_table)"

definition posts_child :: "string \<Rightarrow> PkFlipChild" where
  "posts_child col =
     \<lparr>ch_table = ''posts'', ch_fk_column = col, ch_fk_constraint_name = ''posts_author_fkey'',
      ch_on_delete = Cascade, ch_fk_deferrable = False, ch_fk_initially_deferred = False,
      ch_fk_nullable = False, ch_fk_unique = False, ch_family = Heer, ch_cycle_flag = False\<rparr>"

definition tags_join :: PkFlipJoinTable where
  "tags_join =
     \<lparr>jt_table = ''tags'', jt_fk_to_parent_column = ''user'', jt_fk_to_parent_constraint = ''tags_user_fkey'',
      jt_fk_to_parent_deferrable = False, jt_fk_to_parent_initially_deferred = False,
      jt_fk_to_partner_column = None, jt_fk_to_partner_constraint = None,
      jt_fk_to_partner_table = None, jt_fk_to_partner_deferrable = False,
      jt_fk_to_partner_initially_deferred = False, jt_family = Heer\<rparr>"

definition users_flip :: "PkFlipDirection \<Rightarrow> PkFlipChild list \<Rightarrow> PkTypeFlipGroup" where
  "users_flip d chs =
     \<lparr>pg_parent_table = ''users'', pg_parent_from = HeerId, pg_parent_to = HeerIdRecencyBiased,
      pg_direction = d, pg_children = chs, pg_self_fk = None, pg_join_tables = [tags_join],
      pg_cycles = [], pg_partitioned_parent = None, pg_co_destructive = False,
      pg_co_lossy = False, pg_join_table_option = OptionA\<rparr>"

abbreviation blog_flip :: PkTypeFlipGroup where
  "blog_flip \<equiv> users_flip AscToDesc [posts_child ''author'']"

lemma blog_plain: "plain_group (users_flip d chs)"
  by (simp add: plain_group_def users_flip_def jt_shadow_pairs_def tags_join_def)

lemma blog_sites: "sites (users_flip d [posts_child ''author'']) = [child_site (posts_child ''author''), join_site tags_join]"
  by (simp add: sites_def users_flip_def)

lemma blog_ok: "tab_ok (blog t)"
  by (auto simp: tab_ok_def blog_def no_table_def user_fk_def)

lemma blog_fks: "tb_fks (blog t) n = Some fd \<longleftrightarrow>
    t = ''posts'' \<and> n = ''posts_author_fkey'' \<and> fd = user_fk ''author''
    \<or> t = ''tags'' \<and> n = ''tags_user_fkey'' \<and> fd = user_fk ''user''"
  by (auto simp: blog_def no_table_def)

lemma blog_consistent: "consistent blog"
  by (auto simp: consistent_def blog_ok blog_fks) (simp_all add: user_fk_def blog_def)

lemma blog_indexes: "index_free blog n"
  by (simp add: index_free_def blog_def no_table_def)

lemma blog_referenced: "referenced blog t c \<longleftrightarrow> t = ''users'' \<and> c = ''id''"
proof
  show "referenced blog t c \<Longrightarrow> t = ''users'' \<and> c = ''id''"
    by (auto simp: referenced_def blog_fks user_fk_def)
  show "referenced blog t c" if "t = ''users'' \<and> c = ''id''"
    unfolding referenced_def
    by (rule exI [of _ "''posts''"], rule exI [of _ "''posts_author_fkey''"], rule exI [of _ "user_fk ''author''"])
      (use that in \<open>simp add: blog_fks, simp add: user_fk_def\<close>)
qed

lemma blog_ready: "ready blog ''users'' (sites (users_flip d [posts_child ''author'']))"
proof -
  have "parent_ready blog ''users''"
    by (simp add: parent_ready_def blog_indexes blog_referenced)
      (simp add: blog_def no_table_def pkey_name_def SHADOW_SUFFIX_def constraint_free_def nn_name_def)
  moreover have "site_ready blog (child_site (posts_child ''author''))" "site_ready blog (join_site tags_join)"
    by (simp add: site_ready_def Let_def blog_indexes blog_referenced child_site_def posts_child_def join_site_def tags_join_def;
      simp add: blog_def no_table_def user_fk_def SHADOW_SUFFIX_def constraint_free_def nn_name_def shadow_fk_def)+
  ultimately show ?thesis
    by (auto simp: ready_def blog_ok blog_sites blog_fks apart_def)
      (auto simp: child_site_def posts_child_def join_site_def tags_join_def user_fk_def shadow_index_def)
qed

lemma blog_parent: "pg_parent_table (users_flip d chs) = ''users''"
  by (simp add: users_flip_def)

lemmas blog_starts = blog_plain blog_ready [folded blog_parent]


theorem shared_table_breaks_flip_witness:
  "run cat_step (flip_script (users_flip AscToDesc [posts_child ''author'', posts_child ''editor''])) blog = None"
  by (rule shared_table_breaks_flip) (simp add: touched_tables_def users_flip_def posts_child_def)

theorem flip_blocks_the_next_witness:
  "\<exists>s'. run cat_step (flip_script blog_flip) blog = Some s'
    \<and> run cat_step (flip_script (users_flip DescToAsc [posts_child ''author''])) s' = None"
  by (rule flip_blocks_the_next [OF blog_plain _ _ blog_plain, of _ _ _ "child_site (posts_child ''author'')"
        "child_site (posts_child ''author'')"])
    (simp_all add: blog_parent blog_ready, simp_all add: blog_sites)

theorem flip_strips_join_tables_witness:
  "''user'' \<in> tb_required (blog ''tags'')
    \<and> (\<exists>s' fd. run cat_step (flip_script blog_flip) blog = Some s'
      \<and> tb_fks (s' ''tags'') ''tags_user_fkey'' = Some fd \<and> fd_action fd = NoAction
      \<and> ''user'' \<notin> tb_required (s' ''tags''))"
proof -
  have "''user'' \<in> tb_required (blog ''tags'')" by (simp add: blog_def)
  moreover have "tags_join \<in> set (pg_join_tables blog_flip)" by (simp add: users_flip_def)
  note flip_strips_join_tables [OF blog_plain _ this, of blog, unfolded blog_parent, OF blog_ready]
  ultimately show ?thesis by (auto simp: tags_join_def)
qed

theorem flip_plan_is_script_witness:
  "\<exists>segs (parts :: (SegmentKind \<times> FlipStmt list) list). build_segments blog_flip = Some (Inr segs) \<and> concat (map snd parts) = flip_script blog_flip
    \<and> length (tagged_statements segs) = length parts"
proof -
  have b: "build_segments blog_flip = Some (Inr (build_segments_standard blog_flip))"
    by (simp add: build_segments_def validate_group_def targets_known_def users_flip_def tags_join_def
        jt_shadow_pairs_def jt_target_def)
  have "pg_partitioned_parent blog_flip = None" by (simp add: users_flip_def)
  from flip_plan_is_script [OF b this] obtain parts where "concat (map snd parts) = flip_script blog_flip"
    "list_all2 (\<lambda>(k, op) (k', ss). k = k' \<and> op_text ss (os_up op))
      (tagged_statements (build_segments_standard blog_flip)) parts" by blast
  with b list_all2_lengthD [OF this(2)] show ?thesis by blast
qed

theorem preparation_undone_witness:
  "\<exists>s'. run cat_step (preparation_up blog_flip Standard) blog = Some s'
    \<and> run cat_step (preparation_down blog_flip Standard) s' = Some blog"
proof -
  obtain s' where s': "run cat_step (preparation_up blog_flip Standard) blog = Some s'"
    using run_flip [OF blog_plain, of blog AscToDesc "[posts_child ''author'']", unfolded blog_parent, OF blog_ready]
    by (auto simp: flip_script_def run_append split: option.splits)
  moreover have "\<not> tb_trigger (blog t) \<and> \<not> tb_function (blog t)" for t
    by (simp add: blog_def no_table_def)
  ultimately show ?thesis using preparation_undone [OF blog_consistent s'] by blast
qed

end
