(* ===== verification/Ewkb.thy ===== *)
theory Ewkb
  imports Result Sql_Text "HOL-Library.Sublist"
begin

unbundle bit_operations_syntax

text \<open>
  Geography values and their wire format, \<open>djogi/src/geo/\<close>. A coordinate is an \<open>f64\<close>, here its
  64 bits with the comparisons of IEEE 754 spelled out on them. The decoders read at positions
  of a byte buffer, as the source does; a \<open>MalformedEwkb\<close> message is represented by the arguments
  of its \<open>format!\<close>. An encoder is \<^const>\<open>None\<close> where \<open>encode_count_u32\<close> panics.
\<close>

type_synonym u8 = "8 word"
type_synonym f64 = "64 word"

section \<open>Floating-point comparisons on bits\<close>

definition f64_magnitude :: "f64 \<Rightarrow> f64" where
  "f64_magnitude x = take_bit 63 x"

definition f64_is_nan :: "f64 \<Rightarrow> bool" where
  "f64_is_nan x \<longleftrightarrow> f64_magnitude x > 0x7FF0000000000000"

definition f64_is_finite :: "f64 \<Rightarrow> bool" where
  "f64_is_finite x \<longleftrightarrow> f64_magnitude x < 0x7FF0000000000000"

definition f64_eq :: "f64 \<Rightarrow> f64 \<Rightarrow> bool" where
  "f64_eq x y \<longleftrightarrow>
     \<not> f64_is_nan x \<and> \<not> f64_is_nan y \<and> (x = y \<or> f64_magnitude x = 0 \<and> f64_magnitude y = 0)"

definition f64_le :: "f64 \<Rightarrow> f64 \<Rightarrow> bool" where
  "f64_le x y \<longleftrightarrow>
     \<not> f64_is_nan x \<and> \<not> f64_is_nan y
     \<and> (case (bit x 63, bit y 63) of
          (True, True) \<Rightarrow> f64_magnitude y \<le> f64_magnitude x
        | (True, False) \<Rightarrow> True
        | (False, True) \<Rightarrow> f64_magnitude x = 0 \<and> f64_magnitude y = 0
        | (False, False) \<Rightarrow> f64_magnitude x \<le> f64_magnitude y)"

section \<open>Values\<close>

record GeoPoint =
  gp_lat :: f64
  gp_lon :: f64

datatype LineString = LineString (ls_points: "GeoPoint list")
datatype Polygon = Polygon (pl_rings: "GeoPoint list list")
datatype MultiPoint = MultiPoint (mp_points: "GeoPoint list")
datatype MultiLineString = MultiLineString (ml_lines: "LineString list")
datatype MultiPolygon = MultiPolygon (mg_polygons: "Polygon list")

datatype GeoError =
    InvalidLatitude f64
  | InvalidLongitude f64
  | MalformedEwkb EwkbFault
  | UnexpectedSrid "32 word"
  | InvalidLineString nat nat
  | InvalidPolygon string
  | InvalidMultiPoint string
  | InvalidMultiPolygon string
  | InvalidMultiLineString string
and EwkbFault =
    HeaderTooShort nat
  | NotLittleEndian u8
  | WrongTypeBytes "u8 list" "u8 list"
  | ShortU32 nat nat
  | ShortF64 nat nat
  | WrongPointLength nat nat
  | BadCoordinate string GeoError
  | FailedValidation string GeoError
  | Truncated string nat
  | SubNotLittleEndian string u8
  | SubWrongType string "u8 list"

subsection \<open>Constructors\<close>

definition MIN_LAT :: f64 where "MIN_LAT = 0xC056800000000000"
definition MAX_LAT :: f64 where "MAX_LAT = 0x4056800000000000"
definition MIN_LON :: f64 where "MIN_LON = 0xC066800000000000"
definition MAX_LON :: f64 where "MAX_LON = 0x4066800000000000"

definition point_new :: "f64 \<Rightarrow> f64 \<Rightarrow> GeoError + GeoPoint" where
  "point_new lat lon =
     (if \<not> f64_is_finite lat \<or> \<not> (f64_le MIN_LAT lat \<and> f64_le lat MAX_LAT) then Inl (InvalidLatitude lat)
      else if \<not> f64_is_finite lon \<or> \<not> (f64_le MIN_LON lon \<and> f64_le lon MAX_LON) then Inl (InvalidLongitude lon)
      else Inr \<lparr>gp_lat = lat, gp_lon = lon\<rparr>)"

definition linestring_new :: "GeoPoint list \<Rightarrow> GeoError + LineString" where
  "linestring_new ps =
     (if length ps < 2 then Inl (InvalidLineString (length ps) 2) else Inr (LineString ps))"

definition point_eq :: "GeoPoint \<Rightarrow> GeoPoint \<Rightarrow> bool" where
  "point_eq p q \<longleftrightarrow> f64_eq (gp_lat p) (gp_lat q) \<and> f64_eq (gp_lon p) (gp_lon q)"

definition validate_ring :: "GeoPoint list \<Rightarrow> string \<Rightarrow> GeoError + unit" where
  "validate_ring ring label =
     (if length ring < 4 then Inl (InvalidPolygon label)
      else if \<not> point_eq (ring ! 0) (last ring)
      then Inl (InvalidPolygon ''ring is not closed (first point != last point)'')
      else Inr ())"

fun validate_holes :: "GeoPoint list list \<Rightarrow> GeoError + unit" where
  "validate_holes [] = Inr ()"
| "validate_holes (hole # holes) =
     and_then (validate_ring hole ''hole ring needs at least 4 points and must be closed'')
       (\<lambda>_. validate_holes holes)"

definition polygon_from_rings :: "GeoPoint list list \<Rightarrow> GeoError + Polygon" where
  "polygon_from_rings rings =
     (case rings of
        [] \<Rightarrow> Inl (InvalidPolygon ''Polygon needs at least one ring'')
      | outer # holes \<Rightarrow>
          and_then (validate_ring outer ''outer ring needs at least 4 points and must be closed'')
            (\<lambda>_. and_then (validate_holes holes) (\<lambda>_. Inr (Polygon rings))))"

definition polygon_with_ring :: "GeoPoint list \<Rightarrow> GeoError + Polygon" where
  "polygon_with_ring points =
     and_then (validate_ring points ''outer ring needs at least 4 points and must be closed'')
       (\<lambda>_. Inr (Polygon [points]))"

definition polygon_with_holes :: "GeoPoint list \<Rightarrow> GeoPoint list list \<Rightarrow> GeoError + Polygon" where
  "polygon_with_holes outer holes = polygon_from_rings (outer # holes)"

definition polygon_closed :: "GeoPoint list \<Rightarrow> GeoError + Polygon" where
  "polygon_closed points =
     (if length points < 3 then Inl (InvalidPolygon ''need at least 3 distinct vertices'')
      else let ring = (if \<not> point_eq (points ! 0) (last points) then points @ [points ! 0] else points)
      in and_then (validate_ring ring ''outer ring must have >= 4 points after closing'')
           (\<lambda>_. Inr (Polygon [ring])))"

definition multipoint_new :: "GeoPoint list \<Rightarrow> GeoError + MultiPoint" where
  "multipoint_new ps =
     (if ps = [] then Inl (InvalidMultiPoint ''need at least 1 point'') else Inr (MultiPoint ps))"

definition multilinestring_new :: "LineString list \<Rightarrow> GeoError + MultiLineString" where
  "multilinestring_new ls =
     (if ls = [] then Inl (InvalidMultiLineString ''need at least 1 linestring'') else Inr (MultiLineString ls))"

definition multipolygon_new :: "Polygon list \<Rightarrow> GeoError + MultiPolygon" where
  "multipolygon_new ps =
     (if ps = [] then Inl (InvalidMultiPolygon ''need at least 1 polygon'') else Inr (MultiPolygon ps))"

section \<open>Bytes\<close>

fun to_le :: "nat \<Rightarrow> 'a::len word \<Rightarrow> u8 list" where
  "to_le 0 w = []"
| "to_le (Suc n) w = ucast w # to_le n (drop_bit 8 w)"

fun from_le :: "u8 list \<Rightarrow> 'a::len word" where
  "from_le [] = 0"
| "from_le (b # zs) = ucast b OR push_bit 8 (from_le zs)"

definition ENDIAN_BYTE :: u8 where "ENDIAN_BYTE = 0x01"
definition SRID_BYTES :: "u8 list" where "SRID_BYTES = [0xE6, 0x10, 0x00, 0x00]"
definition SRID_4326 :: "32 word" where "SRID_4326 = 4326"
definition EWKB_LEN :: nat where "EWKB_LEN = 25"
definition TYPE_BYTES :: "u8 list" where "TYPE_BYTES = [0x01, 0x00, 0x00, 0x20]"
definition TYPE_LINESTRING :: "u8 list" where "TYPE_LINESTRING = [0x02, 0x00, 0x00, 0x20]"
definition TYPE_POLYGON :: "u8 list" where "TYPE_POLYGON = [0x03, 0x00, 0x00, 0x20]"
definition TYPE_MULTIPOINT :: "u8 list" where "TYPE_MULTIPOINT = [0x04, 0x00, 0x00, 0x20]"
definition TYPE_MULTILINESTRING :: "u8 list" where "TYPE_MULTILINESTRING = [0x05, 0x00, 0x00, 0x20]"
definition TYPE_MULTIPOLYGON :: "u8 list" where "TYPE_MULTIPOLYGON = [0x06, 0x00, 0x00, 0x20]"
definition SUBTYPE_POINT :: "u8 list" where "SUBTYPE_POINT = [0x01, 0x00, 0x00, 0x00]"
definition SUBTYPE_LINESTRING :: "u8 list" where "SUBTYPE_LINESTRING = [0x02, 0x00, 0x00, 0x00]"
definition SUBTYPE_POLYGON :: "u8 list" where "SUBTYPE_POLYGON = [0x03, 0x00, 0x00, 0x00]"

definition push_outer_header :: "u8 list \<Rightarrow> u8 list" where
  "push_outer_header type_bytes = ENDIAN_BYTE # type_bytes @ SRID_BYTES"

definition read_outer_header :: "u8 list \<Rightarrow> u8 list \<Rightarrow> GeoError + nat" where
  "read_outer_header bytes expected =
     (if length bytes < 9 then Inl (MalformedEwkb (HeaderTooShort (length bytes)))
      else if bytes ! 0 \<noteq> ENDIAN_BYTE then Inl (MalformedEwkb (NotLittleEndian (bytes ! 0)))
      else if take 4 (drop 1 bytes) \<noteq> expected
      then Inl (MalformedEwkb (WrongTypeBytes (take 4 (drop 1 bytes)) expected))
      else let srid = from_le [bytes ! 5, bytes ! 6, bytes ! 7, bytes ! 8]
      in if srid \<noteq> SRID_4326 then Inl (UnexpectedSrid srid) else Inr 9)"

definition read_u32 :: "u8 list \<Rightarrow> nat \<Rightarrow> GeoError + 32 word" where
  "read_u32 bytes pos =
     (if pos + 4 > length bytes then Inl (MalformedEwkb (ShortU32 pos (length bytes)))
      else Inr (from_le [bytes ! pos, bytes ! (pos + 1), bytes ! (pos + 2), bytes ! (pos + 3)]))"

definition read_f64 :: "u8 list \<Rightarrow> nat \<Rightarrow> GeoError + f64" where
  "read_f64 bytes pos =
     (if pos + 8 > length bytes then Inl (MalformedEwkb (ShortF64 pos (length bytes)))
      else Inr (from_le (take 8 (drop pos bytes))))"

definition encode_count_u32 :: "nat \<Rightarrow> (32 word) option" where
  "encode_count_u32 n = (if n < 2 ^ 32 then Some (of_nat n) else None)"

definition push_coord_pair :: "f64 \<Rightarrow> f64 \<Rightarrow> u8 list" where
  "push_coord_pair lon lat = to_le 8 lon @ to_le 8 lat"

definition read_coord_pair :: "u8 list \<Rightarrow> nat \<Rightarrow> GeoError + f64 \<times> f64 \<times> nat" where
  "read_coord_pair bytes pos =
     and_then (read_f64 bytes pos) (\<lambda>lon. and_then (read_f64 bytes (pos + 8)) (\<lambda>lat. Inr (lon, lat, pos + 16)))"

section \<open>Encoders\<close>

text \<open>A loop over the parts of a value, and the same with a count in front.\<close>

fun write_many :: "('a \<Rightarrow> u8 list option) \<Rightarrow> 'a list \<Rightarrow> u8 list option" where
  "write_many wr [] = Some []"
| "write_many wr (x # xs) =
     (case wr x of None \<Rightarrow> None | Some w \<Rightarrow> map_option ((@) w) (write_many wr xs))"

definition write_counted :: "('a \<Rightarrow> u8 list option) \<Rightarrow> 'a list \<Rightarrow> u8 list option" where
  "write_counted wr xs =
     (case encode_count_u32 (length xs) of
        None \<Rightarrow> None | Some count \<Rightarrow> map_option ((@) (to_le 4 count)) (write_many wr xs))"

definition write_point :: "GeoPoint \<Rightarrow> u8 list option" where
  "write_point p = Some (push_coord_pair (gp_lon p) (gp_lat p))"

definition write_sub :: "u8 list \<Rightarrow> ('a \<Rightarrow> u8 list option) \<Rightarrow> 'a \<Rightarrow> u8 list option" where
  "write_sub subtype wr x = map_option ((@) (ENDIAN_BYTE # subtype)) (wr x)"

definition write_line :: "LineString \<Rightarrow> u8 list option" where
  "write_line ls = write_counted write_point (ls_points ls)"

definition write_rings :: "Polygon \<Rightarrow> u8 list option" where
  "write_rings p = write_counted (write_counted write_point) (pl_rings p)"

definition encode_point_into :: "GeoPoint \<Rightarrow> u8 list option" where
  "encode_point_into p = map_option ((@) (push_outer_header TYPE_BYTES)) (write_point p)"

definition encode_linestring_into :: "LineString \<Rightarrow> u8 list option" where
  "encode_linestring_into ls = map_option ((@) (push_outer_header TYPE_LINESTRING)) (write_line ls)"

definition encode_polygon_into :: "Polygon \<Rightarrow> u8 list option" where
  "encode_polygon_into p = map_option ((@) (push_outer_header TYPE_POLYGON)) (write_rings p)"

definition encode_multipoint_into :: "MultiPoint \<Rightarrow> u8 list option" where
  "encode_multipoint_into mp =
     map_option ((@) (push_outer_header TYPE_MULTIPOINT))
       (write_counted (write_sub SUBTYPE_POINT write_point) (mp_points mp))"

definition encode_multilinestring_into :: "MultiLineString \<Rightarrow> u8 list option" where
  "encode_multilinestring_into mls =
     map_option ((@) (push_outer_header TYPE_MULTILINESTRING))
       (write_counted (write_sub SUBTYPE_LINESTRING write_line) (ml_lines mls))"

definition encode_multipolygon_into :: "MultiPolygon \<Rightarrow> u8 list option" where
  "encode_multipolygon_into mp =
     map_option ((@) (push_outer_header TYPE_MULTIPOLYGON))
       (write_counted (write_sub SUBTYPE_POLYGON write_rings) (mg_polygons mp))"

text \<open>The lengths computed in advance.\<close>

definition linestring_byte_len :: "LineString \<Rightarrow> nat" where
  "linestring_byte_len ls = 9 + 4 + 16 * length (ls_points ls)"

definition polygon_byte_len :: "Polygon \<Rightarrow> nat" where
  "polygon_byte_len p =
     9 + 4 + length (pl_rings p) * 4 + sum_list (map length (pl_rings p)) * 16"

definition multipoint_byte_len :: "MultiPoint \<Rightarrow> nat" where
  "multipoint_byte_len mp = 9 + 4 + 21 * length (mp_points mp)"

definition multilinestring_byte_len :: "MultiLineString \<Rightarrow> nat" where
  "multilinestring_byte_len mls =
     foldl (\<lambda>len ls. len + (5 + 4 + length (ls_points ls) * 16)) (9 + 4) (ml_lines mls)"

definition multipolygon_byte_len :: "MultiPolygon \<Rightarrow> nat" where
  "multipolygon_byte_len mp =
     foldl (\<lambda>len p. foldl (\<lambda>len ring. len + length ring * 16)
       (len + (5 + 4 + length (pl_rings p) * 4)) (pl_rings p)) (9 + 4) (mg_polygons mp)"

section \<open>Decoders\<close>

text \<open>A loop of reads; the reader gets the index, for its messages.\<close>

fun read_many ::
  "(nat \<Rightarrow> u8 list \<Rightarrow> nat \<Rightarrow> GeoError + 'a \<times> nat) \<Rightarrow> u8 list \<Rightarrow> nat \<Rightarrow> nat \<Rightarrow> nat \<Rightarrow>
   GeoError + 'a list \<times> nat" where
  "read_many rd bytes 0 i pos = Inr ([], pos)"
| "read_many rd bytes (Suc n) i pos =
     and_then (rd i bytes pos) (\<lambda>(x, next_pos).
       and_then (read_many rd bytes n (Suc i) next_pos) (\<lambda>(xs, last_pos). Inr (x # xs, last_pos)))"

definition read_counted ::
  "(nat \<Rightarrow> u8 list \<Rightarrow> nat \<Rightarrow> GeoError + 'a \<times> nat) \<Rightarrow> u8 list \<Rightarrow> nat \<Rightarrow> GeoError + 'a list \<times> nat" where
  "read_counted rd bytes pos = and_then (read_u32 bytes pos) (\<lambda>n. read_many rd bytes (unat n) 0 (pos + 4))"

definition read_point :: "string \<Rightarrow> u8 list \<Rightarrow> nat \<Rightarrow> GeoError + GeoPoint \<times> nat" where
  "read_point label bytes pos =
     and_then (read_coord_pair bytes pos) (\<lambda>(lon, lat, next_pos).
       and_then (map_err (\<lambda>e. MalformedEwkb (BadCoordinate label e)) (point_new lat lon)) (\<lambda>p.
         Inr (p, next_pos)))"

text \<open>The header of a part: \<open>need\<close> bytes must be left.\<close>

definition read_sub_header :: "nat \<Rightarrow> string \<Rightarrow> string \<Rightarrow> u8 list \<Rightarrow> u8 list \<Rightarrow> nat \<Rightarrow> GeoError + nat" where
  "read_sub_header need what label subtype bytes pos =
     (if pos + need > length bytes then Inl (MalformedEwkb (Truncated (label @ what) pos))
      else if bytes ! pos \<noteq> ENDIAN_BYTE then Inl (MalformedEwkb (SubNotLittleEndian label (bytes ! pos)))
      else if take 4 (drop (pos + 1) bytes) \<noteq> subtype
      then Inl (MalformedEwkb (SubWrongType label (take 4 (drop (pos + 1) bytes))))
      else Inr (pos + 5))"

definition validated :: "string \<Rightarrow> ('a \<Rightarrow> GeoError + 'b) \<Rightarrow> 'a \<times> nat \<Rightarrow> GeoError + 'b \<times> nat" where
  "validated what new = (\<lambda>(x, pos).
     and_then (map_err (\<lambda>e. MalformedEwkb (FailedValidation what e)) (new x)) (\<lambda>v. Inr (v, pos)))"

definition decode_point :: "u8 list \<Rightarrow> GeoError + f64 \<times> f64" where
  "decode_point bytes =
     (if length bytes \<noteq> EWKB_LEN then Inl (MalformedEwkb (WrongPointLength EWKB_LEN (length bytes)))
      else and_then (read_outer_header bytes TYPE_BYTES) (\<lambda>pos.
        and_then (read_coord_pair bytes pos) (\<lambda>(lon, lat, _). Inr (lon, lat))))"

definition decode_linestring :: "u8 list \<Rightarrow> GeoError + LineString" where
  "decode_linestring bytes =
     and_then (read_outer_header bytes TYPE_LINESTRING) (\<lambda>pos.
       and_then (read_counted (\<lambda>_. read_point ''LineString EWKB'') bytes pos) (\<lambda>r.
         map_sum id fst (validated ''decoded LineString'' linestring_new r)))"

definition decode_polygon_body :: "string \<Rightarrow> u8 list \<Rightarrow> nat \<Rightarrow> GeoError + Polygon \<times> nat" where
  "decode_polygon_body label bytes pos =
     and_then (read_counted (\<lambda>_. read_counted (\<lambda>_. read_point label)) bytes pos)
       (validated (''decoded '' @ label) polygon_from_rings)"

definition decode_polygon :: "u8 list \<Rightarrow> GeoError + Polygon" where
  "decode_polygon bytes =
     and_then (read_outer_header bytes TYPE_POLYGON) (\<lambda>pos.
       map_sum id fst (decode_polygon_body ''Polygon EWKB'' bytes pos))"

definition read_sub_point :: "nat \<Rightarrow> u8 list \<Rightarrow> nat \<Rightarrow> GeoError + GeoPoint \<times> nat" where
  "read_sub_point i bytes pos =
     (let label = ''MultiPoint sub-point '' @ show_nat i
      in and_then (read_sub_header 21 [] label SUBTYPE_POINT bytes pos) (read_point label bytes))"

definition decode_multipoint :: "u8 list \<Rightarrow> GeoError + MultiPoint" where
  "decode_multipoint bytes =
     and_then (read_outer_header bytes TYPE_MULTIPOINT) (\<lambda>pos.
       and_then (read_counted read_sub_point bytes pos) (\<lambda>r.
         map_sum id fst (validated ''decoded MultiPoint'' multipoint_new r)))"

definition read_sub_line :: "nat \<Rightarrow> u8 list \<Rightarrow> nat \<Rightarrow> GeoError + LineString \<times> nat" where
  "read_sub_line li bytes pos =
     (let label = ''MultiLineString sub-linestring '' @ show_nat li
      in and_then (read_sub_header 5 '' header'' label SUBTYPE_LINESTRING bytes pos) (\<lambda>pos.
           and_then (read_counted (\<lambda>pi. read_point (label @ '' point '' @ show_nat pi)) bytes pos)
             (validated label linestring_new)))"

definition decode_multilinestring :: "u8 list \<Rightarrow> GeoError + MultiLineString" where
  "decode_multilinestring bytes =
     and_then (read_outer_header bytes TYPE_MULTILINESTRING) (\<lambda>pos.
       and_then (read_counted read_sub_line bytes pos) (\<lambda>r.
         map_sum id fst (validated ''decoded MultiLineString'' multilinestring_new r)))"

definition read_sub_polygon :: "nat \<Rightarrow> u8 list \<Rightarrow> nat \<Rightarrow> GeoError + Polygon \<times> nat" where
  "read_sub_polygon i bytes pos =
     (let label = ''MultiPolygon sub-polygon '' @ show_nat i
      in and_then (read_sub_header 5 '' header'' label SUBTYPE_POLYGON bytes pos)
           (decode_polygon_body label bytes))"

definition decode_multipolygon :: "u8 list \<Rightarrow> GeoError + MultiPolygon" where
  "decode_multipolygon bytes =
     and_then (read_outer_header bytes TYPE_MULTIPOLYGON) (\<lambda>pos.
       and_then (read_counted read_sub_polygon bytes pos) (\<lambda>r.
         map_sum id fst (validated ''decoded MultiPolygon'' multipolygon_new r)))"

section \<open>The trait of geography values\<close>

datatype GeographySubtype = SubPoint | SubLineString | SubPolygon | SubMultiPoint | SubMultiLineString | SubMultiPolygon

datatype GeographyValue =
    GvPoint GeoPoint
  | GvLineString LineString
  | GvPolygon Polygon
  | GvMultiPoint MultiPoint
  | GvMultiLineString MultiLineString
  | GvMultiPolygon MultiPolygon

fun SUBTYPE :: "GeographyValue \<Rightarrow> GeographySubtype" where
  "SUBTYPE (GvPoint _) = SubPoint"
| "SUBTYPE (GvLineString _) = SubLineString"
| "SUBTYPE (GvPolygon _) = SubPolygon"
| "SUBTYPE (GvMultiPoint _) = SubMultiPoint"
| "SUBTYPE (GvMultiLineString _) = SubMultiLineString"
| "SUBTYPE (GvMultiPolygon _) = SubMultiPolygon"

fun GEO_TYPE_WORD :: "GeographySubtype \<Rightarrow> 32 word" where
  "GEO_TYPE_WORD SubPoint = 0x20000001"
| "GEO_TYPE_WORD SubLineString = 0x20000002"
| "GEO_TYPE_WORD SubPolygon = 0x20000003"
| "GEO_TYPE_WORD SubMultiPoint = 0x20000004"
| "GEO_TYPE_WORD SubMultiLineString = 0x20000005"
| "GEO_TYPE_WORD SubMultiPolygon = 0x20000006"

fun to_ewkb_bytes :: "GeographyValue \<Rightarrow> u8 list option" where
  "to_ewkb_bytes (GvPoint p) = encode_point_into p"
| "to_ewkb_bytes (GvLineString ls) = encode_linestring_into ls"
| "to_ewkb_bytes (GvPolygon p) = encode_polygon_into p"
| "to_ewkb_bytes (GvMultiPoint mp) = encode_multipoint_into mp"
| "to_ewkb_bytes (GvMultiLineString mls) = encode_multilinestring_into mls"
| "to_ewkb_bytes (GvMultiPolygon mp) = encode_multipolygon_into mp"

definition point_from_ewkb :: "u8 list \<Rightarrow> GeoError + GeoPoint" where
  "point_from_ewkb bytes = and_then (decode_point bytes) (\<lambda>(lon, lat). point_new lat lon)"

fun from_ewkb_bytes :: "GeographySubtype \<Rightarrow> u8 list \<Rightarrow> GeoError + GeographyValue" where
  "from_ewkb_bytes SubPoint bytes = map_sum id GvPoint (point_from_ewkb bytes)"
| "from_ewkb_bytes SubLineString bytes = map_sum id GvLineString (decode_linestring bytes)"
| "from_ewkb_bytes SubPolygon bytes = map_sum id GvPolygon (decode_polygon bytes)"
| "from_ewkb_bytes SubMultiPoint bytes = map_sum id GvMultiPoint (decode_multipoint bytes)"
| "from_ewkb_bytes SubMultiLineString bytes = map_sum id GvMultiLineString (decode_multilinestring bytes)"
| "from_ewkb_bytes SubMultiPolygon bytes = map_sum id GvMultiPolygon (decode_multipolygon bytes)"

text \<open>The capacity each \<open>to_ewkb_bytes\<close> reserves.\<close>

fun ewkb_capacity :: "GeographyValue \<Rightarrow> nat" where
  "ewkb_capacity (GvPoint p) = EWKB_LEN"
| "ewkb_capacity (GvLineString ls) = linestring_byte_len ls"
| "ewkb_capacity (GvPolygon p) = polygon_byte_len p"
| "ewkb_capacity (GvMultiPoint mp) = multipoint_byte_len mp"
| "ewkb_capacity (GvMultiLineString mls) = multilinestring_byte_len mls"
| "ewkb_capacity (GvMultiPolygon mp) = multipolygon_byte_len mp"

end
