(* ===== verification/Ewkb_Props.thy ===== *)
theory Ewkb_Props
  imports Ewkb
begin

text \<open>
  A decoder accepts exactly the buffers that start with the encoding of a valid value. Every
  reader is characterised by its writer, and loops and counts carry the law along.
\<close>

section \<open>Little-endian words\<close>

lemma from_le_to_le: "from_le (to_le n w) = take_bit (8 * n) w"
proof (induction n arbitrary: w)
  case (Suc n)
  have "from_le (to_le (Suc n) w) = ucast (ucast w :: u8) OR push_bit 8 (take_bit (8 * n) (drop_bit 8 w))"
    by (simp add: Suc.IH)
  also have "\<dots> = take_bit (8 * Suc n) w"
    by (rule bit_word_eqI) (auto simp: bit_simps)
  finally show ?case .
qed simp

lemma to_le_from_le: "8 * length zs \<le> LENGTH('a) \<Longrightarrow> to_le (length zs) (from_le zs :: 'a::len word) = zs"
proof (induction zs)
  case (Cons b zs)
  let ?r = "from_le zs :: 'a word"
  have low: "ucast (ucast b OR push_bit 8 ?r) = b"
    using Cons.prems by (intro bit_word_eqI) (auto simp: bit_simps)
  have bound: "take_bit (8 * length zs) ?r = ?r"
  proof -
    have "from_le (to_le (length zs) ?r) = ?r" using Cons by simp
    then show ?thesis by (simp add: from_le_to_le)
  qed
  then have small: "\<not> bit ?r n" if "8 * length zs \<le> n" for n
    using that by (metis bit_take_bit_iff not_le)
  have "drop_bit 8 (ucast b OR push_bit 8 ?r) = ?r"
  proof (rule bit_word_eqI)
    fix n assume n: "n < LENGTH('a)"
    have "\<not> bit b (n + 8)" "\<not> bit b (8 + n)" using bit_imp_le_length by force+
    then show "bit (drop_bit 8 (ucast b OR push_bit 8 ?r)) n = bit ?r n"
      using n Cons.prems small [of n] by (cases "n + 8 < LENGTH('a)") (auto simp: bit_simps)
  qed
  with low Cons show ?case by simp
qed simp

lemma length_to_le [simp]: "length (to_le n w) = n"
  by (induction n arbitrary: w) simp_all

lemma from_le_iff:
  "length zs = n \<Longrightarrow> 8 * n = LENGTH('a) \<Longrightarrow> from_le zs = (w :: 'a::len word) \<longleftrightarrow> zs = to_le n w"
  using from_le_to_le [of n w] to_le_from_le [of zs, where 'a = 'a] by auto

section \<open>Readers\<close>

lemma prefix_drop_take: "prefix w (drop pos bytes) \<longleftrightarrow> take (length w) (drop pos bytes) = w"
  by (metis append_eq_conv_conj prefix_def)

lemma prefix_append_iff: "prefix (v @ w) xs \<longleftrightarrow> prefix v xs \<and> prefix w (drop (length v) xs)"
  by (auto simp: prefix_def)

lemma prefix_append_drop:
  "prefix (v @ w) (drop pos bytes) \<longleftrightarrow> prefix v (drop pos bytes) \<and> prefix w (drop (pos + length v) bytes)"
  by (simp add: prefix_append_iff add.commute)

lemma four_bytes:
  "pos + 4 \<le> length bytes \<Longrightarrow>
    [bytes ! pos, bytes ! (pos + 1), bytes ! (pos + 2), bytes ! (pos + 3)] = take 4 (drop pos bytes)"
  by (rule nth_equalityI) (auto simp: less_Suc_eq numeral_eq_Suc)

lemma read_u32_iff: "read_u32 bytes pos = Inr n \<longleftrightarrow> prefix (to_le 4 n) (drop pos bytes)"
proof (cases "pos + 4 \<le> length bytes")
  case True
  then have "read_u32 bytes pos = Inr (from_le (take 4 (drop pos bytes)))"
    unfolding read_u32_def four_bytes [OF True] by (simp del: from_le.simps)
  with True show ?thesis by (simp add: from_le_iff [of _ 4] prefix_drop_take)
next
  case False
  then show ?thesis using prefix_length_le [of "to_le 4 n" "drop pos bytes"] by (auto simp: read_u32_def)
qed

lemma read_f64_iff: "read_f64 bytes pos = Inr x \<longleftrightarrow> prefix (to_le 8 x) (drop pos bytes)"
proof (cases "pos + 8 \<le> length bytes")
  case True
  then show ?thesis by (simp add: read_f64_def from_le_iff [of _ 8] prefix_drop_take)
next
  case False
  then show ?thesis using prefix_length_le [of "to_le 8 x" "drop pos bytes"] by (auto simp: read_f64_def)
qed

lemma read_coord_pair_iff:
  "read_coord_pair bytes pos = Inr (lon, lat, q) \<longleftrightarrow>
    prefix (push_coord_pair lon lat) (drop pos bytes) \<and> q = pos + 16"
  by (auto simp: read_coord_pair_def read_f64_iff push_coord_pair_def prefix_append_drop)

lemma length_SRID_BYTES [simp]: "length SRID_BYTES = 4"
  by (simp add: SRID_BYTES_def)

lemma read_outer_header_iff:
  assumes "length ty = 4"
  shows "read_outer_header bytes ty = Inr pos \<longleftrightarrow> prefix (push_outer_header ty) bytes \<and> pos = 9"
proof (cases "length bytes < 9")
  case True
  then show ?thesis using prefix_length_le [of "push_outer_header ty" bytes] assms
    by (auto simp: read_outer_header_def push_outer_header_def SRID_BYTES_def)
next
  case False
  have srid: "from_le (take 4 (drop 5 bytes)) = SRID_4326 \<longleftrightarrow> take 4 (drop 5 bytes) = SRID_BYTES"
  proof -
    have "to_le 4 SRID_4326 = SRID_BYTES" by code_simp
    moreover have "length (take 4 (drop 5 bytes)) = 4" using False by simp
    ultimately show ?thesis using from_le_iff [of "take 4 (drop 5 bytes)" 4 SRID_4326] by simp
  qed
  have "prefix (push_outer_header ty) bytes \<longleftrightarrow> prefix ([ENDIAN_BYTE] @ ty @ SRID_BYTES) (drop 0 bytes)"
    by (simp add: push_outer_header_def)
  also have "\<dots> \<longleftrightarrow> take 1 bytes = [ENDIAN_BYTE] \<and> take 4 (drop 1 bytes) = ty \<and> take 4 (drop 5 bytes) = SRID_BYTES"
    unfolding prefix_append_drop unfolding prefix_drop_take using assms by simp
  also have "take 1 bytes = [ENDIAN_BYTE] \<longleftrightarrow> bytes ! 0 = ENDIAN_BYTE"
    using False by (cases bytes) auto
  finally have pre: "prefix (push_outer_header ty) bytes \<longleftrightarrow>
      bytes ! 0 = ENDIAN_BYTE \<and> take 4 (drop 1 bytes) = ty \<and> take 4 (drop 5 bytes) = SRID_BYTES" .
  have "[bytes ! 5, bytes ! 6, bytes ! 7, bytes ! 8] = take 4 (drop 5 bytes)"
    using four_bytes [of 5 bytes] False by simp
  then have "read_outer_header bytes ty =
     (if bytes ! 0 \<noteq> ENDIAN_BYTE then Inl (MalformedEwkb (NotLittleEndian (bytes ! 0)))
      else if take 4 (drop 1 bytes) \<noteq> ty then Inl (MalformedEwkb (WrongTypeBytes (take 4 (drop 1 bytes)) ty))
      else if from_le (take 4 (drop 5 bytes)) \<noteq> SRID_4326
      then Inl (UnexpectedSrid (from_le (take 4 (drop 5 bytes)))) else Inr 9)"
    using False unfolding read_outer_header_def by (simp add: Let_def del: from_le.simps)
  with pre srid show ?thesis by (auto simp del: from_le.simps)
qed

section \<open>The contract of a reader and its writer\<close>

text \<open>
  A reader succeeds at a position exactly when an acceptable value's encoding lies there, and
  stops behind it.
\<close>

definition encoded_at :: "('a \<Rightarrow> u8 list option) \<Rightarrow> 'a \<Rightarrow> u8 list \<Rightarrow> nat \<Rightarrow> nat \<Rightarrow> bool" where
  "encoded_at wr x bytes pos q \<longleftrightarrow>
     (case wr x of None \<Rightarrow> False | Some w \<Rightarrow> prefix w (drop pos bytes) \<and> q = pos + length w)"

lemma encoded_at_Nil [simp]: "encoded_at (write_many wr) [] bytes pos q \<longleftrightarrow> q = pos"
  by (auto simp: encoded_at_def)

lemma encoded_at_Cons [simp]:
  "encoded_at (write_many wr) (x # xs) bytes pos q \<longleftrightarrow>
    (\<exists>p. encoded_at wr x bytes pos p \<and> encoded_at (write_many wr) xs bytes p q)"
  by (auto simp: encoded_at_def prefix_append_drop ac_simps split: option.split)

lemma encoded_at_counted:
  "encoded_at (write_counted wr) xs bytes pos q \<longleftrightarrow>
    (\<exists>n. encode_count_u32 (length xs) = Some n \<and> prefix (to_le 4 n) (drop pos bytes)
      \<and> encoded_at (write_many wr) xs bytes (pos + 4) q)"
  by (auto simp: encoded_at_def write_counted_def prefix_append_drop ac_simps split: option.splits)

lemma encode_count_iff: "encode_count_u32 m = Some n \<longleftrightarrow> unat n = m"
proof -
  have "unat (of_nat m :: 32 word) = m" if "m < 2 ^ 32"
    using that by (simp add: unat_of_nat take_bit_nat_eq_self)
  moreover have "unat n < 2 ^ 32" using unsigned_less [of n] by simp
  ultimately show ?thesis by (auto simp: encode_count_u32_def)
qed

locale wire_codec =
  fixes rd :: "nat \<Rightarrow> u8 list \<Rightarrow> nat \<Rightarrow> GeoError + 'a \<times> nat"
    and wr :: "'a \<Rightarrow> u8 list option"
    and ok :: "'a \<Rightarrow> bool"
  assumes reads: "rd i bytes pos = Inr (x, q) \<longleftrightarrow> ok x \<and> encoded_at wr x bytes pos q"
begin

lemma read_many_iff:
  "read_many rd bytes n i pos = Inr (xs, q) \<longleftrightarrow>
    length xs = n \<and> list_all ok xs \<and> encoded_at (write_many wr) xs bytes pos q"
proof (induction n arbitrary: i pos xs)
  case 0
  show ?case by (auto simp: encoded_at_def)
next
  case (Suc n)
  show ?case
  proof (cases xs)
    case Nil
    then show ?thesis by (auto split: prod.splits)
  next
    case (Cons y ys)
    then show ?thesis by (auto simp: reads Suc.IH split: prod.splits)
  qed
qed

lemma counted: "wire_codec (\<lambda>_. read_counted rd) (write_counted wr) (list_all ok)"
proof
  fix bytes pos xs q
  show "read_counted rd bytes pos = Inr (xs, q) \<longleftrightarrow>
      list_all ok xs \<and> encoded_at (write_counted wr) xs bytes pos q"
    by (auto simp: read_counted_def read_u32_iff read_many_iff encode_count_iff encoded_at_counted)
qed

lemma validated:
  assumes "\<And>x v. new x = Inr v \<longleftrightarrow> x = un v \<and> good v"
  shows "wire_codec (\<lambda>i bytes pos. and_then (rd i bytes pos) (validated (what i) new)) (\<lambda>v. wr (un v))
    (\<lambda>v. ok (un v) \<and> good v)"
  by unfold_locales (auto simp: validated_def reads assms encoded_at_def split: prod.splits)

lemma sub:
  assumes "length st = 4" and "5 \<le> need" and "\<And>x w. wr x = Some w \<Longrightarrow> need \<le> 5 + length w"
  shows "wire_codec (\<lambda>i bytes pos. and_then (read_sub_header need what (label i) st bytes pos) (rd i bytes))
    (write_sub st wr) ok"
proof
  fix i bytes pos x q
  show "and_then (read_sub_header need what (label i) st bytes pos) (rd i bytes) = Inr (x, q) \<longleftrightarrow>
      ok x \<and> encoded_at (write_sub st wr) x bytes pos q"
  proof (cases "wr x")
    case None
    then show ?thesis by (auto simp: reads encoded_at_def write_sub_def)
  next
    case (Some w)
    have head: "read_sub_header need what (label i) st bytes pos = Inr p \<longleftrightarrow>
        pos + need \<le> length bytes \<and> prefix (ENDIAN_BYTE # st) (drop pos bytes) \<and> p = pos + 5" for p
    proof (cases "pos + need \<le> length bytes")
      case True
      then have "prefix ([ENDIAN_BYTE] @ st) (drop pos bytes) \<longleftrightarrow>
          bytes ! pos = ENDIAN_BYTE \<and> take 4 (drop (pos + 1) bytes) = st"
        unfolding prefix_append_drop unfolding prefix_drop_take using assms(1, 2)
        by (simp add: take_Suc_conv_app_nth hd_drop_conv_nth take_Suc)
      with True show ?thesis by (auto simp: read_sub_header_def)
    qed (simp add: read_sub_header_def)
    have "pos + need \<le> length bytes" if "prefix (ENDIAN_BYTE # st @ w) (drop pos bytes)"
      using prefix_length_le [OF that] assms Some by (auto dest: assms(3))
    then show ?thesis
      using Some assms(1) prefix_append_drop [of "ENDIAN_BYTE # st" w pos bytes]
      by (auto simp: head reads encoded_at_def write_sub_def)
  qed
qed

end

section \<open>Values the constructors accept\<close>

text \<open>
  A value is valid when its constructor returns it from its own parts. The fields of a point are
  public, so an invalid one can be built and encoded; no decoder gives it back.
\<close>

definition valid_point :: "GeoPoint \<Rightarrow> bool" where
  "valid_point p \<longleftrightarrow> point_new (gp_lat p) (gp_lon p) = Inr p"

definition valid_line :: "LineString \<Rightarrow> bool" where
  "valid_line ls \<longleftrightarrow> list_all valid_point (ls_points ls) \<and> linestring_new (ls_points ls) = Inr ls"

definition valid_polygon :: "Polygon \<Rightarrow> bool" where
  "valid_polygon p \<longleftrightarrow>
     list_all (list_all valid_point) (pl_rings p) \<and> polygon_from_rings (pl_rings p) = Inr p"

fun valid_geography :: "GeographyValue \<Rightarrow> bool" where
  "valid_geography (GvPoint p) = valid_point p"
| "valid_geography (GvLineString ls) = valid_line ls"
| "valid_geography (GvPolygon p) = valid_polygon p"
| "valid_geography (GvMultiPoint mp) =
     (list_all valid_point (mp_points mp) \<and> multipoint_new (mp_points mp) = Inr mp)"
| "valid_geography (GvMultiLineString mls) =
     (list_all valid_line (ml_lines mls) \<and> multilinestring_new (ml_lines mls) = Inr mls)"
| "valid_geography (GvMultiPolygon mp) =
     (list_all valid_polygon (mg_polygons mp) \<and> multipolygon_new (mg_polygons mp) = Inr mp)"

lemma point_new_Inr: "point_new lat lon = Inr p \<Longrightarrow> gp_lat p = lat \<and> gp_lon p = lon"
  by (auto simp: point_new_def split: if_splits)

lemma linestring_new_Inr: "linestring_new x = Inr v \<longleftrightarrow> x = ls_points v \<and> linestring_new (ls_points v) = Inr v"
  by (auto simp: linestring_new_def split: if_splits)

lemma polygon_from_rings_Inr:
  "polygon_from_rings x = Inr v \<longleftrightarrow> x = pl_rings v \<and> polygon_from_rings (pl_rings v) = Inr v"
  by (auto simp: polygon_from_rings_def split: list.splits)

lemma multipoint_new_Inr: "multipoint_new x = Inr v \<longleftrightarrow> x = mp_points v \<and> multipoint_new (mp_points v) = Inr v"
  by (auto simp: multipoint_new_def split: if_splits)

lemma multilinestring_new_Inr:
  "multilinestring_new x = Inr v \<longleftrightarrow> x = ml_lines v \<and> multilinestring_new (ml_lines v) = Inr v"
  by (auto simp: multilinestring_new_def split: if_splits)

lemma multipolygon_new_Inr:
  "multipolygon_new x = Inr v \<longleftrightarrow> x = mg_polygons v \<and> multipolygon_new (mg_polygons v) = Inr v"
  by (auto simp: multipolygon_new_def split: if_splits)

section \<open>The readers of the source keep the contract\<close>

lemma write_point_length: "write_point p = Some w \<Longrightarrow> 21 \<le> 5 + length w"
  by (auto simp: write_point_def push_coord_pair_def)

lemma subtype_lengths [simp]:
  "length SUBTYPE_POINT = 4" "length SUBTYPE_LINESTRING = 4" "length SUBTYPE_POLYGON = 4"
  by (simp_all add: SUBTYPE_POINT_def SUBTYPE_LINESTRING_def SUBTYPE_POLYGON_def)

lemma outer_type_lengths [simp]:
  "length TYPE_BYTES = 4" "length TYPE_LINESTRING = 4" "length TYPE_POLYGON = 4"
  "length TYPE_MULTIPOINT = 4" "length TYPE_MULTILINESTRING = 4" "length TYPE_MULTIPOLYGON = 4"
  by (simp_all add: TYPE_BYTES_def TYPE_LINESTRING_def TYPE_POLYGON_def TYPE_MULTIPOINT_def
      TYPE_MULTILINESTRING_def TYPE_MULTIPOLYGON_def)

lemma read_point_iff: "read_point l bytes pos = Inr (p, q) \<longleftrightarrow> valid_point p \<and> encoded_at write_point p bytes pos q"
proof -
  have "read_point l bytes pos = Inr (p, q) \<longleftrightarrow>
      (\<exists>lon lat. read_coord_pair bytes pos = Inr (lon, lat, q) \<and> point_new lat lon = Inr p)"
    by (auto simp: read_point_def)
  also have "\<dots> \<longleftrightarrow> read_coord_pair bytes pos = Inr (gp_lon p, gp_lat p, q) \<and> valid_point p"
    unfolding valid_point_def using point_new_Inr by blast
  finally show ?thesis
    by (auto simp: read_coord_pair_iff encoded_at_def write_point_def push_coord_pair_def)
qed

interpretation point_reader: wire_codec "\<lambda>i. read_point (label i)" write_point valid_point for label
  by unfold_locales (rule read_point_iff)

interpretation ring_reader:
  wire_codec "\<lambda>_. read_counted (\<lambda>_. read_point label)" "write_counted write_point" "list_all valid_point" for label
  by (rule point_reader.counted)

interpretation rings_reader: wire_codec "\<lambda>_. read_counted (\<lambda>_. read_counted (\<lambda>_. read_point label))"
  "write_counted (write_counted write_point)" "list_all (list_all valid_point)" for label
  by (rule ring_reader.counted)

interpretation polygon_reader: wire_codec "\<lambda>i. decode_polygon_body (label i)" write_rings valid_polygon for label
proof
  fix i bytes pos p q
  show "decode_polygon_body (label i) bytes pos = Inr (p, q) \<longleftrightarrow>
      valid_polygon p \<and> encoded_at write_rings p bytes pos q"
    using wire_codec.reads [OF rings_reader.validated [OF polygon_from_rings_Inr, where what = "\<lambda>_. ''decoded '' @ label i"]]
    by (simp add: decode_polygon_body_def valid_polygon_def encoded_at_def write_rings_def)
qed

interpretation sub_point: wire_codec read_sub_point "write_sub SUBTYPE_POINT write_point" valid_point
proof
  fix i bytes pos p q
  show "read_sub_point i bytes pos = Inr (p, q) \<longleftrightarrow>
      valid_point p \<and> encoded_at (write_sub SUBTYPE_POINT write_point) p bytes pos q"
    unfolding read_sub_point_def Let_def
    by (rule wire_codec.reads [OF point_reader.sub [where need = 21]]) (simp_all add: write_point_length)
qed

interpretation line_reader: wire_codec "\<lambda>i bytes pos.
    and_then (read_counted (\<lambda>pi. read_point (label i pi)) bytes pos) (validated (what i) linestring_new)"
  write_line valid_line for label what
proof
  fix i bytes pos l q
  show "and_then (read_counted (\<lambda>pi. read_point (label i pi)) bytes pos) (validated (what i) linestring_new)
      = Inr (l, q) \<longleftrightarrow> valid_line l \<and> encoded_at write_line l bytes pos q"
    using wire_codec.reads [OF wire_codec.validated [OF point_reader.counted [of "label i"] linestring_new_Inr, where what = "\<lambda>_. what i"]]
    by (simp add: valid_line_def encoded_at_def write_line_def)
qed

interpretation sub_line: wire_codec read_sub_line "write_sub SUBTYPE_LINESTRING write_line" valid_line
proof
  fix i bytes pos l q
  show "read_sub_line i bytes pos = Inr (l, q) \<longleftrightarrow>
      valid_line l \<and> encoded_at (write_sub SUBTYPE_LINESTRING write_line) l bytes pos q"
    unfolding read_sub_line_def Let_def
    by (rule wire_codec.reads [OF line_reader.sub [where need = 5]]) simp_all
qed

interpretation sub_polygon: wire_codec read_sub_polygon "write_sub SUBTYPE_POLYGON write_rings" valid_polygon
proof
  fix i bytes pos p q
  show "read_sub_polygon i bytes pos = Inr (p, q) \<longleftrightarrow>
      valid_polygon p \<and> encoded_at (write_sub SUBTYPE_POLYGON write_rings) p bytes pos q"
    unfolding read_sub_polygon_def Let_def
    by (rule wire_codec.reads [OF polygon_reader.sub [where need = 5]]) simp_all
qed

section \<open>The decoders\<close>

text \<open>An outer header, a part read behind it, and a constructor that unwraps to the part.\<close>

lemma framed_decoder:
  assumes "length ty = 4"
    and "\<And>pos x q. rd bytes pos = Inr (x, q) \<longleftrightarrow> ok x \<and> encoded_at wr x bytes pos q"
  shows "and_then (read_outer_header bytes ty) (\<lambda>pos. and_then (rd bytes pos) k) = Inr v \<longleftrightarrow>
    (\<exists>x w. ok x \<and> wr x = Some w \<and> prefix (push_outer_header ty @ w) bytes \<and> k (x, 9 + length w) = Inr v)"
proof -
  have len: "length (push_outer_header ty) = 9" using assms(1) by (simp add: push_outer_header_def)
  have "and_then (read_outer_header bytes ty) (\<lambda>pos. and_then (rd bytes pos) k) = Inr v \<longleftrightarrow>
      prefix (push_outer_header ty) bytes \<and> (\<exists>x q. ok x \<and> encoded_at wr x bytes 9 q \<and> k (x, q) = Inr v)"
    by (auto simp: read_outer_header_iff [OF assms(1)] assms(2))
  also have "\<dots> \<longleftrightarrow> (\<exists>x w. ok x \<and> wr x = Some w \<and> prefix (push_outer_header ty @ w) bytes \<and> k (x, 9 + length w) = Inr v)"
    using prefix_append_drop [of "push_outer_header ty" _ 0 bytes] len
    by (auto simp: encoded_at_def split: option.splits)
  finally show ?thesis .
qed

lemma framed_validated:
  assumes "length ty = 4"
    and "\<And>pos x q. rd bytes pos = Inr (x, q) \<longleftrightarrow> ok x \<and> encoded_at wr x bytes pos q"
    and "\<And>x v. new x = Inr v \<longleftrightarrow> x = un v \<and> good v"
  shows "and_then (read_outer_header bytes ty) (\<lambda>pos.
      and_then (rd bytes pos) (\<lambda>r. map_sum id fst (validated what new r))) = Inr v \<longleftrightarrow>
    (ok (un v) \<and> good v) \<and> (\<exists>w. map_option ((@) (push_outer_header ty)) (wr (un v)) = Some w \<and> prefix w bytes)"
  unfolding framed_decoder [where rd = rd and ok = ok and wr = wr, OF assms(1, 2)] by (auto simp: validated_def assms(3))

lemma decode_linestring_iff:
  "decode_linestring bytes = Inr ls \<longleftrightarrow>
    valid_line ls \<and> (\<exists>w. encode_linestring_into ls = Some w \<and> prefix w bytes)"
  unfolding decode_linestring_def encode_linestring_into_def write_line_def valid_line_def
  by (rule framed_validated [OF _ ring_reader.reads linestring_new_Inr]) simp

lemma decode_multipoint_iff:
  "decode_multipoint bytes = Inr mp \<longleftrightarrow>
    (list_all valid_point (mp_points mp) \<and> multipoint_new (mp_points mp) = Inr mp)
    \<and> (\<exists>w. encode_multipoint_into mp = Some w \<and> prefix w bytes)"
  unfolding decode_multipoint_def encode_multipoint_into_def
  by (rule framed_validated [OF _ wire_codec.reads [OF sub_point.counted] multipoint_new_Inr]) simp

lemma decode_multilinestring_iff:
  "decode_multilinestring bytes = Inr mls \<longleftrightarrow>
    (list_all valid_line (ml_lines mls) \<and> multilinestring_new (ml_lines mls) = Inr mls)
    \<and> (\<exists>w. encode_multilinestring_into mls = Some w \<and> prefix w bytes)"
  unfolding decode_multilinestring_def encode_multilinestring_into_def
  by (rule framed_validated [OF _ wire_codec.reads [OF sub_line.counted] multilinestring_new_Inr]) simp

lemma decode_multipolygon_iff:
  "decode_multipolygon bytes = Inr mp \<longleftrightarrow>
    (list_all valid_polygon (mg_polygons mp) \<and> multipolygon_new (mg_polygons mp) = Inr mp)
    \<and> (\<exists>w. encode_multipolygon_into mp = Some w \<and> prefix w bytes)"
  unfolding decode_multipolygon_def encode_multipolygon_into_def
  by (rule framed_validated [OF _ wire_codec.reads [OF sub_polygon.counted] multipolygon_new_Inr]) simp

lemma decode_polygon_iff:
  "decode_polygon bytes = Inr p \<longleftrightarrow>
    valid_polygon p \<and> (\<exists>w. encode_polygon_into p = Some w \<and> prefix w bytes)"
proof -
  have "decode_polygon bytes = and_then (read_outer_header bytes TYPE_POLYGON) (\<lambda>pos.
      and_then (decode_polygon_body ''Polygon EWKB'' bytes pos) (\<lambda>(x, q). Inr x))"
    unfolding decode_polygon_def by (intro arg_cong [where f = "and_then _"] ext)
      (auto simp: and_then_def split: sum.splits)
  then show ?thesis
    using framed_decoder [where rd = "decode_polygon_body ''Polygon EWKB''" and k = "\<lambda>(x, q). Inr x",
        OF _ polygon_reader.reads [where label = "\<lambda>_. ''Polygon EWKB''"], of TYPE_POLYGON bytes p]
    by (auto simp: encode_polygon_into_def)
qed

lemma point_from_ewkb_iff:
  "point_from_ewkb bytes = Inr p \<longleftrightarrow> valid_point p \<and> encode_point_into p = Some bytes"
proof -
  have "point_from_ewkb bytes = Inr p \<longleftrightarrow> length bytes = EWKB_LEN \<and>
      (\<exists>lat lon. prefix (push_outer_header TYPE_BYTES @ push_coord_pair lon lat) bytes \<and> point_new lat lon = Inr p)"
    using prefix_append_drop [of "push_outer_header TYPE_BYTES" _ 0 bytes]
    by (auto simp: point_from_ewkb_def decode_point_def read_outer_header_iff read_coord_pair_iff push_outer_header_def)
  also have "\<dots> \<longleftrightarrow> length bytes = EWKB_LEN \<and> valid_point p
      \<and> prefix (push_outer_header TYPE_BYTES @ push_coord_pair (gp_lon p) (gp_lat p)) bytes"
    unfolding valid_point_def using point_new_Inr by blast
  also have "\<dots> \<longleftrightarrow> valid_point p \<and> bytes = push_outer_header TYPE_BYTES @ push_coord_pair (gp_lon p) (gp_lat p)"
    by (auto simp: EWKB_LEN_def push_outer_header_def push_coord_pair_def prefix_def)
  finally show ?thesis by (auto simp: encode_point_into_def write_point_def)
qed

section \<open>Lengths\<close>

text \<open>\<open>sized wr f\<close>: what \<open>wr\<close> writes for \<open>x\<close> is \<open>f x\<close> bytes long, and it writes it when \<open>fits x\<close>.\<close>

definition sized :: "('a \<Rightarrow> u8 list option) \<Rightarrow> ('a \<Rightarrow> nat) \<Rightarrow> ('a \<Rightarrow> bool) \<Rightarrow> bool" where
  "sized wr f fits \<longleftrightarrow> (\<forall>x. map_option length (wr x) = (if fits x then Some (f x) else None))"

lemma sized_point: "sized write_point (\<lambda>_. 16) (\<lambda>_. True)"
  by (simp add: sized_def write_point_def push_coord_pair_def)

lemma map_option_length_append:
  "map_option length (map_option ((@) v) r) = map_option (\<lambda>n. length v + n) (map_option length r)"
  by (cases r) simp_all

lemma sized_sub: "sized wr f fits \<Longrightarrow> length st = 4 \<Longrightarrow> sized (write_sub st wr) (\<lambda>x. 5 + f x) fits"
  by (simp add: sized_def write_sub_def map_option_length_append)

lemma sized_many:
  assumes "sized wr f fits"
  shows "sized (write_many wr) (\<lambda>xs. sum_list (map f xs)) (list_all fits)"
  unfolding sized_def
proof
  fix xs
  show "map_option length (write_many wr xs) = (if list_all fits xs then Some (sum_list (map f xs)) else None)"
  proof (induction xs)
    case (Cons x xs)
    have "map_option length (wr x) = (if fits x then Some (f x) else None)"
      using assms by (simp add: sized_def)
    with Cons show ?case by (cases "wr x") (auto simp: map_option_length_append split: if_splits)
  qed simp
qed

definition count_fits :: "'a list \<Rightarrow> bool" where
  "count_fits xs \<longleftrightarrow> length xs < 2 ^ 32"

lemma sized_counted:
  assumes "sized wr f fits"
  shows "sized (write_counted wr) (\<lambda>xs. 4 + sum_list (map f xs)) (\<lambda>xs. count_fits xs \<and> list_all fits xs)"
  unfolding sized_def
proof
  fix xs
  have "map_option length (write_many wr xs) = (if list_all fits xs then Some (sum_list (map f xs)) else None)"
    using sized_many [OF assms] by (simp add: sized_def)
  then show "map_option length (write_counted wr xs)
      = (if count_fits xs \<and> list_all fits xs then Some (4 + sum_list (map f xs)) else None)"
    by (cases "write_many wr xs")
      (auto simp: write_counted_def encode_count_u32_def count_fits_def map_option_length_append split: if_splits)
qed

lemma sized_line: "sized write_line (\<lambda>ls. 4 + 16 * length (ls_points ls)) (\<lambda>ls. count_fits (ls_points ls))"
  using sized_counted [OF sized_point] by (simp add: sized_def write_line_def sum_list_triv list_all_iff mult.commute)

lemma sized_rings:
  "sized write_rings (\<lambda>p. 4 + sum_list (map (\<lambda>r. 4 + 16 * length r) (pl_rings p)))
    (\<lambda>p. count_fits (pl_rings p) \<and> list_all count_fits (pl_rings p))"
  using sized_counted [OF sized_counted [OF sized_point]]
  by (simp add: sized_def write_rings_def sum_list_triv list_all_iff mult.commute)

lemmas sized_subs =
  sized_counted [OF sized_sub [OF sized_point subtype_lengths(1)]]
  sized_counted [OF sized_sub [OF sized_line subtype_lengths(2)]]
  sized_counted [OF sized_sub [OF sized_rings subtype_lengths(3)]]

text \<open>Every list of the value has fewer than \<open>2 ^ 32\<close> elements.\<close>

fun counts_fit :: "GeographyValue \<Rightarrow> bool" where
  "counts_fit (GvPoint p) = True"
| "counts_fit (GvLineString ls) = count_fits (ls_points ls)"
| "counts_fit (GvPolygon p) = (count_fits (pl_rings p) \<and> list_all count_fits (pl_rings p))"
| "counts_fit (GvMultiPoint mp) = count_fits (mp_points mp)"
| "counts_fit (GvMultiLineString mls) =
     (count_fits (ml_lines mls) \<and> list_all (count_fits \<circ> ls_points) (ml_lines mls))"
| "counts_fit (GvMultiPolygon mp) =
     (count_fits (mg_polygons mp)
      \<and> list_all (\<lambda>p. count_fits (pl_rings p) \<and> list_all count_fits (pl_rings p)) (mg_polygons mp))"

lemma foldl_add: "foldl (\<lambda>n x. n + f x) (a::nat) xs = a + sum_list (map f xs)"
  by (induction xs arbitrary: a) simp_all

lemma sum_list_add: "sum_list (map (\<lambda>x. a + f x) xs) = length xs * a + (sum_list (map f xs) :: nat)"
  by (induction xs) simp_all

lemma sum_list_times: "sum_list (map (\<lambda>x. f x * a) xs) = sum_list (map f xs) * (a :: nat)"
  by (induction xs) (simp_all add: algebra_simps)

lemma push_outer_header_length: "length ty = 4 \<Longrightarrow> length (push_outer_header ty) = 9"
  by (simp add: push_outer_header_def)

text \<open>
  C39: an encoder panics exactly when a count does not fit 32 bits; otherwise it writes exactly
  the bytes whose number was reserved in advance.\<close>

theorem encoders_fill_their_capacity:
  "map_option length (to_ewkb_bytes g) = (if counts_fit g then Some (ewkb_capacity g) else None)"
proof (cases g)
  case (GvMultiLineString mls)
  show ?thesis
    using sized_subs(2) [unfolded sized_def, rule_format, of "ml_lines mls"] GvMultiLineString
    by (simp add: encode_multilinestring_into_def map_option_length_append push_outer_header_length
        multilinestring_byte_len_def foldl_add comp_def mult.commute)
next
  case (GvMultiPolygon mp)
  show ?thesis
    using sized_subs(3) [unfolded sized_def, rule_format, of "mg_polygons mp"] GvMultiPolygon
    by (simp add: encode_multipolygon_into_def map_option_length_append push_outer_header_length
        multipolygon_byte_len_def foldl_add comp_def mult.commute sum_list_add add.assoc)
next
  case (GvPolygon p)
  show ?thesis
    using sized_rings [unfolded sized_def, rule_format, of p] GvPolygon
    by (simp add: encode_polygon_into_def map_option_length_append push_outer_header_length
        polygon_byte_len_def sum_list_add sum_list_times mult.commute [of 16])
next
  case (GvMultiPoint mp)
  show ?thesis
    using sized_subs(1) [unfolded sized_def, rule_format, of "mp_points mp"] GvMultiPoint
    by (simp add: encode_multipoint_into_def map_option_length_append push_outer_header_length
        multipoint_byte_len_def sum_list_triv list_all_iff mult.commute)
next
  case (GvLineString ls)
  show ?thesis
    using sized_line [unfolded sized_def, rule_format, of ls] GvLineString
    by (simp add: encode_linestring_into_def map_option_length_append push_outer_header_length
        linestring_byte_len_def)
next
  case (GvPoint p)
  then show ?thesis
    by (simp add: encode_point_into_def write_point_def push_coord_pair_def push_outer_header_length EWKB_LEN_def)
qed

section \<open>The codec\<close>

text \<open>
  C15: \<open>from_ewkb_bytes\<close> of a subtype returns \<open>g\<close> exactly when \<open>g\<close> is a valid value of that
  subtype and the buffer starts with the bytes \<open>to_ewkb_bytes\<close> writes for it and, for a point,
  ends there: only the point decoder asks for nothing behind them, the other five ignore
  trailing bytes.
\<close>

theorem decoders_accept_encodings:
  "from_ewkb_bytes k bytes = Inr g \<longleftrightarrow>
    SUBTYPE g = k \<and> valid_geography g
    \<and> (case to_ewkb_bytes g of
         None \<Rightarrow> False
       | Some w \<Rightarrow> if k = SubPoint then bytes = w else prefix w bytes)"
proof (cases k)
  case SubPoint
  then show ?thesis by (cases g) (auto simp: point_from_ewkb_iff split: option.splits)
next
  case SubLineString
  then show ?thesis by (cases g) (auto simp: decode_linestring_iff split: option.splits)
next
  case SubPolygon
  then show ?thesis by (cases g) (auto simp: decode_polygon_iff split: option.splits)
next
  case SubMultiPoint
  then show ?thesis by (cases g) (auto simp: decode_multipoint_iff split: option.splits)
next
  case SubMultiLineString
  then show ?thesis by (cases g) (auto simp: decode_multilinestring_iff split: option.splits)
next
  case SubMultiPolygon
  then show ?thesis by (cases g) (auto simp: decode_multipolygon_iff split: option.splits)
qed

end
