(* ===== verification/Accumulator.thy ===== *)
theory Accumulator
  imports Sql_Text
begin

text \<open>
  The SQL accumulator, \<open>djogi/src/pg/accumulator.rs\<close>: the text of a query, its bind values and
  the number of the next placeholder. The number is a \<open>u32\<close>, here a \<^typ>\<open>nat\<close> with every
  \<open>checked_add\<close> written out; \<^const>\<open>None\<close> is the panic of \<open>ACCUMULATOR_OVERFLOW_MSG\<close>. The type
  of the boxed bind values is a parameter.
\<close>

record 'v SqlAccumulator =
  acc_sql :: string
  acc_binds :: "'v list"
  acc_next :: nat

definition fits_u32 :: "nat \<Rightarrow> bool" where
  "fits_u32 n \<longleftrightarrow> n < 4294967296"

definition acc_new :: "string \<Rightarrow> 'v SqlAccumulator" where
  "acc_new initial_sql = \<lparr>acc_sql = initial_sql, acc_binds = [], acc_next = 1\<rparr>"

definition push_sql :: "string \<Rightarrow> 'v SqlAccumulator \<Rightarrow> 'v SqlAccumulator" where
  "push_sql s acc = acc\<lparr>acc_sql := acc_sql acc @ s\<rparr>"

definition placeholder :: "nat \<Rightarrow> string" where
  "placeholder n = CHR ''$'' # show_nat n"

definition push_bind :: "'v \<Rightarrow> 'v SqlAccumulator \<Rightarrow> 'v SqlAccumulator option" where
  "push_bind v acc =
     (if fits_u32 (acc_next acc + 1)
      then Some \<lparr>acc_sql = acc_sql acc @ placeholder (acc_next acc), acc_binds = acc_binds acc @ [v],
             acc_next = acc_next acc + 1\<rparr>
      else None)"

fun push_more_binds :: "'v list \<Rightarrow> 'v SqlAccumulator \<Rightarrow> 'v SqlAccumulator option" where
  "push_more_binds [] acc = Some acc"
| "push_more_binds (v # vs) acc =
     (case push_bind v (push_sql '', '' acc) of None \<Rightarrow> None | Some acc' \<Rightarrow> push_more_binds vs acc')"

definition push_list_binds :: "'v list \<Rightarrow> 'v SqlAccumulator \<Rightarrow> 'v SqlAccumulator option" where
  "push_list_binds vs acc =
     (case vs of [] \<Rightarrow> Some acc
      | v # rest \<Rightarrow> (case push_bind v acc of None \<Rightarrow> None | Some acc' \<Rightarrow> push_more_binds rest acc'))"

definition push_csv :: "string list \<Rightarrow> 'v SqlAccumulator \<Rightarrow> 'v SqlAccumulator" where
  "push_csv items acc =
     (case items of [] \<Rightarrow> acc | s # rest \<Rightarrow> foldl (\<lambda>acc s. push_sql s (push_sql '', '' acc)) (push_sql s acc) rest)"

definition push_null_literal :: "'v SqlAccumulator \<Rightarrow> 'v SqlAccumulator" where
  "push_null_literal acc = push_sql ''NULL'' acc"

definition bind_count :: "'v SqlAccumulator \<Rightarrow> nat" where
  "bind_count acc = acc_next acc - 1"

definition pop_sql_suffix :: "string \<Rightarrow> 'v SqlAccumulator \<Rightarrow> bool \<times> 'v SqlAccumulator" where
  "pop_sql_suffix suffix acc =
     (if drop (length (acc_sql acc) - length suffix) (acc_sql acc) = suffix
      then (True, acc\<lparr>acc_sql := take (length (acc_sql acc) - length suffix) (acc_sql acc)\<rparr>)
      else (False, acc))"

definition into_parts :: "'v SqlAccumulator \<Rightarrow> string \<times> 'v list" where
  "into_parts acc = (acc_sql acc, acc_binds acc)"

section \<open>Splicing\<close>

text \<open>The digit run of a placeholder, with its two checked steps per digit.\<close>

fun read_number :: "nat \<Rightarrow> string \<Rightarrow> nat option" where
  "read_number n [] = Some n"
| "read_number n (d # ds) =
     (if fits_u32 (n * 10) \<and> fits_u32 (n * 10 + (byte d - 48))
      then read_number (n * 10 + (byte d - 48)) ds else None)"

function renumber :: "nat \<Rightarrow> string \<Rightarrow> string option" where
  "renumber offset [] = Some []"
| "renumber offset (c # cs) =
     (if c = CHR ''$'' \<and> cs \<noteq> [] \<and> is_ascii_digit (hd cs)
      then (case read_number 0 (takeWhile is_ascii_digit cs) of
              None \<Rightarrow> None
            | Some n \<Rightarrow>
                if fits_u32 (n + offset)
                then map_option ((@) (placeholder (n + offset))) (renumber offset (dropWhile is_ascii_digit cs))
                else None)
      else map_option ((#) c) (renumber offset cs))"
  by pat_completeness auto
termination
  by (relation "measure (length \<circ> snd)") (auto simp: length_dropWhile_le le_imp_less_Suc)

declare renumber.simps(2) [simp del]

definition extend_with :: "'v SqlAccumulator \<Rightarrow> 'v SqlAccumulator \<Rightarrow> 'v SqlAccumulator option" where
  "extend_with acc other =
     (let offset = acc_next acc - 1;
          spliced = (if offset = 0 then Some (acc_sql other) else renumber offset (acc_sql other))
      in case spliced of
           None \<Rightarrow> None
         | Some text \<Rightarrow>
             if fits_u32 (length (acc_binds other)) \<and> fits_u32 (acc_next acc + length (acc_binds other))
             then Some \<lparr>acc_sql = acc_sql acc @ text, acc_binds = acc_binds acc @ acc_binds other,
                    acc_next = acc_next acc + length (acc_binds other)\<rparr>
             else None)"

section \<open>Emission as a sequence of calls\<close>

text \<open>
  An emitter works on an accumulator only through these two calls, so the model of an emitter
  is the list of the calls it makes; \<open>run\<close> makes them.
\<close>

datatype 'v call = PushSql string | PushBind 'v

fun run :: "'v call list \<Rightarrow> 'v SqlAccumulator \<Rightarrow> 'v SqlAccumulator option" where
  "run [] acc = Some acc"
| "run (PushSql s # cs) acc = run cs (push_sql s acc)"
| "run (PushBind v # cs) acc = (case push_bind v acc of None \<Rightarrow> None | Some acc' \<Rightarrow> run cs acc')"

text \<open>The text and the values of a sequence of calls that starts at placeholder \<open>n\<close>.\<close>

fun call_text :: "nat \<Rightarrow> 'v call list \<Rightarrow> string" where
  "call_text n [] = []"
| "call_text n (PushSql s # cs) = s @ call_text n cs"
| "call_text n (PushBind v # cs) = placeholder n @ call_text (Suc n) cs"

fun call_binds :: "'v call list \<Rightarrow> 'v list" where
  "call_binds [] = []"
| "call_binds (PushSql s # cs) = call_binds cs"
| "call_binds (PushBind v # cs) = v # call_binds cs"

lemma call_text_append [simp]:
  "call_text n (cs @ ds) = call_text n cs @ call_text (n + length (call_binds cs)) ds"
  by (induction n cs rule: call_text.induct) simp_all

lemma call_binds_append [simp]: "call_binds (cs @ ds) = call_binds cs @ call_binds ds"
  by (induction cs rule: call_binds.induct) simp_all

lemma run_eq:
  "run cs acc =
    (if call_binds cs = [] \<or> fits_u32 (acc_next acc + length (call_binds cs))
     then Some \<lparr>acc_sql = acc_sql acc @ call_text (acc_next acc) cs, acc_binds = acc_binds acc @ call_binds cs,
            acc_next = acc_next acc + length (call_binds cs)\<rparr>
     else None)"
  by (induction cs acc rule: run.induct)
    (auto simp: push_sql_def push_bind_def fits_u32_def split: option.split)

section \<open>Placeholders\<close>

lemma hex_digit_digit: "n < 10 \<Longrightarrow> byte (hex_digit n) = 48 + n"
  by (simp add: hex_digit_def byte_def)

lemma digit_hex [simp]: "n < 10 \<Longrightarrow> is_ascii_digit (hex_digit n)"
  by (simp add: is_ascii_digit_def hex_digit_digit)

lemma show_nat_digits: "list_all is_ascii_digit (show_nat n)"
proof (induction n rule: show_nat.induct)
  case (1 n)
  then show ?case by (subst show_nat.simps) (simp add: list_all_append)
qed

lemma show_nat_nonempty [simp]: "show_nat n \<noteq> []"
  by (subst show_nat.simps) simp

lemma read_number_append:
  "read_number n (ds @ es) = (case read_number n ds of None \<Rightarrow> None | Some m \<Rightarrow> read_number m es)"
  by (induction n ds rule: read_number.induct) auto

lemma read_number_show: "fits_u32 n \<Longrightarrow> read_number 0 (show_nat n) = Some n"
proof (induction n rule: show_nat.induct)
  case (1 n)
  show ?case
  proof (cases "n < 10")
    case True
    then show ?thesis by (subst show_nat.simps) (simp add: hex_digit_digit fits_u32_def)
  next
    case False
    then have "read_number 0 (show_nat (n div 10)) = Some (n div 10)"
      using 1 by (simp add: fits_u32_def)
    with False 1(2) show ?thesis
      by (subst show_nat.simps) (simp add: read_number_append hex_digit_digit fits_u32_def)
  qed
qed

lemma takeWhile_number:
  "rest = [] \<or> \<not> is_ascii_digit (hd rest) \<Longrightarrow>
    takeWhile is_ascii_digit (show_nat n @ rest) = show_nat n
    \<and> dropWhile is_ascii_digit (show_nat n @ rest) = rest"
  using show_nat_digits [of n]
  by (cases rest) (simp_all add: list_all_iff takeWhile_append dropWhile_append)

text \<open>
  The placeholders a text has, read as \<open>extend_with\<close> reads them. Plain calls push texts without
  a dollar sign, and none that begins with a digit directly behind a placeholder.
\<close>

function placeholders :: "string \<Rightarrow> nat list" where
  "placeholders [] = []"
| "placeholders (c # cs) =
     (if c = CHR ''$'' \<and> cs \<noteq> [] \<and> is_ascii_digit (hd cs)
      then (case read_number 0 (takeWhile is_ascii_digit cs) of
              None \<Rightarrow> placeholders (dropWhile is_ascii_digit cs)
            | Some n \<Rightarrow> n # placeholders (dropWhile is_ascii_digit cs))
      else placeholders cs)"
  by pat_completeness auto
termination
  by (relation "measure length") (auto simp: length_dropWhile_le le_imp_less_Suc)

declare placeholders.simps(2) [simp del]

fun plain_calls :: "bool \<Rightarrow> 'v call list \<Rightarrow> bool" where
  "plain_calls after_bind [] = True"
| "plain_calls after_bind (PushSql s # cs) =
     (CHR ''$'' \<notin> set s \<and> (s = [] \<or> \<not> (after_bind \<and> is_ascii_digit (hd s))) \<and> plain_calls (after_bind \<and> s = []) cs)"
| "plain_calls after_bind (PushBind v # cs) = plain_calls True cs"

lemma call_text_head:
  "plain_calls True cs \<Longrightarrow> call_text n cs = [] \<or> \<not> is_ascii_digit (hd (call_text n cs))"
proof (induction "True" cs arbitrary: n rule: plain_calls.induct)
  case (2 s cs)
  then show ?case by (cases s) auto
qed (auto simp: placeholder_def is_ascii_digit_def byte_def)

lemma renumber_plain: "CHR ''$'' \<notin> set s \<Longrightarrow> renumber k (s @ t) = map_option ((@) s) (renumber k t)"
proof (induction s)
  case Nil
  show ?case by (cases "renumber k t") simp_all
next
  case (Cons a s)
  then show ?case by (cases "renumber k t") (auto simp: renumber.simps(2))
qed

lemma placeholders_plain: "CHR ''$'' \<notin> set s \<Longrightarrow> placeholders (s @ t) = placeholders t"
  by (induction s) (auto simp: placeholders.simps(2))

lemma digit_hd_show: "is_ascii_digit (hd (show_nat n @ rest))"
  using show_nat_digits [of n] by (cases "show_nat n") simp_all

lemma renumber_placeholder:
  assumes "rest = [] \<or> \<not> is_ascii_digit (hd rest)" "fits_u32 n"
  shows "renumber k (placeholder n @ rest) =
    (if fits_u32 (n + k) then map_option ((@) (placeholder (n + k))) (renumber k rest) else None)"
  using takeWhile_number [OF assms(1), of n] assms(2) digit_hd_show [of n rest]
  by (simp add: placeholder_def renumber.simps(2) read_number_show)

lemma placeholders_placeholder:
  assumes "rest = [] \<or> \<not> is_ascii_digit (hd rest)" "fits_u32 n"
  shows "placeholders (placeholder n @ rest) = n # placeholders rest"
  using takeWhile_number [OF assms(1), of n] assms(2) digit_hd_show [of n rest]
  by (simp add: placeholder_def placeholders.simps(2) read_number_show)

lemma renumber_call_text:
  "plain_calls b cs \<Longrightarrow> fits_u32 (n + k + length (call_binds cs)) \<Longrightarrow>
    renumber k (call_text n cs) = Some (call_text (n + k) cs)"
proof (induction b cs arbitrary: n rule: plain_calls.induct)
  case (2 b s cs)
  then show ?case by (simp add: renumber_plain)
next
  case (3 b v cs)
  have "renumber k (call_text (Suc n) cs) = Some (call_text (Suc n + k) cs)"
    using 3 by simp
  then show ?case
    using 3(2, 3) call_text_head [of cs "Suc n"] by (simp add: renumber_placeholder fits_u32_def)
qed simp

lemma placeholders_call_text:
  "plain_calls b cs \<Longrightarrow> fits_u32 (n + length (call_binds cs)) \<Longrightarrow>
    placeholders (call_text n cs) = [n ..< n + length (call_binds cs)]"
proof (induction b cs arbitrary: n rule: plain_calls.induct)
  case (2 b s cs)
  then show ?case by (simp add: placeholders_plain)
next
  case (3 b v cs)
  have "placeholders (call_text (Suc n) cs) = [Suc n ..< Suc n + length (call_binds cs)]"
    using 3 by simp
  then show ?case
    using 3(2, 3) call_text_head [of cs "Suc n"]
    by (simp add: placeholders_placeholder fits_u32_def upt_conv_Cons del: upt_Suc)
qed simp

lemma renumber_zero_call_text:
  "plain_calls b cs \<Longrightarrow> fits_u32 (n + length (call_binds cs)) \<Longrightarrow> renumber 0 (call_text n cs) = Some (call_text n cs)"
  using renumber_call_text [of b cs n 0] by simp

section \<open>Properties\<close>

text \<open>The accumulators the program can build.\<close>

inductive built :: "'v SqlAccumulator \<Rightarrow> bool" where
  "built (acc_new s)"
| "built acc \<Longrightarrow> built (push_sql s acc)"
| "built acc \<Longrightarrow> push_bind v acc = Some acc' \<Longrightarrow> built acc'"
| "built acc \<Longrightarrow> push_list_binds vs acc = Some acc' \<Longrightarrow> built acc'"
| "built acc \<Longrightarrow> built (push_csv items acc)"
| "built acc \<Longrightarrow> built (push_null_literal acc)"
| "built acc \<Longrightarrow> built other \<Longrightarrow> extend_with acc other = Some acc' \<Longrightarrow> built acc'"
| "built acc \<Longrightarrow> pop_sql_suffix suffix acc = (popped, acc') \<Longrightarrow> built acc'"

definition numbered :: "'v SqlAccumulator \<Rightarrow> bool" where
  "numbered acc \<longleftrightarrow> acc_next acc = length (acc_binds acc) + 1 \<and> fits_u32 (acc_next acc)"

lemma push_sql_numbered [simp]: "numbered (push_sql s acc) = numbered acc"
  by (simp add: numbered_def push_sql_def)

lemma push_bind_numbered: "numbered acc \<Longrightarrow> push_bind v acc = Some acc' \<Longrightarrow> numbered acc'"
  by (auto simp: numbered_def push_bind_def split: if_splits)

lemma push_more_binds_numbered: "numbered acc \<Longrightarrow> push_more_binds vs acc = Some acc' \<Longrightarrow> numbered acc'"
  by (induction vs acc rule: push_more_binds.induct) (auto split: option.splits dest: push_bind_numbered [rotated])

lemma push_csv_numbered [simp]: "numbered (push_csv items acc) = numbered acc"
proof -
  have "numbered (foldl (\<lambda>acc s. push_sql s (push_sql '', '' acc)) a xs) = numbered a" for a :: "'a SqlAccumulator" and xs
    by (induction xs arbitrary: a) simp_all
  then show ?thesis by (cases items) (simp_all add: push_csv_def)
qed

lemma built_numbered: "built acc \<Longrightarrow> numbered acc"
proof (induction rule: built.induct)
  case (4 acc vs acc')
  then show ?case
    by (auto simp: push_list_binds_def split: list.splits option.splits
        dest: push_bind_numbered push_more_binds_numbered)
next
  case (7 acc other acc')
  then show ?case
    by (auto simp: extend_with_def numbered_def Let_def split: option.splits if_splits)
next
  case (8 acc suffix popped acc')
  then show ?case by (auto simp: pop_sql_suffix_def numbered_def split: if_splits)
next
  case (1 s)
  show ?case by (simp add: acc_new_def numbered_def fits_u32_def)
qed (auto simp: push_null_literal_def dest: push_bind_numbered)

text \<open>
  whatever is called on it, an accumulator's placeholder counter is one more than the
  number of bind values it holds, and fits its \<open>u32\<close>.\<close>

theorem bind_count_counts_binds:
  "built acc \<Longrightarrow>
    bind_count acc = length (acc_binds acc) \<and> acc_next acc = bind_count acc + 1 \<and> fits_u32 (acc_next acc)"
  using built_numbered by (fastforce simp: numbered_def bind_count_def)

theorem bind_count_counts_binds_witness:
  "bind_count (acc_new ''SELECT '' :: nat SqlAccumulator) = 0"
  using bind_count_counts_binds [OF built.intros(1), of "''SELECT ''", where ?'a = nat]
  by (simp add: acc_new_def)

text \<open>
  C19: if the calls push no dollar sign and no digit right behind a placeholder, splicing the
  accumulator they build into another one is the same as making them on the other one, overflow
  included. A dollar sign in pushed text would be renumbered.
\<close>

theorem splicing_replays:
  assumes "plain_calls False cs" and "run cs (acc_new []) = Some inner" and "built acc"
  shows "extend_with acc inner = run cs acc"
proof -
  obtain k where k: "acc_next acc = Suc k" "fits_u32 (Suc k)"
    using built_numbered [OF assms(3)] by (auto simp: numbered_def)
  have inner: "inner = \<lparr>acc_sql = call_text 1 cs, acc_binds = call_binds cs, acc_next = 1 + length (call_binds cs)\<rparr>"
    using assms(2) by (auto simp: run_eq acc_new_def split: if_splits)
  show ?thesis
  proof (cases "fits_u32 (Suc k + length (call_binds cs))")
    case True
    then have "renumber k (call_text 1 cs) = Some (call_text (Suc k) cs)"
      using renumber_call_text [OF assms(1), of 1 k] by simp
    moreover have "fits_u32 (length (call_binds cs))" "fits_u32 (Suc (length (call_binds cs)))"
      using True by (simp_all add: fits_u32_def)
    ultimately show ?thesis
      using True by (simp add: extend_with_def inner run_eq k)
  next
    case False
    then have "call_binds cs \<noteq> []" using k(2) by auto
    with False show ?thesis
      by (cases "k = 0") (simp_all add: extend_with_def inner run_eq k split: option.split)
  qed
qed

text \<open>
  the placeholders of a text are numbered from one, in the order of the bind values.\<close>

theorem placeholders_in_order:
  assumes "plain_calls False cs" and "run cs (acc_new []) = Some acc"
  shows "placeholders (acc_sql acc) = [1 ..< 1 + length (acc_binds acc)] \<and> acc_binds acc = call_binds cs"
proof -
  have "fits_u32 (1 + length (call_binds cs))"
    using assms(2) by (auto simp: run_eq acc_new_def fits_u32_def split: if_splits)
  with assms placeholders_call_text [OF assms(1), of 1] show ?thesis
    by (auto simp: run_eq acc_new_def)
qed

text \<open>Two small accumulators: \<open>a = $1 AND b IN ($2, $3)\<close> spliced behind one bind.\<close>

definition sample_calls :: "nat call list" where
  "sample_calls =
     [PushSql ''a = '', PushBind 10, PushSql '' AND b IN ('', PushBind 20, PushSql '', '', PushBind 30, PushSql '')'']"

definition sample_outer :: "nat SqlAccumulator" where
  "sample_outer = \<lparr>acc_sql = ''c = $1 OR '', acc_binds = [5], acc_next = 2\<rparr>"

lemma placeholder_digits:
  "placeholder 1 = ''$1''" "placeholder (Suc 0) = ''$1''" "placeholder (Suc (Suc 0)) = ''$2''"
  "placeholder (Suc (Suc (Suc 0))) = ''$3''" "placeholder 2 = ''$2''" "placeholder 3 = ''$3''" "placeholder 4 = ''$4''"
  by code_simp+

lemma sample_outer_built: "built sample_outer"
proof -
  have "push_bind (5 :: nat) (acc_new ''c = '') = Some \<lparr>acc_sql = ''c = $1'', acc_binds = [5], acc_next = 2\<rparr>"
    by (simp add: push_bind_def acc_new_def fits_u32_def placeholder_digits)
  then have "built \<lparr>acc_sql = ''c = $1'', acc_binds = [5 :: nat], acc_next = 2\<rparr>" by (rule built.intros(3) [OF built.intros(1)])
  then have "built (push_sql '' OR '' \<lparr>acc_sql = ''c = $1'', acc_binds = [5 :: nat], acc_next = 2\<rparr>)" by (rule built.intros(2))
  then show ?thesis by (simp add: push_sql_def sample_outer_def)
qed

lemma sample_run:
  "run sample_calls (acc_new []) =
    Some \<lparr>acc_sql = ''a = $1 AND b IN ($2, $3)'', acc_binds = [10, 20, 30], acc_next = 4\<rparr>"
  by (simp add: sample_calls_def push_bind_def push_sql_def acc_new_def fits_u32_def placeholder_digits)

lemma sample_plain: "plain_calls False sample_calls"
  by code_simp

theorem splicing_replays_witness:
  "extend_with sample_outer \<lparr>acc_sql = ''a = $1 AND b IN ($2, $3)'', acc_binds = [10, 20, 30], acc_next = 4\<rparr>
    = Some \<lparr>acc_sql = ''c = $1 OR a = $2 AND b IN ($3, $4)'', acc_binds = [5, 10, 20, 30], acc_next = 5\<rparr>"
proof -
  have "run sample_calls sample_outer
      = Some \<lparr>acc_sql = ''c = $1 OR a = $2 AND b IN ($3, $4)'', acc_binds = [5, 10, 20, 30], acc_next = 5\<rparr>"
    by (simp add: sample_calls_def sample_outer_def push_bind_def push_sql_def fits_u32_def placeholder_digits)
  then show ?thesis using splicing_replays [OF sample_plain sample_run sample_outer_built] by simp
qed

theorem placeholders_in_order_witness: "placeholders ''a = $1 AND b IN ($2, $3)'' = [1, 2, 3]"
  using placeholders_in_order [OF sample_plain sample_run] by (simp add: upt_rec)

end
