(* ===== verification/Query_Ast.thy ===== *)
theory Query_Ast
  imports Result Accumulator
begin

text \<open>
  The query layer's syntax trees, for a build without the optional features: filter values,
  ordering, expressions (\<open>expr/node.rs\<close>), conditions (\<open>query/condition.rs\<close>) and the predicate
  \<open>Q\<close> (\<open>query/q.rs\<close>). Values of third-party types (dates, uuids, decimals, ranges) are the
  parameter \<open>'p\<close>, a window specification, which the code here carries but does not read, is
  \<open>'w\<close>, and a field predicate of the external predicate library is \<open>'f\<close>. A subquery's erased
  predicate is the last parameter of an expression: \<open>Q\<close> ties the knot.
\<close>

section \<open>Values\<close>

text \<open>
  The variants that carry a value, or a list of values, of a third-party type are grouped: the
  code treats them alike.
\<close>

datatype ForeignKind =
    FkTimestamp | FkDateTime | FkDate | FkUuid | FkHeerId | FkRanjId | FkHeerIdDesc | FkRanjIdDesc
  | FkDecimal | FkInterval | FkRangeI32 | FkRangeI64 | FkRangeDecimal | FkRangeTimestamp | FkRangeDateTime | FkRangeDate

datatype ArrayValues =
    AvString "string list" | AvI32 "i32 list" | AvI64 "i64 list" | AvBool "bool list"
  | AvI16 "16 word list" | AvF32 "32 word list" | AvF64 "64 word list"

datatype (dead 'p) FilterValue =
    FvString string
  | FvI16 "16 word" | FvI32 i32 | FvI64 i64 | FvF32 "32 word" | FvF64 "64 word" | FvBool bool
  | FvForeign ForeignKind 'p
  | FvNull
  | FvList "'p FilterValue list"
  | FvPair "'p FilterValue" "'p FilterValue"
  | FvBytea "8 word list"
  | FvArray ArrayValues
  | FvForeignArray ForeignKind "'p list"

section \<open>Ordering\<close>

datatype Direction = Asc | Desc
datatype NullsOrder = NullsDefault | NullsFirst | NullsLast
datatype OrderExpr = OrderColumn string Direction NullsOrder

definition nulls_first :: "OrderExpr \<Rightarrow> OrderExpr" where
  "nulls_first ord = (case ord of OrderColumn c d n \<Rightarrow> OrderColumn c d NullsFirst)"

definition nulls_last :: "OrderExpr \<Rightarrow> OrderExpr" where
  "nulls_last ord = (case ord of OrderColumn c d n \<Rightarrow> OrderColumn c d NullsLast)"

section \<open>Expressions\<close>

datatype CmpOp = CmpEq | CmpNeq | CmpGt | CmpGte | CmpLt | CmpLte | CmpIsDistinctFrom | CmpIsNotDistinctFrom
datatype SubqueryQuantifier = QuantAny | QuantAll
datatype QuantifiedCmpOp = QcEq | QcNeq | QcGt | QcGte | QcLt | QcLte

text \<open>\<open>TryFrom<CmpOp> for QuantifiedCmpOp\<close>: the error is the message of the modifier.\<close>

fun quantified_try_from :: "CmpOp \<Rightarrow> string + QuantifiedCmpOp" where
  "quantified_try_from CmpEq = Inr QcEq"
| "quantified_try_from CmpNeq = Inr QcNeq"
| "quantified_try_from CmpGt = Inr QcGt"
| "quantified_try_from CmpGte = Inr QcGte"
| "quantified_try_from CmpLt = Inr QcLt"
| "quantified_try_from CmpLte = Inr QcLte"
| "quantified_try_from CmpIsDistinctFrom = Inl ''IS DISTINCT FROM has no quantified subquery form''"
| "quantified_try_from CmpIsNotDistinctFrom = Inl ''IS NOT DISTINCT FROM has no quantified subquery form''"

text \<open>The aggregates, grouped by how many arguments their call takes.\<close>

datatype UnaryAgg =
    AggCount | AggSum | AggAvg | AggMin | AggMax | AggArrayAgg | AggJsonAgg
  | AggBoolAnd | AggBoolOr | AggEvery | AggBitAnd | AggBitOr | AggBitXor
  | AggStddevPop | AggStddevSamp | AggStddev | AggVarPop | AggVarSamp | AggVariance | AggGrouping

datatype BinaryAgg =
    AggCovarPop | AggCovarSamp | AggCorr | AggRegrAvgx | AggRegrAvgy | AggRegrCount | AggRegrIntercept
  | AggRegrR2 | AggRegrSlope | AggRegrSxx | AggRegrSxy | AggRegrSyy | AggJsonObjectAgg | AggJsonbObjectAgg

datatype OrderedAgg =
    AggPercentileCont | AggPercentileDisc | AggMode
  | AggHypotheticalRank | AggHypotheticalDenseRank | AggHypotheticalPercentRank | AggHypotheticalCumeDist

datatype AggOp = AggCountStar | AggStringAgg string | AggUnary UnaryAgg | AggBinary BinaryAgg | AggOrdered OrderedAgg

text \<open>The binary operators, and the three text-search forms, which the emitter treats alike.\<close>

datatype BinaryOp = OpAdd | OpSub | OpMul | OpDiv | OpAnd | OpOr
datatype TsKind = TsMatch | TsRank | TsRankCd

datatype 'q SubqueryNode = SubqueryNode (sq_table: string) (sq_select_column: "string option") (sq_where: "'q option")

datatype (dead 'p, dead 'w, 'q) ExprNode =
    EField string
  | ERawSql string
  | ELiteral "'p FilterValue"
  | EBinary BinaryOp "('p, 'w, 'q) ExprNode" "('p, 'w, 'q) ExprNode"
  | ENot "('p, 'w, 'q) ExprNode"
  | EIsNull "('p, 'w, 'q) ExprNode"
  | EIsNotNull "('p, 'w, 'q) ExprNode"
  | ECoalesce "('p, 'w, 'q) ExprNode list"
  | ECmp CmpOp "('p, 'w, 'q) ExprNode" "('p, 'w, 'q) ExprNode"
  | EGroupingVariadic "('p, 'w, 'q) ExprNode list"
  | EAggregate (agg_op: AggOp) (agg_arg: "('p, 'w, 'q) ExprNode") (agg_arg2: "('p, 'w, 'q) ExprNode option")
      (agg_filter: "('p, 'w, 'q) ExprNode option") (agg_cast_to: "string option") (agg_distinct: bool)
      (agg_window: "'w option") (agg_order_by: "OrderExpr list") (agg_within_group: "OrderExpr list")
  | ECase "(('p, 'w, 'q) ExprNode \<times> ('p, 'w, 'q) ExprNode) list" "('p, 'w, 'q) ExprNode"
  | EExists "'q SubqueryNode"
  | ESubquery "'q SubqueryNode"
  | EInSubquery "('p, 'w, 'q) ExprNode" bool "'q SubqueryNode"
  | EQuantifiedSubquery "('p, 'w, 'q) ExprNode" QuantifiedCmpOp SubqueryQuantifier "'q SubqueryNode"
  | EArrayLength string
  | ECurrentYear
  | EOuterRef string
  | EOuterRefColumn string string
  | EExcluded string
  | EOuterRefAlias string string nat string
  | ETs TsKind string string string
  | EIntervalLiteral i64

section \<open>Conditions and predicates\<close>

datatype LookupOp =
    LoEq | LoNeq | LoGt | LoGte | LoLt | LoLte | LoIn | LoNotIn | LoIsNull | LoIsNotNull
  | LoIContains | LoIStartsWith | LoIEndsWith | LoBetween | LoIExact | LoRegex | LoIRegex

record 'p Leaf =
  leaf_column :: string
  leaf_op :: LookupOp
  leaf_value :: "'p FilterValue"

record 'p ArrayLeaf =
  array_column :: string
  array_values :: "'p FilterValue"

datatype RangePredicateOp =
    RpContains | RpContainedBy | RpOverlaps | RpStrictlyLeftOf | RpStrictlyRightOf | RpNotExtendsRightOf
  | RpNotExtendsLeftOf | RpAdjacentTo

record 'p RangePredicateLeaf =
  range_column :: string
  range_op :: RangePredicateOp
  range_value :: "'p FilterValue"
  range_cast :: "string option"

record 'p JsonbPathLeaf =
  jp_column :: string
  jp_path :: string
  jp_cast :: "string option"
  jp_op :: LookupOp
  jp_value :: "'p FilterValue"

datatype (dead 'p, dead 'w, 'q) Condition =
    CTrue
  | CLeaf "'p Leaf"
  | CAnd "('p, 'w, 'q) Condition list"
  | COr "('p, 'w, 'q) Condition list"
  | CNot "('p, 'w, 'q) Condition"
  | CExpr "('p, 'w, 'q) ExprNode"
  | CArrayContains "'p ArrayLeaf"
  | CArrayContainedBy "'p ArrayLeaf"
  | CArrayOverlap "'p ArrayLeaf"
  | CRangePredicate "'p RangePredicateLeaf"
  | CJsonbPath "'p JsonbPathLeaf"
  | CRawSql string

text \<open>The predicate tree of the external library, as far as the code matches on it.\<close>

datatype 'f BasicPredicate =
    BTrue | BFalse | BField 'f
  | BAnd "'f BasicPredicate list" | BOr "'f BasicPredicate list"
  | BNot "'f BasicPredicate" | BXor "'f BasicPredicate" "'f BasicPredicate"

datatype CompoundOp = CompoundAnd | CompoundOr

datatype 'p ArrayPredicate = ArrContains "'p ArrayLeaf" | ArrContainedBy "'p ArrayLeaf" | ArrOverlap "'p ArrayLeaf"

datatype (dead 'p, dead 'w, 'f) Q =
    QPortable "'f BasicPredicate"
  | QIlike string string
  | QJsonbPath "'p JsonbPathLeaf"
  | QRegex string string bool
  | QExpression "('p, 'w, ('p, 'w, 'f) Q) ExprNode"
  | QArray "'p ArrayPredicate"
  | QCondition "('p, 'w, ('p, 'w, 'f) Q) Condition"
  | QCompound CompoundOp "('p, 'w, 'f) Q list"
  | QXor "('p, 'w, 'f) Q" "('p, 'w, 'f) Q"
  | QNegated "('p, 'w, 'f) Q"

end
