(* ===== verification/Query_Emit.thy ===== *)
theory Query_Emit
  imports Query_Ast
begin

text \<open>
  The emitters of expressions (\<open>expr/sql.rs\<close>) and of conditions and predicates
  (\<open>query/sql.rs\<close>, \<open>query/portable.rs\<close>). An emitter is the list of the calls it makes on the
  accumulator, or the error or panic that stops it. The one debug assertion panics here: no
  caller outside the crate can reach it, so a release build behaves alike.
\<close>

section \<open>Results\<close>

datatype PortablePredicateError =
    UnsupportedModel string
  | UnsupportedField string
  | UnsupportedLookup string string
  | ValueTypeMismatch string string
  | UnsupportedFieldType string
  | LateralOuterRefOutOfScope string string
  | LateralOuterRefModelMismatch string string string
  | CacheInvalidNode string
  | UnsupportedPredicateKind string
  | UntrustedJsonPredicate string

datatype emit_failure = EmitError PortablePredicateError | EmitPanic string

type_synonym 'p emitted = "emit_failure + 'p FilterValue call list"

definition emit_sql :: "string \<Rightarrow> 'p emitted" where
  "emit_sql s = Inr [PushSql s]"

definition emit_bind :: "'p FilterValue \<Rightarrow> 'p emitted" where
  "emit_bind v = Inr [PushBind v]"

fun emit_seq :: "'p emitted list \<Rightarrow> 'p emitted" where
  "emit_seq [] = Inr []"
| "emit_seq (r # rs) = and_then r (\<lambda>cs. and_then (emit_seq rs) (\<lambda>ds. Inr (cs @ ds)))"

text \<open>The loops that push a separator before every element but the first.\<close>

fun emit_separated :: "string \<Rightarrow> 'p emitted list \<Rightarrow> 'p emitted" where
  "emit_separated sep [] = Inr []"
| "emit_separated sep [r] = r"
| "emit_separated sep (r # rs) = emit_seq [r, emit_sql sep, emit_separated sep rs]"

section \<open>The emission context\<close>

record LateralOuterScope =
  lo_alias :: string
  lo_model_type :: nat
  lo_model_name :: string

record SqlEmitContext =
  ctx_parent_table :: "string option"
  ctx_lateral_outer :: "LateralOuterScope option"

definition ctx_root :: SqlEmitContext where
  "ctx_root = \<lparr>ctx_parent_table = None, ctx_lateral_outer = None\<rparr>"

definition ctx_joined :: "string \<Rightarrow> SqlEmitContext" where
  "ctx_joined parent_table = \<lparr>ctx_parent_table = Some parent_table, ctx_lateral_outer = None\<rparr>"

definition lateral_inner_scope :: "nat \<Rightarrow> string \<Rightarrow> string \<Rightarrow> SqlEmitContext" where
  "lateral_inner_scope model_type model_name alias =
     \<lparr>ctx_parent_table = None,
      ctx_lateral_outer = Some \<lparr>lo_alias = alias, lo_model_type = model_type, lo_model_name = model_name\<rparr>\<rparr>"

definition subquery_body :: "SqlEmitContext \<Rightarrow> SqlEmitContext" where
  "subquery_body ctx = ctx\<lparr>ctx_parent_table := None\<rparr>"

definition push_column :: "SqlEmitContext \<Rightarrow> string \<Rightarrow> 'p emitted" where
  "push_column ctx column =
     (if CHR ''.'' \<in> set column then emit_sql column
      else case ctx_parent_table ctx of
             Some t \<Rightarrow> emit_seq [emit_sql t, emit_sql ''.'', emit_sql column]
           | None \<Rightarrow> emit_sql column)"

definition push_qualified_col :: "string \<Rightarrow> string option \<Rightarrow> 'p emitted" where
  "push_qualified_col col parent_table =
     (case parent_table of
        Some t \<Rightarrow> emit_seq [emit_sql t, emit_sql ''.'', emit_sql col]
      | None \<Rightarrow> emit_sql col)"

section \<open>Values\<close>

fun push_filter_value :: "'p FilterValue \<Rightarrow> 'p emitted" where
  "push_filter_value FvNull = emit_sql ''NULL''"
| "push_filter_value (FvList _) = Inl (EmitPanic ''push_filter_value called with List/Pair'')"
| "push_filter_value (FvPair _ _) = Inl (EmitPanic ''push_filter_value called with List/Pair'')"
| "push_filter_value v = emit_bind v"

fun push_list_element :: "'p FilterValue \<Rightarrow> 'p emitted" where
  "push_list_element FvNull = Inl (EmitPanic ''nested/null FilterValue in IN list'')"
| "push_list_element (FvList _) = Inl (EmitPanic ''nested/null FilterValue in IN list'')"
| "push_list_element (FvPair _ _) = Inl (EmitPanic ''nested/null FilterValue in IN list'')"
| "push_list_element scalar = push_filter_value scalar"

definition escape_like :: "string \<Rightarrow> string" where
  "escape_like s =
     concat (map (\<lambda>c. if c = CHR 0x5C \<or> c = CHR ''%'' \<or> c = CHR ''_'' then [CHR 0x5C, c] else [c]) s)"

section \<open>Order expressions\<close>

definition emit_order :: "string option \<Rightarrow> OrderExpr \<Rightarrow> 'p emitted" where
  "emit_order table_qualifier ord =
     (case ord of OrderColumn column direction nulls \<Rightarrow>
        emit_seq
          [push_qualified_col column table_qualifier,
           (case direction of Asc \<Rightarrow> emit_sql '' ASC'' | Desc \<Rightarrow> emit_sql '' DESC''),
           (case nulls of NullsFirst \<Rightarrow> emit_sql '' NULLS FIRST'' | NullsLast \<Rightarrow> emit_sql '' NULLS LAST''
            | NullsDefault \<Rightarrow> Inr [])])"

definition push_aggregate_order_by :: "OrderExpr list \<Rightarrow> 'p emitted" where
  "push_aggregate_order_by order_by =
     (if order_by = [] then Inr []
      else emit_seq [emit_sql '' ORDER BY '', emit_separated '', '' (map (emit_order None) order_by)])"

definition emit_within_group_target :: "OrderExpr list \<Rightarrow> 'p emitted" where
  "emit_within_group_target targets = emit_separated '', '' (map (emit_order None) targets)"

section \<open>Operators\<close>

fun cmp_token :: "CmpOp \<Rightarrow> string" where
  "cmp_token CmpEq = '' = ''"
| "cmp_token CmpNeq = '' <> ''"
| "cmp_token CmpGt = '' > ''"
| "cmp_token CmpGte = '' >= ''"
| "cmp_token CmpLt = '' < ''"
| "cmp_token CmpLte = '' <= ''"
| "cmp_token CmpIsDistinctFrom = '' IS DISTINCT FROM ''"
| "cmp_token CmpIsNotDistinctFrom = '' IS NOT DISTINCT FROM ''"

fun quantified_token :: "QuantifiedCmpOp \<Rightarrow> string" where
  "quantified_token QcEq = ''=''"
| "quantified_token QcNeq = ''<>''"
| "quantified_token QcGt = ''>''"
| "quantified_token QcGte = ''>=''"
| "quantified_token QcLt = ''<''"
| "quantified_token QcLte = ''<=''"

fun binary_token :: "BinaryOp \<Rightarrow> string" where
  "binary_token OpAdd = '' + ''"
| "binary_token OpSub = '' - ''"
| "binary_token OpMul = '' * ''"
| "binary_token OpDiv = '' / ''"
| "binary_token OpAnd = '' AND ''"
| "binary_token OpOr = '' OR ''"

fun unary_agg_opener :: "UnaryAgg \<Rightarrow> string" where
  "unary_agg_opener AggCount = ''COUNT(''"
| "unary_agg_opener AggSum = ''SUM(''"
| "unary_agg_opener AggAvg = ''AVG(''"
| "unary_agg_opener AggMin = ''MIN(''"
| "unary_agg_opener AggMax = ''MAX(''"
| "unary_agg_opener AggArrayAgg = ''ARRAY_AGG(''"
| "unary_agg_opener AggJsonAgg = ''JSONB_AGG(''"
| "unary_agg_opener AggBoolAnd = ''BOOL_AND(''"
| "unary_agg_opener AggBoolOr = ''BOOL_OR(''"
| "unary_agg_opener AggEvery = ''EVERY(''"
| "unary_agg_opener AggBitAnd = ''BIT_AND(''"
| "unary_agg_opener AggBitOr = ''BIT_OR(''"
| "unary_agg_opener AggBitXor = ''BIT_XOR(''"
| "unary_agg_opener AggStddevPop = ''STDDEV_POP(''"
| "unary_agg_opener AggStddevSamp = ''STDDEV_SAMP(''"
| "unary_agg_opener AggStddev = ''STDDEV(''"
| "unary_agg_opener AggVarPop = ''VAR_POP(''"
| "unary_agg_opener AggVarSamp = ''VAR_SAMP(''"
| "unary_agg_opener AggVariance = ''VARIANCE(''"
| "unary_agg_opener AggGrouping = ''GROUPING(''"

fun binary_agg_opener :: "BinaryAgg \<Rightarrow> string" where
  "binary_agg_opener AggCovarPop = ''COVAR_POP(''"
| "binary_agg_opener AggCovarSamp = ''COVAR_SAMP(''"
| "binary_agg_opener AggCorr = ''CORR(''"
| "binary_agg_opener AggRegrAvgx = ''REGR_AVGX(''"
| "binary_agg_opener AggRegrAvgy = ''REGR_AVGY(''"
| "binary_agg_opener AggRegrCount = ''REGR_COUNT(''"
| "binary_agg_opener AggRegrIntercept = ''REGR_INTERCEPT(''"
| "binary_agg_opener AggRegrR2 = ''REGR_R2(''"
| "binary_agg_opener AggRegrSlope = ''REGR_SLOPE(''"
| "binary_agg_opener AggRegrSxx = ''REGR_SXX(''"
| "binary_agg_opener AggRegrSxy = ''REGR_SXY(''"
| "binary_agg_opener AggRegrSyy = ''REGR_SYY(''"
| "binary_agg_opener AggJsonObjectAgg = ''JSON_OBJECT_AGG(''"
| "binary_agg_opener AggJsonbObjectAgg = ''JSONB_OBJECT_AGG(''"

text \<open>\<open>MODE()\<close> takes no argument; the others put theirs before \<open>WITHIN GROUP\<close>.\<close>

fun ordered_agg_opener :: "OrderedAgg \<Rightarrow> string option" where
  "ordered_agg_opener AggPercentileCont = Some ''PERCENTILE_CONT(''"
| "ordered_agg_opener AggPercentileDisc = Some ''PERCENTILE_DISC(''"
| "ordered_agg_opener AggMode = None"
| "ordered_agg_opener AggHypotheticalRank = Some ''RANK(''"
| "ordered_agg_opener AggHypotheticalDenseRank = Some ''DENSE_RANK(''"
| "ordered_agg_opener AggHypotheticalPercentRank = Some ''PERCENT_RANK(''"
| "ordered_agg_opener AggHypotheticalCumeDist = Some ''CUME_DIST(''"

definition emit_unary_agg :: "string \<Rightarrow> bool \<Rightarrow> 'p emitted \<Rightarrow> OrderExpr list \<Rightarrow> 'p emitted" where
  "emit_unary_agg opener is_distinct arg order_by =
     emit_seq [emit_sql opener, (if is_distinct then emit_sql ''DISTINCT '' else Inr []), arg,
       push_aggregate_order_by order_by, emit_sql '')'']"

definition emit_binary_agg :: "string \<Rightarrow> bool \<Rightarrow> 'p emitted \<Rightarrow> 'p emitted \<Rightarrow> OrderExpr list \<Rightarrow> 'p emitted" where
  "emit_binary_agg opener is_distinct arg arg2 order_by =
     emit_seq [emit_sql opener, (if is_distinct then emit_sql ''DISTINCT '' else Inr []), arg, emit_sql '', '', arg2,
       push_aggregate_order_by order_by, emit_sql '')'']"

definition emit_ordered_agg :: "OrderedAgg \<Rightarrow> 'p emitted \<Rightarrow> OrderExpr list \<Rightarrow> 'p emitted" where
  "emit_ordered_agg op arg within_group_order_by =
     emit_seq
       [(case ordered_agg_opener op of
           Some opener \<Rightarrow> emit_seq [emit_sql opener, arg, emit_sql '') WITHIN GROUP (ORDER BY '']
         | None \<Rightarrow> emit_sql ''MODE() WITHIN GROUP (ORDER BY ''),
        emit_within_group_target within_group_order_by, emit_sql '')'']"

text \<open>One aggregate call; without the spatial feature no aggregate casts its result, so a filter
  always follows.\<close>

definition emit_aggregate_call ::
  "AggOp \<Rightarrow> 'p emitted \<Rightarrow> 'p emitted option \<Rightarrow> 'p emitted option \<Rightarrow> bool \<Rightarrow> OrderExpr list \<Rightarrow> OrderExpr list \<Rightarrow>
   'p emitted" where
  "emit_aggregate_call op arg arg2 filt is_distinct order_by within_group_order_by =
     emit_seq
       [(case op of
           AggCountStar \<Rightarrow> emit_sql ''COUNT(*)''
         | AggStringAgg sep \<Rightarrow>
             emit_seq [emit_sql ''STRING_AGG('', (if is_distinct then emit_sql ''DISTINCT '' else Inr []), arg,
               emit_sql '', '', emit_bind (FvString sep), push_aggregate_order_by order_by, emit_sql '')'']
         | AggUnary u \<Rightarrow> emit_unary_agg (unary_agg_opener u) is_distinct arg order_by
         | AggBinary b \<Rightarrow>
             (case arg2 of
                None \<Rightarrow> Inl (EmitPanic ''aggregate must have arg2 set'')
              | Some arg2 \<Rightarrow> emit_binary_agg (binary_agg_opener b) is_distinct arg arg2 order_by)
         | AggOrdered k \<Rightarrow> emit_ordered_agg k arg within_group_order_by),
        (case filt of
           None \<Rightarrow> Inr []
         | Some cond \<Rightarrow> emit_seq [emit_sql '' FILTER (WHERE '', cond, emit_sql '')''])]"

fun emit_ts :: "TsKind \<Rightarrow> string \<Rightarrow> string \<Rightarrow> string \<Rightarrow> 'p emitted" where
  "emit_ts kind column dictionary query_text =
     (let (prefix, sep, suffix) =
        (case kind of TsMatch \<Rightarrow> ([], '' @@ '', '')'') | TsRank \<Rightarrow> (''ts_rank('', '', '', ''))'')
         | TsRankCd \<Rightarrow> (''ts_rank_cd('', '', '', ''))''))
      in emit_seq [emit_sql prefix, emit_sql column, emit_sql sep, emit_sql ''to_tsquery('', emit_sql [CHR 0x27],
           emit_sql dictionary, emit_sql [CHR 0x27], emit_sql '', '', emit_bind (FvString query_text), emit_sql suffix])"

definition show_i64 :: "i64 \<Rightarrow> string" where
  "show_i64 n = (if sint n < 0 then CHR ''-'' # show_nat (nat (- sint n)) else show_nat (nat (sint n)))"

section \<open>Expressions\<close>

fun is_compound :: "('p, 'w, 'q) ExprNode \<Rightarrow> bool" where
  "is_compound (EBinary _ _ _) = True"
| "is_compound _ = False"

definition wrapped_if_compound :: "bool \<Rightarrow> 'p emitted \<Rightarrow> 'p emitted" where
  "wrapped_if_compound compound r = (if compound then emit_seq [emit_sql ''('', r, emit_sql '')''] else r)"

text \<open>A subquery; its predicate is an emitter, as in the source.\<close>

definition emit_subquery :: "(SqlEmitContext \<Rightarrow> 'p emitted) SubqueryNode \<Rightarrow> SqlEmitContext \<Rightarrow> 'p emitted" where
  "emit_subquery node ctx =
     emit_seq
       [emit_sql ''SELECT '',
        (case sq_select_column node of Some col \<Rightarrow> emit_sql col | None \<Rightarrow> emit_sql ''1''),
        emit_sql '' FROM '', emit_sql (sq_table node),
        (case sq_where node of
           None \<Rightarrow> Inr []
         | Some predicate \<Rightarrow> emit_seq [emit_sql '' WHERE '', predicate (subquery_body ctx)])]"

definition emit_outer_ref_alias :: "SqlEmitContext \<Rightarrow> string \<Rightarrow> string \<Rightarrow> nat \<Rightarrow> string \<Rightarrow> 'p emitted" where
  "emit_outer_ref_alias ctx alias column model_type model_name =
     (case ctx_lateral_outer ctx of
        None \<Rightarrow> Inl (EmitError (LateralOuterRefOutOfScope column model_name))
      | Some scope \<Rightarrow>
          if model_type \<noteq> lo_model_type scope
          then Inl (EmitError (LateralOuterRefModelMismatch column model_name (lo_model_name scope)))
          else if alias \<noteq> lo_alias scope
          then Inl (EmitPanic ''lateral outer-ref alias diverged from emit context'')
          else emit_seq [emit_sql (lo_alias scope), emit_sql ''.'', emit_sql column])"

primrec emit_expr ::
  "('p, 'w, SqlEmitContext \<Rightarrow> 'p emitted) ExprNode \<Rightarrow> SqlEmitContext \<Rightarrow> 'p emitted" where
  "emit_expr (EField column) ctx = push_column ctx column"
| "emit_expr (ERawSql s) ctx = emit_seq [emit_sql ''('', emit_sql s, emit_sql '')'']"
| "emit_expr (ELiteral v) ctx = push_filter_value v"
| "emit_expr (EBinary op l r) ctx =
     emit_seq [wrapped_if_compound (is_compound l) (emit_expr l ctx), emit_sql (binary_token op),
       wrapped_if_compound (is_compound r) (emit_expr r ctx)]"
| "emit_expr (ENot e) ctx = emit_seq [emit_sql ''NOT ('', emit_expr e ctx, emit_sql '')'']"
| "emit_expr (EIsNull e) ctx = emit_seq [emit_expr e ctx, emit_sql '' IS NULL'']"
| "emit_expr (EIsNotNull e) ctx = emit_seq [emit_expr e ctx, emit_sql '' IS NOT NULL'']"
| "emit_expr (ECoalesce args) ctx =
     emit_seq [emit_sql ''COALESCE('', emit_separated '', '' (map (\<lambda>e. emit_expr e ctx) args), emit_sql '')'']"
| "emit_expr (ECmp op l r) ctx = emit_seq [emit_expr l ctx, emit_sql (cmp_token op), emit_expr r ctx]"
| "emit_expr (EGroupingVariadic args) ctx =
     emit_seq [emit_sql ''GROUPING('', emit_separated '', '' (map (\<lambda>e. emit_expr e ctx) args), emit_sql '')'']"
| "emit_expr (EAggregate op arg arg2 filt cast_to is_distinct window order_by within_group_order_by) ctx =
     emit_aggregate_call op (emit_expr arg ctx) (map_option (\<lambda>e. emit_expr e ctx) arg2)
       (map_option (\<lambda>e. emit_expr e ctx) filt) is_distinct order_by within_group_order_by"
| "emit_expr (ECase arms els) ctx =
     emit_seq
       [emit_sql ''CASE '',
        emit_seq (map (\<lambda>(cond, val). emit_seq [emit_sql ''WHEN '', cond, emit_sql '' THEN '', val, emit_sql '' ''])
          (map (map_prod (\<lambda>e. emit_expr e ctx) (\<lambda>e. emit_expr e ctx)) arms)),
        emit_sql ''ELSE '', emit_expr els ctx, emit_sql '' END'']"
| "emit_expr (EExists sub) ctx = emit_seq [emit_sql ''EXISTS ('', emit_subquery sub ctx, emit_sql '')'']"
| "emit_expr (ESubquery sub) ctx = emit_seq [emit_sql ''('', emit_subquery sub ctx, emit_sql '')'']"
| "emit_expr (EInSubquery l negated sub) ctx =
     emit_seq [emit_expr l ctx, (if negated then emit_sql '' NOT IN ('' else emit_sql '' IN (''),
       emit_subquery sub ctx, emit_sql '')'']"
| "emit_expr (EQuantifiedSubquery l op quantifier sub) ctx =
     emit_seq [emit_expr l ctx, emit_sql '' '', emit_sql (quantified_token op), emit_sql '' '',
       emit_sql (case quantifier of QuantAny \<Rightarrow> ''ANY'' | QuantAll \<Rightarrow> ''ALL''), emit_sql '' ('',
       emit_subquery sub ctx, emit_sql '')'']"
| "emit_expr (EArrayLength column) ctx = emit_seq [emit_sql ''array_length('', emit_sql column, emit_sql '', 1)'']"
| "emit_expr ECurrentYear ctx = emit_sql ''EXTRACT(YEAR FROM CURRENT_DATE)::INTEGER''"
| "emit_expr (EOuterRef column) ctx = emit_sql column"
| "emit_expr (EOuterRefColumn table column) ctx = emit_seq [emit_sql table, emit_sql ''.'', emit_sql column]"
| "emit_expr (EExcluded column) ctx = emit_seq [emit_sql ''EXCLUDED.'', emit_sql column]"
| "emit_expr (EOuterRefAlias alias column model_type model_name) ctx =
     emit_outer_ref_alias ctx alias column model_type model_name"
| "emit_expr (ETs kind column dictionary query_text) ctx = emit_ts kind column dictionary query_text"
| "emit_expr (EIntervalLiteral microseconds) ctx =
     emit_sql (''INTERVAL '' @ [CHR 0x27] @ show_i64 microseconds @ '' microseconds'' @ [CHR 0x27])"

end
