(* ===== verification/Query_Pred.thy ===== *)
theory Query_Pred
  imports Query_Emit
begin

text \<open>
  Conditions and predicates: their constructors and operators (\<open>query/condition.rs\<close>,
  \<open>query/q.rs\<close>), the bridge from a predicate to a condition, and the emitters of both
  (\<open>query/sql.rs\<close>, \<open>query/portable.rs\<close>).
\<close>

section \<open>Building\<close>

text \<open>The two or-patterns of \<open>and\<close> are tried in order: a \<open>True\<close> on either side disappears.\<close>

definition condition_and :: "('p, 'w, 'q) Condition \<Rightarrow> ('p, 'w, 'q) Condition \<Rightarrow> ('p, 'w, 'q) Condition" where
  "condition_and a b =
     (if a = CTrue then b else if b = CTrue then a
      else case a of
        CAnd va \<Rightarrow> (case b of CAnd vb \<Rightarrow> CAnd (va @ vb) | _ \<Rightarrow> CAnd (va @ [b]))
      | _ \<Rightarrow> (case b of CAnd vb \<Rightarrow> CAnd (a # vb) | _ \<Rightarrow> CAnd [a, b]))"

definition condition_or :: "('p, 'w, 'q) Condition \<Rightarrow> ('p, 'w, 'q) Condition \<Rightarrow> ('p, 'w, 'q) Condition" where
  "condition_or a b =
     (case a of
        COr va \<Rightarrow> (case b of COr vb \<Rightarrow> COr (va @ vb) | _ \<Rightarrow> COr (va @ [b]))
      | _ \<Rightarrow> (case b of COr vb \<Rightarrow> COr (a # vb) | _ \<Rightarrow> COr [a, b]))"

definition condition_not :: "('p, 'w, 'q) Condition \<Rightarrow> ('p, 'w, 'q) Condition" where
  "condition_not c = CNot c"

definition is_null_leaf :: "string \<Rightarrow> ('p, 'w, 'q) Condition" where
  "is_null_leaf column = CLeaf \<lparr>leaf_column = column, leaf_op = LoIsNull, leaf_value = FvNull\<rparr>"

primrec condition_vacuous :: "('p, 'w, 'q) Condition \<Rightarrow> bool" where
  "condition_vacuous CTrue = True"
| "condition_vacuous (CLeaf l) = False"
| "condition_vacuous (CAnd cs) = list_all id (map condition_vacuous cs)"
| "condition_vacuous (COr cs) = False"
| "condition_vacuous (CNot c) = (c = COr [])"
| "condition_vacuous (CExpr e) = False"
| "condition_vacuous (CArrayContains l) = False"
| "condition_vacuous (CArrayContainedBy l) = False"
| "condition_vacuous (CArrayOverlap l) = False"
| "condition_vacuous (CRangePredicate l) = False"
| "condition_vacuous (CJsonbPath l) = False"
| "condition_vacuous (CRawSql s) = False"

text \<open>
  The operators of \<open>Q\<close>. On two portable predicates they are the external library's own, which
  are the parameters of the model.
\<close>

definition compound_parts :: "CompoundOp \<Rightarrow> ('p, 'w, 'f) Q \<Rightarrow> ('p, 'w, 'f) Q list option" where
  "compound_parts cop q = (case q of QCompound qop parts \<Rightarrow> if qop = cop then Some parts else None | _ \<Rightarrow> None)"

definition compose_compound ::
  "('f BasicPredicate \<Rightarrow> 'f BasicPredicate \<Rightarrow> 'f BasicPredicate) \<Rightarrow> CompoundOp \<Rightarrow>
   ('p, 'w, 'f) Q \<Rightarrow> ('p, 'w, 'f) Q \<Rightarrow> ('p, 'w, 'f) Q" where
  "compose_compound portable_op cop lhs rhs =
     (case (lhs, rhs) of
        (QPortable a, QPortable b) \<Rightarrow> QPortable (portable_op a b)
      | _ \<Rightarrow>
        (case (compound_parts cop lhs, compound_parts cop rhs) of
           (Some l, Some r) \<Rightarrow> QCompound cop (l @ r)
         | (Some l, None) \<Rightarrow> QCompound cop (l @ [rhs])
         | (None, Some r) \<Rightarrow> QCompound cop (lhs # r)
         | (None, None) \<Rightarrow> QCompound cop [lhs, rhs]))"

definition q_and where "q_and portable_and l r = compose_compound portable_and CompoundAnd l r"
definition q_or where "q_or portable_or l r = compose_compound portable_or CompoundOr l r"

definition q_xor ::
  "('f BasicPredicate \<Rightarrow> 'f BasicPredicate \<Rightarrow> 'f BasicPredicate) \<Rightarrow>
   ('p, 'w, 'f) Q \<Rightarrow> ('p, 'w, 'f) Q \<Rightarrow> ('p, 'w, 'f) Q" where
  "q_xor portable_xor l r =
     (case (l, r) of (QPortable a, QPortable b) \<Rightarrow> QPortable (portable_xor a b) | _ \<Rightarrow> QXor l r)"

definition q_not :: "('f BasicPredicate \<Rightarrow> 'f BasicPredicate) \<Rightarrow> ('p, 'w, 'f) Q \<Rightarrow> ('p, 'w, 'f) Q" where
  "q_not portable_not q =
     (case q of QPortable p \<Rightarrow> QPortable (portable_not p) | QNegated inner \<Rightarrow> inner | _ \<Rightarrow> QNegated q)"

definition q_always_true :: "('p, 'w, 'f) Q" where "q_always_true = QPortable BTrue"
definition q_always_false :: "('p, 'w, 'f) Q" where "q_always_false = QPortable BFalse"

section \<open>The bridge to conditions\<close>

definition xor_condition :: "('p, 'w, 'q) Condition \<Rightarrow> ('p, 'w, 'q) Condition \<Rightarrow> ('p, 'w, 'q) Condition" where
  "xor_condition ca cb = COr [CAnd [CNot ca, cb], CAnd [ca, CNot cb]]"

text \<open>\<^const>\<open>None\<close> is the panic on a field predicate.\<close>

fun collect_all :: "'a option list \<Rightarrow> 'a list option" where
  "collect_all [] = Some []"
| "collect_all (x # xs) =
     (case x of None \<Rightarrow> None | Some y \<Rightarrow> (case collect_all xs of None \<Rightarrow> None | Some ys \<Rightarrow> Some (y # ys)))"

primrec basic_predicate_to_condition :: "'f BasicPredicate \<Rightarrow> ('p, 'w, 'q) Condition option" where
  "basic_predicate_to_condition BTrue = Some CTrue"
| "basic_predicate_to_condition BFalse = Some (COr [])"
| "basic_predicate_to_condition (BField f) = None"
| "basic_predicate_to_condition (BAnd ps) = map_option CAnd (collect_all (map basic_predicate_to_condition ps))"
| "basic_predicate_to_condition (BOr ps) = map_option COr (collect_all (map basic_predicate_to_condition ps))"
| "basic_predicate_to_condition (BNot p) = map_option CNot (basic_predicate_to_condition p)"
| "basic_predicate_to_condition (BXor a b) =
     (case basic_predicate_to_condition a of
        None \<Rightarrow> None
      | Some ca \<Rightarrow> map_option (xor_condition ca) (basic_predicate_to_condition b))"

definition string_leaf :: "string \<Rightarrow> LookupOp \<Rightarrow> string \<Rightarrow> 'p Leaf" where
  "string_leaf column lop s = \<lparr>leaf_column = column, leaf_op = lop, leaf_value = FvString s\<rparr>"

primrec q_to_condition :: "('p, 'w, 'f) Q \<Rightarrow> ('p, 'w, ('p, 'w, 'f) Q) Condition option" where
  "q_to_condition (QPortable p) = basic_predicate_to_condition p"
| "q_to_condition (QIlike column pattern) = Some (CLeaf (string_leaf column LoIContains pattern))"
| "q_to_condition (QJsonbPath leaf) = Some (CJsonbPath leaf)"
| "q_to_condition (QRegex column pattern case_sensitive) =
     Some (CLeaf (string_leaf column (if case_sensitive then LoRegex else LoIRegex) pattern))"
| "q_to_condition (QExpression e) = Some (CExpr e)"
| "q_to_condition (QArray a) =
     Some (case a of ArrContains l \<Rightarrow> CArrayContains l | ArrContainedBy l \<Rightarrow> CArrayContainedBy l
           | ArrOverlap l \<Rightarrow> CArrayOverlap l)"
| "q_to_condition (QCondition c) = Some c"
| "q_to_condition (QCompound cop parts) =
     map_option (case cop of CompoundAnd \<Rightarrow> CAnd | CompoundOr \<Rightarrow> COr) (collect_all (map q_to_condition parts))"
| "q_to_condition (QXor a b) =
     (case q_to_condition a of None \<Rightarrow> None | Some ca \<Rightarrow> map_option (xor_condition ca) (q_to_condition b))"
| "q_to_condition (QNegated q) = map_option CNot (q_to_condition q)"

section \<open>Leaves\<close>

fun binary_op_token :: "LookupOp \<Rightarrow> string option" where
  "binary_op_token LoEq = Some '' = ''"
| "binary_op_token LoNeq = Some '' <> ''"
| "binary_op_token LoGt = Some '' > ''"
| "binary_op_token LoGte = Some '' >= ''"
| "binary_op_token LoLt = Some '' < ''"
| "binary_op_token LoLte = Some '' <= ''"
| "binary_op_token LoRegex = Some '' ~ ''"
| "binary_op_token LoIRegex = Some '' ~* ''"
| "binary_op_token _ = None"

definition emit_ilike :: "string option \<Rightarrow> string \<Rightarrow> string \<Rightarrow> 'p FilterValue \<Rightarrow> string \<Rightarrow> 'p emitted" where
  "emit_ilike parent_table col before v after =
     (case v of
        FvString s \<Rightarrow>
          emit_seq [push_qualified_col col parent_table, emit_sql '' ILIKE '',
            emit_bind (FvString (before @ escape_like s @ after))]
      | _ \<Rightarrow> Inl (EmitPanic ''ILIKE requires FilterValue::String''))"

text \<open>An empty list is a constant; the elements of a longer one are bound one by one.\<close>

definition emit_in :: "bool \<Rightarrow> 'p emitted \<Rightarrow> 'p FilterValue list \<Rightarrow> 'p emitted" where
  "emit_in positive lhs vs =
     (if vs = [] then emit_sql (if positive then ''FALSE'' else ''TRUE'')
      else emit_seq [lhs, emit_sql (if positive then '' IN ('' else '' NOT IN (''),
             emit_separated '', '' (map push_list_element vs), emit_sql '')''])"

definition emit_leaf :: "'p Leaf \<Rightarrow> string option \<Rightarrow> 'p emitted" where
  "emit_leaf leaf parent_table =
     (let col = leaf_column leaf; lhs = push_qualified_col col parent_table
      in case binary_op_token (leaf_op leaf) of
           Some tok \<Rightarrow> emit_seq [lhs, emit_sql tok, push_filter_value (leaf_value leaf)]
         | None \<Rightarrow>
             (case leaf_op leaf of
                LoIsNull \<Rightarrow> emit_seq [lhs, emit_sql '' IS NULL'']
              | LoIsNotNull \<Rightarrow> emit_seq [lhs, emit_sql '' IS NOT NULL'']
              | LoIContains \<Rightarrow> emit_ilike parent_table col ''%'' (leaf_value leaf) ''%''
              | LoIStartsWith \<Rightarrow> emit_ilike parent_table col [] (leaf_value leaf) ''%''
              | LoIEndsWith \<Rightarrow> emit_ilike parent_table col ''%'' (leaf_value leaf) []
              | LoIExact \<Rightarrow>
                  emit_seq [emit_sql ''LOWER('', lhs, emit_sql '') = LOWER('', push_filter_value (leaf_value leaf),
                    emit_sql '')'']
              | LoBetween \<Rightarrow>
                  (case leaf_value leaf of
                     FvPair a b \<Rightarrow>
                       emit_seq [lhs, emit_sql '' BETWEEN '', push_filter_value a, emit_sql '' AND '', push_filter_value b]
                   | _ \<Rightarrow> Inl (EmitPanic ''Between requires FilterValue::Pair''))
              | LoIn \<Rightarrow>
                  (case leaf_value leaf of FvList vs \<Rightarrow> emit_in True lhs vs
                   | _ \<Rightarrow> Inl (EmitPanic ''In/NotIn requires FilterValue::List''))
              | LoNotIn \<Rightarrow>
                  (case leaf_value leaf of FvList vs \<Rightarrow> emit_in False lhs vs
                   | _ \<Rightarrow> Inl (EmitPanic ''In/NotIn requires FilterValue::List''))
              | _ \<Rightarrow> Inl (EmitPanic ''binary-op LookupOp routed past early return'')))"

text \<open>A JSON path: every segment but the last goes through \<open>->\<close>, the last through \<open>->>\<close>.\<close>

fun json_steps :: "string list \<Rightarrow> 'p emitted list" where
  "json_steps [] = []"
| "json_steps [seg] = [emit_sql (''->>'' @ [CHR 0x27]), emit_sql seg, emit_sql [CHR 0x27]]"
| "json_steps (seg # segs) =
     [emit_sql (''->'' @ [CHR 0x27]), emit_sql seg, emit_sql [CHR 0x27]] @ json_steps segs"

definition json_lhs :: "'p JsonbPathLeaf \<Rightarrow> string option \<Rightarrow> 'p emitted" where
  "json_lhs leaf parent_table =
     emit_seq
       [emit_sql ''('', push_qualified_col (jp_column leaf) parent_table,
        emit_seq (json_steps (split_at (CHR ''.'') (jp_path leaf))), emit_sql '')'',
        (case jp_cast leaf of Some c \<Rightarrow> emit_sql c | None \<Rightarrow> Inr [])]"

definition emit_jsonb_path_leaf :: "'p JsonbPathLeaf \<Rightarrow> string option \<Rightarrow> 'p emitted" where
  "emit_jsonb_path_leaf leaf parent_table =
     (let lhs = json_lhs leaf parent_table
      in if jp_op leaf = LoRegex \<or> jp_op leaf = LoIRegex
         then Inl (EmitPanic ''Regex / IRegex not supported on JsonbPathLeaf'')
         else case binary_op_token (jp_op leaf) of
           Some tok \<Rightarrow> emit_seq [lhs, emit_sql tok, push_filter_value (jp_value leaf)]
         | None \<Rightarrow>
             (case jp_op leaf of
                LoIsNull \<Rightarrow> emit_seq [lhs, emit_sql '' IS NULL'']
              | LoIsNotNull \<Rightarrow> emit_seq [lhs, emit_sql '' IS NOT NULL'']
              | LoIn \<Rightarrow>
                  (case jp_value leaf of FvList vs \<Rightarrow> emit_in True lhs vs
                   | _ \<Rightarrow> Inl (EmitPanic ''JsonbPath In requires FilterValue::List''))
              | _ \<Rightarrow> Inl (EmitPanic ''unsupported LookupOp in JsonbPathLeaf'')))"

definition emit_array :: "string \<Rightarrow> 'p ArrayLeaf \<Rightarrow> string option \<Rightarrow> 'p emitted" where
  "emit_array tok leaf parent_table =
     emit_seq [push_qualified_col (array_column leaf) parent_table, emit_sql tok, push_filter_value (array_values leaf)]"

fun range_token :: "RangePredicateOp \<Rightarrow> string" where
  "range_token RpContains = '' @> ''"
| "range_token RpContainedBy = '' <@ ''"
| "range_token RpOverlaps = '' && ''"
| "range_token RpStrictlyLeftOf = '' << ''"
| "range_token RpStrictlyRightOf = '' >> ''"
| "range_token RpNotExtendsRightOf = '' &< ''"
| "range_token RpNotExtendsLeftOf = '' &> ''"
| "range_token RpAdjacentTo = '' -|- ''"

definition emit_range :: "'p RangePredicateLeaf \<Rightarrow> string option \<Rightarrow> 'p emitted" where
  "emit_range leaf parent_table =
     emit_seq
       [push_qualified_col (range_column leaf) parent_table, emit_sql (range_token (range_op leaf)),
        push_filter_value (range_value leaf),
        (case range_cast leaf of Some cast \<Rightarrow> emit_seq [emit_sql ''::'', emit_sql cast] | None \<Rightarrow> Inr [])]"

section \<open>Trees\<close>

definition emit_joined_parts :: "string \<Rightarrow> string \<Rightarrow> 'p emitted list \<Rightarrow> 'p emitted" where
  "emit_joined_parts none sep parts =
     (if parts = [] then emit_sql none else emit_seq [emit_sql ''('', emit_separated sep parts, emit_sql '')''])"

definition emit_and :: "'p emitted list \<Rightarrow> 'p emitted" where
  "emit_and parts = emit_joined_parts ''TRUE'' '' AND '' parts"

definition emit_or :: "'p emitted list \<Rightarrow> 'p emitted" where
  "emit_or parts = emit_joined_parts ''FALSE'' '' OR '' parts"

definition emit_not :: "'p emitted \<Rightarrow> 'p emitted" where
  "emit_not r = emit_seq [emit_sql ''NOT ('', r, emit_sql '')'']"

definition emit_xor :: "'p emitted \<Rightarrow> 'p emitted \<Rightarrow> 'p emitted" where
  "emit_xor a b =
     emit_seq [emit_sql ''(((NOT ('', a, emit_sql '')) AND ('', b, emit_sql '')) OR (('', a,
       emit_sql '') AND (NOT ('', b, emit_sql ''))))'']"

primrec emit_condition ::
  "('p, 'w, SqlEmitContext \<Rightarrow> 'p emitted) Condition \<Rightarrow> string option \<Rightarrow> 'p emitted" where
  "emit_condition CTrue parent_table = emit_sql ''TRUE''"
| "emit_condition (CLeaf l) parent_table = emit_leaf l parent_table"
| "emit_condition (CAnd cs) parent_table = emit_and (map (\<lambda>c. emit_condition c parent_table) cs)"
| "emit_condition (COr cs) parent_table = emit_or (map (\<lambda>c. emit_condition c parent_table) cs)"
| "emit_condition (CNot c) parent_table = emit_not (emit_condition c parent_table)"
| "emit_condition (CExpr e) parent_table =
     emit_expr e (case parent_table of Some t \<Rightarrow> ctx_joined t | None \<Rightarrow> ctx_root)"
| "emit_condition (CArrayContains l) parent_table = emit_array '' @> '' l parent_table"
| "emit_condition (CArrayContainedBy l) parent_table = emit_array '' <@ '' l parent_table"
| "emit_condition (CArrayOverlap l) parent_table = emit_array '' && '' l parent_table"
| "emit_condition (CRangePredicate l) parent_table = emit_range l parent_table"
| "emit_condition (CJsonbPath l) parent_table = emit_jsonb_path_leaf l parent_table"
| "emit_condition (CRawSql s) parent_table = emit_seq [emit_sql ''('', emit_sql s, emit_sql '')'']"

text \<open>
  The emission of a field predicate is generated code, or the JSON emitter when the predicate is
  one over JSON: parameters of the model, together with the field's name.
\<close>

record ('f, 'p) field_api =
  field_name :: "'f \<Rightarrow> string"
  field_is_json :: "'f \<Rightarrow> bool"
  field_emit_json :: "'f \<Rightarrow> SqlEmitContext \<Rightarrow> 'p emitted"
  field_emit :: "'f \<Rightarrow> SqlEmitContext \<Rightarrow> 'p emitted"

datatype JsonTrust = Trusted | Untrusted

primrec emit_basic_predicate ::
  "('f, 'p) field_api \<Rightarrow> 'f BasicPredicate \<Rightarrow> SqlEmitContext \<Rightarrow> JsonTrust \<Rightarrow> 'p emitted" where
  "emit_basic_predicate api BTrue ctx trust = emit_sql ''TRUE''"
| "emit_basic_predicate api BFalse ctx trust = emit_sql ''FALSE''"
| "emit_basic_predicate api (BField fp) ctx trust =
     (if field_is_json api fp
      then (if trust \<noteq> Trusted then Inl (EmitError (UntrustedJsonPredicate (field_name api fp)))
            else field_emit_json api fp ctx)
      else field_emit api fp ctx)"
| "emit_basic_predicate api (BAnd ps) ctx trust = emit_and (map (\<lambda>p. emit_basic_predicate api p ctx trust) ps)"
| "emit_basic_predicate api (BOr ps) ctx trust = emit_or (map (\<lambda>p. emit_basic_predicate api p ctx trust) ps)"
| "emit_basic_predicate api (BNot p) ctx trust = emit_not (emit_basic_predicate api p ctx trust)"
| "emit_basic_predicate api (BXor a b) ctx trust =
     emit_xor (emit_basic_predicate api a ctx trust) (emit_basic_predicate api b ctx trust)"

definition emit_portable_predicate :: "('f, 'p) field_api \<Rightarrow> 'f BasicPredicate \<Rightarrow> SqlEmitContext \<Rightarrow> 'p emitted" where
  "emit_portable_predicate api p ctx = emit_basic_predicate api p ctx Trusted"

primrec emit_q :: "('f, 'p) field_api \<Rightarrow> ('p, 'w, 'f) Q \<Rightarrow> SqlEmitContext \<Rightarrow> 'p emitted" where
  "emit_q api (QPortable p) = emit_portable_predicate api p"
| "emit_q api (QIlike column pattern) = (\<lambda>ctx.
     emit_seq [push_qualified_col column (ctx_parent_table ctx), emit_sql '' ILIKE '',
       emit_bind (FvString (''%'' @ escape_like pattern @ ''%''))])"
| "emit_q api (QJsonbPath leaf) = (\<lambda>ctx. emit_jsonb_path_leaf leaf (ctx_parent_table ctx))"
| "emit_q api (QRegex column pattern case_sensitive) = (\<lambda>ctx.
     emit_seq [push_qualified_col column (ctx_parent_table ctx), emit_sql (if case_sensitive then '' ~ '' else '' ~* ''),
       emit_bind (FvString pattern)])"
| "emit_q api (QExpression e) = (\<lambda>ctx. emit_expr (map_ExprNode (emit_q api) e) ctx)"
| "emit_q api (QArray a) = (\<lambda>ctx.
     case a of ArrContains l \<Rightarrow> emit_array '' @> '' l (ctx_parent_table ctx)
     | ArrContainedBy l \<Rightarrow> emit_array '' <@ '' l (ctx_parent_table ctx)
     | ArrOverlap l \<Rightarrow> emit_array '' && '' l (ctx_parent_table ctx))"
| "emit_q api (QCondition c) = (\<lambda>ctx. emit_condition (map_Condition (emit_q api) c) (ctx_parent_table ctx))"
| "emit_q api (QCompound cop parts) = (\<lambda>ctx.
     (case cop of CompoundAnd \<Rightarrow> emit_and | CompoundOr \<Rightarrow> emit_or) (map (\<lambda>f. f ctx) (map (emit_q api) parts)))"
| "emit_q api (QXor a b) = (\<lambda>ctx. emit_xor (emit_q api a ctx) (emit_q api b ctx))"
| "emit_q api (QNegated q) = (\<lambda>ctx. emit_not (emit_q api q ctx))"

primrec q_is_vacuously_true :: "('p, 'w, 'f) Q \<Rightarrow> bool" where
  "q_is_vacuously_true (QPortable p) =
     (case p of BTrue \<Rightarrow> True | BAnd parts \<Rightarrow> list_all (\<lambda>c. c = BTrue) parts | _ \<Rightarrow> False)"
| "q_is_vacuously_true (QIlike column pattern) = False"
| "q_is_vacuously_true (QJsonbPath leaf) = False"
| "q_is_vacuously_true (QRegex column pattern case_sensitive) = False"
| "q_is_vacuously_true (QExpression e) = False"
| "q_is_vacuously_true (QArray a) = False"
| "q_is_vacuously_true (QCondition c) = condition_vacuous c"
| "q_is_vacuously_true (QCompound cop parts) = (cop = CompoundAnd \<and> list_all id (map q_is_vacuously_true parts))"
| "q_is_vacuously_true (QXor a b) = False"
| "q_is_vacuously_true (QNegated inner) =
     (case inner of
        QPortable p \<Rightarrow> p = BFalse
      | QCompound CompoundOr parts \<Rightarrow> parts = []
      | _ \<Rightarrow> False)"

definition push_where_with_ctx :: "('f, 'p) field_api \<Rightarrow> ('p, 'w, 'f) Q \<Rightarrow> SqlEmitContext \<Rightarrow> 'p emitted" where
  "push_where_with_ctx api condition ctx =
     (if q_is_vacuously_true condition then Inr []
      else emit_seq [emit_sql '' WHERE '', emit_q api condition ctx])"

end
