(* ===== verification/Query_Lex.thy ===== *)
theory Query_Lex
  imports Sql_Lex Query_Pred
begin

text \<open>
  From the calls of an emitter to the tokens of its text: the pieces an emitter pushes can be
  lexed one by one, because no word is split between two of them.
\<close>

section \<open>Texts without quotes or comments\<close>

fun calm :: "string \<Rightarrow> bool" where
  "calm [] = True"
| "calm [c] = (c \<noteq> sq \<and> c \<noteq> dq)"
| "calm (c # d # r) = (c \<noteq> sq \<and> c \<noteq> dq \<and> \<not> (c = CHR ''-'' \<and> d = CHR ''-'') \<and> calm (d # r))"

definition apart :: "string \<Rightarrow> string \<Rightarrow> bool" where
  "apart s t \<longleftrightarrow>
     s = [] \<or> t = []
     \<or> \<not> (is_word_char (last s) \<and> is_word_char (hd t)) \<and> \<not> (last s = CHR ''-'' \<and> hd t = CHR ''-'')"

lemma calm_Cons: "calm (c # r) \<longleftrightarrow> c \<noteq> sq \<and> c \<noteq> dq \<and> (r = [] \<or> \<not> (c = CHR ''-'' \<and> hd r = CHR ''-'') \<and> calm r)"
  by (cases r) auto

lemma calm_append: "calm (s @ t) \<longleftrightarrow> calm s \<and> calm t \<and> \<not> (s \<noteq> [] \<and> t \<noteq> [] \<and> last s = CHR ''-'' \<and> hd t = CHR ''-'')"
  by (induction s) (auto simp: calm_Cons)

lemma word_chars [simp]:
  "\<not> is_word_char sq" "\<not> is_word_char dq" "\<not> is_word_char (CHR ''-'')" "\<not> is_word_char (CHR '' '')"
  by code_simp+

lemma take_all: "\<forall>x\<in>set r. P x \<Longrightarrow> takeWhile P r = r" "\<forall>x\<in>set r. P x \<Longrightarrow> dropWhile P r = []"
  by (simp_all add: takeWhile_eq_all_conv)

lemma pre_append: "map_option ((@) a) (map_option ((@) b) r) = map_option ((@) (a @ b)) r"
  by (cases r) simp_all

lemma lex_space: "is_space c \<Longrightarrow> lex (c # r) = lex r"
  by (simp add: lex.simps(2))

lemma lex_word:
  "is_word_char c \<Longrightarrow> \<not> is_space c \<Longrightarrow> \<not> (r \<noteq> [] \<and> hd r = sq) \<Longrightarrow>
    lex (c # r) = pre [Word (c # takeWhile is_word_char r)] (lex (dropWhile is_word_char r))"
  by (auto simp: lex.simps(2) pre_Cons)

lemma lex_sym:
  "\<not> is_word_char c \<Longrightarrow> \<not> is_space c \<Longrightarrow> c \<noteq> sq \<Longrightarrow> c \<noteq> dq \<Longrightarrow> \<not> (c = CHR ''-'' \<and> r \<noteq> [] \<and> hd r = CHR ''-'') \<Longrightarrow>
    lex (c # r) = pre [Sym c] (lex r)"
proof -
  assume a: "\<not> is_word_char c" "\<not> is_space c" "c \<noteq> sq" "c \<noteq> dq" "\<not> (c = CHR ''-'' \<and> r \<noteq> [] \<and> hd r = CHR ''-'')"
  have "is_word_char (CHR ''E'')" "is_word_char (CHR ''e'')" by code_simp+
  with a(1) have "c \<noteq> CHR ''E''" "c \<noteq> CHR ''e''" by auto
  with a show ?thesis by (simp only: lex.simps(2) pre_Cons if_False simp_thms)
qed

lemma lex_append:
  "calm (s @ t) \<Longrightarrow> apart s t \<Longrightarrow> lex (s @ t) = (case lex s of None \<Rightarrow> None | Some ts \<Rightarrow> pre ts (lex t))"
proof (induction s rule: lex.induct)
  case 1
  show ?case by (cases "lex t") (simp_all add: pre_def)
next
  case (2 c r)
  have quotes: "c \<noteq> sq" "c \<noteq> dq" and no_escape: "\<not> (r @ t \<noteq> [] \<and> hd (r @ t) = sq)" "\<not> (r \<noteq> [] \<and> hd r = sq)"
    and no_comment: "\<not> (c = CHR ''-'' \<and> r @ t \<noteq> [] \<and> hd (r @ t) = CHR ''-'')"
      "\<not> (c = CHR ''-'' \<and> r \<noteq> [] \<and> hd r = CHR ''-'')"
    using "2.prems"(1) by (auto simp: calm_Cons calm_append neq_Nil_conv hd_append)
  have rest: "calm (r @ t)" "apart r t"
    using "2.prems" by (auto simp: calm_Cons calm_append apart_def)
  consider "is_space c" | "is_word_char c" "\<not> is_space c" | "\<not> is_word_char c" "\<not> is_space c" by blast
  then show ?case
  proof cases
    case 1
    with "2.IH"(1) rest show ?thesis by (simp add: lex_space)
  next
    case 2
    have tw: "takeWhile is_word_char (r @ t) = takeWhile is_word_char r
        \<and> dropWhile is_word_char (r @ t) = dropWhile is_word_char r @ t"
    proof (cases "\<forall>x\<in>set r. is_word_char x")
      case True
      have "t = [] \<or> \<not> is_word_char (hd t)"
        using "2.prems"(2) True 2(1) by (cases "r = []") (auto simp: apart_def)
      with True show ?thesis by (cases t) (simp_all add: takeWhile_append dropWhile_append take_all)
    next
      case False
      then show ?thesis by (auto simp: takeWhile_append dropWhile_append)
    qed
    have "calm (dropWhile is_word_char r @ t)" "apart (dropWhile is_word_char r) t"
    proof -
      have split: "r = takeWhile is_word_char r @ dropWhile is_word_char r" by simp
      show "calm (dropWhile is_word_char r @ t)"
        using rest(1) calm_append [of "takeWhile is_word_char r" "dropWhile is_word_char r @ t"] split
        by (metis append_assoc)
      show "apart (dropWhile is_word_char r) t"
      proof (cases "dropWhile is_word_char r = []")
        case False
        then have "last (dropWhile is_word_char r) = last r" using split by (metis last_appendR)
        with rest(2) False show ?thesis by (auto simp: apart_def)
      qed (simp add: apart_def)
    qed
    then have "lex (dropWhile is_word_char r @ t)
        = (case lex (dropWhile is_word_char r) of None \<Rightarrow> None | Some ts \<Rightarrow> pre ts (lex t))"
      using "2.IH"(5) 2 quotes no_escape(2) by simp
    then show ?thesis
      using lex_word [OF 2 no_escape(1)] lex_word [OF 2 no_escape(2)] tw
      by (cases "lex (dropWhile is_word_char r)") (simp_all add: pre_def pre_append)
  next
    case 3
    have "lex (r @ t) = (case lex r of None \<Rightarrow> None | Some ts \<Rightarrow> pre ts (lex t))"
      using "2.IH"(7) 3 quotes no_escape(2) no_comment(2) rest by simp
    then show ?thesis
      using lex_sym [OF 3 quotes no_comment(1)] lex_sym [OF 3 quotes no_comment(2)]
      by (cases "lex r") (simp_all add: pre_def pre_append)
  qed
qed

section \<open>The tokens of a sequence of calls\<close>

fun call_tokens :: "nat \<Rightarrow> 'v call list \<Rightarrow> Token list option" where
  "call_tokens n [] = Some []"
| "call_tokens n (PushSql s # cs) = (case lex s of None \<Rightarrow> None | Some ts \<Rightarrow> pre ts (call_tokens n cs))"
| "call_tokens n (PushBind v # cs) = pre [Sym (CHR ''$''), Word (show_nat n)] (call_tokens (Suc n) cs)"

lemma call_tokens_append:
  "call_tokens n (cs @ ds) =
    (case call_tokens n cs of None \<Rightarrow> None | Some ts \<Rightarrow> pre ts (call_tokens (n + length (call_binds cs)) ds))"
proof (induction n cs rule: call_tokens.induct)
  case (1 n)
  show ?case by (cases "call_tokens n ds") (simp_all add: pre_def)
next
  case (2 n s cs)
  then show ?case by (cases "lex s"; cases "call_tokens n cs") (simp_all add: pre_def pre_append)
next
  case (3 n v cs)
  then show ?case by (cases "call_tokens (Suc n) cs") (simp_all add: pre_def pre_append)
qed

lemma digit_word: "is_ascii_digit c \<Longrightarrow> is_word_char c"
  by (simp add: is_word_char_def is_ascii_alphanumeric_def)

lemma digit_plain: "is_ascii_digit c \<Longrightarrow> c \<noteq> sq \<and> c \<noteq> dq \<and> c \<noteq> CHR ''-'' \<and> \<not> is_space c"
  by (auto simp: is_ascii_digit_def is_space_def byte_def)

lemma show_nat_all_digits: "c \<in> set (show_nat n) \<Longrightarrow> is_ascii_digit c"
  using show_nat_digits [of n] by (simp add: list_all_iff)

lemma digits_calm: "\<forall>c\<in>set s. is_ascii_digit c \<Longrightarrow> calm s"
  by (induction s) (auto simp: calm_Cons digit_plain)

lemma placeholder_calm: "calm (placeholder n)"
  using digits_calm [of "show_nat n"] show_nat_all_digits [of _ n] by (auto simp: placeholder_def calm_Cons)

lemma lex_placeholder: "lex (placeholder n) = Some [Sym (CHR ''$''), Word (show_nat n)]"
proof -
  obtain c r where s: "show_nat n = c # r" by (cases "show_nat n") simp_all
  have digits: "is_ascii_digit c" "\<forall>x\<in>set r. is_word_char x"
    using show_nat_all_digits [of _ n] digit_word s by auto
  have "lex (show_nat n) = Some [Word (show_nat n)]"
  proof -
    have "c \<noteq> CHR ''E''" "c \<noteq> CHR ''e''" using digits(1) by (auto simp: is_ascii_digit_def byte_def)
    then show ?thesis
      using digits digit_plain [of c] digit_word [of c] s by (simp add: lex.simps(2) take_all)
  qed
  moreover have "lex (CHR ''$'' # show_nat n) = pre [Sym (CHR ''$'')] (lex (show_nat n))"
    by (simp add: lex.simps(2) is_space_def is_word_char_def is_ascii_alphanumeric_def is_ascii_alpha_def
        is_ascii_digit_def byte_def pre_Cons)
  ultimately show ?thesis by (simp add: placeholder_def pre_def)
qed

text \<open>
  A phrase is a sequence of calls whose text has the tokens of its pieces and neither begins
  nor ends with a dash. Openers and closers are the fixed texts put around phrases.
\<close>

definition phrase :: "'v call list \<Rightarrow> bool" where
  "phrase cs \<longleftrightarrow>
     (\<forall>n. calm (call_text n cs) \<and> lex (call_text n cs) = call_tokens n cs \<and> call_text n cs \<noteq> []
       \<and> hd (call_text n cs) \<noteq> CHR ''-'' \<and> last (call_text n cs) \<noteq> CHR ''-'')"

definition opener :: "string \<Rightarrow> bool" where
  "opener s \<longleftrightarrow> calm s \<and> s \<noteq> [] \<and> hd s \<noteq> CHR ''-'' \<and> last s \<noteq> CHR ''-'' \<and> \<not> is_word_char (last s)"

definition closer :: "string \<Rightarrow> bool" where
  "closer s \<longleftrightarrow> calm s \<and> s \<noteq> [] \<and> hd s \<noteq> CHR ''-'' \<and> last s \<noteq> CHR ''-'' \<and> \<not> is_word_char (hd s)"

lemma phrase_append:
  assumes "phrase cs" "phrase ds"
    and "\<And>n m. \<not> (is_word_char (last (call_text n cs)) \<and> is_word_char (hd (call_text m ds)))"
  shows "phrase (cs @ ds)"
  unfolding phrase_def
proof (intro allI conjI)
  fix n
  let ?s = "call_text n cs" and ?t = "call_text (n + length (call_binds cs)) ds"
  have "calm (?s @ ?t)" "apart ?s ?t"
    using assms unfolding phrase_def by (auto simp: calm_append apart_def)
  moreover have "lex ?s = call_tokens n cs" "lex ?t = call_tokens (n + length (call_binds cs)) ds"
    using assms(1, 2) by (simp_all add: phrase_def)
  ultimately show "calm (call_text n (cs @ ds))" "lex (call_text n (cs @ ds)) = call_tokens n (cs @ ds)"
    using lex_append [of ?s ?t] by (simp_all only: call_text_append call_tokens_append)
  show "call_text n (cs @ ds) \<noteq> []" "hd (call_text n (cs @ ds)) \<noteq> CHR ''-''"
    "last (call_text n (cs @ ds)) \<noteq> CHR ''-''"
    using assms by (simp_all add: phrase_def)
qed

lemma phrase_text:
  assumes "calm s" "s \<noteq> []" "hd s \<noteq> CHR ''-''" "last s \<noteq> CHR ''-''"
  shows "phrase [PushSql s]"
  using assms by (cases "lex s") (auto simp: phrase_def pre_def)

lemma placeholder_edges: "placeholder n \<noteq> []" "hd (placeholder n) = CHR ''$''" "last (placeholder n) \<noteq> CHR ''-''"
proof -
  have "is_ascii_digit (last (show_nat n))" by (rule show_nat_all_digits [OF last_in_set [OF show_nat_nonempty]])
  from digit_plain [OF this] show "last (placeholder n) \<noteq> CHR ''-''" by (simp add: placeholder_def)
qed (simp_all add: placeholder_def)

lemma phrase_bind: "phrase [PushBind v]"
  by (simp add: phrase_def placeholder_calm lex_placeholder placeholder_edges)

lemma phrase_open: "opener s \<Longrightarrow> phrase cs \<Longrightarrow> phrase (PushSql s # cs)"
proof -
  assume s: "opener s" and "phrase cs"
  moreover have "phrase [PushSql s]" using s by (simp add: opener_def phrase_text)
  ultimately have "phrase ([PushSql s] @ cs)" by (intro phrase_append) (simp_all add: opener_def)
  then show ?thesis by simp
qed

lemma phrase_close: "phrase cs \<Longrightarrow> closer s \<Longrightarrow> phrase (cs @ [PushSql s])"
  by (intro phrase_append) (simp_all add: closer_def phrase_text)

lemma phrase_glue: "phrase cs \<Longrightarrow> closer s \<Longrightarrow> opener s \<Longrightarrow> phrase ds \<Longrightarrow> phrase (cs @ PushSql s # ds)"
  by (intro phrase_append phrase_open) (simp_all add: closer_def)

end
