(* ===== verification/Ident.thy ===== *)
theory Ident
  imports Sql_Lex
begin

text \<open>
  The identifier checks of \<open>djogi/src/ident.rs\<close>: the assertions made while compiling, those made
  while running, and the checks that report an error. A query pushes identifiers unquoted, so
  they must be single words that the server does not reserve. The assertions are booleans here:
  \<^const>\<open>False\<close> is the panic.
\<close>

definition MAX_IDENT_LEN :: nat where "MAX_IDENT_LEN = 63"

definition RESERVED_DJOGI_PREFIX :: string where "RESERVED_DJOGI_PREFIX = ''__djogi_''"

definition starts_with_reserved_djogi_prefix :: "string \<Rightarrow> bool" where
  "starts_with_reserved_djogi_prefix bytes \<longleftrightarrow>
     length RESERVED_DJOGI_PREFIX \<le> length bytes
     \<and> map to_ascii_lower_byte (take (length RESERVED_DJOGI_PREFIX) bytes) = RESERVED_DJOGI_PREFIX"

definition RESERVED_KEYWORDS :: "string list" where
  "RESERVED_KEYWORDS =
     [''all'', ''analyse'', ''analyze'', ''and'', ''any'', ''array'', ''as'', ''asc'', ''asymmetric'', ''both'',
      ''case'', ''cast'', ''check'', ''collate'', ''column'', ''constraint'', ''create'', ''current_catalog'',
      ''current_date'', ''current_role'', ''current_time'', ''current_timestamp'', ''current_user'', ''default'',
      ''deferrable'', ''desc'', ''distinct'', ''do'', ''else'', ''end'', ''except'', ''false'', ''fetch'', ''for'',
      ''foreign'', ''from'', ''grant'', ''group'', ''having'', ''in'', ''initially'', ''intersect'', ''into'',
      ''lateral'', ''leading'', ''limit'', ''localtime'', ''localtimestamp'', ''not'', ''null'', ''offset'', ''on'',
      ''only'', ''or'', ''order'', ''placing'', ''primary'', ''references'', ''returning'', ''select'',
      ''session_user'', ''some'', ''symmetric'', ''system_user'', ''table'', ''then'', ''to'', ''trailing'', ''true'',
      ''union'', ''unique'', ''user'', ''using'', ''variadic'', ''when'', ''where'', ''window'', ''with'']"

definition const_eq_ignore_ascii_case :: "string \<Rightarrow> string \<Rightarrow> bool" where
  "const_eq_ignore_ascii_case a b \<longleftrightarrow>
     length a = length b \<and> map to_ascii_lower_byte a = map to_ascii_lower_byte b"

definition const_assert_plain_ident :: "string \<Rightarrow> bool" where
  "const_assert_plain_ident bytes \<longleftrightarrow>
     bytes \<noteq> [] \<and> length bytes \<le> MAX_IDENT_LEN
     \<and> (is_ascii_alpha (hd bytes) \<or> hd bytes = CHR ''_'')
     \<and> list_all (\<lambda>b. is_ascii_alphanumeric b \<or> b = CHR ''_'') (tl bytes)
     \<and> list_all (\<lambda>kw. \<not> const_eq_ignore_ascii_case bytes kw) RESERVED_KEYWORDS"

definition const_assert_user_supplied_ident :: "string \<Rightarrow> bool" where
  "const_assert_user_supplied_ident bytes \<longleftrightarrow>
     \<not> starts_with_reserved_djogi_prefix bytes \<and> const_assert_plain_ident bytes"

section \<open>Checks at run time\<close>

datatype IdentError =
    IdEmpty | IdTooLong nat | IdBadFirst char | IdBadByte nat char | IdReserved | IdReservedDjogiPrefix

text \<open>\<open>slice::binary_search(..).is_ok()\<close>, by halving the range.\<close>

function found_between :: "string list \<Rightarrow> string \<Rightarrow> nat \<Rightarrow> nat \<Rightarrow> bool" where
  "found_between xs x lo hi =
     (if hi \<le> lo then False
      else let mid = lo + (hi - lo) div 2
           in if xs ! mid = x then True
              else if xs ! mid < x then found_between xs x (Suc mid) hi
              else found_between xs x lo mid)"
  by pat_completeness auto
termination by (relation "measure (\<lambda>(xs, x, lo, hi). hi - lo)") auto

declare found_between.simps [simp del]

definition binary_search_is_ok :: "string list \<Rightarrow> string \<Rightarrow> bool" where
  "binary_search_is_ok xs x \<longleftrightarrow> found_between xs x 0 (length xs)"

definition check_plain_ident :: "string \<Rightarrow> bool \<Rightarrow> IdentError + unit" where
  "check_plain_ident value check_reserved =
     (if value = [] then Inl IdEmpty
      else if length value > MAX_IDENT_LEN then Inl (IdTooLong (length value))
      else if \<not> (is_ascii_alpha (hd value) \<or> hd value = CHR ''_'') then Inl (IdBadFirst (hd value))
      else case find (\<lambda>(_, b). \<not> (is_ascii_alphanumeric b \<or> b = CHR ''_'')) (tl (enumerate 0 value)) of
             Some (idx, b) \<Rightarrow> Inl (IdBadByte idx b)
           | None \<Rightarrow>
               if check_reserved \<and> binary_search_is_ok RESERVED_KEYWORDS (map to_ascii_lower_byte value)
               then Inl IdReserved
               else Inr ())"

definition assert_plain_ident :: "string \<Rightarrow> bool" where
  "assert_plain_ident value \<longleftrightarrow>
     value \<noteq> [] \<and> length value \<le> MAX_IDENT_LEN
     \<and> (is_ascii_alpha (hd value) \<or> hd value = CHR ''_'')
     \<and> list_all (\<lambda>b. is_ascii_alphanumeric b \<or> b = CHR ''_'') (tl value)
     \<and> \<not> binary_search_is_ok RESERVED_KEYWORDS (map to_ascii_lower_byte value)"

definition check_user_supplied_ident :: "string \<Rightarrow> bool \<Rightarrow> IdentError + unit" where
  "check_user_supplied_ident value check_reserved =
     (if starts_with_reserved_djogi_prefix value then Inl IdReservedDjogiPrefix
      else check_plain_ident value check_reserved)"

definition assert_user_supplied_ident :: "string \<Rightarrow> bool" where
  "assert_user_supplied_ident value \<longleftrightarrow>
     \<not> starts_with_reserved_djogi_prefix value \<and> assert_plain_ident value"

section \<open>What the server does with an unquoted identifier\<close>

text \<open>
  Appendix C of the server's manual: the words it reserves, and those reserved except as function
  or type names. Neither can be a bare column name. An unquoted name is folded to lower case.
\<close>

definition server_reserved :: "string list" where
  "server_reserved = concat
     [[''all'', ''analyse'', ''analyze'', ''and'', ''any'', ''array'', ''as'', ''asc'', ''asymmetric''],
      [''both''],
      [''case'', ''cast'', ''check'', ''collate'', ''column'', ''constraint'', ''create'', ''current_catalog'',
       ''current_date'', ''current_role'', ''current_time'', ''current_timestamp'', ''current_user''],
      [''default'', ''deferrable'', ''desc'', ''distinct'', ''do''], [''else'', ''end'', ''except''],
      [''false'', ''fetch'', ''for'', ''foreign'', ''from''], [''grant'', ''group''], [''having''],
      [''in'', ''initially'', ''intersect'', ''into''],
      [''lateral'', ''leading'', ''limit'', ''localtime'', ''localtimestamp''], [''not'', ''null''],
      [''offset'', ''on'', ''only'', ''or'', ''order''], [''placing'', ''primary''], [''references'', ''returning''],
      [''select'', ''session_user'', ''some'', ''symmetric'', ''system_user''],
      [''table'', ''then'', ''to'', ''trailing'', ''true''], [''union'', ''unique'', ''user'', ''using''],
      [''variadic''], [''when'', ''where'', ''window'', ''with'']]"

definition type_func_keywords :: "string list" where
  "type_func_keywords =
     [''authorization'', ''binary'', ''collation'', ''concurrently'', ''cross'', ''current_schema'', ''freeze'',
      ''full'', ''ilike'', ''inner'', ''is'', ''isnull'', ''join'', ''left'', ''like'', ''natural'', ''notnull'',
      ''outer'', ''overlaps'', ''right'', ''similar'', ''tablesample'', ''verbose'']"

definition server_reserves :: "string \<Rightarrow> bool" where
  "server_reserves w \<longleftrightarrow> map to_ascii_lower_byte w \<in> set (server_reserved @ type_func_keywords)"

text \<open>One unquoted identifier of ASCII characters, not longer than the server keeps.\<close>

definition bare_identifier :: "string \<Rightarrow> bool" where
  "bare_identifier w \<longleftrightarrow> lex w = Some [Word w] \<and> is_ascii w \<and> \<not> is_ascii_digit (hd w) \<and> length w \<le> 63"

section \<open>The keyword table\<close>

lemma keywords_sorted: "sorted_wrt (<) RESERVED_KEYWORDS"
proof -
  have "successively (<) RESERVED_KEYWORDS" by code_simp
  then show ?thesis by (simp add: successively_conv_sorted_wrt)
qed

lemma keywords_of_server: "RESERVED_KEYWORDS = server_reserved"
  by (simp add: RESERVED_KEYWORDS_def server_reserved_def)

lemma lower_keywords: "list_all (\<lambda>w. map to_ascii_lower_byte w = w) RESERVED_KEYWORDS"
  by code_simp

lemma found_between_iff:
  assumes "sorted_wrt (<) xs"
  shows "hi \<le> length xs \<Longrightarrow> found_between xs x lo hi \<longleftrightarrow> (\<exists>i. lo \<le> i \<and> i < hi \<and> xs ! i = x)"
  using assms
proof (induction xs x lo hi rule: found_between.induct)
  case (1 xs x lo hi)
  define mid where "mid = lo + (hi - lo) div 2"
  show ?case
  proof (cases "hi \<le> lo")
    case True
    then show ?thesis by (simp add: found_between.simps)
  next
    case False
    then have mid: "lo \<le> mid" "mid < hi" by (auto simp: mid_def)
    have less: "xs ! i < xs ! j" if "i < j" "j < hi" for i j
      using that "1.prems" sorted_wrt_nth_less by fastforce
    consider "xs ! mid = x" | "xs ! mid < x" | "x < xs ! mid" using linorder_less_linear by blast
    then show ?thesis
    proof cases
      case 1
      with False mid show ?thesis by (auto simp: found_between.simps [of xs x lo hi] mid_def [symmetric])
    next
      case 2
      have "Suc mid \<le> i" if "lo \<le> i" "i < hi" "xs ! i = x" for i
      proof -
        have "i \<noteq> mid" using 2 that(3) by auto
        moreover have "\<not> i < mid"
        proof
          assume "i < mid"
          from less [OF this mid(2)] 2 that(3) show False by (metis less_asym)
        qed
        ultimately show ?thesis by simp
      qed
      then have "(\<exists>i. lo \<le> i \<and> i < hi \<and> xs ! i = x) \<longleftrightarrow> (\<exists>i. Suc mid \<le> i \<and> i < hi \<and> xs ! i = x)"
        using mid Suc_leD [of mid] le_trans [of lo mid] by blast
      then show ?thesis
        using False 2 less_imp_neq [OF 2] "1.IH"(1) [OF False mid_def] "1.prems"
        by (simp add: found_between.simps [of xs x lo hi] mid_def [symmetric])
    next
      case 3
      have "i < mid" if "lo \<le> i" "i < hi" "xs ! i = x" for i
      proof -
        have "i \<noteq> mid" using 3 that(3) by auto
        moreover have "\<not> mid < i"
        proof
          assume "mid < i"
          from less [OF this that(2)] 3 that(3) show False by (metis less_asym)
        qed
        ultimately show ?thesis by simp
      qed
      then have "(\<exists>i. lo \<le> i \<and> i < hi \<and> xs ! i = x) \<longleftrightarrow> (\<exists>i. lo \<le> i \<and> i < mid \<and> xs ! i = x)"
        using mid less_trans [of _ mid hi] by blast
      then show ?thesis
        using False 3 less_imp_neq [OF 3, symmetric] less_not_sym [OF 3] "1.IH"(2) [OF False mid_def] "1.prems" mid(2)
        by (simp add: found_between.simps [of xs x lo hi] mid_def [symmetric])
    qed
  qed
qed

lemma keyword_search: "binary_search_is_ok RESERVED_KEYWORDS x \<longleftrightarrow> x \<in> set RESERVED_KEYWORDS"
  unfolding binary_search_is_ok_def found_between_iff [OF keywords_sorted order_refl]
  by (auto simp: in_set_conv_nth)

lemma keyword_scan:
  "list_all (\<lambda>kw. \<not> const_eq_ignore_ascii_case w kw) RESERVED_KEYWORDS
    \<longleftrightarrow> map to_ascii_lower_byte w \<notin> set RESERVED_KEYWORDS"
proof -
  have "const_eq_ignore_ascii_case w kw \<longleftrightarrow> map to_ascii_lower_byte w = kw" if "kw \<in> set RESERVED_KEYWORDS" for kw
    using lower_keywords that by (auto simp: const_eq_ignore_ascii_case_def list_all_iff)
  then show ?thesis by (auto simp: list_all_iff)
qed

section \<open>What the checks accept\<close>

lemma bad_byte:
  "find (\<lambda>(_, b). \<not> P b) (tl (enumerate n w)) = None \<longleftrightarrow> list_all P (tl w)"
proof (cases w)
  case (Cons c cs)
  have "find (\<lambda>(_, b). \<not> P b) (enumerate (Suc n) cs) = None
      \<longleftrightarrow> (\<forall>b\<in>set (map snd (enumerate (Suc n) cs)). P b)"
    unfolding find_None_iff set_map by fastforce
  then show ?thesis by (simp add: Cons list_all_iff del: set_map)
qed simp

lemma check_plain_ident_ok:
  "check_plain_ident w check_reserved = Inr () \<longleftrightarrow>
    w \<noteq> [] \<and> length w \<le> MAX_IDENT_LEN \<and> (is_ascii_alpha (hd w) \<or> hd w = CHR ''_'')
    \<and> list_all (\<lambda>b. is_ascii_alphanumeric b \<or> b = CHR ''_'') (tl w)
    \<and> \<not> (check_reserved \<and> map to_ascii_lower_byte w \<in> set RESERVED_KEYWORDS)"
  unfolding check_plain_ident_def keyword_search bad_byte [of _ 0, symmetric]
  by (cases "find (\<lambda>(_, b). \<not> (is_ascii_alphanumeric b \<or> b = CHR ''_'')) (tl (enumerate 0 w))") auto

lemma check_accepts: "check_plain_ident w True = Inr () \<longleftrightarrow> const_assert_plain_ident w"
  unfolding check_plain_ident_ok const_assert_plain_ident_def keyword_scan by simp

lemma assert_accepts: "assert_plain_ident w \<longleftrightarrow> const_assert_plain_ident w"
  by (simp add: assert_plain_ident_def const_assert_plain_ident_def keyword_search keyword_scan)

lemma lexed_words: "lex s = Some ts \<Longrightarrow> Word v \<in> set ts \<Longrightarrow> v \<noteq> [] \<and> list_all is_word_char v"
proof (induction s arbitrary: ts rule: lex.induct)
  case (2 c r)
  have word: "list_all is_word_char (takeWhile is_word_char r)" by (auto simp: list_all_iff dest: set_takeWhileD)
  note lexed = "2.prems"(1) [unfolded lex.simps(2)]
  consider "is_space c" | "\<not> is_space c" "c = dq" | "\<not> is_space c" "c \<noteq> dq" "c = sq"
    | "\<not> is_space c" "c \<noteq> dq" "c \<noteq> sq" "(c = CHR ''E'' \<or> c = CHR ''e'') \<and> r \<noteq> [] \<and> hd r = sq"
    | "\<not> is_space c" "c \<noteq> dq" "c \<noteq> sq" "\<not> ((c = CHR ''E'' \<or> c = CHR ''e'') \<and> r \<noteq> [] \<and> hd r = sq)" "is_word_char c"
    | "\<not> is_space c" "c \<noteq> dq" "c \<noteq> sq" "\<not> ((c = CHR ''E'' \<or> c = CHR ''e'') \<and> r \<noteq> [] \<and> hd r = sq)" "\<not> is_word_char c"
      "c = CHR ''-'' \<and> r \<noteq> [] \<and> hd r = CHR ''-''"
    | "\<not> is_space c" "c \<noteq> dq" "c \<noteq> sq" "\<not> ((c = CHR ''E'' \<or> c = CHR ''e'') \<and> r \<noteq> [] \<and> hd r = sq)" "\<not> is_word_char c"
      "\<not> (c = CHR ''-'' \<and> r \<noteq> [] \<and> hd r = CHR ''-'')"
    by blast
  then show ?case
  proof cases
    case 1
    with lexed "2.IH"(1) "2.prems"(2) show ?thesis by simp
  next
    case 2
    with lexed "2.IH"(2) "2.prems"(2) show ?thesis by (fastforce split: option.splits prod.splits if_splits)
  next
    case 3
    with lexed "2.IH"(3) "2.prems"(2) show ?thesis by (fastforce split: option.splits prod.splits)
  next
    case 4
    with lexed "2.IH"(4) "2.prems"(2) show ?thesis by (fastforce split: option.splits prod.splits)
  next
    case 5
    with lexed "2.IH"(5) "2.prems"(2) word show ?thesis by auto
  next
    case 6
    with lexed "2.IH"(6) "2.prems"(2) show ?thesis by simp
  next
    case 7
    with lexed "2.IH"(7) "2.prems"(2) show ?thesis by auto
  qed
qed simp

lemma lexes_as_word: "lex w = Some [Word w] \<longleftrightarrow> w \<noteq> [] \<and> list_all is_word_char w"
proof
  show "lex w = Some [Word w] \<Longrightarrow> w \<noteq> [] \<and> list_all is_word_char w" using lexed_words by fastforce
next
  assume w: "w \<noteq> [] \<and> list_all is_word_char w"
  then obtain c r where cr: "w = c # r" "is_word_char c" "list_all is_word_char r" by (cases w) auto
  then have all: "takeWhile is_word_char r = r" "dropWhile is_word_char r = []"
    by (auto simp: list_all_iff takeWhile_eq_all_conv dropWhile_eq_Nil_conv)
  have plain: "\<not> is_space d \<and> d \<noteq> dq \<and> d \<noteq> sq" if "is_word_char d" for d
    using that by (auto simp: is_word_char_def is_space_def is_ascii_alphanumeric_def is_ascii_alpha_def is_ascii_digit_def byte_def)
  then have "\<not> (r \<noteq> [] \<and> hd r = sq)" using cr(3) by (cases r) auto
  then have "\<not> ((c = CHR ''E'' \<or> c = CHR ''e'') \<and> r \<noteq> [] \<and> hd r = sq)" by blast
  then show "lex w = Some [Word w]" using plain [OF cr(2)] cr(2) unfolding cr(1) by (simp only: lex.simps all) simp
qed

lemma bare_chars:
  "bare_identifier w \<longleftrightarrow> w \<noteq> [] \<and> length w \<le> MAX_IDENT_LEN \<and> (is_ascii_alpha (hd w) \<or> hd w = CHR ''_'')
    \<and> list_all (\<lambda>b. is_ascii_alphanumeric b \<or> b = CHR ''_'') (tl w)"
proof (cases w)
  case (Cons c cs)
  have bytes: "is_word_char b \<and> byte b < 128 \<longleftrightarrow> is_ascii_alphanumeric b \<or> b = CHR ''_''" for b
    by (auto simp: is_word_char_def is_ascii_alphanumeric_def is_ascii_alpha_def is_ascii_digit_def byte_def)
  have first: "is_word_char b \<and> byte b < 128 \<and> \<not> is_ascii_digit b \<longleftrightarrow> is_ascii_alpha b \<or> b = CHR ''_''" for b
    by (auto simp: is_word_char_def is_ascii_alphanumeric_def is_ascii_alpha_def is_ascii_digit_def byte_def)
  have "list_all (\<lambda>b. is_ascii_alphanumeric b \<or> b = CHR ''_'') cs \<longleftrightarrow> list_all is_word_char cs \<and> is_ascii cs"
    unfolding bytes [symmetric] by (auto simp: list_all_iff is_ascii_def)
  with first [of c] show ?thesis
    unfolding bare_identifier_def lexes_as_word by (auto simp: Cons MAX_IDENT_LEN_def is_ascii_def)
qed (simp add: bare_identifier_def)

lemma plain_ident_bare:
  "const_assert_plain_ident w \<longleftrightarrow> bare_identifier w \<and> map to_ascii_lower_byte w \<notin> set server_reserved"
  unfolding const_assert_plain_ident_def bare_chars keyword_scan keywords_of_server [symmetric] by blast

lemma unchecked_accepts: "check_plain_ident w False = Inr () \<longleftrightarrow> bare_identifier w"
  unfolding check_plain_ident_ok bare_chars by simp


end
