(* ===== verification/Query_Read.thy ===== *)
theory Query_Read
  imports Query_Lex Ident
begin

text \<open>
  How the server reads an expression: the precedence grammar of its manual (section 4.1.6), as
  a relation between tokens and trees. A placeholder stands for the bind value of its number,
  so a tree shows which value ends up where. Subqueries, quoted text and aggregate modifiers
  are not part of the fragment.
\<close>

datatype 'v Sql =
    SVal 'v
  | SConst string
  | SCol "string list"
  | SCall string "'v Sql list"
  | SInfix string "'v Sql" "'v Sql"
  | SPost string "'v Sql"
  | SNot "'v Sql"
  | SBetween "'v Sql" "'v Sql" "'v Sql"
  | SInList bool "'v Sql" "'v Sql list"
  | SCast "'v Sql" string
  | SCase "('v Sql \<times> 'v Sql) list" "'v Sql"

section \<open>Operators\<close>

text \<open>
  An operator at the head of the tokens, with its precedence and, for a binary one, whether it
  refuses to chain: \<open>OR\<close> 1, \<open>AND\<close> 2, \<open>NOT\<close> 3, \<open>IS\<close> 4, comparisons 5, \<open>BETWEEN\<close>, \<open>IN\<close> and
  \<open>ILIKE\<close> 6, other operators 7, additive 8, multiplicative 9, casts 12.
\<close>

datatype Op = Stop | Infix string nat bool | Postfix string | Between | InOp bool | CastOp string | Juxtaposed

fun op_level :: "Op \<Rightarrow> nat" where
  "op_level Stop = 0"
| "op_level (Infix s q na) = q"
| "op_level (Postfix s) = 4"
| "op_level Between = 6"
| "op_level (InOp b) = 6"
| "op_level (CastOp t) = 12"
| "op_level Juxtaposed = 100"

definition op_chars :: string where "op_chars = ''+-*/<>=~!@#%^&|?''"

fun op_run :: "Token list \<Rightarrow> string \<times> Token list" where
  "op_run (Sym c # ts) = (if c \<in> set op_chars then (case op_run ts of (s, r) \<Rightarrow> (c # s, r)) else ([], Sym c # ts))"
| "op_run ts = ([], ts)"

definition symbol_op :: "string \<Rightarrow> Op" where
  "symbol_op s =
     (if s \<in> {''='', ''<>'', ''<'', ''<='', ''>'', ''>=''} then Infix s 5 True
      else if s \<in> {''+'', ''-''} then Infix s 8 False
      else if s \<in> {''*'', ''/'', ''%''} then Infix s 9 False
      else Infix s 7 False)"

fun is_op :: "Token list \<Rightarrow> Op \<times> Token list" where
  "is_op (Word a # ts) =
     (if a = ''NULL'' then (Postfix ''IS NULL'', ts)
      else if a = ''DISTINCT'' then
        (case ts of Word b # r \<Rightarrow> if b = ''FROM'' then (Infix ''IS DISTINCT FROM'' 4 True, r) else (Stop, []) | _ \<Rightarrow> (Stop, []))
      else if a = ''NOT'' then
        (case ts of
           Word b # r \<Rightarrow>
             if b = ''NULL'' then (Postfix ''IS NOT NULL'', r)
             else if b = ''DISTINCT'' then
               (case r of Word c # r' \<Rightarrow> if c = ''FROM'' then (Infix ''IS NOT DISTINCT FROM'' 4 True, r') else (Stop, [])
                | _ \<Rightarrow> (Stop, []))
             else (Stop, [])
         | _ \<Rightarrow> (Stop, []))
      else (Stop, []))"
| "is_op _ = (Stop, [])"

fun in_op :: "bool \<Rightarrow> Token list \<Rightarrow> Op \<times> Token list" where
  "in_op positive (Sym c # ts) = (if c = CHR ''('' then (InOp positive, ts) else (Stop, []))"
| "in_op positive _ = (Stop, [])"

fun next_op :: "Token list \<Rightarrow> Op \<times> Token list" where
  "next_op (Word w # ts) =
     (if w = ''OR'' then (Infix ''OR'' 1 False, ts)
      else if w = ''AND'' then (Infix ''AND'' 2 False, ts)
      else if w = ''IS'' then is_op ts
      else if w = ''ILIKE'' then (Infix ''ILIKE'' 6 True, ts)
      else if w = ''BETWEEN'' then (Between, ts)
      else if w = ''IN'' then in_op True ts
      else if w = ''NOT'' then (case ts of Word x # r \<Rightarrow> if x = ''IN'' then in_op False r else (Stop, []) | _ \<Rightarrow> (Stop, []))
      else (Stop, []))"
| "next_op (Sym c # ts) =
     (if c = CHR '':'' then (case ts of Sym d # Word ty # r \<Rightarrow> if d = CHR '':'' then (CastOp ty, r) else (Stop, []) | _ \<Rightarrow> (Stop, []))
      else if c = CHR ''('' \<or> c = CHR ''.'' then (Juxtaposed, [])
      else if c \<in> set op_chars then (case op_run (Sym c # ts) of (s, r) \<Rightarrow> (symbol_op s, r))
      else (Stop, []))"
| "next_op _ = (Stop, [])"

definition follow :: "Token list \<Rightarrow> nat" where
  "follow ts = op_level (fst (next_op ts))"

section \<open>The grammar\<close>

definition number :: "string \<Rightarrow> nat" where
  "number s = foldl (\<lambda>n d. n * 10 + (byte d - 48)) 0 s"

definition constants :: "string list" where "constants = [''NULL'', ''TRUE'', ''FALSE'']"

text \<open>The value of the placeholder \<open>$k\<close> is \<open>B k\<close>.\<close>

inductive rd_expr :: "(nat \<Rightarrow> 'v) \<Rightarrow> nat \<Rightarrow> Token list \<Rightarrow> 'v Sql \<Rightarrow> Token list \<Rightarrow> bool"
  and rd_prim :: "(nat \<Rightarrow> 'v) \<Rightarrow> Token list \<Rightarrow> 'v Sql \<Rightarrow> Token list \<Rightarrow> bool"
  and rd_loop :: "(nat \<Rightarrow> 'v) \<Rightarrow> nat \<Rightarrow> 'v Sql \<Rightarrow> Token list \<Rightarrow> 'v Sql \<Rightarrow> Token list \<Rightarrow> bool"
  and rd_args :: "(nat \<Rightarrow> 'v) \<Rightarrow> Token list \<Rightarrow> 'v Sql list \<Rightarrow> Token list \<Rightarrow> bool"
  and rd_arms :: "(nat \<Rightarrow> 'v) \<Rightarrow> Token list \<Rightarrow> ('v Sql \<times> 'v Sql) list \<Rightarrow> 'v Sql \<Rightarrow> Token list \<Rightarrow> bool"
  for B :: "nat \<Rightarrow> 'v" where
  expr: "rd_prim B ts u r \<Longrightarrow> rd_loop B p u r t rest \<Longrightarrow> rd_expr B p ts t rest"
| paren: "rd_expr B (Suc 0) ts t (Sym (CHR '')'') # rest) \<Longrightarrow> rd_prim B (Sym (CHR ''('') # ts) t rest"
| val: "rd_prim B (Sym (CHR ''$'') # Word w # rest) (SVal (B (number w))) rest"
| const: "w \<in> set constants \<Longrightarrow> rd_prim B (Word w # rest) (SConst w) rest"
| not: "rd_expr B 3 ts t rest \<Longrightarrow> rd_prim B (Word ''NOT'' # ts) (SNot t) rest"
| cases: "rd_arms B ts arms e rest \<Longrightarrow> rd_prim B (Word ''CASE'' # Word ''WHEN'' # ts) (SCase arms e) rest"
| col: "\<not> server_reserves w \<Longrightarrow> follow rest < 100 \<Longrightarrow> rd_prim B (Word w # rest) (SCol [w]) rest"
| qcol: "\<not> server_reserves w \<Longrightarrow> follow rest < 100 \<Longrightarrow>
    rd_prim B (Word w # Sym (CHR ''.'') # Word c # rest) (SCol [w, c]) rest"
| call: "\<not> server_reserves w \<Longrightarrow> rd_args B ts us rest \<Longrightarrow> rd_prim B (Word w # Sym (CHR ''('') # ts) (SCall w us) rest"
| stop: "follow ts < p \<Longrightarrow> rd_loop B p t ts t ts"
| infix_op: "next_op ts = (Infix s q na, r) \<Longrightarrow> p \<le> q \<Longrightarrow> rd_expr B (Suc q) r u r' \<Longrightarrow> \<not> (na \<and> follow r' = q) \<Longrightarrow>
    rd_loop B p (SInfix s t u) r' v rest \<Longrightarrow> rd_loop B p t ts v rest"
| post: "next_op ts = (Postfix s, r) \<Longrightarrow> p \<le> 4 \<Longrightarrow> rd_loop B p (SPost s t) r v rest \<Longrightarrow> rd_loop B p t ts v rest"
| between: "next_op ts = (Between, r) \<Longrightarrow> p \<le> 6 \<Longrightarrow> rd_expr B 7 r a (Word ''AND'' # r1) \<Longrightarrow> rd_expr B 7 r1 b r2 \<Longrightarrow>
    follow r2 \<noteq> 6 \<Longrightarrow> rd_loop B p (SBetween t a b) r2 v rest \<Longrightarrow> rd_loop B p t ts v rest"
| in_list: "next_op ts = (InOp positive, r) \<Longrightarrow> p \<le> 6 \<Longrightarrow> rd_args B r us r1 \<Longrightarrow>
    rd_loop B p (SInList positive t us) r1 v rest \<Longrightarrow> rd_loop B p t ts v rest"
| cast: "next_op ts = (CastOp ty, r) \<Longrightarrow> p \<le> 12 \<Longrightarrow> rd_loop B p (SCast t ty) r v rest \<Longrightarrow> rd_loop B p t ts v rest"
| arg: "rd_expr B (Suc 0) ts t (Sym (CHR '')'') # rest) \<Longrightarrow> rd_args B ts [t] rest"
| more: "rd_expr B (Suc 0) ts t (Sym (CHR '','') # r) \<Longrightarrow> rd_args B r us rest \<Longrightarrow> rd_args B ts (t # us) rest"
| last_arm: "rd_expr B (Suc 0) ts c (Word ''THEN'' # r1) \<Longrightarrow> rd_expr B (Suc 0) r1 v (Word ''ELSE'' # r2) \<Longrightarrow>
    rd_expr B (Suc 0) r2 e (Word ''END'' # rest) \<Longrightarrow> rd_arms B ts [(c, v)] e rest"
| arm: "rd_expr B (Suc 0) ts c (Word ''THEN'' # r1) \<Longrightarrow> rd_expr B (Suc 0) r1 v (Word ''WHEN'' # r2) \<Longrightarrow>
    rd_arms B r2 arms e rest \<Longrightarrow> rd_arms B ts ((c, v) # arms) e rest"

inductive_cases rd_exprE: "rd_expr B p ts t rest"
inductive_cases rd_primE: "rd_prim B ts t rest"
inductive_cases rd_loopE: "rd_loop B p t ts v rest"
inductive_cases rd_argsE: "rd_args B ts us rest"
inductive_cases rd_armsE: "rd_arms B ts arms e rest"

lemma reserved_words [simp]:
  "server_reserves ''NOT''" "server_reserves ''CASE''" "w \<in> set constants \<Longrightarrow> server_reserves w"
proof -
  have "server_reserves ''NOT''" "server_reserves ''CASE''" "list_all server_reserves constants" by code_simp+
  then show "server_reserves ''NOT''" "server_reserves ''CASE''" "w \<in> set constants \<Longrightarrow> server_reserves w"
    by (auto simp: list_all_iff)
qed

lemma constants_not [simp]: "''NOT'' \<notin> set constants" "''CASE'' \<notin> set constants"
  by (simp_all add: constants_def)

text \<open>Every text has at most one reading.\<close>

lemma reading_unique:
  "rd_expr B p ts t rest \<Longrightarrow> rd_expr B p ts t' rest' \<Longrightarrow> t' = t \<and> rest' = rest"
  "rd_prim B ts t rest \<Longrightarrow> rd_prim B ts t' rest' \<Longrightarrow> t' = t \<and> rest' = rest"
  "rd_loop B p t0 ts t rest \<Longrightarrow> rd_loop B p t0 ts t' rest' \<Longrightarrow> t' = t \<and> rest' = rest"
  "rd_args B ts us rest \<Longrightarrow> rd_args B ts us' rest' \<Longrightarrow> us' = us \<and> rest' = rest"
  "rd_arms B ts arms e rest \<Longrightarrow> rd_arms B ts arms' e' rest' \<Longrightarrow> arms' = arms \<and> e' = e \<and> rest' = rest"
proof (induction arbitrary: t' rest' and t' rest' and t' rest' and us' rest' and arms' e' rest'
    rule: rd_expr_rd_prim_rd_loop_rd_args_rd_arms.inducts)
  case (expr ts u r p t rest)
  from expr.prems obtain u' r' where again: "rd_prim B ts u' r'" "rd_loop B p u' r' t' rest'"
    by (rule rd_exprE)
  from expr.IH(2) [OF again(1)] again(2) have "rd_loop B p u r t' rest'" by simp
  then show ?case by (rule expr.IH(4))
next
  case (paren ts t rest)
  from paren.prems have "rd_expr B (Suc 0) ts t' (Sym (CHR '')'') # rest')" by (elim rd_primE) simp_all
  from paren.IH(2) [OF this] show ?case by simp
next
  case (val w rest)
  then show ?case by (elim rd_primE) simp_all
next
  case (const w rest)
  then show ?case by (elim rd_primE) auto
next
  case (not ts t rest)
  from not.prems obtain u where "t' = SNot u" "rd_expr B 3 ts u rest'" by (elim rd_primE) auto
  with not.IH(2) [OF this(2)] show ?case by simp
next
  case (cases ts arms e rest)
  from cases.prems obtain a f where "t' = SCase a f" "rd_arms B ts a f rest'" by (elim rd_primE) auto
  with cases.IH(2) [OF this(2)] show ?case by simp
next
  case (col w rest)
  from col.prems col.hyps show ?case by (elim rd_primE) (auto simp: follow_def)
next
  case (qcol w rest c)
  from qcol.prems qcol.hyps show ?case by (elim rd_primE) (auto simp: follow_def)
next
  case (call w ts us rest)
  from call.prems call.hyps obtain vs where "t' = SCall w vs" "rd_args B ts vs rest'"
    by (elim rd_primE) (auto simp: follow_def)
  with call.IH(2) [OF this(2)] show ?case by simp
next
  case (stop ts p t)
  show ?case by (rule rd_loopE [OF stop.prems]) (use stop.hyps in \<open>simp_all add: follow_def\<close>)
next
  case (infix_op ts s q na r p u r' t v rest)
  obtain u2 r2 where again: "rd_expr B (Suc q) r u2 r2" "rd_loop B p (SInfix s t u2) r2 t' rest'"
    by (rule rd_loopE [OF infix_op.prems]) (use infix_op.hyps in \<open>simp_all add: follow_def\<close>)
  from infix_op.IH(2) [OF again(1)] again(2) have "rd_loop B p (SInfix s t u) r' t' rest'" by simp
  then show ?case by (rule infix_op.IH(4))
next
  case (post ts s r p t v rest)
  have "rd_loop B p (SPost s t) r t' rest'"
    by (rule rd_loopE [OF post.prems]) (use post.hyps in \<open>simp_all add: follow_def\<close>)
  then show ?case by (rule post.IH(2))
next
  case (between ts r p a r1 b r2 t v rest)
  obtain a2 s1 b2 s2 where again: "rd_expr B 7 r a2 (Word ''AND'' # s1)"
    "rd_expr B 7 s1 b2 s2" "rd_loop B p (SBetween t a2 b2) s2 t' rest'"
    by (rule rd_loopE [OF between.prems]) (use between.hyps in \<open>simp_all add: follow_def\<close>)
  from between.IH(2) [OF again(1)] have "a2 = a" "s1 = r1" by simp_all
  moreover from this between.IH(4) again(2) have "b2 = b" "s2 = r2" by blast+
  ultimately have "rd_loop B p (SBetween t a b) r2 t' rest'" using again(3) by simp
  then show ?case by (rule between.IH(6))
next
  case (in_list ts positive r p us r1 t v rest)
  obtain us2 s1 where again: "rd_args B r us2 s1" "rd_loop B p (SInList positive t us2) s1 t' rest'"
    by (rule rd_loopE [OF in_list.prems]) (use in_list.hyps in \<open>simp_all add: follow_def\<close>)
  from in_list.IH(2) [OF again(1)] again(2) have "rd_loop B p (SInList positive t us) r1 t' rest'" by simp
  then show ?case by (rule in_list.IH(4))
next
  case (cast ts ty r p t v rest)
  have "rd_loop B p (SCast t ty) r t' rest'"
    by (rule rd_loopE [OF cast.prems]) (use cast.hyps in \<open>simp_all add: follow_def\<close>)
  then show ?case by (rule cast.IH(2))
next
  case (arg ts t rest)
  show ?case by (rule rd_argsE [OF arg.prems]) (use arg.IH(2) in blast)+
next
  case (more ts t r us rest)
  show ?case by (rule rd_argsE [OF more.prems]) (use more.IH(2, 4) in blast)+
next
  case (last_arm ts c r1 v r2 e rest)
  show ?case by (rule rd_armsE [OF last_arm.prems]) (use last_arm.IH(2, 4, 6) in blast)+
next
  case (arm ts c r1 v r2 arms e rest)
  show ?case by (rule rd_armsE [OF arm.prems]) (use arm.IH(2, 4, 6) in blast)+
qed

end
