(* ===== verification/Query_Says.thy ===== *)
theory Query_Says
  imports Query_Read
begin

text \<open>
  The productions of the grammar on calls. \<open>says l r cs t\<close>: the text of the calls reads as \<open>t\<close>
  wherever an operand of precedence at most \<open>l\<close> is expected and no operator of precedence above
  \<open>r\<close> follows.
\<close>

definition binds_from :: "(nat \<Rightarrow> 'v) \<Rightarrow> nat \<Rightarrow> 'v call list \<Rightarrow> bool" where
  "binds_from B n cs \<longleftrightarrow> (\<forall>i<length (call_binds cs). B (n + i) = call_binds cs ! i)"

definition begins :: "Token list \<Rightarrow> bool" where
  "begins ts \<longleftrightarrow> (case ts of [] \<Rightarrow> False | Sym c # _ \<Rightarrow> c \<notin> set op_chars | _ \<Rightarrow> True)"

definition says :: "nat \<Rightarrow> nat \<Rightarrow> 'v call list \<Rightarrow> 'v Sql \<Rightarrow> bool" where
  "says l r cs t \<longleftrightarrow>
     phrase cs
     \<and> (\<forall>n B. binds_from B n cs \<longrightarrow>
          (\<exists>ts. call_tokens n cs = Some ts \<and> begins ts
            \<and> (\<forall>p rest v rest'. p \<le> l \<longrightarrow> follow rest \<le> r \<longrightarrow> rd_loop B p t rest v rest' \<longrightarrow> rd_expr B p (ts @ rest) v rest')))"

lemma says_weaken: "says l r cs t \<Longrightarrow> l' \<le> l \<Longrightarrow> r' \<le> r \<Longrightarrow> says l' r' cs t"
  unfolding says_def by (meson le_trans)

lemma saysE:
  assumes "says l r cs t" "binds_from B n cs"
  obtains ts where "call_tokens n cs = Some ts" "begins ts"
    "\<And>p rest v rest'. p \<le> l \<Longrightarrow> follow rest \<le> r \<Longrightarrow> rd_loop B p t rest v rest' \<Longrightarrow> rd_expr B p (ts @ rest) v rest'"
  using assms unfolding says_def by blast

lemma binds_from_append:
  "binds_from B n (cs @ ds) \<longleftrightarrow> binds_from B n cs \<and> binds_from B (n + length (call_binds cs)) ds"
proof
  assume both: "binds_from B n (cs @ ds)"
  have "B (n + length (call_binds cs) + i) = call_binds ds ! i" if "i < length (call_binds ds)" for i
    using both [unfolded binds_from_def, rule_format, of "length (call_binds cs) + i"] that
    by (simp add: nth_append add.assoc)
  moreover have "B (n + i) = call_binds cs ! i" if "i < length (call_binds cs)" for i
    using both [unfolded binds_from_def, rule_format, of i] that by (simp add: nth_append)
  ultimately show "binds_from B n cs \<and> binds_from B (n + length (call_binds cs)) ds"
    by (simp add: binds_from_def)
next
  assume "binds_from B n cs \<and> binds_from B (n + length (call_binds cs)) ds"
  then show "binds_from B n (cs @ ds)"
    by (auto simp: binds_from_def nth_append not_less le_iff_add add.assoc)
qed

lemma binds_from_sql [simp]: "binds_from B n (PushSql s # cs) = binds_from B n cs"
  by (simp add: binds_from_def)

text \<open>What a finished text reads as.\<close>

definition reads :: "(nat \<Rightarrow> 'v) \<Rightarrow> string \<Rightarrow> 'v Sql \<Rightarrow> bool" where
  "reads B text t \<longleftrightarrow> (\<exists>ts. lex text = Some ts \<and> rd_expr B (Suc 0) ts t [])"

lemma reads_unique: "reads B text t \<Longrightarrow> reads B text t' \<Longrightarrow> t' = t"
  unfolding reads_def using reading_unique(1) by fastforce

lemma follow_Nil [simp]: "follow [] = 0"
  by (simp add: follow_def)

lemma says_reads:
  assumes "says l r cs t" "1 \<le> l" "binds_from B n cs"
  shows "reads B (call_text n cs) t"
proof -
  obtain ts where ts: "call_tokens n cs = Some ts"
    and read: "\<And>p rest v rest'. p \<le> l \<Longrightarrow> follow rest \<le> r \<Longrightarrow> rd_loop B p t rest v rest' \<Longrightarrow> rd_expr B p (ts @ rest) v rest'"
    by (rule saysE [OF assms(1, 3)]) blast
  have "rd_loop B (Suc 0) t [] t []" by (rule stop) simp
  with read [of "Suc 0" "[]"] assms(2) have "rd_expr B (Suc 0) ts t []" by simp
  moreover have "lex (call_text n cs) = Some ts" using assms(1) ts by (simp add: says_def phrase_def)
  ultimately show ?thesis by (auto simp: reads_def)
qed

section \<open>Operands\<close>

lemma number_show: "number (show_nat n) = n"
proof (induction n rule: show_nat.induct)
  case (1 n)
  then show ?case
    by (subst show_nat.simps) (auto simp: number_def hex_digit_digit)
qed

lemma says_value: "says 13 13 [PushBind v] (SVal v)"
  unfolding says_def
proof (intro conjI allI impI phrase_bind)
  fix n and B :: "nat \<Rightarrow> 'a"
  assume "binds_from B n [PushBind v]"
  then have "B n = v" by (simp add: binds_from_def)
  moreover have "rd_expr B p ([Sym (CHR ''$''), Word (show_nat n)] @ rest) u rest'"
    if "rd_loop B p (SVal (B n)) rest u rest'" for p rest u rest'
  proof -
    have "rd_prim B ([Sym (CHR ''$''), Word (show_nat n)] @ rest) (SVal (B n)) rest"
      using val [of B "show_nat n" rest] by (simp add: number_show)
    then show ?thesis using that by (rule expr)
  qed
  moreover have "begins [Sym (CHR ''$''), Word (show_nat n)]" by (simp add: begins_def op_chars_def)
  ultimately show "\<exists>ts. call_tokens n [PushBind v] = Some ts \<and> begins ts \<and>
      (\<forall>p rest u rest'. p \<le> 13 \<longrightarrow> follow rest \<le> 13 \<longrightarrow> rd_loop B p (SVal v) rest u rest' \<longrightarrow>
        rd_expr B p (ts @ rest) u rest')"
    by (auto simp: pre_def)
qed

text \<open>A fixed text that is one operand.\<close>

lemma says_fixed:
  assumes "calm s" "s \<noteq> []" "hd s \<noteq> CHR ''-''" "last s \<noteq> CHR ''-''" "lex s = Some ts" "begins ts"
    and "\<And>B rest. follow rest \<le> r \<Longrightarrow> rd_prim B (ts @ rest) t rest"
  shows "says 13 r [PushSql s] t"
  unfolding says_def using phrase_text [OF assms(1-4)] assms(5-7) by (auto simp: pre_def intro: expr)

lemma begins_append [simp]: "begins ts \<Longrightarrow> begins (ts @ us)"
  by (cases ts) (auto simp: begins_def split: Token.splits)

lemma binds_from_frame [simp]: "binds_from B n (cs @ [PushSql s]) = binds_from B n cs"
  by (simp add: binds_from_def)

lemma call_tokens_sql: "lex s = Some ts \<Longrightarrow> call_tokens n (PushSql s # cs) = map_option ((@) ts) (call_tokens n cs)"
  by (simp add: pre_def)

text \<open>An operand between two fixed texts.\<close>

lemma says_framed:
  assumes "opener s" "closer s'" "lex s = Some ps" "lex s' = Some qs" "begins ps"
    and "says l r cs t" "1 \<le> l" and "\<And>rest. follow (qs @ rest) = 0"
    and "\<And>B ts rest. follow rest \<le> r' \<Longrightarrow> rd_expr B (Suc 0) (ts @ qs @ rest) t (qs @ rest) \<Longrightarrow> rd_prim B (ps @ ts @ qs @ rest) u rest"
  shows "says 13 r' (PushSql s # cs @ [PushSql s']) u"
  unfolding says_def
proof (intro conjI allI impI)
  show "phrase (PushSql s # cs @ [PushSql s'])"
    using assms(1, 2, 6) by (simp add: says_def phrase_open phrase_close)
  fix n and B :: "nat \<Rightarrow> 'a"
  assume "binds_from B n (PushSql s # cs @ [PushSql s'])"
  then have here: "binds_from B n cs" by simp
  obtain ts where ts: "call_tokens n cs = Some ts"
    and read: "\<And>p rest v rest'. p \<le> l \<Longrightarrow> follow rest \<le> r \<Longrightarrow> rd_loop B p t rest v rest' \<Longrightarrow> rd_expr B p (ts @ rest) v rest'"
    by (rule saysE [OF assms(6) here]) blast
  have "rd_expr B (Suc 0) (ts @ qs @ rest) t (qs @ rest)" for rest
    by (rule read) (use assms(7, 8) in \<open>auto intro: stop\<close>)
  then have "rd_prim B ((ps @ ts @ qs) @ rest) u rest" if "follow rest \<le> r'" for rest
    using assms(9) [OF that] by simp
  moreover have "call_tokens n (PushSql s # cs @ [PushSql s']) = Some (ps @ ts @ qs)"
    using assms(3, 4) ts by (simp add: call_tokens_append pre_def)
  ultimately show "\<exists>ts. call_tokens n (PushSql s # cs @ [PushSql s']) = Some ts \<and> begins ts \<and>
      (\<forall>p rest v rest'. p \<le> 13 \<longrightarrow> follow rest \<le> r' \<longrightarrow> rd_loop B p u rest v rest' \<longrightarrow> rd_expr B p (ts @ rest) v rest')"
    using assms(5) by (auto intro: expr)
qed

lemma follow_close [simp]: "follow (Sym (CHR '')'') # rest) = 0" "follow (Sym (CHR '','') # rest) = 0"
  by (simp_all add: follow_def op_chars_def)

lemma frames [simp]:
  "opener ''(''" "closer '')''" "opener ''NOT (''"
  by (simp_all add: opener_def closer_def is_word_char_def is_ascii_alphanumeric_def is_ascii_alpha_def
      is_ascii_digit_def byte_def)

lemma lex_frames [simp]: "lex ''('' = Some [Sym (CHR ''('')]" "lex '')'' = Some [Sym (CHR '')'')]"
    "lex ''NOT ('' = Some [Word ''NOT'', Sym (CHR ''('')]"
  by code_simp+

lemma says_paren: "says l r cs t \<Longrightarrow> 1 \<le> l \<Longrightarrow> says 13 13 (PushSql ''('' # cs @ [PushSql '')'']) t"
  by (rule says_framed [where ps = "[Sym (CHR ''('')]" and qs = "[Sym (CHR '')'')]"])
    (auto simp: begins_def op_chars_def intro: paren)

lemma says_not: "says l r cs t \<Longrightarrow> 1 \<le> l \<Longrightarrow> says 13 2 (PushSql ''NOT ('' # cs @ [PushSql '')'']) (SNot t)"
  by (rule says_framed [where ps = "[Word ''NOT'', Sym (CHR ''('')]" and qs = "[Sym (CHR '')'')]"])
    (auto simp: begins_def intro!: not expr [OF paren] stop)

section \<open>Operators\<close>

lemma follow_op: "next_op (os @ rest) = (op, r) \<Longrightarrow> follow (os @ rest) = op_level op"
  by (simp add: follow_def)

text \<open>A binary operator.\<close>

lemma says_infix:
  assumes "closer s" "opener s" "lex s = Some os"
    and op: "\<And>rest. begins rest \<Longrightarrow> next_op (os @ rest) = (Infix name q na, rest)"
    and "says l1 r1 cs t" "says l2 r2 ds u" "0 < q" "q \<le> r1" "Suc q \<le> l2" "q \<le> r2"
  shows "says (min q l1) (if na then q - 1 else q) (cs @ PushSql s # ds) (SInfix name t u)"
  unfolding says_def
proof (intro conjI allI impI)
  show "phrase (cs @ PushSql s # ds)" using assms(1, 2, 5, 6) by (simp add: says_def phrase_glue)
  fix n and B :: "nat \<Rightarrow> 'a"
  let ?m = "n + length (call_binds cs)"
  assume "binds_from B n (cs @ PushSql s # ds)"
  then have here: "binds_from B n cs" "binds_from B ?m ds" by (simp_all add: binds_from_append)
  obtain ts where ts: "call_tokens n cs = Some ts" "begins ts"
    and left: "\<And>p rest v rest'. p \<le> l1 \<Longrightarrow> follow rest \<le> r1 \<Longrightarrow> rd_loop B p t rest v rest' \<Longrightarrow> rd_expr B p (ts @ rest) v rest'"
    by (rule saysE [OF assms(5) here(1)]) blast
  obtain us where us: "call_tokens ?m ds = Some us" "begins us"
    and right: "\<And>p rest v rest'. p \<le> l2 \<Longrightarrow> follow rest \<le> r2 \<Longrightarrow> rd_loop B p u rest v rest' \<Longrightarrow> rd_expr B p (us @ rest) v rest'"
    by (rule saysE [OF assms(6) here(2)]) blast
  have toks: "call_tokens n (cs @ PushSql s # ds) = Some (ts @ os @ us)"
    using assms(3) ts us by (simp add: call_tokens_append pre_def)
  have "rd_expr B p ((ts @ os @ us) @ rest) v rest'"
    if p: "p \<le> min q l1" and f: "follow rest \<le> (if na then q - 1 else q)" and v: "rd_loop B p (SInfix name t u) rest v rest'"
    for p rest v rest'
  proof -
    have next_is: "next_op (os @ us @ rest) = (Infix name q na, us @ rest)" using op us(2) by simp
    have "rd_expr B (Suc q) (us @ rest) u rest"
      using f assms(9, 10) by (intro right stop) (auto split: if_splits)
    moreover have "\<not> (na \<and> follow rest = q)" using f assms(7) by auto
    moreover have "p \<le> q" "p \<le> l1" using p by simp_all
    ultimately have "rd_loop B p t (os @ us @ rest) v rest'"
      using infix_op [OF next_is] v by blast
    moreover have "follow (os @ us @ rest) \<le> r1" using assms(8) next_is by (simp add: follow_def)
    ultimately have "rd_expr B p (ts @ os @ us @ rest) v rest'" using left \<open>p \<le> l1\<close> by blast
    then show ?thesis by simp
  qed
  moreover have "begins (ts @ os @ us)" using ts(2) by simp
  ultimately show "\<exists>ts. call_tokens n (cs @ PushSql s # ds) = Some ts \<and> begins ts \<and>
      (\<forall>p rest v rest'. p \<le> min q l1 \<longrightarrow> follow rest \<le> (if na then q - 1 else q) \<longrightarrow>
        rd_loop B p (SInfix name t u) rest v rest' \<longrightarrow> rd_expr B p (ts @ rest) v rest')"
    using toks by blast
qed

end
