(* ===== verification/Query_Told.thy ===== *)
theory Query_Told
  imports Query_Says
begin

text \<open>The productions on the emitters: what an emitter that does not fail makes the server read.\<close>

section \<open>More productions\<close>

text \<open>A postfix operator.\<close>

lemma says_post:
  assumes "closer s" "lex s = Some os" and op: "\<And>rest. next_op (os @ rest) = (Postfix name, rest)"
    and "says l r cs t" "4 \<le> r"
  shows "says (min 4 l) 13 (cs @ [PushSql s]) (SPost name t)"
  unfolding says_def
proof (intro conjI allI impI)
  show "phrase (cs @ [PushSql s])" using assms(1, 4) by (simp add: says_def phrase_close)
  fix n and B :: "nat \<Rightarrow> 'a"
  assume "binds_from B n (cs @ [PushSql s])"
  then have here: "binds_from B n cs" by simp
  obtain ts where ts: "call_tokens n cs = Some ts" "begins ts"
    and read: "\<And>p rest v rest'. p \<le> l \<Longrightarrow> follow rest \<le> r \<Longrightarrow> rd_loop B p t rest v rest' \<Longrightarrow> rd_expr B p (ts @ rest) v rest'"
    by (rule saysE [OF assms(4) here]) blast
  have toks: "call_tokens n (cs @ [PushSql s]) = Some (ts @ os)"
    using assms(2) ts by (simp add: call_tokens_append pre_def)
  have "rd_expr B p ((ts @ os) @ rest) v rest'" if p: "p \<le> min 4 l" and v: "rd_loop B p (SPost name t) rest v rest'"
    for p rest v rest'
  proof -
    have "p \<le> 4" "p \<le> l" using p by simp_all
    then have "rd_loop B p t (os @ rest) v rest'" using post [OF op _ v] by blast
    moreover have "follow (os @ rest) \<le> r" using assms(5) op by (simp add: follow_def)
    ultimately have "rd_expr B p (ts @ os @ rest) v rest'" using read \<open>p \<le> l\<close> by blast
    then show ?thesis by simp
  qed
  moreover have "begins (ts @ os)" using ts(2) by simp
  ultimately show "\<exists>ts. call_tokens n (cs @ [PushSql s]) = Some ts \<and> begins ts \<and>
      (\<forall>p rest v rest'. p \<le> min 4 l \<longrightarrow> follow rest \<le> 13 \<longrightarrow> rd_loop B p (SPost name t) rest v rest' \<longrightarrow>
        rd_expr B p (ts @ rest) v rest')"
    using toks by blast
qed

text \<open>\<open>BETWEEN\<close>.\<close>

lemma says_between:
  assumes "says l r cs t" "says 7 6 ds a" "says 7 6 es b" "6 \<le> r"
  shows "says (min 6 l) 5 (cs @ PushSql '' BETWEEN '' # ds @ PushSql '' AND '' # es) (SBetween t a b)"
  unfolding says_def
proof (intro conjI allI impI)
  have frames: "opener '' BETWEEN ''" "closer '' BETWEEN ''" "opener '' AND ''" "closer '' AND ''"
    "lex '' BETWEEN '' = Some [Word ''BETWEEN'']" "lex '' AND '' = Some [Word ''AND'']"
    by (simp_all add: opener_def closer_def) code_simp+
  show "phrase (cs @ PushSql '' BETWEEN '' # ds @ PushSql '' AND '' # es)"
    using assms(1-3) frames by (simp add: says_def phrase_glue)
  fix n and B :: "nat \<Rightarrow> 'a"
  let ?m = "n + length (call_binds cs)" and ?k = "n + length (call_binds cs) + length (call_binds ds)"
  assume "binds_from B n (cs @ PushSql '' BETWEEN '' # ds @ PushSql '' AND '' # es)"
  then have here: "binds_from B n cs" "binds_from B ?m ds" "binds_from B ?k es" by (simp_all add: binds_from_append)
  obtain ts where ts: "call_tokens n cs = Some ts" "begins ts"
    and left: "\<And>p rest v rest'. p \<le> l \<Longrightarrow> follow rest \<le> r \<Longrightarrow> rd_loop B p t rest v rest' \<Longrightarrow> rd_expr B p (ts @ rest) v rest'"
    by (rule saysE [OF assms(1) here(1)]) blast
  obtain us where us: "call_tokens ?m ds = Some us"
    and low: "\<And>p rest v rest'. p \<le> 7 \<Longrightarrow> follow rest \<le> 6 \<Longrightarrow> rd_loop B p a rest v rest' \<Longrightarrow> rd_expr B p (us @ rest) v rest'"
    by (rule saysE [OF assms(2) here(2)]) blast
  obtain ws where ws: "call_tokens ?k es = Some ws"
    and high: "\<And>p rest v rest'. p \<le> 7 \<Longrightarrow> follow rest \<le> 6 \<Longrightarrow> rd_loop B p b rest v rest' \<Longrightarrow> rd_expr B p (ws @ rest) v rest'"
    by (rule saysE [OF assms(3) here(3)]) blast
  let ?ts = "ts @ Word ''BETWEEN'' # us @ Word ''AND'' # ws"
  have toks: "call_tokens n (cs @ PushSql '' BETWEEN '' # ds @ PushSql '' AND '' # es) = Some ?ts"
    using frames ts us ws by (simp add: call_tokens_append pre_def)
  have "rd_expr B p (?ts @ rest) v rest'"
    if p: "p \<le> min 6 l" and f: "follow rest \<le> 5" and v: "rd_loop B p (SBetween t a b) rest v rest'" for p rest v rest'
  proof -
    have "p \<le> 6" "p \<le> l" using p by simp_all
    have op: "next_op (Word ''BETWEEN'' # us @ Word ''AND'' # ws @ rest) = (Between, us @ Word ''AND'' # ws @ rest)"
      by simp
    have "rd_expr B 7 (us @ Word ''AND'' # ws @ rest) a (Word ''AND'' # ws @ rest)"
      by (rule low) (auto simp: follow_def intro: stop)
    moreover have "rd_expr B 7 (ws @ rest) b rest"
      by (rule high) (use f in \<open>auto intro: stop\<close>)
    moreover have "follow rest \<noteq> 6" using f by simp
    ultimately have "rd_loop B p t (Word ''BETWEEN'' # us @ Word ''AND'' # ws @ rest) v rest'"
      using between [OF op \<open>p \<le> 6\<close>] v by blast
    moreover have "follow (Word ''BETWEEN'' # us @ Word ''AND'' # ws @ rest) \<le> r"
      using assms(4) by (simp add: follow_def)
    ultimately show ?thesis using left \<open>p \<le> l\<close> by simp
  qed
  moreover have "begins ?ts" using ts(2) by simp
  ultimately show "\<exists>ts. call_tokens n (cs @ PushSql '' BETWEEN '' # ds @ PushSql '' AND '' # es) = Some ts \<and> begins ts \<and>
      (\<forall>p rest v rest'. p \<le> min 6 l \<longrightarrow> follow rest \<le> 5 \<longrightarrow> rd_loop B p (SBetween t a b) rest v rest' \<longrightarrow>
        rd_expr B p (ts @ rest) v rest')"
    using toks by blast
qed

section \<open>Names\<close>

definition plain_name :: "string \<Rightarrow> bool" where
  "plain_name w \<longleftrightarrow> const_assert_plain_ident w \<and> \<not> server_reserves w"

lemma word_not: "is_word_char c \<Longrightarrow> c \<noteq> sq \<and> c \<noteq> dq \<and> c \<noteq> CHR ''-'' \<and> c \<noteq> CHR ''.'' \<and> \<not> is_space c"
proof -
  have "\<not> is_word_char (CHR 0x0A)" "\<not> is_word_char (CHR 0x0D)" "\<not> is_word_char (CHR 0x09)" "\<not> is_word_char (CHR ''.'')"
    by code_simp+
  then show "is_word_char c \<Longrightarrow> ?thesis" by (auto simp: is_space_def)
qed

lemma words_calm: "\<forall>c\<in>set s. is_word_char c \<Longrightarrow> calm s"
  by (induction s) (auto simp: calm_Cons word_not)

lemma lex_words: "s \<noteq> [] \<Longrightarrow> \<forall>c\<in>set s. is_word_char c \<Longrightarrow> lex s = Some [Word s]"
  by (simp add: lexes_as_word list_all_iff)

lemma plain_name_word: "plain_name w \<Longrightarrow> w \<noteq> [] \<and> (\<forall>c\<in>set w. is_word_char c) \<and> \<not> server_reserves w"
  by (cases w) (auto simp: plain_name_def const_assert_plain_ident_def is_word_char_def is_ascii_alphanumeric_def list_all_iff)

lemma word_piece:
  assumes "w \<noteq> []" "\<forall>c\<in>set w. is_word_char c"
  shows "calm w" "hd w \<noteq> CHR ''-''" "last w \<noteq> CHR ''-''" "lex w = Some [Word w]"
  using assms word_not [of "hd w"] word_not [of "last w"] by (simp_all add: words_calm lex_words)

lemma says_column: "plain_name w \<Longrightarrow> says 13 13 [PushSql w] (SCol [w])"
proof -
  assume "plain_name w"
  then have w: "w \<noteq> []" "\<forall>c\<in>set w. is_word_char c" "\<not> server_reserves w" using plain_name_word by blast+
  show ?thesis
    by (rule says_fixed [OF word_piece(1) [OF w(1, 2)] w(1) word_piece(2-4) [OF w(1, 2)]])
      (auto simp: begins_def w intro: col)
qed

lemma says_qualified:
  assumes "w \<noteq> []" "\<forall>c\<in>set w. is_word_char c" "\<not> server_reserves w" and c: "plain_name c"
  shows "says 13 13 [PushSql w, PushSql ''.'', PushSql c] (SCol [w, c])"
  unfolding says_def
proof (intro conjI allI impI)
  have c': "c \<noteq> []" "\<forall>x\<in>set c. is_word_char x" using c plain_name_word by blast+
  have dot: "closer ''.''" "opener ''.''" "lex ''.'' = Some [Sym (CHR ''.'')]"
    by (simp_all add: opener_def closer_def) code_simp+
  note w' = word_piece [OF assms(1, 2)] and c'' = word_piece [OF c']
  have "phrase ([PushSql w] @ PushSql ''.'' # [PushSql c] :: 'a call list)"
    by (intro phrase_glue phrase_text dot w' c'' assms(1) c'(1))
  then show "phrase [PushSql w, PushSql ''.'', PushSql c :: 'a call]" by simp
  fix n and B :: "nat \<Rightarrow> 'a"
  have "call_tokens n [PushSql w, PushSql ''.'', PushSql c :: 'a call] = Some [Word w, Sym (CHR ''.''), Word c]"
    using w'(4) c''(4) dot(3) by (simp add: pre_def)
  moreover have "begins [Word w, Sym (CHR ''.''), Word c]" by (simp add: begins_def)
  moreover have "rd_expr B p ([Word w, Sym (CHR ''.''), Word c] @ rest) v rest'"
    if "follow rest \<le> 13" "rd_loop B p (SCol [w, c]) rest v rest'" for p rest v rest'
    using that assms(3) by (auto intro!: expr [OF qcol])
  ultimately show "\<exists>ts. call_tokens n [PushSql w, PushSql ''.'', PushSql c :: 'a call] = Some ts \<and> begins ts \<and>
      (\<forall>p rest v rest'. p \<le> 13 \<longrightarrow> follow rest \<le> 13 \<longrightarrow> rd_loop B p (SCol [w, c]) rest v rest' \<longrightarrow>
        rd_expr B p (ts @ rest) v rest')"
    by blast
qed

section \<open>Lists of operands\<close>

fun joined :: "string \<Rightarrow> 'v call list list \<Rightarrow> 'v call list" where
  "joined sep [] = []"
| "joined sep [cs] = cs"
| "joined sep (cs # css) = cs @ PushSql sep # joined sep css"

lemma joined_Cons: "css \<noteq> [] \<Longrightarrow> joined sep (cs # css) = cs @ PushSql sep # joined sep css"
  by (cases css) simp_all

lemma joined_append: "css \<noteq> [] \<Longrightarrow> joined sep (css @ [ds]) = joined sep css @ PushSql sep # ds"
proof (induction css)
  case (Cons cs css)
  then show ?case by (cases css) (simp_all add: joined_Cons)
qed simp

text \<open>The operands of a list separated by commas, up to its closing parenthesis.\<close>

definition says_args :: "'v call list \<Rightarrow> 'v Sql list \<Rightarrow> bool" where
  "says_args cs us \<longleftrightarrow>
     phrase cs
     \<and> (\<forall>n B. binds_from B n cs \<longrightarrow>
          (\<exists>ts. call_tokens n cs = Some ts \<and> (\<forall>rest. rd_args B (ts @ Sym (CHR '')'') # rest) us rest)))"

lemma says_args_joined:
  "css \<noteq> [] \<Longrightarrow> list_all2 (says 1 0) css us \<Longrightarrow> says_args (joined '', '' css) us"
proof (induction css arbitrary: us)
  case (Cons cs css)
  obtain u us' where us: "us = u # us'" and first: "says 1 0 cs u" and others: "list_all2 (says 1 0) css us'"
    using Cons.prems(2) by (auto simp: list_all2_Cons1)
  have comma: "closer '', ''" "opener '', ''" "lex '', '' = Some [Sym (CHR '','')]"
    by (simp_all add: opener_def closer_def) code_simp+
  show ?case
  proof (cases "css = []")
    case True
    then have "us = [u]" using others us by simp
    moreover have "phrase cs" using first by (simp add: says_def)
    moreover have "\<exists>ts. call_tokens n cs = Some ts \<and> (\<forall>rest. rd_args B (ts @ Sym (CHR '')'') # rest) [u] rest)"
      if here: "binds_from B n cs" for n B
    proof -
      obtain ts where ts: "call_tokens n cs = Some ts"
        and read: "\<And>p rest v rest'. p \<le> 1 \<Longrightarrow> follow rest \<le> 0 \<Longrightarrow> rd_loop B p u rest v rest' \<Longrightarrow> rd_expr B p (ts @ rest) v rest'"
        by (rule saysE [OF first here]) blast
      have "rd_expr B (Suc 0) (ts @ Sym (CHR '')'') # rest) u (Sym (CHR '')'') # rest)" for rest
        by (rule read) (auto intro: stop)
      then have "rd_args B (ts @ Sym (CHR '')'') # rest) [u] rest" for rest by (rule arg)
      with ts show ?thesis by blast
    qed
    ultimately show ?thesis using True by (simp add: says_args_def)
  next
    case False
    from Cons.IH [OF False others] have rest_says: "says_args (joined '', '' css) us'" .
    let ?all = "cs @ PushSql '', '' # joined '', '' css"
    have "phrase ?all"
      using first rest_says comma by (simp add: says_def says_args_def phrase_glue)
    moreover have "\<exists>ts. call_tokens n ?all = Some ts \<and> (\<forall>rest. rd_args B (ts @ Sym (CHR '')'') # rest) us rest)"
      if b: "binds_from B n ?all" for n B
    proof -
      let ?m = "n + length (call_binds cs)"
      have here: "binds_from B n cs" "binds_from B ?m (joined '', '' css)"
        using b by (simp_all add: binds_from_append)
      obtain ts where ts: "call_tokens n cs = Some ts"
        and read: "\<And>p rest v rest'. p \<le> 1 \<Longrightarrow> follow rest \<le> 0 \<Longrightarrow> rd_loop B p u rest v rest' \<Longrightarrow> rd_expr B p (ts @ rest) v rest'"
        by (rule saysE [OF first here(1)]) blast
      obtain ws where ws: "call_tokens ?m (joined '', '' css) = Some ws"
        and tail: "\<And>rest. rd_args B (ws @ Sym (CHR '')'') # rest) us' rest"
        using rest_says here(2) unfolding says_args_def by blast
      have "rd_expr B (Suc 0) (ts @ Sym (CHR '','') # r) u (Sym (CHR '','') # r)" for r
        by (rule read) (auto intro: stop)
      from more [OF this tail] have "rd_args B ((ts @ Sym (CHR '','') # ws) @ Sym (CHR '')'') # rest) us rest" for rest
        by (simp add: us)
      moreover have "call_tokens n ?all = Some (ts @ Sym (CHR '','') # ws)"
        using comma(3) ts ws by (simp add: call_tokens_append pre_def)
      ultimately show ?thesis by blast
    qed
    ultimately show ?thesis using False by (simp add: joined_Cons says_args_def)
  qed
qed simp

text \<open>A function call.\<close>

lemma says_call:
  assumes "opener s" "lex s = Some [Word w, Sym (CHR ''('')]" "\<not> server_reserves w" "says_args cs us"
  shows "says 13 13 (PushSql s # cs @ [PushSql '')'']) (SCall w us)"
  unfolding says_def
proof (intro conjI allI impI)
  show "phrase (PushSql s # cs @ [PushSql '')''])"
    using assms(1, 4) by (simp add: says_args_def phrase_open phrase_close)
  fix n and B :: "nat \<Rightarrow> 'a"
  assume "binds_from B n (PushSql s # cs @ [PushSql '')''])"
  then have "binds_from B n cs" by simp
  then obtain ts where ts: "call_tokens n cs = Some ts"
    and args: "\<And>rest. rd_args B (ts @ Sym (CHR '')'') # rest) us rest"
    using assms(4) unfolding says_args_def by blast
  let ?ts = "Word w # Sym (CHR ''('') # ts @ [Sym (CHR '')'')]"
  have "call_tokens n (PushSql s # cs @ [PushSql '')'']) = Some ?ts"
    using assms(2) ts by (simp add: call_tokens_append pre_def)
  moreover have "begins ?ts" by (simp add: begins_def)
  moreover have "rd_expr B p (?ts @ rest) v rest'" if "rd_loop B p (SCall w us) rest v rest'" for p rest v rest'
    using expr [OF call [OF assms(3) args] that] by simp
  ultimately show "\<exists>ts. call_tokens n (PushSql s # cs @ [PushSql '')'']) = Some ts \<and> begins ts \<and>
      (\<forall>p rest v rest'. p \<le> 13 \<longrightarrow> follow rest \<le> 13 \<longrightarrow> rd_loop B p (SCall w us) rest v rest' \<longrightarrow>
        rd_expr B p (ts @ rest) v rest')"
    by blast
qed

text \<open>\<open>IN\<close> and \<open>NOT IN\<close>.\<close>

lemma says_in:
  assumes "closer s" "opener s" "lex s = Some os" and op: "\<And>rest. next_op (os @ rest) = (InOp positive, rest)"
    and "says l r cs t" "6 \<le> r" "says_args ds us"
  shows "says (min 6 l) 13 (cs @ PushSql s # ds @ [PushSql '')'']) (SInList positive t us)"
  unfolding says_def
proof (intro conjI allI impI)
  show "phrase (cs @ PushSql s # ds @ [PushSql '')''])"
    using assms(1, 2, 5, 7) by (simp add: says_def says_args_def phrase_glue phrase_close)
  fix n and B :: "nat \<Rightarrow> 'a"
  let ?m = "n + length (call_binds cs)"
  assume "binds_from B n (cs @ PushSql s # ds @ [PushSql '')''])"
  then have here: "binds_from B n cs" "binds_from B ?m ds" by (simp_all add: binds_from_append)
  obtain ts where ts: "call_tokens n cs = Some ts" "begins ts"
    and left: "\<And>p rest v rest'. p \<le> l \<Longrightarrow> follow rest \<le> r \<Longrightarrow> rd_loop B p t rest v rest' \<Longrightarrow> rd_expr B p (ts @ rest) v rest'"
    by (rule saysE [OF assms(5) here(1)]) blast
  obtain ws where ws: "call_tokens ?m ds = Some ws"
    and args: "\<And>rest. rd_args B (ws @ Sym (CHR '')'') # rest) us rest"
    using assms(7) here(2) unfolding says_args_def by blast
  let ?ts = "ts @ os @ ws @ [Sym (CHR '')'')]"
  have "call_tokens n (cs @ PushSql s # ds @ [PushSql '')'']) = Some ?ts"
    using assms(3) ts ws by (simp add: call_tokens_append pre_def)
  moreover have "begins ?ts" using ts(2) by simp
  moreover have "rd_expr B p (?ts @ rest) v rest'"
    if p: "p \<le> min 6 l" and v: "rd_loop B p (SInList positive t us) rest v rest'" for p rest v rest'
  proof -
    have "p \<le> 6" "p \<le> l" using p by simp_all
    then have "rd_loop B p t (os @ ws @ Sym (CHR '')'') # rest) v rest'" using in_list [OF op _ args v] by blast
    moreover have "follow (os @ ws @ Sym (CHR '')'') # rest) \<le> r" using assms(6) op by (simp add: follow_def)
    ultimately show ?thesis using left \<open>p \<le> l\<close> by simp
  qed
  ultimately show "\<exists>ts. call_tokens n (cs @ PushSql s # ds @ [PushSql '')'']) = Some ts \<and> begins ts \<and>
      (\<forall>p rest v rest'. p \<le> min 6 l \<longrightarrow> follow rest \<le> 13 \<longrightarrow> rd_loop B p (SInList positive t us) rest v rest' \<longrightarrow>
        rd_expr B p (ts @ rest) v rest')"
    by blast
qed

text \<open>Operands joined by a left-associative operator.\<close>

lemma says_joined:
  assumes "closer s" "opener s" "lex s = Some os"
    and op: "\<And>rest. begins rest \<Longrightarrow> next_op (os @ rest) = (Infix name q False, rest)" and "0 < q"
    and "list_all2 (says (Suc q) q) css us" "css \<noteq> []"
  shows "says q q (joined s css) (foldl (SInfix name) (hd us) (tl us))"
  using assms(6, 7)
proof (induction css arbitrary: us rule: rev_induct)
  case (snoc ds css)
  obtain us' u where us: "us = us' @ [u]" and before: "list_all2 (says (Suc q) q) css us'" and "says (Suc q) q ds u"
    using snoc.prems(1) by (auto simp: list_all2_append1 list_all2_Cons1)
  show ?case
  proof (cases "css = []")
    case True
    then show ?thesis using before us \<open>says (Suc q) q ds u\<close> by (auto intro: says_weaken)
  next
    case False
    then have "us' \<noteq> []" using before by auto
    from snoc.IH [OF before False] \<open>says (Suc q) q ds u\<close>
    have "says (min q q) (if False then q - 1 else q) (joined s css @ PushSql s # ds)
        (SInfix name (foldl (SInfix name) (hd us') (tl us')) u)"
      by (intro says_infix [OF assms(1-3)]) (use op \<open>0 < q\<close> in auto)
    then show ?thesis using \<open>us' \<noteq> []\<close> us False by (simp add: joined_append)
  qed
qed simp

text \<open>\<open>CASE\<close>: the calls from the first \<open>WHEN\<close> to \<open>END\<close>.\<close>

fun arm_calls :: "'v call list \<times> 'v call list \<Rightarrow> 'v call list" where
  "arm_calls (cs, ds) = PushSql ''WHEN '' # cs @ PushSql '' THEN '' # ds @ [PushSql '' '']"

fun arms_calls :: "('v call list \<times> 'v call list) list \<Rightarrow> 'v call list \<Rightarrow> 'v call list" where
  "arms_calls [] es = PushSql ''ELSE '' # es @ [PushSql '' END'']"
| "arms_calls (a # as) es = arm_calls a @ arms_calls as es"

definition says_arms :: "'v call list \<Rightarrow> ('v Sql \<times> 'v Sql) list \<Rightarrow> 'v Sql \<Rightarrow> bool" where
  "says_arms cs arms e \<longleftrightarrow>
     phrase cs
     \<and> (\<forall>n B. binds_from B n cs \<longrightarrow>
          (\<exists>ts. call_tokens n cs = Some (Word ''WHEN'' # ts) \<and> (\<forall>rest. rd_arms B (ts @ rest) arms e rest)))"

lemma case_frames:
  "opener ''WHEN ''" "opener '' THEN ''" "closer '' THEN ''" "opener '' ''" "closer '' ''" "opener ''ELSE ''" "closer '' END''"
  "lex ''WHEN '' = Some [Word ''WHEN'']" "lex '' THEN '' = Some [Word ''THEN'']" "lex '' '' = Some []"
  "lex ''ELSE '' = Some [Word ''ELSE'']" "lex '' END'' = Some [Word ''END'']"
  by (simp_all add: opener_def closer_def) code_simp+

lemma saysE_stop:
  assumes "says l r cs t" "1 \<le> l" "binds_from B n cs"
  obtains ts where "call_tokens n cs = Some ts" "\<And>rest. follow rest = 0 \<Longrightarrow> rd_expr B (Suc 0) (ts @ rest) t rest"
proof -
  obtain ts where ts: "call_tokens n cs = Some ts"
    and read: "\<And>p rest v rest'. p \<le> l \<Longrightarrow> follow rest \<le> r \<Longrightarrow> rd_loop B p t rest v rest' \<Longrightarrow> rd_expr B p (ts @ rest) v rest'"
    by (rule saysE [OF assms(1, 3)]) blast
  have "rd_expr B (Suc 0) (ts @ rest) t rest" if "follow rest = 0" for rest
    by (rule read) (use assms(2) that in \<open>simp_all add: stop\<close>)
  with ts show ?thesis by (rule that)
qed

lemma follow_words [simp]:
  "follow (Word ''THEN'' # rest) = 0" "follow (Word ''WHEN'' # rest) = 0" "follow (Word ''ELSE'' # rest) = 0"
  "follow (Word ''END'' # rest) = 0"
  by (simp_all add: follow_def)

lemma says_arms_calls:
  assumes "says 1 0 es e"
  shows "list_all2 (rel_prod (says 1 0) (says 1 0)) as arms \<Longrightarrow> as \<noteq> [] \<Longrightarrow> says_arms (arms_calls as es) arms e"
proof (induction "as" arbitrary: arms)
  case (Cons a as)
  obtain cs ds where a: "a = (cs, ds)" by (cases a)
  obtain c v arms' where arms: "arms = (c, v) # arms'" and here: "says 1 0 cs c" "says 1 0 ds v"
    and others: "list_all2 (rel_prod (says 1 0) (says 1 0)) as arms'"
    using Cons.prems(1) a by (auto simp: list_all2_Cons1 elim!: rel_prod.cases)
  have phrases: "phrase cs" "phrase ds" "phrase es" using here assms by (simp_all add: says_def)
  have tail_phrase: "phrase (arms_calls as es)"
  proof (cases "as = []")
    case True
    then show ?thesis using phrases case_frames by (simp add: phrase_open phrase_close)
  next
    case False
    with Cons.IH [OF others] show ?thesis by (simp add: says_arms_def)
  qed
  have "phrase (PushSql ''WHEN '' # cs @ PushSql '' THEN '' # ds @ PushSql '' '' # arms_calls as es)"
    using phrases tail_phrase case_frames by (simp add: phrase_open phrase_glue)
  then have "phrase (arms_calls (a # as) es)" by (simp add: a)
  moreover have "\<exists>ts. call_tokens n (arms_calls (a # as) es) = Some (Word ''WHEN'' # ts)
      \<and> (\<forall>rest. rd_arms B (ts @ rest) arms e rest)"
    if b: "binds_from B n (arms_calls (a # as) es)" for n B
  proof -
    let ?m = "n + length (call_binds cs)" and ?k = "n + length (call_binds cs) + length (call_binds ds)"
    have bs: "binds_from B n cs" "binds_from B ?m ds" "binds_from B ?k (arms_calls as es)"
      using b by (simp_all add: a binds_from_append)
    obtain ts where ts: "call_tokens n cs = Some ts"
      and cond: "\<And>rest. follow rest = 0 \<Longrightarrow> rd_expr B (Suc 0) (ts @ rest) c rest"
      by (rule saysE_stop [OF here(1) order_refl bs(1)]) blast
    obtain us where us: "call_tokens ?m ds = Some us"
      and val: "\<And>rest. follow rest = 0 \<Longrightarrow> rd_expr B (Suc 0) (us @ rest) v rest"
      by (rule saysE_stop [OF here(2) order_refl bs(2)]) blast
    note toks = call_tokens_append pre_def ts us case_frames a
    show ?thesis
    proof (cases "as = []")
      case True
      then have e_binds: "binds_from B ?k es" using bs(3) by simp
      obtain ws where ws: "call_tokens ?k es = Some ws"
        and els: "\<And>rest. follow rest = 0 \<Longrightarrow> rd_expr B (Suc 0) (ws @ rest) e rest"
        by (rule saysE_stop [OF assms order_refl e_binds]) blast
      let ?ts = "ts @ Word ''THEN'' # us @ Word ''ELSE'' # ws @ [Word ''END'']"
      have "call_tokens n (arms_calls (a # as) es) = Some (Word ''WHEN'' # ?ts)"
        using ws True by (simp add: toks)
      moreover have "rd_arms B (?ts @ rest) arms e rest" for rest
        using last_arm [OF cond val els] others True arms by simp
      ultimately show ?thesis by blast
    next
      case False
      then obtain ws where ws: "call_tokens ?k (arms_calls as es) = Some (Word ''WHEN'' # ws)"
        and tail: "\<And>rest. rd_arms B (ws @ rest) arms' e rest"
        using Cons.IH [OF others] bs(3) unfolding says_arms_def by blast
      let ?ts = "ts @ Word ''THEN'' # us @ Word ''WHEN'' # ws"
      have "call_tokens n (arms_calls (a # as) es) = Some (Word ''WHEN'' # ?ts)"
        using ws by (simp add: toks)
      moreover have "rd_arms B (?ts @ rest) arms e rest" for rest
        using arm [OF cond val tail] arms by simp
      ultimately show ?thesis by blast
    qed
  qed
  ultimately show ?case by (simp add: says_arms_def)
qed simp

lemma says_case:
  assumes "says_arms cs arms e"
  shows "says 13 13 (PushSql ''CASE '' # cs) (SCase arms e)"
  unfolding says_def
proof (intro conjI allI impI)
  have frame: "opener ''CASE ''" "lex ''CASE '' = Some [Word ''CASE'']"
    by (simp_all add: opener_def) code_simp
  show "phrase (PushSql ''CASE '' # cs)" using assms frame by (simp add: says_arms_def phrase_open)
  fix n and B :: "nat \<Rightarrow> 'a"
  assume "binds_from B n (PushSql ''CASE '' # cs)"
  then have "binds_from B n cs" by simp
  then obtain ts where ts: "call_tokens n cs = Some (Word ''WHEN'' # ts)"
    and arms: "\<And>rest. rd_arms B (ts @ rest) arms e rest"
    using assms unfolding says_arms_def by blast
  let ?ts = "Word ''CASE'' # Word ''WHEN'' # ts"
  have "call_tokens n (PushSql ''CASE '' # cs) = Some ?ts" using ts frame by (simp add: pre_def)
  moreover have "begins ?ts" by (simp add: begins_def)
  moreover have "rd_expr B p (?ts @ rest) v rest'" if "rd_loop B p (SCase arms e) rest v rest'" for p rest v rest'
    using expr [OF cases [OF arms] that] by simp
  ultimately show "\<exists>ts. call_tokens n (PushSql ''CASE '' # cs) = Some ts \<and> begins ts \<and>
      (\<forall>p rest v rest'. p \<le> 13 \<longrightarrow> follow rest \<le> 13 \<longrightarrow> rd_loop B p (SCase arms e) rest v rest' \<longrightarrow>
        rd_expr B p (ts @ rest) v rest')"
    by blast
qed

end
