(* ===== verification/Query_Trees.thy ===== *)
theory Query_Trees
  imports Query_Told
begin

text \<open>
  What expressions, conditions and predicates mean: the tree the builder has in mind for each,
  and the fragment whose text the server reads as that tree.
\<close>

section \<open>Emitters that say a tree\<close>

definition told :: "'p emitted \<Rightarrow> nat \<Rightarrow> nat \<Rightarrow> 'p FilterValue Sql \<Rightarrow> bool" where
  "told e l r t \<longleftrightarrow> (\<exists>cs. e = Inr cs \<and> says l r cs t)"

lemma told_weaken: "told e l r t \<Longrightarrow> l' \<le> l \<Longrightarrow> r' \<le> r \<Longrightarrow> told e l' r' t"
  unfolding told_def using says_weaken by blast

lemma told_sql: "says l r [PushSql s] t \<Longrightarrow> told (emit_sql s) l r t"
  by (simp add: told_def emit_sql_def)

lemma told_paren: "told e l r t \<Longrightarrow> 1 \<le> l \<Longrightarrow> told (emit_seq [emit_sql ''('', e, emit_sql '')'']) 13 13 t"
  unfolding told_def by (auto simp: emit_sql_def dest: says_paren)

lemma told_not: "told e l r t \<Longrightarrow> 1 \<le> l \<Longrightarrow> told (emit_seq [emit_sql ''NOT ('', e, emit_sql '')'']) 13 2 (SNot t)"
  unfolding told_def by (auto simp: emit_sql_def dest: says_not)

lemma told_infix:
  assumes "closer s" "opener s" "lex s = Some os"
    and "\<And>rest. begins rest \<Longrightarrow> next_op (os @ rest) = (Infix name q na, rest)"
    and "told e l1 r1 t" "told f l2 r2 u" "0 < q" "q \<le> r1" "Suc q \<le> l2" "q \<le> r2"
  shows "told (emit_seq [e, emit_sql s, f]) (min q l1) (if na then q - 1 else q) (SInfix name t u)"
  using assms(5, 6) says_infix [OF assms(1-4) _ _ assms(7-10)] unfolding told_def by (auto simp: emit_sql_def)

lemma told_post:
  assumes "closer s" "lex s = Some os" "\<And>rest. next_op (os @ rest) = (Postfix name, rest)" "told e l r t" "4 \<le> r"
  shows "told (emit_seq [e, emit_sql s]) (min 4 l) 13 (SPost name t)"
  using assms(4) says_post [OF assms(1-3) _ assms(5)] unfolding told_def by (auto simp: emit_sql_def)

text \<open>Lists of emitters.\<close>

lemma emit_separated_joined:
  "list_all2 (\<lambda>e cs. e = Inr cs) es css \<Longrightarrow> emit_separated sep es = Inr (joined sep css)"
proof (induction sep es arbitrary: css rule: emit_separated.induct)
  case (3 sep r e rs)
  obtain cs ds dss where css: "css = cs # ds # dss" and r: "r = Inr cs"
    and more: "list_all2 (\<lambda>e cs. e = Inr cs) (e # rs) (ds # dss)"
    using 3(2) by (auto simp: list_all2_Cons1)
  from 3(1) [OF more] show ?case by (simp add: css r emit_sql_def)
qed (auto simp: list_all2_Cons1)

lemma told_calls:
  "list_all2 (\<lambda>e t. told e l r t) es ts \<Longrightarrow>
    \<exists>css. list_all2 (\<lambda>e cs. e = Inr cs) es css \<and> list_all2 (says l r) css ts"
proof (induction es ts rule: list_all2_induct)
  case (Cons e es t ts)
  then obtain cs css where "e = Inr cs" "says l r cs t" "list_all2 (\<lambda>e cs. e = Inr cs) es css" "list_all2 (says l r) css ts"
    unfolding told_def by blast
  then show ?case by (intro exI [of _ "cs # css"]) simp
qed simp

lemma told_args:
  assumes "list_all2 (\<lambda>e t. told e 1 0 t) es ts" "es \<noteq> []"
  shows "\<exists>cs. emit_separated '', '' es = Inr cs \<and> says_args cs ts"
proof -
  obtain css where css: "list_all2 (\<lambda>e cs. e = Inr cs) es css" "list_all2 (says 1 0) css ts"
    using told_calls [OF assms(1)] by blast
  moreover have "css \<noteq> []" using css(1) assms(2) by auto
  ultimately show ?thesis using says_args_joined emit_separated_joined by blast
qed

lemma told_call:
  assumes "opener s" "lex s = Some [Word w, Sym (CHR ''('')]" "\<not> server_reserves w"
    and "list_all2 (\<lambda>e t. told e 1 0 t) es ts" "es \<noteq> []"
  shows "told (emit_seq [emit_sql s, emit_separated '', '' es, emit_sql '')'']) 13 13 (SCall w ts)"
proof -
  obtain cs where "emit_separated '', '' es = Inr cs" "says_args cs ts" using told_args [OF assms(4, 5)] by blast
  then show ?thesis using says_call [OF assms(1-3)] by (simp add: told_def emit_sql_def)
qed

lemma told_joined:
  assumes "closer s" "opener s" "lex s = Some os"
    and "\<And>rest. begins rest \<Longrightarrow> next_op (os @ rest) = (Infix name q False, rest)" "0 < q"
    and "list_all2 (\<lambda>e t. told e (Suc q) q t) es ts" "es \<noteq> []"
  shows "told (emit_separated s es) q q (foldl (SInfix name) (hd ts) (tl ts))"
proof -
  obtain css where css: "list_all2 (\<lambda>e cs. e = Inr cs) es css" "list_all2 (says (Suc q) q) css ts"
    using told_calls [OF assms(6)] by blast
  moreover have "css \<noteq> []" using css(1) assms(7) by auto
  ultimately show ?thesis
    using says_joined [OF assms(1-5)] emit_separated_joined unfolding told_def by blast
qed

section \<open>Tokens\<close>

definition bare :: "string \<Rightarrow> string" where "bare tok = butlast (tl tok)"

lemma op_run_syms: "set s \<subseteq> set op_chars \<Longrightarrow> begins rest \<Longrightarrow> op_run (map Sym s @ rest) = (s, rest)"
proof (induction s)
  case Nil
  then show ?case by (cases rest rule: op_run.cases) (auto simp: begins_def)
qed simp

lemma next_op_syms:
  assumes "s \<noteq> []" "set s \<subseteq> set op_chars" "begins rest"
  shows "next_op (map Sym s @ rest) = (symbol_op s, rest)"
proof -
  obtain c s' where s: "s = c # s'" using assms(1) by (cases s) simp_all
  then have "c \<in> set op_chars" using assms(2) by simp
  moreover have "CHR '':'' \<notin> set op_chars" "CHR ''('' \<notin> set op_chars" "CHR ''.'' \<notin> set op_chars"
    by code_simp+
  ultimately have "c \<noteq> CHR '':''" "c \<noteq> CHR ''(''" "c \<noteq> CHR ''.''" by auto
  with \<open>c \<in> set op_chars\<close> op_run_syms [OF assms(2, 3)] show ?thesis by (simp add: s)
qed

text \<open>A symbol between spaces.\<close>

definition symbol_tokens :: "string list" where
  "symbol_tokens =
     ['' = '', '' <> '', '' > '', '' >= '', '' < '', '' <= '', '' ~ '', '' ~* '', '' + '', '' - '', '' * '', '' / '',
      '' @> '', '' <@ '', '' && '', '' << '', '' >> '', '' &< '', '' &> '', '' -|- '']"

lemma symbol_tokens_ok:
  "list_all (\<lambda>tok. closer tok \<and> opener tok \<and> lex tok = Some (map Sym (bare tok)) \<and> bare tok \<noteq> []
      \<and> list_all (\<lambda>c. c \<in> set op_chars) (bare tok)) symbol_tokens"
  by code_simp

lemma symbol_token:
  assumes "tok \<in> set symbol_tokens"
  shows "closer tok" "opener tok" "lex tok = Some (map Sym (bare tok))"
    "begins rest \<Longrightarrow> next_op (map Sym (bare tok) @ rest) = (symbol_op (bare tok), rest)"
  using assms symbol_tokens_ok next_op_syms [of "bare tok" rest] unfolding list_all_iff by blast+

lemma told_symbol:
  assumes "tok \<in> set symbol_tokens" "symbol_op (bare tok) = Infix name q na"
    and "told e l1 r1 t" "told f l2 r2 u" "0 < q" "q \<le> r1" "Suc q \<le> l2" "q \<le> r2"
  shows "told (emit_seq [e, emit_sql tok, f]) (min q l1) (if na then q - 1 else q) (SInfix name t u)"
proof (rule told_infix [OF symbol_token(1-3) [OF assms(1)] _ assms(3-8)])
  show "next_op (map Sym (bare tok) @ rest) = (Infix name q na, rest)" if "begins rest" for rest
    using symbol_token(4) [OF assms(1) that] assms(2) by simp
qed

text \<open>A word between spaces.\<close>

lemma word_operators:
  "closer '' AND ''" "opener '' AND ''" "lex '' AND '' = Some [Word ''AND'']"
  "closer '' OR ''" "opener '' OR ''" "lex '' OR '' = Some [Word ''OR'']"
  "closer '' ILIKE ''" "opener '' ILIKE ''" "lex '' ILIKE '' = Some [Word ''ILIKE'']"
  "closer '' IS DISTINCT FROM ''" "opener '' IS DISTINCT FROM ''"
  "lex '' IS DISTINCT FROM '' = Some [Word ''IS'', Word ''DISTINCT'', Word ''FROM'']"
  "closer '' IS NOT DISTINCT FROM ''" "opener '' IS NOT DISTINCT FROM ''"
  "lex '' IS NOT DISTINCT FROM '' = Some [Word ''IS'', Word ''NOT'', Word ''DISTINCT'', Word ''FROM'']"
  "closer '' IS NULL''" "lex '' IS NULL'' = Some [Word ''IS'', Word ''NULL'']"
  "closer '' IS NOT NULL''" "lex '' IS NOT NULL'' = Some [Word ''IS'', Word ''NOT'', Word ''NULL'']"
  "closer '' IN (''" "opener '' IN (''" "lex '' IN ('' = Some [Word ''IN'', Sym (CHR ''('')]"
  "closer '' NOT IN (''" "opener '' NOT IN (''" "lex '' NOT IN ('' = Some [Word ''NOT'', Word ''IN'', Sym (CHR ''('')]"
  by (simp_all add: opener_def closer_def) code_simp+

lemmas told_word =
  told_infix [OF word_operators(1-3), of "''AND''" 2 False]
  told_infix [OF word_operators(4-6), of "''OR''" 1 False]
  told_infix [OF word_operators(7-9), of "''ILIKE''" 6 True]
  told_infix [OF word_operators(10-12), of "''IS DISTINCT FROM''" 4 True]
  told_infix [OF word_operators(13-15), of "''IS NOT DISTINCT FROM''" 4 True]

lemma told_is_null:
  "told e l r t \<Longrightarrow> 4 \<le> r \<Longrightarrow> told (emit_seq [e, emit_sql '' IS NULL'']) (min 4 l) 13 (SPost ''IS NULL'' t)"
  "told e l r t \<Longrightarrow> 4 \<le> r \<Longrightarrow> told (emit_seq [e, emit_sql '' IS NOT NULL'']) (min 4 l) 13 (SPost ''IS NOT NULL'' t)"
  by (rule told_post [OF word_operators(16, 17)]; simp) (rule told_post [OF word_operators(18, 19)]; simp)

section \<open>Values and columns\<close>

fun value_tree :: "'p FilterValue \<Rightarrow> 'p FilterValue Sql" where
  "value_tree FvNull = SConst ''NULL''"
| "value_tree v = SVal v"

fun single_value :: "'p FilterValue \<Rightarrow> bool" where
  "single_value (FvList vs) = False"
| "single_value (FvPair a b) = False"
| "single_value v = True"

definition column_tree :: "string option \<Rightarrow> string \<Rightarrow> 'v Sql" where
  "column_tree parent_table c = SCol (case parent_table of None \<Rightarrow> [c] | Some t \<Rightarrow> [t, c])"

definition plain_parent :: "string option \<Rightarrow> bool" where
  "plain_parent parent_table \<longleftrightarrow> (case parent_table of None \<Rightarrow> True | Some t \<Rightarrow> plain_name t)"

lemma says_const: "w \<in> set constants \<Longrightarrow> says 13 13 [PushSql w] (SConst w)"
proof -
  assume w: "w \<in> set constants"
  have "list_all (\<lambda>w. w \<noteq> [] \<and> list_all is_word_char w) constants" by code_simp
  with w have word: "w \<noteq> []" "\<forall>c\<in>set w. is_word_char c" by (auto simp: list_all_iff)
  show ?thesis
    by (rule says_fixed [OF word_piece(1) [OF word] word(1) word_piece(2-4) [OF word]])
      (auto simp: begins_def intro: const w)
qed

lemma told_value: "single_value v \<Longrightarrow> told (push_filter_value v) 13 13 (value_tree v)"
  by (cases v) (simp_all add: told_def emit_bind_def emit_sql_def says_value says_const constants_def)

lemma told_list_value: "single_value v \<Longrightarrow> v \<noteq> FvNull \<Longrightarrow> told (push_list_element v) 13 13 (value_tree v)"
  using told_value [of v] by (cases v) simp_all

lemma told_qualified:
  "plain_name t \<Longrightarrow> plain_name c \<Longrightarrow> told (emit_seq [emit_sql t, emit_sql ''.'', emit_sql c]) 13 13 (SCol [t, c])"
  using says_qualified [of t c] plain_name_word [of t] by (auto simp: told_def emit_sql_def)

lemma told_column:
  "plain_parent parent \<Longrightarrow> plain_name c \<Longrightarrow> told (push_qualified_col c parent) 13 13 (column_tree parent c)"
  by (cases parent)
    (simp_all add: push_qualified_col_def column_tree_def plain_parent_def told_qualified [simplified] told_sql says_column)

lemma plain_name_no_dot: "plain_name c \<Longrightarrow> CHR ''.'' \<notin> set c"
  using plain_name_word [of c] word_not by blast

lemma push_column_plain: "plain_name c \<Longrightarrow> push_column ctx c = push_qualified_col c (ctx_parent_table ctx)"
  by (simp add: push_column_def push_qualified_col_def plain_name_no_dot)

section \<open>Expressions\<close>

fun binary_name :: "BinaryOp \<Rightarrow> string" where
  "binary_name OpAdd = ''+''" | "binary_name OpSub = ''-''" | "binary_name OpMul = ''*''"
| "binary_name OpDiv = ''/''" | "binary_name OpAnd = ''AND''" | "binary_name OpOr = ''OR''"

fun cmp_name :: "CmpOp \<Rightarrow> string" where
  "cmp_name CmpEq = ''=''" | "cmp_name CmpNeq = ''<>''" | "cmp_name CmpGt = ''>''" | "cmp_name CmpGte = ''>=''"
| "cmp_name CmpLt = ''<''" | "cmp_name CmpLte = ''<=''"
| "cmp_name CmpIsDistinctFrom = ''IS DISTINCT FROM''" | "cmp_name CmpIsNotDistinctFrom = ''IS NOT DISTINCT FROM''"

text \<open>The tree of an expression; outside the fragment below it says nothing.\<close>

primrec expr_tree :: "('p, 'w, 'q) ExprNode \<Rightarrow> SqlEmitContext \<Rightarrow> 'p FilterValue Sql" where
  "expr_tree (EField c) ctx = column_tree (ctx_parent_table ctx) c"
| "expr_tree (ERawSql s) ctx = SCol []"
| "expr_tree (ELiteral v) ctx = value_tree v"
| "expr_tree (EBinary op l r) ctx = SInfix (binary_name op) (expr_tree l ctx) (expr_tree r ctx)"
| "expr_tree (ENot e) ctx = SNot (expr_tree e ctx)"
| "expr_tree (EIsNull e) ctx = SPost ''IS NULL'' (expr_tree e ctx)"
| "expr_tree (EIsNotNull e) ctx = SPost ''IS NOT NULL'' (expr_tree e ctx)"
| "expr_tree (ECoalesce args) ctx = SCall ''COALESCE'' (map (\<lambda>e. expr_tree e ctx) args)"
| "expr_tree (ECmp op l r) ctx = SInfix (cmp_name op) (expr_tree l ctx) (expr_tree r ctx)"
| "expr_tree (EGroupingVariadic args) ctx = SCall ''GROUPING'' (map (\<lambda>e. expr_tree e ctx) args)"
| "expr_tree (EAggregate op arg arg2 filt cast_to is_distinct window order_by within_group_order_by) ctx =
     (case op of AggUnary u \<Rightarrow> SCall (butlast (unary_agg_opener u)) [expr_tree arg ctx] | _ \<Rightarrow> SCol [])"
| "expr_tree (ECase arms els) ctx =
     SCase (map (map_prod (\<lambda>e. expr_tree e ctx) (\<lambda>e. expr_tree e ctx)) arms) (expr_tree els ctx)"
| "expr_tree (EExists sub) ctx = SCol []"
| "expr_tree (ESubquery sub) ctx = SCol []"
| "expr_tree (EInSubquery l negated sub) ctx = SCol []"
| "expr_tree (EQuantifiedSubquery l op quantifier sub) ctx = SCol []"
| "expr_tree (EArrayLength c) ctx = SCol []"
| "expr_tree ECurrentYear ctx = SCol []"
| "expr_tree (EOuterRef c) ctx = SCol [c]"
| "expr_tree (EOuterRefColumn t c) ctx = SCol [t, c]"
| "expr_tree (EExcluded c) ctx = SCol [''EXCLUDED'', c]"
| "expr_tree (EOuterRefAlias alias c model_type model_name) ctx =
     (case ctx_lateral_outer ctx of Some scope \<Rightarrow> SCol [lo_alias scope, c] | None \<Rightarrow> SCol [])"
| "expr_tree (ETs kind c dictionary query_text) ctx = SCol []"
| "expr_tree (EIntervalLiteral microseconds) ctx = SCol []"

text \<open>
  The two kinds of expression: values, and truth values. A comparison compares values, so a
  comparison of comparisons is neither.
\<close>

inductive scalar :: "SqlEmitContext \<Rightarrow> ('p, 'w, 'q) ExprNode \<Rightarrow> bool"
  and boolean :: "SqlEmitContext \<Rightarrow> ('p, 'w, 'q) ExprNode \<Rightarrow> bool" for ctx where
  field: "plain_name c \<Longrightarrow> scalar ctx (EField c)"
| literal: "single_value v \<Longrightarrow> scalar ctx (ELiteral v)"
| arithmetic: "op \<in> {OpAdd, OpSub, OpMul, OpDiv} \<Longrightarrow> scalar ctx l \<Longrightarrow> scalar ctx r \<Longrightarrow> scalar ctx (EBinary op l r)"
| coalesce: "args \<noteq> [] \<Longrightarrow> list_all (scalar ctx) args \<Longrightarrow> scalar ctx (ECoalesce args)"
| grouping: "args \<noteq> [] \<Longrightarrow> list_all (scalar ctx) args \<Longrightarrow> scalar ctx (EGroupingVariadic args)"
| aggregate: "scalar ctx arg \<Longrightarrow> scalar ctx (EAggregate (AggUnary u) arg arg2 None cast_to False window [] within)"
| case_of: "arms \<noteq> [] \<Longrightarrow> list_all (pred_prod (boolean ctx) (scalar ctx)) arms \<Longrightarrow> scalar ctx els \<Longrightarrow>
    scalar ctx (ECase arms els)"
| outer_ref: "plain_name c \<Longrightarrow> scalar ctx (EOuterRef c)"
| outer_ref_column: "plain_name t \<Longrightarrow> plain_name c \<Longrightarrow> scalar ctx (EOuterRefColumn t c)"
| excluded: "plain_name c \<Longrightarrow> scalar ctx (EExcluded c)"
| outer_ref_alias: "ctx_lateral_outer ctx = Some scope \<Longrightarrow> model_type = lo_model_type scope \<Longrightarrow> plain_name (lo_alias scope) \<Longrightarrow>
    plain_name c \<Longrightarrow> scalar ctx (EOuterRefAlias (lo_alias scope) c model_type model_name)"
| flag: "scalar ctx e \<Longrightarrow> \<not> is_compound e \<Longrightarrow> boolean ctx e"
| cmp: "scalar ctx l \<Longrightarrow> scalar ctx r \<Longrightarrow> boolean ctx (ECmp op l r)"
| is_null: "scalar ctx e \<Longrightarrow> boolean ctx (EIsNull e)"
| is_not_null: "scalar ctx e \<Longrightarrow> boolean ctx (EIsNotNull e)"
| negation: "boolean ctx e \<Longrightarrow> boolean ctx (ENot e)"
| junction: "op \<in> {OpAnd, OpOr} \<Longrightarrow> boolean ctx l \<Longrightarrow> boolean ctx r \<Longrightarrow> boolean ctx (EBinary op l r)"

text \<open>What is told of the two kinds, as an operand and by itself.\<close>

definition told_scalar :: "SqlEmitContext \<Rightarrow> ('p, 'w, SqlEmitContext \<Rightarrow> 'p emitted) ExprNode \<Rightarrow> bool" where
  "told_scalar ctx e \<longleftrightarrow> told (emit_expr e ctx) (if is_compound e then 8 else 13) (if is_compound e then 8 else 13) (expr_tree e ctx)"

definition told_boolean :: "SqlEmitContext \<Rightarrow> ('p, 'w, SqlEmitContext \<Rightarrow> 'p emitted) ExprNode \<Rightarrow> bool" where
  "told_boolean ctx e \<longleftrightarrow> told (emit_expr e ctx) (if is_compound e then 1 else 4) (if is_compound e then 1 else 2) (expr_tree e ctx)"

lemma told_scalar_operand:
  "told_scalar ctx e \<Longrightarrow> told (wrapped_if_compound (is_compound e) (emit_expr e ctx)) 13 13 (expr_tree e ctx)"
  using told_paren [of "emit_expr e ctx" 8 8 "expr_tree e ctx"]
  by (simp add: told_scalar_def wrapped_if_compound_def split: if_splits)

lemma told_boolean_operand:
  "told_boolean ctx e \<Longrightarrow> told (wrapped_if_compound (is_compound e) (emit_expr e ctx)) 4 2 (expr_tree e ctx)"
  using told_paren [of "emit_expr e ctx" 1 1 "expr_tree e ctx"]
    told_weaken [of "emit_seq [emit_sql ''('', emit_expr e ctx, emit_sql '')'']" 13 13 "expr_tree e ctx" 4 2]
  by (simp add: told_boolean_def wrapped_if_compound_def split: if_splits)

lemma told_scalar_8: "told_scalar ctx e \<Longrightarrow> told (emit_expr e ctx) 8 8 (expr_tree e ctx)"
  unfolding told_scalar_def by (erule told_weaken) simp_all

lemma told_boolean_1: "told_boolean ctx e \<Longrightarrow> told (emit_expr e ctx) 1 1 (expr_tree e ctx)"
  unfolding told_boolean_def by (erule told_weaken) simp_all

lemma told_arithmetic:
  assumes "op \<in> {OpAdd, OpSub, OpMul, OpDiv}" "told e 13 13 t" "told f 13 13 u"
  shows "told (emit_seq [e, emit_sql (binary_token op), f]) 8 8 (SInfix (binary_name op) t u)"
proof -
  let ?q = "if op = OpAdd \<or> op = OpSub then 8 else 9"
  have "binary_token op \<in> set symbol_tokens" "symbol_op (bare (binary_token op)) = Infix (binary_name op) ?q False"
    using assms(1) by (auto simp: symbol_tokens_def bare_def symbol_op_def)
  from told_symbol [OF this assms(2, 3)]
  have "told (emit_seq [e, emit_sql (binary_token op), f]) ?q ?q (SInfix (binary_name op) t u)" by simp
  then show ?thesis by (rule told_weaken) simp_all
qed

lemma told_cmp:
  assumes "told e 8 8 t" "told f 8 8 u"
  shows "told (emit_seq [e, emit_sql (cmp_token op), f]) 4 2 (SInfix (cmp_name op) t u)"
proof (cases "op = CmpIsDistinctFrom \<or> op = CmpIsNotDistinctFrom")
  case True
  from told_word(4) [OF _ assms] told_word(5) [OF _ assms]
  have "told (emit_seq [e, emit_sql (cmp_token op), f]) 4 3 (SInfix (cmp_name op) t u)"
    using True by auto
  then show ?thesis by (rule told_weaken) simp_all
next
  case False
  then have "cmp_token op \<in> set symbol_tokens" "symbol_op (bare (cmp_token op)) = Infix (cmp_name op) 5 True"
    by (cases op; simp add: symbol_tokens_def bare_def symbol_op_def)+
  from told_symbol [OF this assms]
  have "told (emit_seq [e, emit_sql (cmp_token op), f]) 5 4 (SInfix (cmp_name op) t u)" by simp
  then show ?thesis by (rule told_weaken) simp_all
qed

end
