(* ===== verification/Query_Typed.thy ===== *)
theory Query_Typed
  imports Query_Trees
begin

text \<open>Every expression of the fragment is read as its tree.\<close>

lemma told_junction:
  assumes "op \<in> {OpAnd, OpOr}" "told e 4 2 t" "told f 4 2 u"
  shows "told (emit_seq [e, emit_sql (binary_token op), f]) 1 1 (SInfix (binary_name op) t u)"
proof (cases "op = OpAnd")
  case True
  from told_word(1) [OF _ assms(2, 3)] have "told (emit_seq [e, emit_sql (binary_token op), f]) 2 2 (SInfix (binary_name op) t u)"
    using True by auto
  then show ?thesis by (rule told_weaken) simp_all
next
  case False
  with told_word(2) [OF _ assms(2, 3)] assms(1) show ?thesis by auto
qed

lemma call_openers:
  "opener ''COALESCE(''" "lex ''COALESCE('' = Some [Word ''COALESCE'', Sym (CHR ''('')]" "\<not> server_reserves ''COALESCE''"
  "opener ''GROUPING(''" "lex ''GROUPING('' = Some [Word ''GROUPING'', Sym (CHR ''('')]" "\<not> server_reserves ''GROUPING''"
  "opener ''LOWER(''" "lex ''LOWER('' = Some [Word ''LOWER'', Sym (CHR ''('')]" "\<not> server_reserves ''LOWER''"
  by (simp_all add: opener_def server_reserves_def server_reserved_def type_func_keywords_def
      to_ascii_lower_byte_def byte_def) code_simp+

definition unary_aggs :: "UnaryAgg list" where
  "unary_aggs =
     [AggCount, AggSum, AggAvg, AggMin, AggMax, AggArrayAgg, AggJsonAgg, AggBoolAnd, AggBoolOr, AggEvery, AggBitAnd,
      AggBitOr, AggBitXor, AggStddevPop, AggStddevSamp, AggStddev, AggVarPop, AggVarSamp, AggVariance, AggGrouping]"

lemma unary_agg_openers:
  "opener (unary_agg_opener u)" "lex (unary_agg_opener u) = Some [Word (butlast (unary_agg_opener u)), Sym (CHR ''('')]"
  "\<not> server_reserves (butlast (unary_agg_opener u))"
proof -
  have "list_all (\<lambda>u. opener (unary_agg_opener u)
      \<and> lex (unary_agg_opener u) = Some [Word (butlast (unary_agg_opener u)), Sym (CHR ''('')]
      \<and> \<not> server_reserves (butlast (unary_agg_opener u))) unary_aggs"
    by code_simp
  moreover have "u \<in> set unary_aggs" by (cases u) (simp_all add: unary_aggs_def)
  ultimately show "opener (unary_agg_opener u)"
    "lex (unary_agg_opener u) = Some [Word (butlast (unary_agg_opener u)), Sym (CHR ''('')]"
    "\<not> server_reserves (butlast (unary_agg_opener u))"
    unfolding list_all_iff by blast+
qed

lemma told_case:
  assumes arms: "list_all2 (rel_prod (\<lambda>e t. told e 1 0 t) (\<lambda>e t. told e 1 0 t)) as arms" "as \<noteq> []" and "told els 1 0 e"
  shows "told (emit_seq
       [emit_sql ''CASE '',
        emit_seq (map (\<lambda>(cond, val). emit_seq [emit_sql ''WHEN '', cond, emit_sql '' THEN '', val, emit_sql '' '']) as),
        emit_sql ''ELSE '', els, emit_sql '' END'']) 13 13 (SCase arms e)"
proof -
  obtain es where es: "els = Inr es" "says 1 0 es e" using assms(3) by (auto simp: told_def)
  have "\<exists>css. list_all2 (rel_prod (says 1 0) (says 1 0)) css arms
      \<and> emit_seq (map (\<lambda>(cond, val). emit_seq [emit_sql ''WHEN '', cond, emit_sql '' THEN '', val, emit_sql '' '']) as)
        = Inr (concat (map arm_calls css))"
    using arms(1)
  proof (induction "as" arms rule: list_all2_induct)
    case (Cons a as arm arms)
    then obtain css where css: "list_all2 (rel_prod (says 1 0) (says 1 0)) css arms"
      "emit_seq (map (\<lambda>(cond, val). emit_seq [emit_sql ''WHEN '', cond, emit_sql '' THEN '', val, emit_sql '' '']) as)
        = Inr (concat (map arm_calls css))"
      by blast
    obtain cond val c v where a: "a = (cond, val)" "arm = (c, v)" by (metis surj_pair)
    with Cons.hyps(1) obtain cs ds where "cond = Inr cs" "val = Inr ds" "says 1 0 cs c" "says 1 0 ds v"
      by (auto simp: told_def)
    with css a show ?case by (intro exI [of _ "(cs, ds) # css"]) (simp add: emit_sql_def)
  qed simp
  then obtain css where css: "list_all2 (rel_prod (says 1 0) (says 1 0)) css arms"
    "emit_seq (map (\<lambda>(cond, val). emit_seq [emit_sql ''WHEN '', cond, emit_sql '' THEN '', val, emit_sql '' '']) as)
      = Inr (concat (map arm_calls css))"
    by blast
  have "arms_calls css es = concat (map arm_calls css) @ PushSql ''ELSE '' # es @ [PushSql '' END'']"
    by (induction css) simp_all
  moreover have "css \<noteq> []" using css(1) arms by auto
  ultimately have "says 13 13 (PushSql ''CASE '' # concat (map arm_calls css) @ PushSql ''ELSE '' # es @ [PushSql '' END'']) (SCase arms e)"
    using says_case [OF says_arms_calls [OF es(2) css(1)]] by simp
  then show ?thesis using es(1) css(2) by (simp add: told_def emit_sql_def)
qed

lemma and_then_unit: "and_then r Inr = r"
  by (cases r) simp_all

lemma told_each:
  assumes "list_all (told_scalar ctx) args"
  shows "list_all2 (\<lambda>e t. told e 1 0 t) (map (\<lambda>e. emit_expr e ctx) args) (map (\<lambda>e. expr_tree e ctx) args)"
  using assms by (induction args) (auto intro: told_weaken [OF told_scalar_8])

lemma told_arms:
  assumes "list_all (pred_prod (told_boolean ctx) (told_scalar ctx)) arms"
  shows "list_all2 (rel_prod (\<lambda>e t. told e 1 0 t) (\<lambda>e t. told e 1 0 t))
      (map (map_prod (\<lambda>e. emit_expr e ctx) (\<lambda>e. emit_expr e ctx)) arms)
      (map (map_prod (\<lambda>e. expr_tree e ctx) (\<lambda>e. expr_tree e ctx)) arms)"
  using assms
proof (induction arms)
  case (Cons a arms)
  obtain c v where "a = (c, v)" by (cases a)
  with Cons show ?case
    using told_weaken [OF told_scalar_8, of ctx v 1 0] told_weaken [OF told_boolean_1, of ctx c 1 0] by simp
qed simp

text \<open>Two texts pushed as one.\<close>

lemma lex_fuse:
  "lex ''EXCLUDED'' = Some [Word ''EXCLUDED'']" "lex ''.'' = Some [Sym (CHR ''.'')]"
  "lex ''EXCLUDED.'' = Some [Word ''EXCLUDED'', Sym (CHR ''.'')]"
  by code_simp+

lemma says_fuse:
  assumes "says l r (cs @ PushSql s # PushSql t # ds) u" "lex s = Some a" "lex t = Some b" "lex (s @ t) = Some (a @ b)"
  shows "says l r (cs @ PushSql (s @ t) # ds) u"
proof -
  have "call_text n (cs @ PushSql (s @ t) # ds) = call_text n (cs @ PushSql s # PushSql t # ds)"
    "call_tokens n (cs @ PushSql (s @ t) # ds) = call_tokens n (cs @ PushSql s # PushSql t # ds)"
    "binds_from B n (cs @ PushSql (s @ t) # ds) = binds_from B n (cs @ PushSql s # PushSql t # ds)"
    for n and B :: "nat \<Rightarrow> 'a"
    using assms(2-4)
    by (simp_all add: call_tokens_append binds_from_append pre_append pre_def split: option.split)
  with assms(1) show ?thesis by (simp add: says_def phrase_def)
qed

lemma told_excluded: "plain_name c \<Longrightarrow> told (emit_seq [emit_sql ''EXCLUDED.'', emit_sql c]) 13 13 (SCol [''EXCLUDED'', c])"
proof -
  assume c: "plain_name c"
  have "list_all is_word_char ''EXCLUDED''" "\<not> server_reserves ''EXCLUDED''" by code_simp+
  then have "says 13 13 ([] @ PushSql ''EXCLUDED'' # PushSql ''.'' # [PushSql c]) (SCol [''EXCLUDED'', c])"
    using says_qualified [of "''EXCLUDED''" c] c by (simp add: list_all_iff)
  from says_fuse [OF this, of "[Word ''EXCLUDED'']" "[Sym (CHR ''.'')]"]
  have "says 13 13 [PushSql ''EXCLUDED.'', PushSql c] (SCol [''EXCLUDED'', c])"
    by (simp add: lex_fuse)
  then show ?thesis by (simp add: told_def emit_sql_def)
qed

lemma told_expr:
  fixes e :: "('p, 'w, SqlEmitContext \<Rightarrow> 'p emitted) ExprNode"
  assumes "plain_parent (ctx_parent_table ctx)"
  shows "scalar ctx e \<Longrightarrow> told_scalar ctx e" and "boolean ctx e \<Longrightarrow> told_boolean ctx e"
proof (induction rule: scalar_boolean.inducts)
  case (field c)
  then show ?case using told_column [OF assms] by (simp add: told_scalar_def push_column_plain)
next
  case (literal v)
  then show ?case by (simp add: told_scalar_def told_value)
next
  case (arithmetic op l r)
  from told_arithmetic [OF arithmetic.hyps(1) told_scalar_operand told_scalar_operand, OF arithmetic.IH(2, 4)]
  show ?case by (simp add: told_scalar_def)
next
  case (coalesce args)
  then have "list_all (told_scalar ctx) args" by (simp add: list_all_iff)
  from told_call [OF call_openers(1-3) told_each [OF this]] coalesce.hyps(1)
  show ?case by (simp add: told_scalar_def)
next
  case (grouping args)
  then have "list_all (told_scalar ctx) args" by (simp add: list_all_iff)
  from told_call [OF call_openers(4-6) told_each [OF this]] grouping.hyps(1)
  show ?case by (simp add: told_scalar_def)
next
  case (aggregate arg u arg2 cast_to window within)
  then have "list_all (told_scalar ctx) [arg]" by simp
  from told_call [OF unary_agg_openers told_each [OF this]]
  show ?case by (simp add: told_scalar_def emit_aggregate_call_def emit_unary_agg_def push_aggregate_order_by_def and_then_unit)
next
  case (case_of arms els)
  then have "list_all (pred_prod (told_boolean ctx) (told_scalar ctx)) arms"
    by (auto simp: list_all_iff pred_prod_beta)
  from told_case [OF told_arms [OF this]] case_of.hyps(1) told_weaken [OF told_scalar_8 [OF case_of.IH(3)]]
  show ?case by (simp add: told_scalar_def)
next
  case (outer_ref c)
  then show ?case by (simp add: told_scalar_def told_sql says_column)
next
  case (outer_ref_column t c)
  then show ?case using told_qualified by (simp add: told_scalar_def)
next
  case (excluded c)
  then show ?case using told_excluded by (simp add: told_scalar_def)
next
  case (outer_ref_alias scope model_type c model_name)
  then show ?case using told_qualified [of "lo_alias scope" c] by (simp add: told_scalar_def emit_outer_ref_alias_def)
next
  case (flag e)
  then show ?case
    using told_weaken [of "emit_expr e ctx" 13 13 "expr_tree e ctx" 4 2] by (simp add: told_scalar_def told_boolean_def)
next
  case (cmp l r op)
  then show ?case using told_cmp [OF told_scalar_8 told_scalar_8] by (simp add: told_boolean_def)
next
  case (is_null e)
  then show ?case
    using told_weaken [OF told_is_null(1) [OF told_scalar_8], of ctx e 4 2] by (simp add: told_boolean_def)
next
  case (is_not_null e)
  then show ?case
    using told_weaken [OF told_is_null(2) [OF told_scalar_8], of ctx e 4 2] by (simp add: told_boolean_def)
next
  case (negation e)
  then show ?case
    using told_weaken [OF told_not [OF told_boolean_1], of ctx e 4 2] by (simp add: told_boolean_def)
next
  case (junction op l r)
  then show ?case using told_junction [OF _ told_boolean_operand told_boolean_operand] by (simp add: told_boolean_def)
qed

text \<open>
  C12: an expression of the covered fragment is emitted without an error, and the server reads
  its text in one way only: as the expression, with every value at its place. The fragment is
  that of values (\<^const>\<open>scalar\<close>: plain column names, literals, arithmetic, COALESCE, GROUPING,
  CASE, aggregates of one argument without FILTER, DISTINCT or ORDER BY, outer and EXCLUDED
  references) and of truth values (\<^const>\<open>boolean\<close>: comparisons of values, null tests, flags, their
  junctions and negations). Subqueries, raw SQL, intervals, text search and comparisons of
  comparisons are outside it.
\<close>

theorem expressions_read_back:
  fixes e :: "('p, 'w, SqlEmitContext \<Rightarrow> 'p emitted) ExprNode"
  assumes "plain_parent (ctx_parent_table ctx)" and "boolean ctx e \<or> scalar ctx e"
  shows "\<exists>cs. emit_expr e ctx = Inr cs
    \<and> (\<forall>n B t. binds_from B n cs \<longrightarrow> (reads B (call_text n cs) t \<longleftrightarrow> t = expr_tree e ctx))"
proof -
  have "told (emit_expr e ctx) 1 1 (expr_tree e ctx)"
    using assms(2) told_expr [OF assms(1)] told_boolean_1 told_weaken [OF told_scalar_8, of ctx e 1 1] by fastforce
  then obtain cs where "emit_expr e ctx = Inr cs" and says: "says 1 1 cs (expr_tree e ctx)" by (auto simp: told_def)
  moreover have "reads B (call_text n cs) t \<longleftrightarrow> t = expr_tree e ctx" if "binds_from B n cs" for n B t
    using says_reads [OF says _ that] reads_unique by fastforce
  ultimately show ?thesis by blast
qed

definition sample_expr :: "(nat, nat, SqlEmitContext \<Rightarrow> nat emitted) ExprNode" where
  "sample_expr =
     ECmp CmpGte (EBinary OpMul (EBinary OpAdd (EField ''a'') (ELiteral (FvBool True))) (EField ''b'')) (EField ''c'')"

theorem expressions_read_back_witness:
  "reads (\<lambda>n. FvBool True :: nat FilterValue) ''(a + $1) * b >= c''
     (SInfix ''>='' (SInfix ''*'' (SInfix ''+'' (SCol [''a'']) (SVal (FvBool True))) (SCol [''b''])) (SCol [''c'']))"
proof -
  have names: "plain_name ''a''" "plain_name ''b''" "plain_name ''c''" by code_simp+
  then have kind: "boolean ctx_root sample_expr \<or> scalar ctx_root sample_expr"
    unfolding sample_expr_def by (intro disjI1 scalar_boolean.intros) simp_all
  have root: "plain_parent (ctx_parent_table ctx_root)" by (simp add: plain_parent_def ctx_root_def)
  obtain cs where cs: "emit_expr sample_expr ctx_root = Inr cs"
    and says: "\<And>n B t. binds_from B n cs \<Longrightarrow> reads B (call_text n cs) t \<longleftrightarrow> t = expr_tree sample_expr ctx_root"
    using expressions_read_back [OF root kind] by blast
  have one: "show_nat 1 = ''1''" by code_simp
  have emitted: "emit_expr sample_expr ctx_root = Inr
      [PushSql ''('', PushSql ''a'', PushSql '' + '', PushBind (FvBool True), PushSql '')'', PushSql '' * '', PushSql ''b'',
       PushSql '' >= '', PushSql ''c'']"
    by (simp add: sample_expr_def emit_sql_def emit_bind_def wrapped_if_compound_def push_column_def ctx_root_def)
  have "cs = [PushSql ''('', PushSql ''a'', PushSql '' + '', PushBind (FvBool True), PushSql '')'', PushSql '' * '', PushSql ''b'',
      PushSql '' >= '', PushSql ''c'']"
    using cs unfolding emitted by simp
  then have "call_text 1 cs = ''(a + $1) * b >= c''" "binds_from (\<lambda>n. FvBool True) 1 cs"
    using one by (simp_all add: placeholder_def binds_from_def del: show_nat.simps)
  with says [of "\<lambda>n. FvBool True" 1] show ?thesis
    by (simp add: sample_expr_def column_tree_def ctx_root_def)
qed

end
