(* ===== verification/Query_Cond.thy ===== *)
theory Query_Cond
  imports Query_Typed
begin

text \<open>Conditions and predicates: their trees, and the fragment whose text is read as its tree.\<close>

section \<open>Leaves\<close>

lemma told_cast:
  assumes "ty \<noteq> []" "\<forall>c\<in>set ty. is_word_char c" "told e l r t" "12 \<le> r"
  shows "told (emit_seq [e, emit_seq [emit_sql ''::'', emit_sql ty]]) (min 12 l) 13 (SCast t ty)"
proof -
  obtain cs where cs: "e = Inr cs" "says l r cs t" using assms(3) by (auto simp: told_def)
  note word = word_piece [OF assms(1, 2)]
  have colons: "opener ''::''" "closer ''::''" "lex ''::'' = Some [Sym (CHR '':''), Sym (CHR '':'')]"
    by (simp_all add: opener_def closer_def) code_simp+
  have "says (min 12 l) 13 (cs @ [PushSql ''::'', PushSql ty]) (SCast t ty)"
    unfolding says_def
  proof (intro conjI allI impI)
    show "phrase (cs @ [PushSql ''::'', PushSql ty])"
      by (rule phrase_glue [OF _ colons(2, 1) phrase_text [OF word(1) assms(1) word(2, 3)]])
        (use cs(2) in \<open>simp add: says_def\<close>)
    fix n and B :: "nat \<Rightarrow> 'a FilterValue"
    assume "binds_from B n (cs @ [PushSql ''::'', PushSql ty])"
    then have here: "binds_from B n cs" by (simp add: binds_from_def)
    obtain ts where ts: "call_tokens n cs = Some ts" "begins ts"
      and read: "\<And>p rest v rest'. p \<le> l \<Longrightarrow> follow rest \<le> r \<Longrightarrow> rd_loop B p t rest v rest' \<Longrightarrow> rd_expr B p (ts @ rest) v rest'"
      by (rule saysE [OF cs(2) here]) blast
    let ?os = "[Sym (CHR '':''), Sym (CHR '':''), Word ty]"
    have "call_tokens n (cs @ [PushSql ''::'', PushSql ty]) = Some (ts @ ?os)"
      using ts colons(3) word(4) by (simp add: call_tokens_append pre_def)
    moreover have "begins (ts @ ?os)" using ts(2) by simp
    moreover have "rd_expr B p ((ts @ ?os) @ rest) v rest'"
      if p: "p \<le> min 12 l" and v: "rd_loop B p (SCast t ty) rest v rest'" for p rest v rest'
    proof -
      have op: "next_op (?os @ rest) = (CastOp ty, rest)" by simp
      have "p \<le> 12" "p \<le> l" using p by simp_all
      then have "rd_loop B p t (?os @ rest) v rest'" using cast [OF op _ v] by blast
      moreover have "follow (?os @ rest) \<le> r" using assms(4) op by (simp add: follow_def)
      ultimately show ?thesis using read \<open>p \<le> l\<close> by simp
    qed
    ultimately show "\<exists>ts. call_tokens n (cs @ [PushSql ''::'', PushSql ty]) = Some ts \<and> begins ts \<and>
        (\<forall>p rest v rest'. p \<le> min 12 l \<longrightarrow> follow rest \<le> 13 \<longrightarrow> rd_loop B p (SCast t ty) rest v rest' \<longrightarrow>
          rd_expr B p (ts @ rest) v rest')"
      by blast
  qed
  then show ?thesis using cs(1) by (simp add: told_def emit_sql_def)
qed

definition lower_tree :: "'v Sql \<Rightarrow> 'v Sql" where "lower_tree t = SCall ''LOWER'' [t]"

definition ilike_tree :: "string option \<Rightarrow> string \<Rightarrow> string \<Rightarrow> 'p FilterValue \<Rightarrow> string \<Rightarrow> 'p FilterValue Sql" where
  "ilike_tree parent c before v after =
     SInfix ''ILIKE'' (column_tree parent c)
       (SVal (FvString (before @ (case v of FvString s \<Rightarrow> escape_like s | _ \<Rightarrow> []) @ after)))"

definition list_tree :: "bool \<Rightarrow> 'p FilterValue Sql \<Rightarrow> 'p FilterValue \<Rightarrow> 'p FilterValue Sql" where
  "list_tree positive t v =
     (case v of
        FvList vs \<Rightarrow> if vs = [] then SConst (if positive then ''FALSE'' else ''TRUE'') else SInList positive t (map value_tree vs)
      | _ \<Rightarrow> SCol [])"

definition leaf_tree :: "string option \<Rightarrow> 'p Leaf \<Rightarrow> 'p FilterValue Sql" where
  "leaf_tree parent leaf =
     (let c = leaf_column leaf; lhs = column_tree parent c; v = leaf_value leaf
      in case binary_op_token (leaf_op leaf) of
           Some tok \<Rightarrow> SInfix (bare tok) lhs (value_tree v)
         | None \<Rightarrow>
             (case leaf_op leaf of
                LoIsNull \<Rightarrow> SPost ''IS NULL'' lhs
              | LoIsNotNull \<Rightarrow> SPost ''IS NOT NULL'' lhs
              | LoIContains \<Rightarrow> ilike_tree parent c ''%'' v ''%''
              | LoIStartsWith \<Rightarrow> ilike_tree parent c [] v ''%''
              | LoIEndsWith \<Rightarrow> ilike_tree parent c ''%'' v []
              | LoIExact \<Rightarrow> SInfix ''='' (lower_tree lhs) (lower_tree (value_tree v))
              | LoBetween \<Rightarrow> (case v of FvPair a b \<Rightarrow> SBetween lhs (value_tree a) (value_tree b) | _ \<Rightarrow> SCol [])
              | LoIn \<Rightarrow> list_tree True lhs v
              | LoNotIn \<Rightarrow> list_tree False lhs v
              | _ \<Rightarrow> SCol []))"

text \<open>The values the typed front end gives each lookup.\<close>

fun value_fits :: "LookupOp \<Rightarrow> 'p FilterValue \<Rightarrow> bool" where
  "value_fits LoIn v = (case v of FvList vs \<Rightarrow> list_all (\<lambda>v. single_value v \<and> v \<noteq> FvNull) vs | _ \<Rightarrow> False)"
| "value_fits LoNotIn v = (case v of FvList vs \<Rightarrow> list_all (\<lambda>v. single_value v \<and> v \<noteq> FvNull) vs | _ \<Rightarrow> False)"
| "value_fits LoBetween v = (case v of FvPair a b \<Rightarrow> single_value a \<and> single_value b | _ \<Rightarrow> False)"
| "value_fits LoIContains v = (case v of FvString s \<Rightarrow> True | _ \<Rightarrow> False)"
| "value_fits LoIStartsWith v = (case v of FvString s \<Rightarrow> True | _ \<Rightarrow> False)"
| "value_fits LoIEndsWith v = (case v of FvString s \<Rightarrow> True | _ \<Rightarrow> False)"
| "value_fits LoIsNull v = True"
| "value_fits LoIsNotNull v = True"
| "value_fits _ v = single_value v"

definition leaf_ok :: "'p Leaf \<Rightarrow> bool" where
  "leaf_ok leaf \<longleftrightarrow> plain_name (leaf_column leaf) \<and> value_fits (leaf_op leaf) (leaf_value leaf)"

lemma lookup_token:
  assumes "binary_op_token lop = Some tok"
  shows "tok \<in> set symbol_tokens \<and> (symbol_op (bare tok) = Infix (bare tok) 5 True \<or> symbol_op (bare tok) = Infix (bare tok) 7 False)"
  using assms by (cases lop) (auto simp: symbol_tokens_def bare_def symbol_op_def)

lemma told_operator:
  assumes "tok \<in> set symbol_tokens" "symbol_op (bare tok) = Infix (bare tok) 5 True \<or> symbol_op (bare tok) = Infix (bare tok) 7 False"
    and "told e 13 13 t" "told f 12 13 u"
  shows "told (emit_seq [e, emit_sql tok, f]) 4 2 (SInfix (bare tok) t u)"
proof (cases "symbol_op (bare tok) = Infix (bare tok) 5 True")
  case True
  from told_symbol [OF assms(1) True assms(3, 4)] have "told (emit_seq [e, emit_sql tok, f]) 5 4 (SInfix (bare tok) t u)"
    by simp
  then show ?thesis by (rule told_weaken) simp_all
next
  case False
  with assms(2) have "symbol_op (bare tok) = Infix (bare tok) 7 False" by blast
  from told_symbol [OF assms(1) this assms(3, 4)] have "told (emit_seq [e, emit_sql tok, f]) 7 7 (SInfix (bare tok) t u)"
    by simp
  then show ?thesis by (rule told_weaken) simp_all
qed

lemma told_ilike:
  assumes "told e 13 13 t"
  shows "told (emit_seq [e, emit_sql '' ILIKE '', emit_bind v]) 4 2 (SInfix ''ILIKE'' t (SVal v))"
proof -
  have "told (emit_bind v) 13 13 (SVal v)" by (simp add: told_def emit_bind_def says_value)
  from told_word(3) [OF _ assms this] have "told (emit_seq [e, emit_sql '' ILIKE '', emit_bind v]) 6 5 (SInfix ''ILIKE'' t (SVal v))"
    by simp
  then show ?thesis by (rule told_weaken) simp_all
qed

lemma told_emit_ilike:
  assumes "plain_parent parent" "plain_name c" "case v of FvString s \<Rightarrow> True | _ \<Rightarrow> False"
  shows "told (emit_ilike parent c before v after) 4 2 (ilike_tree parent c before v after)"
  using assms(3) told_ilike [OF told_column [OF assms(1, 2)]]
  by (cases v) (simp_all add: emit_ilike_def ilike_tree_def)

lemma told_in:
  assumes "told e 13 13 t" and "case v of FvList vs \<Rightarrow> list_all (\<lambda>v. single_value v \<and> v \<noteq> FvNull) vs | _ \<Rightarrow> False"
  shows "told (case v of FvList vs \<Rightarrow> emit_in positive e vs | _ \<Rightarrow> Inl f) 4 2 (list_tree positive t v)"
proof -
  obtain vs where v: "v = FvList vs" and each: "list_all (\<lambda>v. single_value v \<and> v \<noteq> FvNull) vs"
    using assms(2) by (cases v) simp_all
  show ?thesis
  proof (cases "vs = []")
    case True
    have "says 4 2 [PushSql (if positive then ''FALSE'' else ''TRUE'')] (SConst (if positive then ''FALSE'' else ''TRUE''))"
      by (rule says_weaken [OF says_const]) (simp_all add: constants_def)
    then show ?thesis by (simp add: v True emit_in_def list_tree_def told_def emit_sql_def)
  next
    case False
    have "list_all2 (\<lambda>e t. told e 1 0 t) (map push_list_element vs) (map value_tree vs)"
      using each
    proof (induction vs)
      case (Cons v vs)
      then show ?case using told_weaken [OF told_list_value, of v 1 0] by simp
    qed simp
    then obtain ds where ds: "emit_separated '', '' (map push_list_element vs) = Inr ds" "says_args ds (map value_tree vs)"
      using told_args False by blast
    obtain cs where cs: "e = Inr cs" "says 13 13 cs t" using assms(1) by (auto simp: told_def)
    have "says 4 2 (cs @ PushSql (if positive then '' IN ('' else '' NOT IN ('') # ds @ [PushSql '')''])
        (SInList positive t (map value_tree vs))"
    proof (cases positive)
      case True
      have "says 6 13 (cs @ PushSql '' IN ('' # ds @ [PushSql '')'']) (SInList True t (map value_tree vs))"
        using says_in [OF word_operators(20-22) _ cs(2) _ ds(2), of True] by simp
      then have "says 4 2 (cs @ PushSql '' IN ('' # ds @ [PushSql '')'']) (SInList True t (map value_tree vs))"
        by (rule says_weaken) simp_all
      then show ?thesis using True by simp
    next
      case neg: False
      have "says 6 13 (cs @ PushSql '' NOT IN ('' # ds @ [PushSql '')'']) (SInList False t (map value_tree vs))"
        using says_in [OF word_operators(23-25) _ cs(2) _ ds(2), of False] by simp
      then have "says 4 2 (cs @ PushSql '' NOT IN ('' # ds @ [PushSql '')'']) (SInList False t (map value_tree vs))"
        by (rule says_weaken) simp_all
      then show ?thesis using neg by simp
    qed
    moreover have "emit_in positive e vs = Inr (cs @ PushSql (if positive then '' IN ('' else '' NOT IN ('') # ds @ [PushSql '')''])"
      using ds(1) cs(1) False by (cases positive) (simp_all add: emit_in_def emit_sql_def)
    ultimately show ?thesis using False by (simp add: v list_tree_def told_def)
  qed
qed

text \<open>Calls that push the same text in other pieces.\<close>

lemma says_same:
  assumes "says l r cs t" "\<And>n. call_text n ds = call_text n cs" "\<And>n. call_tokens n ds = call_tokens n cs"
    and "call_binds ds = call_binds cs"
  shows "says l r ds t"
  using assms by (simp add: says_def phrase_def binds_from_def)

lemma lower_pieces:
  "lex '' = '' = Some [Sym (CHR ''='')]" "lex '') = LOWER('' = Some [Sym (CHR '')''), Sym (CHR ''=''), Word ''LOWER'', Sym (CHR ''('')]"
  by code_simp+

lemma says_iexact:
  fixes cs ds :: "'p FilterValue call list"
  assumes "says 13 13 cs t" "says 13 13 ds u"
  shows "says 4 2 (PushSql ''LOWER('' # cs @ PushSql '') = LOWER('' # ds @ [PushSql '')'']) (SInfix ''='' (lower_tree t) (lower_tree u))"
proof -
  have args: "says_args cs [t]" "says_args ds [u]"
    using says_args_joined [of "[cs]" "[t]"] says_args_joined [of "[ds]" "[u]"]
      says_weaken [OF assms(1), of 1 0] says_weaken [OF assms(2), of 1 0] by simp_all
  have tok: "'' = '' \<in> set symbol_tokens" "symbol_op (bare '' = '') = Infix ''='' 5 True"
    by (simp_all add: symbol_tokens_def bare_def symbol_op_def)
  let ?cs = "(PushSql ''LOWER('' # cs @ [PushSql '')'']) @ PushSql '' = '' # (PushSql ''LOWER('' # ds @ [PushSql '')''])"
  have "says 5 4 ?cs (SInfix ''='' (lower_tree t) (lower_tree u))"
    using told_symbol [OF tok, of "Inr (PushSql ''LOWER('' # cs @ [PushSql '')''])" 13 13 "lower_tree t"
        "Inr (PushSql ''LOWER('' # ds @ [PushSql '')''])" 13 13 "lower_tree u"]
      says_call [OF call_openers(7-9) args(1)] says_call [OF call_openers(7-9) args(2)]
    by (simp add: told_def emit_sql_def lower_tree_def)
  then have "says 5 4 (PushSql ''LOWER('' # cs @ PushSql '') = LOWER('' # ds @ [PushSql '')'']) (SInfix ''='' (lower_tree t) (lower_tree u))"
    by (rule says_same)
      (simp_all add: call_tokens_append lower_pieces call_openers pre_def split: option.split)
  then show ?thesis by (rule says_weaken) simp_all
qed

lemma told_between:
  assumes "told e 13 13 t" "told f 13 13 a" "told g 13 13 b"
  shows "told (emit_seq [e, emit_sql '' BETWEEN '', f, emit_sql '' AND '', g]) 4 2 (SBetween t a b)"
proof -
  obtain cs ds es where emitted: "e = Inr cs" "f = Inr ds" "g = Inr es" and says: "says 13 13 cs t" "says 13 13 ds a" "says 13 13 es b"
    using assms by (auto simp: told_def)
  have "says 6 5 (cs @ PushSql '' BETWEEN '' # ds @ PushSql '' AND '' # es) (SBetween t a b)"
    using says_between [OF says(1) says_weaken [OF says(2), of 7 6] says_weaken [OF says(3), of 7 6]] by simp
  then have "says 4 2 (cs @ PushSql '' BETWEEN '' # ds @ PushSql '' AND '' # es) (SBetween t a b)"
    by (rule says_weaken) simp_all
  with emitted show ?thesis by (simp add: told_def emit_sql_def)
qed

lemma told_iexact:
  assumes "told e 13 13 t" "told f 13 13 u"
  shows "told (emit_seq [emit_sql ''LOWER('', e, emit_sql '') = LOWER('', f, emit_sql '')'']) 4 2
    (SInfix ''='' (lower_tree t) (lower_tree u))"
  using assms says_iexact by (auto simp: told_def emit_sql_def)

lemma told_leaf:
  assumes parent: "plain_parent parent" and "leaf_ok leaf"
  shows "told (emit_leaf leaf parent) 4 2 (leaf_tree parent leaf)"
proof -
  let ?c = "leaf_column leaf" and ?v = "leaf_value leaf"
  have c: "plain_name ?c" and v: "value_fits (leaf_op leaf) ?v" using assms(2) by (simp_all add: leaf_ok_def)
  note col = told_column [OF parent c] and like = told_emit_ilike [OF parent c]
  show ?thesis
  proof (cases "binary_op_token (leaf_op leaf)")
    case (Some tok)
    then have "single_value ?v" using v by (cases "leaf_op leaf") simp_all
    then have "told (push_filter_value ?v) 12 13 (value_tree ?v)" by (intro told_weaken [OF told_value]) simp_all
    from told_operator [OF conjunct1 [OF lookup_token [OF Some]] conjunct2 [OF lookup_token [OF Some]] col this]
    show ?thesis by (simp add: emit_leaf_def leaf_tree_def Let_def Some)
  next
    case None
    have nulls: "told (emit_seq [push_qualified_col ?c parent, emit_sql '' IS NULL'']) 4 2 (SPost ''IS NULL'' (column_tree parent ?c))"
      "told (emit_seq [push_qualified_col ?c parent, emit_sql '' IS NOT NULL'']) 4 2 (SPost ''IS NOT NULL'' (column_tree parent ?c))"
      using told_weaken [OF told_is_null(1) [OF col], of 4 2] told_weaken [OF told_is_null(2) [OF col], of 4 2] by simp_all
    note unfolded = emit_leaf_def leaf_tree_def Let_def
    from None consider "leaf_op leaf = LoIsNull" | "leaf_op leaf = LoIsNotNull" | "leaf_op leaf = LoIContains"
      | "leaf_op leaf = LoIStartsWith" | "leaf_op leaf = LoIEndsWith" | "leaf_op leaf = LoIExact" | "leaf_op leaf = LoBetween"
      | "leaf_op leaf = LoIn" | "leaf_op leaf = LoNotIn"
      by (cases "leaf_op leaf") simp_all
    then show ?thesis
    proof cases
      case 1
      then show ?thesis using nulls(1) by (simp add: unfolded)
    next
      case 2
      then show ?thesis using nulls(2) by (simp add: unfolded)
    next
      case 3
      then show ?thesis using like [of ?v "''%''" "''%''"] v by (simp add: unfolded)
    next
      case 4
      then show ?thesis using like [of ?v "[]" "''%''"] v by (simp add: unfolded)
    next
      case 5
      then show ?thesis using like [of ?v "''%''" "[]"] v by (simp add: unfolded)
    next
      case 6
      then show ?thesis using told_iexact [OF col told_value [of ?v]] v by (simp add: unfolded)
    next
      case 7
      then obtain a b where "?v = FvPair a b" "single_value a" "single_value b" using v by (cases ?v) simp_all
      then show ?thesis using told_between [OF col told_value told_value] 7 by (simp add: unfolded)
    next
      case 8
      then show ?thesis using told_in [OF col, where v = ?v and positive = True] v by (simp add: unfolded)
    next
      case 9
      then show ?thesis using told_in [OF col, where v = ?v and positive = False] v by (simp add: unfolded)
    qed
  qed
qed

end
