(* ===== verification/Query_Where.thy ===== *)
theory Query_Where
  imports Query_Cond
begin

text \<open>Conditions and predicates, with what their emitters are told to say.\<close>

section \<open>Junctions\<close>

definition junction_tree :: "string \<Rightarrow> string \<Rightarrow> 'v Sql list \<Rightarrow> 'v Sql" where
  "junction_tree name none ts = (case ts of [] \<Rightarrow> SConst none | t # us \<Rightarrow> foldl (SInfix name) t us)"

definition and_tree :: "'v Sql list \<Rightarrow> 'v Sql" where "and_tree ts = junction_tree ''AND'' ''TRUE'' ts"
definition or_tree :: "'v Sql list \<Rightarrow> 'v Sql" where "or_tree ts = junction_tree ''OR'' ''FALSE'' ts"

definition xor_tree :: "'v Sql \<Rightarrow> 'v Sql \<Rightarrow> 'v Sql" where
  "xor_tree t u = SInfix ''OR'' (SInfix ''AND'' (SNot t) u) (SInfix ''AND'' t (SNot u))"

lemma told_joined_parts:
  assumes sep: "closer sep" "opener sep" "lex sep = Some os"
    "\<And>rest. begins rest \<Longrightarrow> next_op (os @ rest) = (Infix name q False, rest)" "0 < q" "q \<le> 2"
    and "none \<in> set constants" "list_all2 (\<lambda>e t. told e 4 2 t) es ts"
  shows "told (emit_joined_parts none sep es) 13 13 (junction_tree name none ts)"
proof (cases "es = []")
  case True
  then show ?thesis
    using assms(7, 8) by (simp add: emit_joined_parts_def junction_tree_def told_sql says_const)
next
  case False
  then obtain t us where ts: "ts = t # us" using assms(8) by (cases ts) auto
  have "list_all2 (\<lambda>e t. told e (Suc q) q t) es ts"
    using assms(8) by (rule list_all2_mono) (use \<open>q \<le> 2\<close> told_weaken [of _ 4 2 _ "Suc q" q] in simp)
  from told_paren [OF told_joined [OF sep(1-4) \<open>0 < q\<close> this False]] \<open>0 < q\<close> show ?thesis
    using False by (simp add: emit_joined_parts_def junction_tree_def ts)
qed

lemma told_and: "list_all2 (\<lambda>e t. told e 4 2 t) es ts \<Longrightarrow> told (emit_and es) 13 13 (and_tree ts)"
  unfolding emit_and_def and_tree_def
  by (rule told_joined_parts [OF word_operators(1-3), of _ 2]) (simp_all add: constants_def)

lemma told_or: "list_all2 (\<lambda>e t. told e 4 2 t) es ts \<Longrightarrow> told (emit_or es) 13 13 (or_tree ts)"
  unfolding emit_or_def or_tree_def
  by (rule told_joined_parts [OF word_operators(4-6), of _ 1]) (simp_all add: constants_def)

lemma told_emit_not: "told e 4 2 t \<Longrightarrow> told (emit_not e) 4 2 (SNot t)"
  unfolding emit_not_def using told_weaken [OF told_not [of e 4 2 t], of 4 2] by simp

lemma xor_pieces:
  "lex ''(((NOT ('' = Some [Sym (CHR ''(''), Sym (CHR ''(''), Sym (CHR ''(''), Word ''NOT'', Sym (CHR ''('')]"
  "lex '')) AND ('' = Some [Sym (CHR '')''), Sym (CHR '')''), Word ''AND'', Sym (CHR ''('')]"
  "lex '')) OR (('' = Some [Sym (CHR '')''), Sym (CHR '')''), Word ''OR'', Sym (CHR ''(''), Sym (CHR ''('')]"
  "lex '') AND (NOT ('' = Some [Sym (CHR '')''), Word ''AND'', Sym (CHR ''(''), Word ''NOT'', Sym (CHR ''('')]"
  "lex ''))))'' = Some [Sym (CHR '')''), Sym (CHR '')''), Sym (CHR '')''), Sym (CHR '')'')]"
  by code_simp+

lemma told_emit_xor:
  assumes "told a 4 2 t" "told b 4 2 u"
  shows "told (emit_xor a b) 13 13 (xor_tree t u)"
proof -
  obtain cs ds where emitted: "a = Inr cs" "b = Inr ds" using assms by (auto simp: told_def)
  define P where "P e = emit_seq [emit_sql ''('', e, emit_sql '')'']" for e :: "'a emitted"
  define N where "N e = emit_seq [emit_sql ''NOT ('', e, emit_sql '')'']" for e :: "'a emitted"
  have paren: "told (P e) 13 13 v" if "told e l r v" "1 \<le> l" for e l r v
    using told_paren [OF that] by (simp add: P_def)
  have neg: "told (N e) 13 2 (SNot v)" if "told e 4 2 v" for e v
    using told_not [OF that] by (simp add: N_def)
  have conj: "told (emit_seq [e, emit_sql '' AND '', f]) 2 2 (SInfix ''AND'' v w)" if "told e 13 13 v" "told f 13 13 w" for e f v w
    using told_word(1) [OF _ that] by simp
  have left: "told (P (emit_seq [P (N a), emit_sql '' AND '', P b])) 13 13 (SInfix ''AND'' (SNot t) u)"
    by (rule paren [OF conj [OF paren [OF neg [OF assms(1)]] paren [OF assms(2)]]]) simp_all
  have right: "told (P (emit_seq [P a, emit_sql '' AND '', P (N b)])) 13 13 (SInfix ''AND'' t (SNot u))"
    by (rule paren [OF conj [OF paren [OF assms(1)] paren [OF neg [OF assms(2)]]]]) simp_all
  have "told (emit_seq [P (emit_seq [P (N a), emit_sql '' AND '', P b]), emit_sql '' OR '',
      P (emit_seq [P a, emit_sql '' AND '', P (N b)])]) 1 1 (xor_tree t u)"
    using told_word(2) [OF _ left right] by (simp add: xor_tree_def)
  from paren [OF this] obtain es where es: "says 13 13 es (xor_tree t u)"
    "P (emit_seq [P (emit_seq [P (N a), emit_sql '' AND '', P b]), emit_sql '' OR '',
      P (emit_seq [P a, emit_sql '' AND '', P (N b)])]) = Inr es"
    by (auto simp: told_def)
  let ?fs = "PushSql ''(((NOT ('' # cs @ PushSql '')) AND ('' # ds @ PushSql '')) OR (('' # cs @ PushSql '') AND (NOT (''
      # ds @ [PushSql ''))))'']"
  have pieces: "es = PushSql ''('' # PushSql ''('' # PushSql ''('' # PushSql ''NOT ('' # cs @ PushSql '')'' # PushSql '')''
      # PushSql '' AND '' # PushSql ''('' # ds @ PushSql '')'' # PushSql '')'' # PushSql '' OR '' # PushSql ''('' # PushSql ''(''
      # cs @ PushSql '')'' # PushSql '' AND '' # PushSql ''('' # PushSql ''NOT ('' # ds @
      [PushSql '')'', PushSql '')'', PushSql '')'', PushSql '')'']"
    using es(2) by (simp add: P_def N_def emitted emit_sql_def)
  have "says 13 13 ?fs (xor_tree t u)"
  proof (rule says_same [OF es(1)])
    show "call_text n ?fs = call_text n es" for n by (simp add: pieces)
    show "call_tokens n ?fs = call_tokens n es" for n
      by (simp add: pieces call_tokens_append xor_pieces word_operators pre_def split: option.split)
    show "call_binds ?fs = call_binds es" by (simp add: pieces)
  qed
  then show ?thesis by (simp add: told_def emit_xor_def emitted emit_sql_def)
qed

section \<open>Conditions\<close>

definition operator_tree :: "string \<Rightarrow> string option \<Rightarrow> string \<Rightarrow> 'v Sql \<Rightarrow> 'v Sql" where
  "operator_tree tok parent c u = SInfix (bare tok) (column_tree parent c) u"

definition range_tree :: "string option \<Rightarrow> 'p RangePredicateLeaf \<Rightarrow> 'p FilterValue Sql" where
  "range_tree parent leaf =
     operator_tree (range_token (range_op leaf)) parent (range_column leaf)
       (case range_cast leaf of None \<Rightarrow> value_tree (range_value leaf) | Some ty \<Rightarrow> SCast (value_tree (range_value leaf)) ty)"

definition range_ok :: "'p RangePredicateLeaf \<Rightarrow> bool" where
  "range_ok leaf \<longleftrightarrow> plain_name (range_column leaf) \<and> single_value (range_value leaf)
     \<and> (case range_cast leaf of None \<Rightarrow> True | Some ty \<Rightarrow> ty \<noteq> [] \<and> list_all is_word_char ty)"

definition array_ok :: "'p ArrayLeaf \<Rightarrow> bool" where
  "array_ok leaf \<longleftrightarrow> plain_name (array_column leaf) \<and> single_value (array_values leaf)"

definition parent_ctx :: "string option \<Rightarrow> SqlEmitContext" where
  "parent_ctx parent = (case parent of Some t \<Rightarrow> ctx_joined t | None \<Rightarrow> ctx_root)"

lemma parent_ctx_table [simp]: "ctx_parent_table (parent_ctx parent) = parent"
  by (cases parent) (simp_all add: parent_ctx_def ctx_joined_def ctx_root_def)

text \<open>JSON paths and raw SQL are outside the fragment.\<close>

primrec condition_tree :: "string option \<Rightarrow> ('p, 'w, 'q) Condition \<Rightarrow> 'p FilterValue Sql" where
  "condition_tree parent CTrue = SConst ''TRUE''"
| "condition_tree parent (CLeaf l) = leaf_tree parent l"
| "condition_tree parent (CAnd cs) = and_tree (map (condition_tree parent) cs)"
| "condition_tree parent (COr cs) = or_tree (map (condition_tree parent) cs)"
| "condition_tree parent (CNot c) = SNot (condition_tree parent c)"
| "condition_tree parent (CExpr e) = expr_tree e (parent_ctx parent)"
| "condition_tree parent (CArrayContains l) = operator_tree '' @> '' parent (array_column l) (value_tree (array_values l))"
| "condition_tree parent (CArrayContainedBy l) = operator_tree '' <@ '' parent (array_column l) (value_tree (array_values l))"
| "condition_tree parent (CArrayOverlap l) = operator_tree '' && '' parent (array_column l) (value_tree (array_values l))"
| "condition_tree parent (CRangePredicate l) = range_tree parent l"
| "condition_tree parent (CJsonbPath l) = SCol []"
| "condition_tree parent (CRawSql s) = SCol []"

primrec condition_ok :: "string option \<Rightarrow> ('p, 'w, 'q) Condition \<Rightarrow> bool" where
  "condition_ok parent CTrue = True"
| "condition_ok parent (CLeaf l) = leaf_ok l"
| "condition_ok parent (CAnd cs) = list_all id (map (condition_ok parent) cs)"
| "condition_ok parent (COr cs) = list_all id (map (condition_ok parent) cs)"
| "condition_ok parent (CNot c) = condition_ok parent c"
| "condition_ok parent (CExpr e) = (boolean (parent_ctx parent) e \<and> \<not> is_compound e)"
| "condition_ok parent (CArrayContains l) = array_ok l"
| "condition_ok parent (CArrayContainedBy l) = array_ok l"
| "condition_ok parent (CArrayOverlap l) = array_ok l"
| "condition_ok parent (CRangePredicate l) = range_ok l"
| "condition_ok parent (CJsonbPath l) = False"
| "condition_ok parent (CRawSql s) = False"

lemma set_operators:
  "'' @> '' \<in> set symbol_tokens" "symbol_op (bare '' @> '') = Infix (bare '' @> '') 7 False"
  "'' <@ '' \<in> set symbol_tokens" "symbol_op (bare '' <@ '') = Infix (bare '' <@ '') 7 False"
  "'' && '' \<in> set symbol_tokens" "symbol_op (bare '' && '') = Infix (bare '' && '') 7 False"
  "range_token rop \<in> set symbol_tokens" "symbol_op (bare (range_token rop)) = Infix (bare (range_token rop)) 7 False"
  by (simp_all add: symbol_tokens_def bare_def symbol_op_def) (cases rop; simp)+

lemma told_set_operator:
  assumes "plain_parent parent" "tok \<in> set symbol_tokens" "symbol_op (bare tok) = Infix (bare tok) 7 False"
    and "plain_name c" "told e 12 13 u"
  shows "told (emit_seq [push_qualified_col c parent, emit_sql tok, e]) 4 2 (operator_tree tok parent c u)"
  unfolding operator_tree_def
  by (rule told_operator [OF assms(2) disjI2 [OF assms(3)] told_column [OF assms(1, 4)] assms(5)])

lemma told_array:
  assumes "plain_parent parent" "tok \<in> set symbol_tokens" "symbol_op (bare tok) = Infix (bare tok) 7 False" "array_ok l"
  shows "told (emit_array tok l parent) 4 2 (operator_tree tok parent (array_column l) (value_tree (array_values l)))"
  unfolding emit_array_def
  using assms(4) told_weaken [OF told_value, of "array_values l" 12 13]
  by (intro told_set_operator [OF assms(1-3)]) (simp_all add: array_ok_def)

lemma told_range:
  assumes "plain_parent parent" "range_ok l"
  shows "told (emit_range l parent) 4 2 (range_tree parent l)"
proof -
  let ?e = "push_filter_value (range_value l)"
  have ok: "plain_name (range_column l)" "single_value (range_value l)" using assms(2) by (simp_all add: range_ok_def)
  show ?thesis
  proof (cases "range_cast l")
    case None
    have "told ?e 12 13 (value_tree (range_value l))" by (rule told_weaken [OF told_value]) (simp_all add: ok)
    from told_set_operator [OF assms(1) set_operators(7, 8) ok(1) this] None show ?thesis
      by (simp add: emit_range_def range_tree_def and_then_unit)
  next
    case (Some ty)
    then have "ty \<noteq> []" "\<forall>c\<in>set ty. is_word_char c" using assms(2) by (simp_all add: range_ok_def list_all_iff)
    from told_cast [OF this told_value [OF ok(2)]]
    have "told (emit_seq [?e, emit_seq [emit_sql ''::'', emit_sql ty]]) 12 13 (SCast (value_tree (range_value l)) ty)" by simp
    from told_set_operator [OF assms(1) set_operators(7, 8) ok(1) this] Some show ?thesis
      by (simp add: emit_range_def range_tree_def told_def and_then_unit)
  qed
qed

lemma told_list:
  assumes "\<And>c. c \<in> set cs \<Longrightarrow> told (f c) 4 2 (g c)"
  shows "list_all2 (\<lambda>e t. told e 4 2 t) (map f cs) (map g cs)"
  using assms by (induction cs) simp_all

lemma told_condition:
  fixes c :: "('p, 'w, SqlEmitContext \<Rightarrow> 'p emitted) Condition"
  assumes "plain_parent parent"
  shows "condition_ok parent c \<Longrightarrow> told (emit_condition c parent) 4 2 (condition_tree parent c)"
proof (induction c)
  case CTrue
  then show ?case using told_weaken [OF told_sql [OF says_const], of "''TRUE''" 4 2] by (simp add: constants_def)
next
  case (CLeaf l)
  then show ?case using told_leaf [OF assms] by simp
next
  case (CAnd cs)
  then have "list_all2 (\<lambda>e t. told e 4 2 t) (map (\<lambda>c. emit_condition c parent) cs) (map (condition_tree parent) cs)"
    by (intro told_list) (simp add: list_all_iff)
  from told_weaken [OF told_and [OF this], of 4 2] show ?case by simp
next
  case (COr cs)
  then have "list_all2 (\<lambda>e t. told e 4 2 t) (map (\<lambda>c. emit_condition c parent) cs) (map (condition_tree parent) cs)"
    by (intro told_list) (simp add: list_all_iff)
  from told_weaken [OF told_or [OF this], of 4 2] show ?case by simp
next
  case (CNot c)
  then show ?case by (simp add: told_emit_not)
next
  case (CExpr e)
  then have "told_boolean (parent_ctx parent) e" using told_expr(2) [of "parent_ctx parent" e] assms by simp
  then show ?case using CExpr.prems by (simp add: told_boolean_def parent_ctx_def)
next
  case (CRangePredicate l)
  then show ?case using told_range [OF assms] by simp
next
  case (CArrayContains l)
  then show ?case using told_array [OF assms set_operators(1, 2)] by simp
next
  case (CArrayContainedBy l)
  then show ?case using told_array [OF assms set_operators(3, 4)] by simp
next
  case (CArrayOverlap l)
  then show ?case using told_array [OF assms set_operators(5, 6)] by simp
qed simp_all

section \<open>Predicates\<close>

text \<open>What a field predicate means is a parameter, like its emitter.\<close>

primrec basic_tree :: "('f \<Rightarrow> 'v Sql) \<Rightarrow> 'f BasicPredicate \<Rightarrow> 'v Sql" where
  "basic_tree F BTrue = SConst ''TRUE''"
| "basic_tree F BFalse = SConst ''FALSE''"
| "basic_tree F (BField f) = F f"
| "basic_tree F (BAnd ps) = and_tree (map (basic_tree F) ps)"
| "basic_tree F (BOr ps) = or_tree (map (basic_tree F) ps)"
| "basic_tree F (BNot p) = SNot (basic_tree F p)"
| "basic_tree F (BXor a b) = xor_tree (basic_tree F a) (basic_tree F b)"

primrec q_tree :: "(SqlEmitContext \<Rightarrow> 'f \<Rightarrow> 'p FilterValue Sql) \<Rightarrow> SqlEmitContext \<Rightarrow> ('p, 'w, 'f) Q \<Rightarrow> 'p FilterValue Sql" where
  "q_tree F ctx (QPortable p) = basic_tree (F ctx) p"
| "q_tree F ctx (QIlike c s) = ilike_tree (ctx_parent_table ctx) c ''%'' (FvString s) ''%''"
| "q_tree F ctx (QJsonbPath l) = SCol []"
| "q_tree F ctx (QRegex c s case_sensitive) =
     operator_tree (if case_sensitive then '' ~ '' else '' ~* '') (ctx_parent_table ctx) c (SVal (FvString s))"
| "q_tree F ctx (QExpression e) = expr_tree e ctx"
| "q_tree F ctx (QArray a) =
     (case a of
        ArrContains l \<Rightarrow> operator_tree '' @> '' (ctx_parent_table ctx) (array_column l) (value_tree (array_values l))
      | ArrContainedBy l \<Rightarrow> operator_tree '' <@ '' (ctx_parent_table ctx) (array_column l) (value_tree (array_values l))
      | ArrOverlap l \<Rightarrow> operator_tree '' && '' (ctx_parent_table ctx) (array_column l) (value_tree (array_values l)))"
| "q_tree F ctx (QCondition c) = condition_tree (ctx_parent_table ctx) c"
| "q_tree F ctx (QCompound cop parts) =
     (case cop of CompoundAnd \<Rightarrow> and_tree | CompoundOr \<Rightarrow> or_tree) (map (q_tree F ctx) parts)"
| "q_tree F ctx (QXor a b) = xor_tree (q_tree F ctx a) (q_tree F ctx b)"
| "q_tree F ctx (QNegated q) = SNot (q_tree F ctx q)"

text \<open>The emitters of the field predicates must do their part: that is the hypothesis on them.\<close>

definition fields_told :: "('f, 'p) field_api \<Rightarrow> (SqlEmitContext \<Rightarrow> 'f \<Rightarrow> 'p FilterValue Sql) \<Rightarrow> SqlEmitContext \<Rightarrow> 'f BasicPredicate \<Rightarrow> bool" where
  "fields_told api F ctx p \<longleftrightarrow>
     (\<forall>f\<in>set_BasicPredicate p. told (if field_is_json api f then field_emit_json api f ctx else field_emit api f ctx) 4 2 (F ctx f))"

primrec q_ok :: "('f, 'p) field_api \<Rightarrow> (SqlEmitContext \<Rightarrow> 'f \<Rightarrow> 'p FilterValue Sql) \<Rightarrow> SqlEmitContext \<Rightarrow> ('p, 'w, 'f) Q \<Rightarrow> bool" where
  "q_ok api F ctx (QPortable p) = fields_told api F ctx p"
| "q_ok api F ctx (QIlike c s) = plain_name c"
| "q_ok api F ctx (QJsonbPath l) = False"
| "q_ok api F ctx (QRegex c s case_sensitive) = plain_name c"
| "q_ok api F ctx (QExpression e) = (boolean ctx e \<and> \<not> is_compound e)"
| "q_ok api F ctx (QArray a) = (case a of ArrContains l \<Rightarrow> array_ok l | ArrContainedBy l \<Rightarrow> array_ok l | ArrOverlap l \<Rightarrow> array_ok l)"
| "q_ok api F ctx (QCondition c) = condition_ok (ctx_parent_table ctx) c"
| "q_ok api F ctx (QCompound cop parts) = list_all id (map (q_ok api F ctx) parts)"
| "q_ok api F ctx (QXor a b) = (q_ok api F ctx a \<and> q_ok api F ctx b)"
| "q_ok api F ctx (QNegated q) = q_ok api F ctx q"

lemma expr_tree_map [simp]: "expr_tree (map_ExprNode f e) ctx = expr_tree e ctx"
  by (induction e) (auto simp: comp_def map_prod_def split: option.split prod.split AggOp.split)

lemma is_compound_map [simp]: "is_compound (map_ExprNode f e) = is_compound e"
  by (cases e) simp_all

lemma kinds_map: "scalar ctx e \<Longrightarrow> scalar ctx (map_ExprNode f e)" "boolean ctx e \<Longrightarrow> boolean ctx (map_ExprNode f e)"
proof (induction rule: scalar_boolean.inducts)
  case (case_of arms els)
  then show ?case
    by (auto simp: list_all_iff pred_prod_beta intro!: scalar_boolean.case_of)
qed (auto simp: list_all_iff intro: scalar_boolean.intros)

lemma condition_tree_map [simp]: "condition_tree parent (map_Condition f c) = condition_tree parent c"
  by (induction c) (simp_all add: comp_def cong: map_cong)

lemma condition_ok_map: "condition_ok parent c \<Longrightarrow> condition_ok parent (map_Condition f c)"
  by (induction c) (auto simp: list_all_iff kinds_map)

lemma told_basic:
  assumes "fields_told api F ctx p"
  shows "told (emit_basic_predicate api p ctx Trusted) 4 2 (basic_tree (F ctx) p)"
  using assms
proof (induction p)
  case BTrue
  then show ?case using told_weaken [OF told_sql [OF says_const], of "''TRUE''" 4 2] by (simp add: constants_def)
next
  case BFalse
  then show ?case using told_weaken [OF told_sql [OF says_const], of "''FALSE''" 4 2] by (simp add: constants_def)
next
  case (BField fp)
  then have "fp \<in> set_BasicPredicate (BField fp)" by simp
  with BField show ?case unfolding fields_told_def by fastforce
next
  case (BAnd ps)
  then have "list_all2 (\<lambda>e t. told e 4 2 t) (map (\<lambda>p. emit_basic_predicate api p ctx Trusted) ps) (map (basic_tree (F ctx)) ps)"
    by (intro told_list) (auto simp: fields_told_def)
  from told_weaken [OF told_and [OF this], of 4 2] show ?case by simp
next
  case (BOr ps)
  then have "list_all2 (\<lambda>e t. told e 4 2 t) (map (\<lambda>p. emit_basic_predicate api p ctx Trusted) ps) (map (basic_tree (F ctx)) ps)"
    by (intro told_list) (auto simp: fields_told_def)
  from told_weaken [OF told_or [OF this], of 4 2] show ?case by simp
next
  case (BNot p)
  then show ?case by (simp add: told_emit_not fields_told_def)
next
  case (BXor a b)
  then have "told (emit_basic_predicate api a ctx Trusted) 4 2 (basic_tree (F ctx) a)"
    "told (emit_basic_predicate api b ctx Trusted) 4 2 (basic_tree (F ctx) b)"
    by (simp_all add: fields_told_def)
  from told_weaken [OF told_emit_xor [OF this], of 4 2] show ?case by simp
qed

lemma told_q:
  assumes parent: "plain_parent (ctx_parent_table ctx)"
  shows "q_ok api F ctx q \<Longrightarrow> told (emit_q api q ctx) 4 2 (q_tree F ctx q)"
proof (induction q)
  case (QPortable p)
  then show ?case using told_basic by (simp add: emit_portable_predicate_def)
next
  case (QIlike c s)
  then show ?case using told_ilike [OF told_column [OF parent]] by (simp add: ilike_tree_def)
next
  case (QRegex c s case_sensitive)
  have "told (emit_bind (FvString s)) 12 13 (SVal (FvString s))"
    by (simp add: told_def emit_bind_def says_weaken [OF says_value])
  moreover have "'' ~ '' \<in> set symbol_tokens" "symbol_op (bare '' ~ '') = Infix (bare '' ~ '') 7 False"
    "'' ~* '' \<in> set symbol_tokens" "symbol_op (bare '' ~* '') = Infix (bare '' ~* '') 7 False"
    by (simp_all add: symbol_tokens_def bare_def symbol_op_def)
  ultimately show ?case
    using QRegex told_set_operator [OF parent, where tok = "'' ~ ''"] told_set_operator [OF parent, where tok = "'' ~* ''"]
    by (cases case_sensitive) simp_all
next
  case (QExpression e)
  then have "told_boolean ctx (map_ExprNode (emit_q api) e)"
    by (intro told_expr(2) [OF parent] kinds_map(2)) simp
  then show ?case using QExpression.prems by (simp add: told_boolean_def)
next
  case (QArray a)
  then show ?case
    using told_array [OF parent set_operators(1, 2)] told_array [OF parent set_operators(3, 4)]
      told_array [OF parent set_operators(5, 6)]
    by (cases a) simp_all
next
  case (QCondition c)
  then have "condition_ok (ctx_parent_table ctx) (map_Condition (emit_q api) c)" by (simp add: condition_ok_map)
  from told_condition [OF parent this] show ?case by simp
next
  case (QCompound cop parts)
  then have parts: "list_all2 (\<lambda>e t. told e 4 2 t) (map (\<lambda>q. emit_q api q ctx) parts) (map (q_tree F ctx) parts)"
    by (intro told_list) (simp add: list_all_iff)
  show ?case
    using told_weaken [OF told_and [OF parts], of 4 2] told_weaken [OF told_or [OF parts], of 4 2]
    by (cases cop) (simp_all add: comp_def)
next
  case (QXor a b)
  then have "told (emit_q api a ctx) 4 2 (q_tree F ctx a)" "told (emit_q api b ctx) 4 2 (q_tree F ctx b)" by simp_all
  from told_weaken [OF told_emit_xor [OF this], of 4 2] show ?case by simp
next
  case (QNegated q)
  then show ?case by (simp add: told_emit_not)
qed simp

text \<open>
  C13: a filter built from lookups, arrays, ranges, expressions and field predicates whose emitters
  do their part is emitted without an error, and the server has one reading of the text: the
  filter's own tree, each operand of a conjunction, disjunction, exclusive or and negation where
  it was put, and every value at its place.\<close>

theorem predicates_read_back:
  assumes "plain_parent (ctx_parent_table ctx)" and "q_ok api F ctx q"
  shows "\<exists>cs. emit_q api q ctx = Inr cs
    \<and> (\<forall>n B t. binds_from B n cs \<longrightarrow> (reads B (call_text n cs) t \<longleftrightarrow> t = q_tree F ctx q))"
proof -
  obtain cs where "emit_q api q ctx = Inr cs" and says: "says 4 2 cs (q_tree F ctx q)"
    using told_q [OF assms] by (auto simp: told_def)
  moreover have "reads B (call_text n cs) t \<longleftrightarrow> t = q_tree F ctx q" if "binds_from B n cs" for n B t
    using says_reads [OF says _ that] reads_unique by fastforce
  ultimately show ?thesis by blast
qed

text \<open>A field emitter that compares a column with a bound value, as the generated ones do.\<close>

definition sample_api :: "(string, nat) field_api" where
  "sample_api =
     \<lparr>field_name = id, field_is_json = (\<lambda>f. False), field_emit_json = (\<lambda>f ctx. Inl (EmitPanic f)),
      field_emit = (\<lambda>f ctx. emit_seq [push_qualified_col f (ctx_parent_table ctx), emit_sql '' = '', emit_bind (FvBool True)])\<rparr>"

definition sample_field_tree :: "SqlEmitContext \<Rightarrow> string \<Rightarrow> nat FilterValue Sql" where
  "sample_field_tree ctx f = operator_tree '' = '' (ctx_parent_table ctx) f (SVal (FvBool True))"

definition sample_q :: "(nat, nat, string) Q" where
  "sample_q = QNegated (QCompound CompoundOr [QPortable (BField ''a''), QIlike ''b'' ''50%''])"

theorem predicates_read_back_witness:
  "reads (\<lambda>n. if n = 1 then FvBool True else FvString (CHR ''%'' # ''50'' @ [CHR 0x5C] @ ''%%'')) ''NOT ((t.a = $1 OR t.b ILIKE $2))''
     (SNot (SInfix ''OR'' (SInfix ''='' (SCol [''t'', ''a'']) (SVal (FvBool True :: nat FilterValue)))
       (SInfix ''ILIKE'' (SCol [''t'', ''b'']) (SVal (FvString (CHR ''%'' # ''50'' @ [CHR 0x5C] @ ''%%''))))))"
proof -
  let ?ctx = "ctx_joined ''t''" and ?like = "FvString (CHR ''%'' # ''50'' @ [CHR 0x5C] @ ''%%'') :: nat FilterValue"
  have names: "plain_name ''a''" "plain_name ''b''" "plain_name ''t''" by code_simp+
  then have parent: "plain_parent (ctx_parent_table ?ctx)" by (simp add: plain_parent_def ctx_joined_def)
  have "told (emit_bind (FvBool True)) 13 13 (SVal (FvBool True :: nat FilterValue))"
    by (simp add: told_def emit_bind_def says_value)
  from told_operator [of "'' = ''", OF _ _ told_column [OF parent names(1)] told_weaken [OF this, of 12 13]]
  have field: "told (field_emit sample_api ''a'' ?ctx) 4 2 (sample_field_tree ?ctx ''a'')"
    by (simp add: sample_api_def sample_field_tree_def operator_tree_def symbol_tokens_def bare_def symbol_op_def)
  then have ok: "q_ok sample_api sample_field_tree ?ctx sample_q"
    using names by (simp add: sample_q_def fields_told_def) (simp add: sample_api_def)
  obtain cs where cs: "emit_q sample_api sample_q ?ctx = Inr cs"
    and says: "\<And>n B t. binds_from B n cs \<Longrightarrow> reads B (call_text n cs) t \<longleftrightarrow> t = q_tree sample_field_tree ?ctx sample_q"
    using predicates_read_back [OF parent ok] by blast
  have like: "''%'' @ escape_like ''50%'' @ ''%'' = CHR ''%'' # ''50'' @ [CHR 0x5C] @ ''%%''" by code_simp
  have "emit_q sample_api sample_q ?ctx = Inr
      [PushSql ''NOT ('', PushSql ''('', PushSql ''t'', PushSql ''.'', PushSql ''a'', PushSql '' = '', PushBind (FvBool True),
       PushSql '' OR '', PushSql ''t'', PushSql ''.'', PushSql ''b'', PushSql '' ILIKE '', PushBind ?like,
       PushSql '')'', PushSql '')'']" (is "_ = Inr ?calls")
    using like by (simp add: sample_q_def sample_api_def emit_not_def emit_or_def emit_joined_parts_def emit_sql_def emit_bind_def
        emit_portable_predicate_def push_qualified_col_def ctx_joined_def)
  then have eq: "cs = ?calls" using cs by simp
  have digits: "show_nat 1 = ''1''" "show_nat 2 = ''2''" by code_simp+
  have "call_text 1 cs = ''NOT ((t.a = $1 OR t.b ILIKE $2))''"
    using digits by (simp add: eq placeholder_def numeral_2_eq_2 del: show_nat.simps)
  moreover have "binds_from (\<lambda>n. if n = 1 then FvBool True else ?like) 1 cs"
    by (simp add: eq binds_from_def less_Suc_eq)
  moreover have "q_tree sample_field_tree ?ctx sample_q = SNot (SInfix ''OR'' (SInfix ''='' (SCol [''t'', ''a'']) (SVal (FvBool True)))
       (SInfix ''ILIKE'' (SCol [''t'', ''b'']) (SVal ?like)))"
    using like by (simp add: sample_q_def sample_field_tree_def or_tree_def junction_tree_def operator_tree_def ilike_tree_def
        column_tree_def ctx_joined_def bare_def)
  ultimately show ?thesis using says [of "\<lambda>n. if n = 1 then FvBool True else ?like" 1] by simp
qed

end
