(* ===== verification/Query_Meaning.thy ===== *)
theory Query_Meaning
  imports Query_Where
begin

text \<open>
  The meaning of a filter in SQL's three-valued logic, \<^const>\<open>None\<close> being unknown. What the
  server makes of a comparison or a function is the parameter \<open>A\<close>; the connectives are fixed.
\<close>

definition k_and :: "bool option \<Rightarrow> bool option \<Rightarrow> bool option" where
  "k_and x y =
     (if x = Some False \<or> y = Some False then Some False
      else if x = Some True \<and> y = Some True then Some True else None)"

definition k_not :: "bool option \<Rightarrow> bool option" where "k_not x = map_option Not x"

definition k_or :: "bool option \<Rightarrow> bool option \<Rightarrow> bool option" where
  "k_or x y = k_not (k_and (k_not x) (k_not y))"

definition k_xor :: "bool option \<Rightarrow> bool option \<Rightarrow> bool option" where
  "k_xor x y = k_or (k_and (k_not x) y) (k_and x (k_not y))"

lemma k_and_simps [simp]: "k_and (Some True) x = x" "k_and x (Some True) = x"
  by (cases x; simp add: k_and_def)+

lemma k_and_assoc: "k_and (k_and x y) z = k_and x (k_and y z)"
  by (auto simp: k_and_def)

lemma k_not_not [simp]: "k_not (k_not x) = x"
  by (cases x) (simp_all add: k_not_def)

lemma k_not_simps [simp]: "k_not (Some b) = Some (\<not> b)" by (simp add: k_not_def)

lemma k_or_assoc: "k_or (k_or x y) z = k_or x (k_or y z)"
  by (simp add: k_or_def k_and_assoc)

lemma k_or_simps [simp]: "k_or (Some False) x = x" "k_or x (Some False) = x"
  by (simp_all add: k_or_def)

definition k_all :: "bool option list \<Rightarrow> bool option" where "k_all xs = foldr k_and xs (Some True)"
definition k_any :: "bool option list \<Rightarrow> bool option" where "k_any xs = foldr k_or xs (Some False)"

lemma k_all_simps [simp]: "k_all [] = Some True" "k_all (x # xs) = k_and x (k_all xs)"
  by (simp_all add: k_all_def)

lemma k_any_simps [simp]: "k_any [] = Some False" "k_any (x # xs) = k_or x (k_any xs)"
  by (simp_all add: k_any_def)

lemma k_all_append [simp]: "k_all (xs @ ys) = k_and (k_all xs) (k_all ys)"
  by (induction xs) (simp_all add: k_and_assoc)

lemma k_any_append [simp]: "k_any (xs @ ys) = k_or (k_any xs) (k_any ys)"
  by (induction xs) (simp_all add: k_or_assoc)

fun truth :: "('v Sql \<Rightarrow> bool option) \<Rightarrow> 'v Sql \<Rightarrow> bool option" where
  "truth A (SInfix op t u) =
     (if op = ''AND'' then k_and (truth A t) (truth A u)
      else if op = ''OR'' then k_or (truth A t) (truth A u)
      else A (SInfix op t u))"
| "truth A (SNot t) = k_not (truth A t)"
| "truth A (SConst w) = (if w = ''TRUE'' then Some True else if w = ''FALSE'' then Some False else A (SConst w))"
| "truth A t = A t"

lemma truth_and_tree [simp]: "truth A (and_tree ts) = k_all (map (truth A) ts)"
proof -
  have "truth A (foldl (SInfix ''AND'') t us) = k_and (truth A t) (k_all (map (truth A) us))" for t us
    by (induction us arbitrary: t) (simp_all add: k_and_assoc)
  then show ?thesis by (cases ts) (simp_all add: and_tree_def junction_tree_def)
qed

lemma truth_or_tree [simp]: "truth A (or_tree ts) = k_any (map (truth A) ts)"
proof -
  have "truth A (foldl (SInfix ''OR'') t us) = k_or (truth A t) (k_any (map (truth A) us))" for t us
    by (induction us arbitrary: t) (simp_all add: k_or_assoc)
  then show ?thesis by (cases ts) (simp_all add: or_tree_def junction_tree_def)
qed

lemma truth_xor_tree [simp]: "truth A (xor_tree t u) = k_xor (truth A t) (truth A u)"
  by (simp add: xor_tree_def k_xor_def)

section \<open>A filter that is left out\<close>

lemma vacuous_condition: "condition_vacuous c \<Longrightarrow> truth A (condition_tree parent c) = Some True"
proof (induction c)
  case (CAnd cs)
  then have "\<forall>c\<in>set cs. truth A (condition_tree parent c) = Some True" by (simp add: list_all_iff)
  then have "k_all (map (\<lambda>c. truth A (condition_tree parent c)) cs) = Some True" by (induction cs) simp_all
  then show ?case by (simp add: comp_def)
qed simp_all

lemma vacuous_predicate: "q_is_vacuously_true q \<Longrightarrow> truth A (q_tree F ctx q) = Some True"
proof (induction q)
  case (QPortable p)
  show ?case
  proof (cases p)
    case (BAnd ps)
    then have "\<forall>p\<in>set ps. p = BTrue" using QPortable by (simp add: list_all_iff)
    then have "k_all (map (\<lambda>p. truth A (basic_tree (F ctx) p)) ps) = Some True" by (induction ps) simp_all
    then show ?thesis by (simp add: BAnd comp_def)
  qed (use QPortable in simp_all)
next
  case (QCondition c)
  then show ?case by (simp add: vacuous_condition)
next
  case (QCompound cop parts)
  then have cop: "cop = CompoundAnd" and "\<forall>q\<in>set parts. truth A (q_tree F ctx q) = Some True"
    by (auto simp: list_all_iff)
  then have "k_all (map (\<lambda>q. truth A (q_tree F ctx q)) parts) = Some True" by (induction parts) simp_all
  then show ?case by (simp add: cop comp_def)
next
  case (QNegated q)
  then show ?case by (cases q) (simp_all split: CompoundOp.splits)
qed simp_all

text \<open>
  C16: the WHERE clause is left out only when the filter is true of every row, whatever its
  atoms evaluate to.\<close>

theorem elided_filter_is_true:
  assumes "push_where_with_ctx api q ctx = Inr []"
  shows "truth A (q_tree F ctx q) = Some True"
proof (rule vacuous_predicate, rule ccontr)
  assume "\<not> q_is_vacuously_true q"
  with assms show False by (simp add: push_where_with_ctx_def emit_sql_def)
qed

theorem elided_filter_is_true_witness:
  "truth (\<lambda>t. None) (q_tree sample_field_tree ctx_root
     (QCompound CompoundAnd [QNegated (QPortable BFalse), QCondition (CAnd [CTrue])] :: (nat, nat, string) Q)) = Some True"
  by (rule elided_filter_is_true [where api = sample_api]) (simp add: push_where_with_ctx_def)

section \<open>Operators\<close>

definition and_list :: "('p, 'w, 'q) Condition \<Rightarrow> ('p, 'w, 'q) Condition list" where
  "and_list c = (case c of CAnd cs \<Rightarrow> cs | _ \<Rightarrow> [c])"

definition or_list :: "('p, 'w, 'q) Condition \<Rightarrow> ('p, 'w, 'q) Condition list" where
  "or_list c = (case c of COr cs \<Rightarrow> cs | _ \<Rightarrow> [c])"

lemma list_truth:
  "k_all (map (\<lambda>c. truth A (condition_tree parent c)) (and_list c)) = truth A (condition_tree parent c)"
  "k_any (map (\<lambda>c. truth A (condition_tree parent c)) (or_list c)) = truth A (condition_tree parent c)"
  by (cases c; simp add: and_list_def comp_def) (cases c; simp add: or_list_def comp_def)

lemma condition_and_list: "a \<noteq> CTrue \<Longrightarrow> b \<noteq> CTrue \<Longrightarrow> condition_and a b = CAnd (and_list a @ and_list b)"
  unfolding condition_and_def and_list_def by (cases a; cases b) simp_all

lemma condition_or_list: "condition_or a b = COr (or_list a @ or_list b)"
  unfolding condition_or_def or_list_def by (cases a; cases b) simp_all

lemma and_condition_truth:
  "truth A (condition_tree parent (condition_and a b)) = k_and (truth A (condition_tree parent a)) (truth A (condition_tree parent b))"
proof (cases "a = CTrue \<or> b = CTrue")
  case False
  then show ?thesis using list_truth(1) [of A parent a] list_truth(1) [of A parent b]
    by (simp add: condition_and_list comp_def)
qed (auto simp: condition_and_def)

lemma or_condition_truth:
  "truth A (condition_tree parent (condition_or a b)) = k_or (truth A (condition_tree parent a)) (truth A (condition_tree parent b))"
  using list_truth(2) [of A parent a] list_truth(2) [of A parent b] by (simp add: condition_or_list comp_def)

lemma compound_truth:
  assumes "compound_parts cop q = Some parts"
  shows "q_tree F ctx q = (case cop of CompoundAnd \<Rightarrow> and_tree | CompoundOr \<Rightarrow> or_tree) (map (q_tree F ctx) parts)"
  using assms by (auto simp: compound_parts_def split: Q.splits if_splits)

lemma compose_truth:
  fixes k :: "bool option \<Rightarrow> bool option \<Rightarrow> bool option"
  assumes portable: "\<And>a b. truth A (basic_tree (F ctx) (f a b)) = k (truth A (basic_tree (F ctx) a)) (truth A (basic_tree (F ctx) b))"
    and lists: "\<And>ts us. truth A (tree (ts @ us)) = k (truth A (tree ts)) (truth A (tree us))"
    and single: "\<And>t. truth A (tree [t]) = truth A t"
    and tree: "tree = (case cop of CompoundAnd \<Rightarrow> and_tree | CompoundOr \<Rightarrow> or_tree)"
  shows "truth A (q_tree F ctx (compose_compound f cop l r)) = k (truth A (q_tree F ctx l)) (truth A (q_tree F ctx r))"
proof -
  have pair: "truth A (tree [t, u]) = k (truth A t) (truth A u)" for t u using lists [of "[t]" "[u]"] single by simp
  have cons: "truth A (tree (t # us)) = k (truth A t) (truth A (tree us))" for t us using lists [of "[t]" us] single by simp
  have nil: "k (truth A t) (truth A (tree [])) = truth A t" for t using lists [of "[t]" "[]"] single by simp
  show ?thesis
  proof (cases "\<exists>a b. l = QPortable a \<and> r = QPortable b")
    case True
    then show ?thesis by (auto simp: compose_compound_def portable)
  next
    case False
    then have unfolded: "compose_compound f cop l r =
        (case (compound_parts cop l, compound_parts cop r) of
           (Some l, Some r) \<Rightarrow> QCompound cop (l @ r)
         | (Some l, None) \<Rightarrow> QCompound cop (l @ [r])
         | (None, Some r) \<Rightarrow> QCompound cop (l # r)
         | (None, None) \<Rightarrow> QCompound cop [l, r])"
      by (cases l; cases r) (auto simp: compose_compound_def split: option.split)
    show ?thesis
      using compound_truth [of cop l _ F ctx] compound_truth [of cop r _ F ctx]
      by (cases "compound_parts cop l"; cases "compound_parts cop r")
        (simp_all add: unfolded tree [symmetric] lists single pair cons nil)
  qed
qed

text \<open>
  C17: when the external library's connectives mean conjunction, disjunction, exclusive or and
  negation on portable predicates, the operators of \<open>Q\<close> mean them on all filters, although they
  flatten nested conjunctions and disjunctions and cancel double negation.\<close>

theorem operators_keep_meaning:
  assumes "\<And>a b. truth A (basic_tree (F ctx) (p_and a b)) = k_and (truth A (basic_tree (F ctx) a)) (truth A (basic_tree (F ctx) b))"
    and "\<And>a b. truth A (basic_tree (F ctx) (p_or a b)) = k_or (truth A (basic_tree (F ctx) a)) (truth A (basic_tree (F ctx) b))"
    and "\<And>a b. truth A (basic_tree (F ctx) (p_xor a b)) = k_xor (truth A (basic_tree (F ctx) a)) (truth A (basic_tree (F ctx) b))"
    and "\<And>a. truth A (basic_tree (F ctx) (p_not a)) = k_not (truth A (basic_tree (F ctx) a))"
  shows "truth A (q_tree F ctx (q_and p_and l r)) = k_and (truth A (q_tree F ctx l)) (truth A (q_tree F ctx r))
    \<and> truth A (q_tree F ctx (q_or p_or l r)) = k_or (truth A (q_tree F ctx l)) (truth A (q_tree F ctx r))
    \<and> truth A (q_tree F ctx (q_xor p_xor l r)) = k_xor (truth A (q_tree F ctx l)) (truth A (q_tree F ctx r))
    \<and> truth A (q_tree F ctx (q_not p_not l)) = k_not (truth A (q_tree F ctx l))"
proof (intro conjI)
  show "truth A (q_tree F ctx (q_and p_and l r)) = k_and (truth A (q_tree F ctx l)) (truth A (q_tree F ctx r))"
    unfolding q_and_def by (rule compose_truth [where tree = and_tree]) (simp_all add: assms(1))
  show "truth A (q_tree F ctx (q_or p_or l r)) = k_or (truth A (q_tree F ctx l)) (truth A (q_tree F ctx r))"
    unfolding q_or_def by (rule compose_truth [where tree = or_tree]) (simp_all add: assms(2))
  show "truth A (q_tree F ctx (q_xor p_xor l r)) = k_xor (truth A (q_tree F ctx l)) (truth A (q_tree F ctx r))"
    by (cases "\<exists>a b. l = QPortable a \<and> r = QPortable b") (auto simp: q_xor_def assms(3) split: Q.split)
  show "truth A (q_tree F ctx (q_not p_not l)) = k_not (truth A (q_tree F ctx l))"
    by (cases l) (simp_all add: q_not_def assms(4))
qed

text \<open>Connectives that just build the library's nodes.\<close>

theorem operators_keep_meaning_witness:
  "truth (\<lambda>t. None) (q_tree sample_field_tree ctx_root
     (q_and (\<lambda>a b. BAnd [a, b]) (QCompound CompoundAnd [sample_q]) (QPortable BFalse))) = Some False"
proof -
  have "truth (\<lambda>t. None) (q_tree sample_field_tree ctx_root
      (q_and (\<lambda>a b. BAnd [a, b]) (QCompound CompoundAnd [sample_q]) (QPortable BFalse)))
    = k_and (truth (\<lambda>t. None) (q_tree sample_field_tree ctx_root (QCompound CompoundAnd [sample_q])))
        (truth (\<lambda>t. None) (q_tree sample_field_tree ctx_root (QPortable BFalse :: (nat, nat, string) Q)))"
    by (rule conjunct1 [OF operators_keep_meaning [where p_or = "\<lambda>a b. BOr [a, b]" and p_xor = BXor and p_not = BNot]])
      simp_all
  then show ?thesis by (simp add: k_and_def)
qed

lemma collect_all_tree:
  assumes "collect_all (map f xs) = Some cs" "\<And>x c. x \<in> set xs \<Longrightarrow> f x = Some c \<Longrightarrow> g c = h x"
  shows "map g cs = map h xs"
  using assms by (induction xs arbitrary: cs) (auto split: option.splits)

lemma basic_bridge:
  "basic_predicate_to_condition p = Some c \<Longrightarrow> condition_tree parent c = basic_tree F p"
proof (induction p arbitrary: c)
  case (BAnd ps)
  then obtain cs where "c = CAnd cs" "collect_all (map basic_predicate_to_condition ps) = Some cs" by auto
  with collect_all_tree [OF this(2), of "condition_tree parent" "basic_tree F"] BAnd.IH show ?case by simp
next
  case (BOr ps)
  then obtain cs where "c = COr cs" "collect_all (map basic_predicate_to_condition ps) = Some cs" by auto
  with collect_all_tree [OF this(2), of "condition_tree parent" "basic_tree F"] BOr.IH show ?case by simp
next
  case (BXor a b)
  then show ?case
    by (auto simp: xor_condition_def xor_tree_def or_tree_def and_tree_def junction_tree_def split: option.splits)
qed (auto simp: or_tree_def junction_tree_def)

text \<open>
  C18: the bridge from predicates to conditions, when it does not panic, gives a condition
  with the tree of the predicate: both paths send the server the same question.\<close>

theorem bridge_keeps_tree:
  assumes "q_to_condition q = Some c"
  shows "condition_tree parent c = q_tree F (parent_ctx parent) q"
  using assms
proof (induction q arbitrary: c)
  case (QPortable p)
  then show ?case by (simp add: basic_bridge)
next
  case (QCompound cop parts)
  then obtain cs where "c = (case cop of CompoundAnd \<Rightarrow> CAnd | CompoundOr \<Rightarrow> COr) cs" "collect_all (map q_to_condition parts) = Some cs"
    by auto
  with collect_all_tree [OF this(2), of "condition_tree parent" "q_tree F (parent_ctx parent)"] QCompound.IH show ?case
    by (cases cop) simp_all
next
  case (QXor a b)
  then show ?case
    by (auto simp: xor_condition_def xor_tree_def or_tree_def and_tree_def junction_tree_def split: option.splits)
qed (auto simp: leaf_tree_def string_leaf_def operator_tree_def split: ArrayPredicate.split)

theorem bridge_keeps_tree_witness:
  "condition_tree (Some ''t'')
      (COr [CLeaf (string_leaf ''b'' LoIContains ''50%''), CTrue] :: (nat, nat, (nat, nat, string) Q) Condition)
     = q_tree sample_field_tree (parent_ctx (Some ''t'')) (QCompound CompoundOr [QIlike ''b'' ''50%'', QPortable BTrue] :: (nat, nat, string) Q)"
  by (rule bridge_keeps_tree) simp

end
