(* ===== verification/Query_Regroup.thy ===== *)
theory Query_Regroup
  imports Query_Meaning
begin

text \<open>
  Comparisons are emitted without parentheses, so the server's precedence decides how a
  comparison of comparisons is grouped.
\<close>

definition chainable :: "CmpOp \<Rightarrow> bool" where
  "chainable op \<longleftrightarrow> op \<noteq> CmpIsDistinctFrom \<and> op \<noteq> CmpIsNotDistinctFrom"

lemma told_chainable:
  assumes "chainable op" "told e 8 8 t" "told f 8 8 u"
  shows "told (emit_seq [e, emit_sql (cmp_token op), f]) 5 4 (SInfix (cmp_name op) t u)"
proof -
  have "cmp_token op \<in> set symbol_tokens" "symbol_op (bare (cmp_token op)) = Infix (cmp_name op) 5 True"
    using assms(1) by (cases op; simp add: chainable_def symbol_tokens_def bare_def symbol_op_def)+
  from told_symbol [OF this assms(2, 3)] show ?thesis by simp
qed

lemma told_distinct:
  assumes "\<not> chainable op" "told e 5 4 t" "told f 5 4 u"
  shows "told (emit_seq [e, emit_sql (cmp_token op), f]) 4 3 (SInfix (cmp_name op) t u)"
  using assms told_word(4) [OF _ assms(2, 3)] told_word(5) [OF _ assms(2, 3)] by (auto simp: chainable_def)

lemma emit_seq_assoc:
  "emit_seq [emit_seq [a, b, c], d, e] = emit_seq [a, b, emit_seq [c, d, e]]"
  by (cases a; cases b; cases c; cases d; cases e) simp_all



end
