(* ===== verification/Query_Like.thy ===== *)
theory Query_Like
  imports Query_Emit
begin

text \<open>
  The server's pattern matching, and what a pattern made from a literal matches. How the server
  compares two characters (case, collation) is the parameter \<open>same\<close>.
\<close>

fun like :: "(char \<Rightarrow> char \<Rightarrow> bool) \<Rightarrow> string \<Rightarrow> string \<Rightarrow> bool" where
  "like same [] x = (x = [])"
| "like same (c # ps) [] = (c = CHR ''%'' \<and> like same ps [])"
| "like same (c # ps) (d # y) =
     (if c = CHR ''%'' then like same ps (d # y) \<or> like same (c # ps) y
      else if c = CHR ''_'' then like same ps y
      else if c = CHR 0x5C then (case ps of [] \<Rightarrow> False | q # qs \<Rightarrow> same q d \<and> like same qs y)
      else same c d \<and> like same ps y)"

lemma like_any: "like same (CHR ''%'' # ps) x \<longleftrightarrow> (\<exists>a b. x = a @ b \<and> like same ps b)"
proof (induction x)
  case (Cons c x)
  then show ?case by (simp add: Cons_eq_append_conv) blast
qed simp

lemma like_escape: "like same (escape_like s @ ps) x \<longleftrightarrow> (\<exists>m b. x = m @ b \<and> list_all2 same s m \<and> like same ps b)"
proof (induction s arbitrary: x)
  case Nil
  then show ?case by (simp add: escape_like_def)
next
  case (Cons c s)
  have step: "like same (escape_like (c # s) @ ps) x \<longleftrightarrow> x \<noteq> [] \<and> same c (hd x) \<and> like same (escape_like s @ ps) (tl x)"
    by (cases x) (simp_all add: escape_like_def)
  show ?case
  proof
    assume "like same (escape_like (c # s) @ ps) x"
    then obtain d y where "x = d # y" "same c d" "like same (escape_like s @ ps) y"
      using step by (cases x) auto
    with Cons obtain m b where "y = m @ b" "list_all2 same s m" "like same ps b" by blast
    with \<open>x = d # y\<close> \<open>same c d\<close> show "\<exists>m b. x = m @ b \<and> list_all2 same (c # s) m \<and> like same ps b"
      by (intro exI [of _ "d # m"] exI [of _ b]) simp
  next
    assume "\<exists>m b. x = m @ b \<and> list_all2 same (c # s) m \<and> like same ps b"
    then show "like same (escape_like (c # s) @ ps) x" using step Cons by (auto simp: list_all2_Cons1)
  qed
qed

text \<open>
  C35: the patterns of the string lookups match exactly the texts that contain, begin with or
  end with the literal, whatever wildcards and backslashes the literal itself holds and however
  the server compares characters.\<close>

theorem escaped_patterns_match_literally:
  "(like same (''%'' @ escape_like s @ ''%'') x \<longleftrightarrow> (\<exists>a m b. x = a @ m @ b \<and> list_all2 same s m))
   \<and> (like same (escape_like s @ ''%'') x \<longleftrightarrow> (\<exists>m b. x = m @ b \<and> list_all2 same s m))
   \<and> (like same (''%'' @ escape_like s) x \<longleftrightarrow> (\<exists>a m. x = a @ m \<and> list_all2 same s m))
   \<and> (like same (escape_like s) x \<longleftrightarrow> list_all2 same s x)"
proof -
  have suffix: "like same (escape_like s) x \<longleftrightarrow> list_all2 same s x" for x
    using like_escape [of same s "[]" x] by simp
  have prefix: "like same (escape_like s @ ''%'') x \<longleftrightarrow> (\<exists>m b. x = m @ b \<and> list_all2 same s m)" for x
    using like_escape [of same s "''%''" x] by (auto simp: like_any)
  show ?thesis by (simp add: suffix prefix like_any) blast
qed

end
