(* ===== verification/Compose_Order.thy ===== *)
theory Compose_Order
  imports Pk_Promote Segment
begin

text \<open>
  The order in which the composer (\<open>djogi/src/migrate/compose.rs\<close>) applies the buckets of one
  database: the references from one bucket's operations to another bucket's tables, and Kahn's
  algorithm with a counter per bucket. An \<open>expect\<close> that fails and a counter that would go
  below zero are \<^const>\<open>None\<close>, and so is a loop that does not end.
\<close>

section \<open>References between buckets\<close>

definition table_to_bucket_index ::
  "(BucketKey, AppliedSchema) btree \<Rightarrow> (string \<times> string, BucketKey) btree" where
  "table_to_bucket_index models =
     bt_collect (concat (map (\<lambda>(bucket, schema).
       map (\<lambda>table_name. ((database bucket, table_name), bucket)) (bt_keys (s_models schema))) models))"

definition fk_target_tables :: "SchemaOperation \<Rightarrow> string list" where
  "fk_target_tables op =
     (case op of
        AddTable t \<Rightarrow> List.map_filter (\<lambda>col. map_option fk_ref_table (c_foreign_key col)) (t_columns t)
      | AddColumn _ column \<Rightarrow> (case c_foreign_key column of Some fk \<Rightarrow> [fk_ref_table fk] | None \<Rightarrow> [])
      | AddForeignKey _ _ fk \<Rightarrow> [fk_ref_table fk]
      | _ \<Rightarrow> [])"

definition delta_targets :: "(string \<times> string, BucketKey) btree \<Rightarrow> SchemaDelta \<Rightarrow> string list" where
  "delta_targets index delta =
     List.map_filter
       (\<lambda>target. case bt_get index (database (d_bucket delta), target) of
          Some owner \<Rightarrow> if owner \<noteq> d_bucket delta then Some (app owner) else None
        | None \<Rightarrow> None)
       (concat (map fk_target_tables (d_operations delta)))"

text \<open>\<open>entry(bucket).or_default()\<close>, then one insertion per target.\<close>

definition extend_entry ::
  "'k::linorder \<Rightarrow> 'a::linorder list \<Rightarrow> ('k, 'a list) btree \<Rightarrow> ('k, 'a list) btree" where
  "extend_entry k xs m = bt_put k (fold bs_put xs (case bt_get m k of Some s \<Rightarrow> s | None \<Rightarrow> [])) m"

definition cross_bucket_dependencies ::
  "SchemaDelta list \<Rightarrow> (string \<times> string, BucketKey) btree \<Rightarrow> (BucketKey, string list) btree" where
  "cross_bucket_dependencies deltas index =
     fold (\<lambda>delta deps. extend_entry (d_bucket delta) (delta_targets index delta) deps) deltas []"

section \<open>Kahn's algorithm\<close>

text \<open>The counters and the reverse edges, one step per dependency inside the given buckets.\<close>

definition count_edge ::
  "string \<times> string \<Rightarrow> (string, nat) btree \<times> (string, string list) btree \<Rightarrow>
   ((string, nat) btree \<times> (string, string list) btree) option" where
  "count_edge edge st =
     (case (edge, st) of ((dependent, dep), in_degree, rev_edges) \<Rightarrow>
        (case bt_get in_degree dependent of
           None \<Rightarrow> None
         | Some d \<Rightarrow>
             Some (bt_put dependent (d + 1) in_degree,
                   bt_put dep ((case bt_get rev_edges dep of Some s \<Rightarrow> s | None \<Rightarrow> []) @ [dependent]) rev_edges)))"

fun count_edges ::
  "(string \<times> string) list \<Rightarrow> (string, nat) btree \<times> (string, string list) btree \<Rightarrow>
   ((string, nat) btree \<times> (string, string list) btree) option" where
  "count_edges [] st = Some st"
| "count_edges (e # es) st = (case count_edge e st of None \<Rightarrow> None | Some st' \<Rightarrow> count_edges es st')"

definition edges_within ::
  "string \<Rightarrow> string list \<Rightarrow> (BucketKey, string list) btree \<Rightarrow> (string \<times> string) list" where
  "edges_within db buckets deps =
     concat (map (\<lambda>a. case bt_get deps (BucketKey db a) of
         Some targets \<Rightarrow> map (Pair a) (filter (\<lambda>dep. dep \<in> set buckets) targets)
       | None \<Rightarrow> []) buckets)"

fun release_dependents ::
  "string list \<Rightarrow> (string, nat) btree \<times> string list \<Rightarrow> ((string, nat) btree \<times> string list) option" where
  "release_dependents [] st = Some st"
| "release_dependents (dependent # ds) (in_degree, ready) =
     (case bt_get in_degree dependent of
        None \<Rightarrow> None
      | Some d \<Rightarrow>
          if d = 0 then None
          else release_dependents ds
                 (bt_put dependent (d - 1) in_degree, if d - 1 = 0 then bs_put dependent ready else ready))"

partial_function (option) drain_ready ::
  "(string, string list) btree \<Rightarrow> (string, nat) btree \<Rightarrow> string list \<Rightarrow> string list \<Rightarrow>
   ((string, nat) btree \<times> string list) option" where
  "drain_ready rev_edges in_degree ready out =
     (case ready of
        [] \<Rightarrow> Some (in_degree, out)
      | next # rest \<Rightarrow>
          (case release_dependents (case bt_get rev_edges next of Some s \<Rightarrow> s | None \<Rightarrow> []) (in_degree, rest) of
             None \<Rightarrow> None
           | Some (in_degree', ready') \<Rightarrow> drain_ready rev_edges in_degree' ready' (out @ [next])))"

lemma drain_ready_code [code]:
  "drain_ready rev_edges in_degree [] out = Some (in_degree, out)"
  "drain_ready rev_edges in_degree (next # rest) out =
     (case release_dependents (case bt_get rev_edges next of Some s \<Rightarrow> s | None \<Rightarrow> []) (in_degree, rest) of
        None \<Rightarrow> None
      | Some (in_degree', ready') \<Rightarrow> drain_ready rev_edges in_degree' ready' (out @ [next]))"
  by (subst drain_ready.simps, simp)+

text \<open>On the left the buckets of the chain reported as \<open>CrossBucketForeignKeyCycle\<close>.\<close>

definition order_buckets ::
  "string \<Rightarrow> string list \<Rightarrow> (BucketKey, string list) btree \<Rightarrow> (string list + string list) option" where
  "order_buckets db buckets deps =
     (case count_edges (edges_within db buckets deps) (bt_collect (map (\<lambda>b. (b, 0)) buckets), []) of
        None \<Rightarrow> None
      | Some (in_degree, rev_edges) \<Rightarrow>
          (case drain_ready rev_edges in_degree (bs_collect (map fst (filter (\<lambda>(b, d). d = 0) in_degree))) [] of
             None \<Rightarrow> None
           | Some (in_degree', out) \<Rightarrow>
               Some (if length out \<noteq> length buckets
                     then Inl (map fst (filter (\<lambda>(b, d). d > 0) in_degree'))
                     else Inr out)))"

section \<open>What the order promises\<close>

definition waits_for :: "string \<Rightarrow> string list \<Rightarrow> (BucketKey, string list) btree \<Rightarrow> string \<Rightarrow> string set" where
  "waits_for db buckets deps a =
     {d \<in> set buckets. \<exists>targets. bt_get deps (BucketKey db a) = Some targets \<and> d \<in> set targets}"

text \<open>The buckets already out come first, each the least of those that wait for nothing else.\<close>

definition least_first :: "(string \<Rightarrow> string set) \<Rightarrow> string set \<Rightarrow> string list \<Rightarrow> bool" where
  "least_first W B out \<longleftrightarrow>
     (\<forall>p a q. out = p @ a # q \<longrightarrow>
        a \<in> B \<and> a \<notin> set p \<and> W a \<subseteq> set p
        \<and> (\<forall>b\<in>B. b \<notin> set p \<longrightarrow> W b \<subseteq> set p \<longrightarrow> a \<le> b))"

lemma least_first_snoc:
  assumes "least_first W B out" "a \<in> B" "a \<notin> set out" "W a \<subseteq> set out"
    and "\<And>b. b \<in> B \<Longrightarrow> b \<notin> set out \<Longrightarrow> W b \<subseteq> set out \<Longrightarrow> a \<le> b"
  shows "least_first W B (out @ [a])"
  unfolding least_first_def
proof (intro allI impI)
  fix p x q assume eq: "out @ [a] = p @ x # q"
  show "x \<in> B \<and> x \<notin> set p \<and> W x \<subseteq> set p \<and> (\<forall>b\<in>B. b \<notin> set p \<longrightarrow> W b \<subseteq> set p \<longrightarrow> x \<le> b)"
  proof (cases q rule: rev_cases)
    case Nil
    with eq assms(2-5) show ?thesis by auto
  next
    case (snoc r y)
    with eq have "out = p @ x # r" by simp
    with assms(1) show ?thesis unfolding least_first_def by blast
  qed
qed

lemma least_first_distinct: "least_first W B out \<Longrightarrow> distinct out"
proof (induction out rule: rev_induct)
  case (snoc a out)
  have "least_first W B out"
    using snoc.prems unfolding least_first_def by (metis append.assoc append_Cons)
  moreover have "a \<notin> set out" using snoc.prems unfolding least_first_def by blast
  ultimately show ?case using snoc.IH by simp
qed simp

lemma least_first_closed: "least_first W B out \<Longrightarrow> a \<in> set out \<Longrightarrow> a \<in> B \<and> W a \<subseteq> set out"
proof -
  assume l: "least_first W B out" and "a \<in> set out"
  then obtain p q where out: "out = p @ a # q" by (auto dest: split_list)
  with l have "a \<in> B \<and> W a \<subseteq> set p" unfolding least_first_def by blast
  with out show ?thesis by auto
qed

text \<open>No set of buckets in an order waits for itself.\<close>

lemma least_first_acyclic:
  assumes "least_first W B out" "S \<subseteq> set out" "S \<noteq> {}"
  shows "\<exists>a\<in>S. W a \<inter> S = {}"
proof -
  obtain p a q where "out = p @ a # q" "a \<in> S" "\<forall>b\<in>set p. b \<notin> S"
    using split_list_first_prop [of out "\<lambda>a. a \<in> S"] assms(2,3) by (metis equals0I subsetD)
  with assms(1) have "a \<in> S" "W a \<subseteq> set p" "\<forall>b\<in>set p. b \<notin> S" unfolding least_first_def by auto
  then show ?thesis by blast
qed

section \<open>Counting\<close>

abbreviation entry_of :: "('k, 'v list) btree \<Rightarrow> 'k \<Rightarrow> 'v list" where
  "entry_of m k \<equiv> (case bt_get m k of Some s \<Rightarrow> s | None \<Rightarrow> [])"

lemma count_edges_result:
  assumes "bt_ok D" "bt_ok R" "\<forall>e\<in>set es. bt_get D (fst e) \<noteq> None"
  shows "\<exists>D' R'. count_edges es (D, R) = Some (D', R') \<and> bt_ok D' \<and> bt_ok R'
    \<and> (\<forall>a. bt_get D' a = map_option (\<lambda>d. d + length (filter (\<lambda>e. fst e = a) es)) (bt_get D a))
    \<and> (\<forall>b. entry_of R' b = entry_of R b @ map fst (filter (\<lambda>e. snd e = b) es))"
  using assms
proof (induction es arbitrary: D R)
  case Nil
  then show ?case by (simp add: option.map_ident)
next
  case (Cons e es)
  obtain a b where e: "e = (a, b)" by (cases e)
  obtain d where d: "bt_get D a = Some d" using Cons.prems(3) e by auto
  let ?D = "bt_put a (Suc d) D" and ?R = "bt_put b (entry_of R b @ [a]) R"
  have step: "count_edge e (D, R) = Some (?D, ?R)" by (simp add: count_edge_def e d)
  have get: "bt_get ?D c = (if c = a then Some (Suc d) else bt_get D c)"
    "entry_of ?R c = (if c = b then entry_of R b @ [a] else entry_of R c)" for c
    using Cons.prems(1,2) by (simp_all add: bt.get_put)
  have "bt_ok ?D" "bt_ok ?R" "\<forall>e\<in>set es. bt_get ?D (fst e) \<noteq> None"
    using Cons.prems bt.get_put [OF Cons.prems(1), of a "d + 1"] by (auto simp: bt.ok_put)
  from Cons.IH [OF this] obtain D' R' where r: "count_edges es (?D, ?R) = Some (D', R')" "bt_ok D'" "bt_ok R'"
    "\<And>c. bt_get D' c = map_option (\<lambda>d. d + length (filter (\<lambda>e. fst e = c) es)) (bt_get ?D c)"
    "\<And>c. entry_of R' c = entry_of ?R c @ map fst (filter (\<lambda>e. snd e = c) es)" by blast
  have "bt_get D' c = map_option (\<lambda>d. d + length (filter (\<lambda>e. fst e = c) (e # es))) (bt_get D c)" for c
    by (simp add: r(4) get(1) e d)
  moreover have "entry_of R' c = entry_of R c @ map fst (filter (\<lambda>e. snd e = c) (e # es))" for c
    by (simp add: r(5) get(2) e)
  ultimately show ?case using step r(1-3) by simp
qed

lemma release_dependents_result:
  assumes "bt_ok D" "bs_ok Q" "distinct ds" "\<forall>a\<in>set ds. \<exists>d. bt_get D a = Some (Suc d)"
  shows "\<exists>D' Q'. release_dependents ds (D, Q) = Some (D', Q') \<and> bt_ok D' \<and> bs_ok Q'
    \<and> (\<forall>a. bt_get D' a = map_option (\<lambda>d. if a \<in> set ds then d - 1 else d) (bt_get D a))
    \<and> set Q' = set Q \<union> {a \<in> set ds. bt_get D a = Some 1}"
  using assms
proof (induction ds arbitrary: D Q)
  case Nil
  then show ?case by (simp add: option.map_ident)
next
  case (Cons a ds)
  obtain d where d: "bt_get D a = Some (Suc d)" using Cons.prems(4) by auto
  let ?D = "bt_put a d D" and ?Q = "if d = 0 then bs_put a Q else Q"
  have get: "bt_get ?D c = (if c = a then Some d else bt_get D c)" for c
    using Cons.prems(1) by (simp add: bt.get_put)
  have "bt_ok ?D" "bs_ok ?Q" "distinct ds" "\<forall>c\<in>set ds. \<exists>d. bt_get ?D c = Some (Suc d)"
    using Cons.prems by (auto simp: bt.ok_put bs_ok_put get)
  from Cons.IH [OF this] obtain D' Q' where r: "release_dependents ds (?D, ?Q) = Some (D', Q')" "bt_ok D'" "bs_ok Q'"
    "\<And>c. bt_get D' c = map_option (\<lambda>d. if c \<in> set ds then d - 1 else d) (bt_get ?D c)"
    "set Q' = set ?Q \<union> {c \<in> set ds. bt_get ?D c = Some 1}" by blast
  have "bt_get D' c = map_option (\<lambda>d. if c \<in> set (a # ds) then d - 1 else d) (bt_get D c)" for c
    using Cons.prems(3) by (simp add: r(4) get d)
  moreover have "set Q' = set Q \<union> {c \<in> set (a # ds). bt_get D c = Some 1}"
    using Cons.prems(3) by (auto simp: r(5) get d)
  ultimately show ?case using r(1-3) d by simp
qed

section \<open>The loop\<close>

definition drain_inv ::
  "(string \<Rightarrow> string set) \<Rightarrow> string set \<Rightarrow> (string, nat) btree \<Rightarrow> string list \<Rightarrow> string list \<Rightarrow> bool" where
  "drain_inv W B D Q out \<longleftrightarrow>
     bt_ok D \<and> bs_ok Q \<and> least_first W B out
     \<and> (\<forall>a. bt_get D a = (if a \<in> B then Some (card (W a - set out)) else None))
     \<and> set Q = {a \<in> B. a \<notin> set out \<and> W a \<subseteq> set out}"

lemma drain_step:
  assumes inv: "drain_inv W B D (n # Q) out" and fin: "\<And>a. finite (W a)"
    and rev: "distinct (entry_of R n)" "set (entry_of R n) = {a \<in> B. n \<in> W a}"
  shows "\<exists>D' Q'. release_dependents (entry_of R n) (D, Q) = Some (D', Q') \<and> drain_inv W B D' Q' (out @ [n])"
proof -
  have D: "bt_ok D" "\<And>a. bt_get D a = (if a \<in> B then Some (card (W a - set out)) else None)"
    and Q: "bs_ok (n # Q)" "set (n # Q) = {a \<in> B. a \<notin> set out \<and> W a \<subseteq> set out}"
    and least: "least_first W B out" using inv unfolding drain_inv_def by auto
  have n: "n \<in> B" "n \<notin> set out" "W n \<subseteq> set out" and nQ: "\<forall>b\<in>set Q. n < b" and okQ: "bs_ok Q"
    using Q by (auto simp: bs_ok_def)
  have one: "card (W a - set (out @ [n])) = card (W a - set out) - 1" "card (W a - set out) > 0" if "n \<in> W a" for a
  proof -
    have "W a - set (out @ [n]) = (W a - set out) - {n}" "n \<in> W a - set out" using that n(2) by auto
    then show "card (W a - set (out @ [n])) = card (W a - set out) - 1" "card (W a - set out) > 0"
      using fin [of a] by (simp_all add: card_gt_0_iff) blast
  qed
  have "\<exists>d. bt_get D a = Some (Suc d)" if "a \<in> set (entry_of R n)" for a
    using that rev(2) D(2) one(2) [of a] by (cases "card (W a - set out)") auto
  with release_dependents_result [OF D(1) okQ rev(1)] obtain D' Q' where
    r: "release_dependents (entry_of R n) (D, Q) = Some (D', Q')" "bt_ok D'" "bs_ok Q'"
    "\<And>a. bt_get D' a = map_option (\<lambda>d. if a \<in> set (entry_of R n) then d - 1 else d) (bt_get D a)"
    "set Q' = set Q \<union> {a \<in> set (entry_of R n). bt_get D a = Some 1}" by blast
  have "bt_get D' a = (if a \<in> B then Some (card (W a - set (out @ [n]))) else None)" for a
  proof (cases "n \<in> W a")
    case False
    then have "W a - set (out @ [n]) = W a - set out" by auto
    with False show ?thesis by (simp add: r(4) D(2) rev(2))
  next
    case True
    from one(1) [OF this] True show ?thesis by (simp add: r(4) D(2) rev(2))
  qed
  moreover have "set Q' = {a \<in> B. a \<notin> set (out @ [n]) \<and> W a \<subseteq> set (out @ [n])}" (is "_ = ?ready")
  proof -
    have Q_eq: "set Q = {a \<in> B. a \<notin> set out \<and> W a \<subseteq> set out} - {n}" using Q(2) nQ by auto
    have "bt_get D a = Some 1 \<longleftrightarrow> W a \<subseteq> set (out @ [n])" if "a \<in> B" "n \<in> W a" for a
    proof -
      have "card (W a - set out) = 1 \<longleftrightarrow> card (W a - set (out @ [n])) = 0"
        using one [OF that(2)] by arith
      then have "card (W a - set out) = 1 \<longleftrightarrow> W a - set (out @ [n]) = {}"
        using fin [of a] by (simp add: card_eq_0_iff)
      with that show ?thesis by (auto simp: D(2))
    qed
    moreover have "a \<notin> set (out @ [n])" if "n \<in> W a" for a
      using that n least_first_closed [OF least, of a] by auto
    ultimately have "set Q' = ({a \<in> B. a \<notin> set out \<and> W a \<subseteq> set out} - {n})
        \<union> {a \<in> B. n \<in> W a \<and> a \<notin> set (out @ [n]) \<and> W a \<subseteq> set (out @ [n])}"
      unfolding r(5) Q_eq rev(2) by blast
    also have "\<dots> = ?ready" by auto
    finally show ?thesis .
  qed
  moreover have "least_first W B (out @ [n])"
  proof (rule least_first_snoc [OF least n])
    fix b assume "b \<in> B" "b \<notin> set out" "W b \<subseteq> set out"
    then have "b \<in> set (n # Q)" using Q(2) by auto
    with nQ show "n \<le> b" by auto
  qed
  ultimately have "drain_inv W B D' Q' (out @ [n])" using r(2,3) by (simp add: drain_inv_def)
  with r(1) show ?thesis by blast
qed

lemma drain_result:
  assumes "drain_inv W B D Q out" and "finite B" and fin: "\<And>a. finite (W a)"
    and rev: "\<And>n. n \<in> B \<Longrightarrow> distinct (entry_of R n) \<and> set (entry_of R n) = {a \<in> B. n \<in> W a}"
  shows "\<exists>D' out'. drain_ready R D Q out = Some (D', out') \<and> drain_inv W B D' [] out'"
  using assms(1)
proof (induction "card (B - set out)" arbitrary: D Q out rule: less_induct)
  case less
  show ?case
  proof (cases Q)
    case Nil
    with less.prems show ?thesis by (subst drain_ready.simps) simp
  next
    case (Cons n Q1)
    have n: "n \<in> B" "n \<notin> set out" using less.prems Cons by (auto simp: drain_inv_def)
    obtain D' Q' where step: "release_dependents (entry_of R n) (D, Q1) = Some (D', Q')"
      "drain_inv W B D' Q' (out @ [n])"
      using drain_step [of W B D n Q1 out R] less.prems Cons fin rev [OF n(1)] by auto
    have "card (B - set (out @ [n])) < card (B - set out)"
      using n \<open>finite B\<close> by (intro psubset_card_mono) auto
    from less.hyps [OF this step(2)] show ?thesis using step(1) Cons by (subst drain_ready.simps) simp
  qed
qed

section \<open>The result\<close>

text \<open>The buckets that can never be ordered: the largest set in which everyone waits for another.\<close>

definition waiting_forever :: "(string \<Rightarrow> string set) \<Rightarrow> string set \<Rightarrow> string set" where
  "waiting_forever W B = \<Union>{S. S \<subseteq> B \<and> (\<forall>a\<in>S. W a \<inter> S \<noteq> {})}"

lemma waiting_rest:
  assumes "least_first W B out" "{a \<in> B. a \<notin> set out \<and> W a \<subseteq> set out} = {}" "\<And>a. W a \<subseteq> B"
  shows "waiting_forever W B = B - set out"
proof
  show "waiting_forever W B \<subseteq> B - set out"
  proof -
    have "S \<inter> set out = {}" if S: "\<forall>a\<in>S. W a \<inter> S \<noteq> {}" for S
    proof (rule ccontr)
      assume "S \<inter> set out \<noteq> {}"
      from least_first_acyclic [OF assms(1) _ this] obtain a where a: "a \<in> S \<inter> set out" "W a \<inter> (S \<inter> set out) = {}" by blast
      moreover have "W a \<subseteq> set out" using least_first_closed [OF assms(1)] a(1) by blast
      ultimately show False using S by blast
    qed
    then show ?thesis unfolding waiting_forever_def by blast
  qed
  have "\<forall>a\<in>B - set out. W a \<inter> (B - set out) \<noteq> {}" using assms(2,3) by blast
  then show "B - set out \<subseteq> waiting_forever W B" unfolding waiting_forever_def by blast
qed

lemma edges_within_iff:
  "(a, b) \<in> set (edges_within db buckets deps) \<longleftrightarrow> a \<in> set buckets \<and> b \<in> waits_for db buckets deps a"
  by (force simp: edges_within_def waits_for_def split: option.splits)

lemma edges_within_distinct:
  assumes "distinct buckets" "\<And>k targets. bt_get deps k = Some targets \<Longrightarrow> distinct targets"
  shows "distinct (edges_within db buckets deps)"
proof -
  have "distinct (concat (map (\<lambda>a. case bt_get deps (BucketKey db a) of
      Some targets \<Rightarrow> map (Pair a) (filter (\<lambda>dep. dep \<in> X) targets) | None \<Rightarrow> []) bs))"
    if "distinct bs" for bs X
    using that
  proof (induction bs)
    case (Cons b bs)
    have "distinct (case bt_get deps (BucketKey db b) of
        Some targets \<Rightarrow> map (Pair b) (filter (\<lambda>dep. dep \<in> X) targets) | None \<Rightarrow> [])"
      using assms(2) by (auto simp: distinct_map inj_on_def split: option.splits)
    with Cons show ?case by (auto split: option.splits)
  qed simp
  then show ?thesis using assms(1) by (simp add: edges_within_def)
qed

lemma count_fst:
  assumes "distinct es"
  shows "length (filter (\<lambda>e. fst e = a) es) = card {b. (a, b) \<in> set es}"
proof -
  have "{b. (a, b) \<in> set es} = snd ` set (filter (\<lambda>e. fst e = a) es)" by force
  moreover have "inj_on snd (set (filter (\<lambda>e. fst e = a) es))" by (auto simp: inj_on_def)
  ultimately have "card {b. (a, b) \<in> set es} = card (set (filter (\<lambda>e. fst e = a) es))" by (simp add: card_image)
  then show ?thesis using distinct_card [OF distinct_filter [OF assms]] by simp
qed

lemma order_buckets_result:
  assumes "bs_ok buckets" and "\<forall>targets\<in>set (bt_values deps). bs_ok targets"
  shows "\<exists>out. least_first (waits_for db buckets deps) (set buckets) out
    \<and> set out = set buckets - waiting_forever (waits_for db buckets deps) (set buckets)
    \<and> order_buckets db buckets deps = Some
        (if waiting_forever (waits_for db buckets deps) (set buckets) = {} then Inr out
         else Inl (sorted_list_of_set (waiting_forever (waits_for db buckets deps) (set buckets))))"
proof -
  let ?W = "waits_for db buckets deps" and ?B = "set buckets" and ?es = "edges_within db buckets deps"
  let ?D0 = "bt_collect (map (\<lambda>b. (b, 0 :: nat)) buckets)"
  have distinct: "distinct buckets" using assms(1) by (simp add: bs_ok_def strict_sorted_iff)
  have "distinct targets" if "bt_get deps k = Some targets" for k targets
    using that assms(2) by (auto simp: bt_get_def bt_values_def bs_ok_def strict_sorted_iff dest!: map_of_SomeD)
  then have es: "distinct ?es" by (rule edges_within_distinct [OF distinct])
  have W: "?W a \<subseteq> ?B" "finite (?W a)" for a by (auto simp: waits_for_def)
  have D0: "bt_get ?D0 a = (if a \<in> ?B then Some 0 else None)" for a
    using distinct by (subst bt.get_collect_distinct) (auto simp: comp_def map_of_map_restrict intro: map_of_eq_None_iff [THEN iffD2])
  have "\<forall>e\<in>set ?es. bt_get ?D0 (fst e) \<noteq> None" by (auto simp: D0 edges_within_iff)
  from count_edges_result [OF bt.ok_collect bt_ok_Nil this] obtain D R where
    c: "count_edges ?es (?D0, []) = Some (D, R)" "bt_ok D"
    "\<And>a. bt_get D a = map_option (\<lambda>d. d + length (filter (\<lambda>e. fst e = a) ?es)) (bt_get ?D0 a)"
    "\<And>b. entry_of R b = map fst (filter (\<lambda>e. snd e = b) ?es)"
    by (auto simp: bt_get_def)
  have D: "bt_get D a = (if a \<in> ?B then Some (card (?W a)) else None)" for a
    by (simp add: c(3) D0 count_fst [OF es] edges_within_iff)
  have rev: "distinct (entry_of R n) \<and> set (entry_of R n) = {a \<in> ?B. n \<in> ?W a}" for n
  proof
    show "distinct (entry_of R n)"
      using es by (auto simp: c(4) distinct_map inj_on_def)
    have "a \<in> set (entry_of R n) \<longleftrightarrow> (a, n) \<in> set ?es" for a unfolding c(4) by force
    then show "set (entry_of R n) = {a \<in> ?B. n \<in> ?W a}" by (auto simp: edges_within_iff)
  qed
  let ?Q = "bs_collect (map fst (filter (\<lambda>(b, d). d = 0) D))"
  have "set ?Q = {a \<in> ?B. ?W a = {}}"
  proof -
    have "a \<in> set ?Q \<longleftrightarrow> bt_get D a = Some 0" for a
      using bt.entries_get [OF c(2), of a 0] by force
    then have "a \<in> set ?Q \<longleftrightarrow> a \<in> {a \<in> ?B. ?W a = {}}" for a using W(2) [of a] by (simp add: D)
    then show ?thesis by blast
  qed
  then have "drain_inv ?W ?B D ?Q []"
    using c(2) by (auto simp: drain_inv_def D bs_ok_collect least_first_def)
  from drain_result [OF this _ W(2) rev] obtain D' out where
    d: "drain_ready R D ?Q [] = Some (D', out)" "drain_inv ?W ?B D' [] out" by auto
  then have least: "least_first ?W ?B out" and none: "{a \<in> ?B. a \<notin> set out \<and> ?W a \<subseteq> set out} = {}"
    and D': "bt_ok D'" "\<And>a. bt_get D' a = (if a \<in> ?B then Some (card (?W a - set out)) else None)"
    unfolding drain_inv_def by auto
  have wait: "waiting_forever ?W ?B = ?B - set out" by (rule waiting_rest [OF least none W(1)])
  have sub: "set out \<subseteq> ?B" using least_first_closed [OF least] by blast
  have "length out = length buckets \<longleftrightarrow> ?B - set out = {}"
    using distinct least_first_distinct [OF least] sub
    by (metis Diff_eq_empty_iff List.finite_set card_subset_eq distinct_card subset_antisym)
  moreover have "map fst (filter (\<lambda>(b, d). d > 0) D') = sorted_list_of_set (?B - set out)"
  proof -
    have "a \<in> set (map fst (filter (\<lambda>(b, d). d > 0) D')) \<longleftrightarrow> (\<exists>d>0. bt_get D' a = Some d)" for a
      using bt.entries_get [OF D'(1), of a] by force
    moreover have "(\<exists>d>0. bt_get D' a = Some d) \<longleftrightarrow> a \<in> ?B - set out" for a
      using none W(2) [of a] least_first_closed [OF least, of a] by (auto simp: D'(2) card_gt_0_iff)
    ultimately have set: "set (map fst (filter (\<lambda>(b, d). d > 0) D')) = ?B - set out" by blast
    have "sorted_wrt (<) (map fst (filter (\<lambda>(b, d). d > 0) D'))"
      using D'(1) unfolding bt_ok_def sorted_wrt_map by (rule sorted_wrt_filter)
    then show ?thesis
      using sorted_list_of_set.idem_if_sorted_distinct [of "map fst (filter (\<lambda>(b, d). d > 0) D')"]
      unfolding set by (simp add: strict_sorted_iff)
  qed
  ultimately have "order_buckets db buckets deps = Some
      (if waiting_forever ?W ?B = {} then Inr out else Inl (sorted_list_of_set (waiting_forever ?W ?B)))"
    using c(1) d(1) by (simp add: order_buckets_def wait)
  moreover have "set out = ?B - waiting_forever ?W ?B" using wait sub by blast
  ultimately show ?thesis using least by blast
qed

text \<open>
  C14: ordering the buckets of a database always returns, without a failing \<open>expect\<close> and
  without a counter below zero. Each position of the order holds the least bucket among those
  whose dependencies all came before; there is an order unless some buckets wait for each other
  forever, and then exactly those are reported.
\<close>

theorem order_buckets_total:
  assumes "bs_ok buckets" and "\<forall>targets\<in>set (bt_values deps). bs_ok targets"
  shows "\<exists>out. least_first (waits_for db buckets deps) (set buckets) out
    \<and> set out = set buckets - waiting_forever (waits_for db buckets deps) (set buckets)
    \<and> order_buckets db buckets deps = Some
        (if waiting_forever (waits_for db buckets deps) (set buckets) = {} then Inr out
         else Inl (sorted_list_of_set (waiting_forever (waits_for db buckets deps) (set buckets))))"
  by (rule order_buckets_result [OF assms])

theorem order_buckets_total_witness:
  "order_buckets ''main'' [''a'', ''b'', ''c''] [(BucketKey ''main'' ''a'', [''b'']), (BucketKey ''main'' ''b'', [''a'', ''x''])] \<noteq> None"
  using order_buckets_total [of "[''a'', ''b'', ''c'']" "[(BucketKey ''main'' ''a'', [''b'']), (BucketKey ''main'' ''b'', [''a'', ''x''])]" "''main''"]
  by (force simp: bs_ok_def bt_values_def)

section \<open>The references behind the order\<close>

lemma extend_entry_get:
  "bt_ok m \<Longrightarrow> bt_get (extend_entry k xs m) j
     = (if j = k then Some (fold bs_put xs (case bt_get m k of Some s \<Rightarrow> s | None \<Rightarrow> [])) else bt_get m j)"
  by (simp add: extend_entry_def bt.get_put)

lemma extend_entry_ok: "bt_ok m \<Longrightarrow> bt_ok (extend_entry k xs m)"
  by (simp add: extend_entry_def bt.ok_put)

lemma fold_bs_put: "bs_ok s \<Longrightarrow> bs_ok (fold bs_put xs s)" "set (fold bs_put xs s) = set xs \<union> set s"
  by (induction xs arbitrary: s) (auto simp: bs_ok_put)

text \<open>The set under a key of a map of sets, and what extending an entry adds to it.\<close>

definition members :: "('k, 'a list) btree \<Rightarrow> 'k \<Rightarrow> 'a set" where
  "members m k = (case bt_get m k of Some s \<Rightarrow> set s | None \<Rightarrow> {})"

lemma members_Nil [simp]: "members [] k = {}"
  by (simp add: members_def bt_get_def)

lemma members_extend:
  "bt_ok m \<Longrightarrow> members (extend_entry k xs m) j = members m j \<union> (if j = k then set xs else {})"
  by (auto simp: members_def extend_entry_get fold_bs_put split: option.splits)

definition sets_ok :: "('k::linorder, 'a::linorder list) btree \<Rightarrow> bool" where
  "sets_ok m \<longleftrightarrow> bt_ok m \<and> (\<forall>k s. bt_get m k = Some s \<longrightarrow> bs_ok s)"

lemma sets_ok_Nil [simp]: "sets_ok []"
  by (simp add: sets_ok_def bt_get_def)

lemma sets_ok_extend: "sets_ok m \<Longrightarrow> sets_ok (extend_entry k xs m)"
  by (auto simp: sets_ok_def extend_entry_get extend_entry_ok fold_bs_put split: option.splits)

lemma fold_extend:
  assumes "sets_ok m"
  shows "sets_ok (fold (\<lambda>x. extend_entry (f x) (g x)) xs m)
    \<and> members (fold (\<lambda>x. extend_entry (f x) (g x)) xs m) k = members m k \<union> (\<Union>x\<in>{x \<in> set xs. f x = k}. set (g x))"
  using assms
proof (induction xs arbitrary: m)
  case (Cons x xs)
  have "sets_ok (extend_entry (f x) (g x) m)" by (rule sets_ok_extend [OF Cons.prems])
  from Cons.IH [OF this] show ?case using Cons.prems by (auto simp: members_extend sets_ok_def)
qed simp

lemma members_cross_dependencies:
  "sets_ok (cross_bucket_dependencies deltas index)"
  "members (cross_bucket_dependencies deltas index) k
     = (\<Union>delta\<in>{delta \<in> set deltas. d_bucket delta = k}. set (delta_targets index delta))"
  using fold_extend [of "[]" d_bucket "delta_targets index" deltas] by (simp_all add: cross_bucket_dependencies_def)

lemma delta_targets_iff:
  "a \<in> set (delta_targets index delta) \<longleftrightarrow>
    (\<exists>op\<in>set (d_operations delta). \<exists>target\<in>set (fk_target_tables op). \<exists>owner.
      bt_get index (database (d_bucket delta), target) = Some owner \<and> owner \<noteq> d_bucket delta \<and> app owner = a)"
  by (fastforce simp: delta_targets_def set_map_filter split: option.splits if_splits)

lemma last_entry: "(k, v) \<in> set kvs \<Longrightarrow> \<exists>w. map_of (rev kvs) k = Some w \<and> (k, w) \<in> set kvs"
  by (metis map_of_SomeD set_rev weak_map_of_SomeI)

text \<open>The bucket that holds a table, when only one bucket of the database does.\<close>

lemma table_to_bucket_index_get:
  assumes "bt_ok models" "bt_get models owner = Some schema" "bt_has (s_models schema) t"
    and only: "\<And>k s. bt_get models k = Some s \<Longrightarrow> database k = database owner \<Longrightarrow> bt_has (s_models s) t \<Longrightarrow> k = owner"
  shows "bt_get (table_to_bucket_index models) (database owner, t) = Some owner"
proof -
  let ?kvs = "concat (map (\<lambda>(bucket, schema).
       map (\<lambda>table_name. ((database bucket, table_name), bucket)) (bt_keys (s_models schema))) models)"
  have in_kvs: "((d, n), k) \<in> set ?kvs \<longleftrightarrow> (\<exists>s. bt_get models k = Some s \<and> database k = d \<and> bt_has (s_models s) n)" for d n k
  proof -
    have "((d, n), k) \<in> set ?kvs \<longleftrightarrow> (\<exists>s. (k, s) \<in> set models \<and> database k = d \<and> n \<in> set (bt_keys (s_models s)))"
      by (auto 4 3)
    then show ?thesis by (simp only: bt.entries_get [OF assms(1)] bt_has_iff)
  qed
  have "((database owner, t), owner) \<in> set ?kvs" unfolding in_kvs using assms(2,3) by blast
  then obtain k where k: "map_of (rev ?kvs) (database owner, t) = Some k" "((database owner, t), k) \<in> set ?kvs"
    using last_entry by fast
  from k(2) have "k = owner" unfolding in_kvs using only by blast
  with k(1) show ?thesis unfolding table_to_bucket_index_def bt.get_collect by simp
qed

end
