(* ===== verification/Compose_Enums.thy ===== *)
theory Compose_Enums
  imports Compose_Order
begin

text \<open>
  \<open>reconcile_enum_ops_across_buckets\<close> of \<open>djogi/src/migrate/compose.rs\<close>: enums belong to a
  database, buckets to an app of it, so when several buckets add or drop the same enum all but
  one of the operations are removed again.
\<close>

text \<open>The errors of the decisions below, without their rendered texts; file errors are left out.\<close>

datatype ComposeError =
    NothingToCompose
  | TombstonedAppRequiresAllowDestructive string string
  | LinkageDropWithoutModels string string
  | DestructiveRequiresAllowDestructive BucketKey Classification
  | UnsupportedDelta BucketKey string
  | ComposeDiff DiffError
  | CrossBucketForeignKeyCycle string "string list"

section \<open>What the buckets of one database hold\<close>

record DBContext =
  projected_enums :: "(BucketKey, string list) btree"
  snapshot_enums :: "(BucketKey, string list) btree"
  add_enum_ops :: "(BucketKey \<times> string, nat) btree"
  drop_enum_ops :: "(BucketKey \<times> string, nat list) btree"
  add_enum_variant_ops :: "(string \<times> string, (BucketKey \<times> nat) list) btree"

text \<open>\<open>entry(k).or_default().push(v)\<close>.\<close>

definition push_entry :: "'k::linorder \<Rightarrow> 'v \<Rightarrow> ('k, 'v list) btree \<Rightarrow> ('k, 'v list) btree" where
  "push_entry k v m = bt_put k ((case bt_get m k of Some vs \<Rightarrow> vs | None \<Rightarrow> []) @ [v]) m"

definition enum_names_in ::
  "string \<Rightarrow> (BucketKey, AppliedSchema) btree \<Rightarrow> (BucketKey, string list) btree" where
  "enum_names_in db schemas =
     fold (\<lambda>(bucket, name). extend_entry bucket [name])
       (concat (map (\<lambda>(bucket, schema).
          if database bucket = db then map (Pair bucket) (bt_keys (s_enums schema)) else []) schemas)) []"

definition note_op :: "nat \<Rightarrow> BucketKey \<Rightarrow> SchemaOperation \<Rightarrow> DBContext \<Rightarrow> DBContext" where
  "note_op i bucket op ctx =
     (case op of
        AddEnum e \<Rightarrow> ctx\<lparr>add_enum_ops := bt_put (bucket, e_name e) i (add_enum_ops ctx)\<rparr>
      | DropEnum name \<Rightarrow> ctx\<lparr>drop_enum_ops := push_entry (bucket, name) i (drop_enum_ops ctx)\<rparr>
      | AddEnumVariant enum_name variant _ \<Rightarrow>
          ctx\<lparr>add_enum_variant_ops := push_entry (enum_name, variant) (bucket, i) (add_enum_variant_ops ctx)\<rparr>
      | _ \<Rightarrow> ctx)"

text \<open>The operations of one database's deltas, each with its delta's index.\<close>

definition indexed_ops :: "string \<Rightarrow> SchemaDelta list \<Rightarrow> (nat \<times> BucketKey \<times> SchemaOperation) list" where
  "indexed_ops db deltas =
     concat (map (\<lambda>(i, delta).
       if database (d_bucket delta) = db then map (\<lambda>op. (i, d_bucket delta, op)) (d_operations delta) else [])
       (enumerate 0 deltas))"

definition db_context ::
  "SchemaDelta list \<Rightarrow> (BucketKey, AppliedSchema) btree \<Rightarrow> (BucketKey, AppliedSchema) btree \<Rightarrow> string \<Rightarrow> DBContext" where
  "db_context deltas models snapshots db =
     fold (\<lambda>(i, bucket, op). note_op i bucket op) (indexed_ops db deltas)
       \<lparr>projected_enums = enum_names_in db models, snapshot_enums = enum_names_in db snapshots,
        add_enum_ops = [], drop_enum_ops = [], add_enum_variant_ops = []\<rparr>"

section \<open>Removing duplicates\<close>

datatype OpKind = OkAddEnum | OkDropEnum | OkAddEnumVariant string

record RemoveOp =
  rm_idx :: nat
  rm_enum_name :: string
  rm_op_kind :: OpKind

definition involved_apps :: "DBContext \<Rightarrow> string list" where
  "involved_apps ctx =
     bs_collect (map (\<lambda>(bk, _). app bk) (bt_keys (add_enum_ops ctx) @ bt_keys (drop_enum_ops ctx))
       @ map (\<lambda>(bk, _). app bk) (concat (bt_values (add_enum_variant_ops ctx))))"

text \<open>The position in the order, or 0 (\<open>position(..).unwrap_or(0)\<close>).\<close>

fun topo_position :: "string \<Rightarrow> string list \<Rightarrow> nat option" where
  "topo_position a [] = None"
| "topo_position a (b # rest) = (if b = a then Some 0 else map_option Suc (topo_position a rest))"

definition by_topo :: "string list \<Rightarrow> (BucketKey \<times> nat) list \<Rightarrow> (BucketKey \<times> nat) list" where
  "by_topo order = sort_key (\<lambda>(bk, _). case topo_position (app bk) order of Some p \<Rightarrow> p | None \<Rightarrow> 0)"

definition enum_adders :: "DBContext \<Rightarrow> string \<Rightarrow> (BucketKey \<times> nat) list" where
  "enum_adders ctx name =
     map (\<lambda>((bucket, _), i). (bucket, i)) (filter (\<lambda>((_, n), _). n = name) (add_enum_ops ctx))"

definition enum_droppers :: "DBContext \<Rightarrow> string \<Rightarrow> (BucketKey \<times> nat) list" where
  "enum_droppers ctx name =
     concat (map (\<lambda>((bucket, _), is). map (Pair bucket) is) (filter (\<lambda>((_, n), _). n = name) (drop_enum_ops ctx)))"

definition has_snapshot_owner :: "DBContext \<Rightarrow> string \<Rightarrow> (BucketKey \<times> nat) list \<Rightarrow> bool" where
  "has_snapshot_owner ctx name adders =
     list_ex (\<lambda>(adder, _). list_ex (\<lambda>(snap, names). snap \<noteq> adder \<and> name \<in> set names) (snapshot_enums ctx)) adders"

text \<open>The removals among the adders of one enum, and the edges from removed adders to the one kept.\<close>

definition reconcile_adds ::
  "string list \<Rightarrow> DBContext \<Rightarrow> string \<Rightarrow> RemoveOp list \<times> (BucketKey \<times> string) list" where
  "reconcile_adds order ctx name =
     (let adders = by_topo order (enum_adders ctx name);
          remove = (\<lambda>(_, i). \<lparr>rm_idx = i, rm_enum_name = name, rm_op_kind = OkAddEnum\<rparr>)
      in case adders of
           [] \<Rightarrow> ([], [])
         | owner # others \<Rightarrow>
             if has_snapshot_owner ctx name adders then (map remove adders, [])
             else (map remove others, map (\<lambda>(bucket, _). (bucket, app (fst owner))) others))"

definition reconcile_drops :: "string list \<Rightarrow> DBContext \<Rightarrow> string \<Rightarrow> RemoveOp list" where
  "reconcile_drops order ctx name =
     (let droppers = enum_droppers ctx name;
          any_projected = list_ex (\<lambda>names. name \<in> set names) (bt_values (projected_enums ctx))
      in if droppers = [] then []
         else map (\<lambda>(_, i). \<lparr>rm_idx = i, rm_enum_name = name, rm_op_kind = OkDropEnum\<rparr>)
                (if any_projected then droppers else butlast (by_topo order droppers)))"

text \<open>The bucket that edges of a new label point to: the first that adds or else projects the enum.\<close>

definition variant_enum_owner :: "DBContext \<Rightarrow> string \<Rightarrow> BucketKey option" where
  "variant_enum_owner ctx enum_name =
     (case find (\<lambda>((_, n), _). n = enum_name) (add_enum_ops ctx) of
        Some ((bucket, _), _) \<Rightarrow> Some bucket
      | None \<Rightarrow> map_option fst (find (\<lambda>(_, names). enum_name \<in> set names) (projected_enums ctx)))"

definition reconcile_variant ::
  "string list \<Rightarrow> DBContext \<Rightarrow> (string \<times> string) \<times> (BucketKey \<times> nat) list \<Rightarrow>
   RemoveOp list \<times> (BucketKey \<times> string) list" where
  "reconcile_variant order ctx entry =
     (case entry of ((enum_name, variant), contributors) \<Rightarrow>
        (let adders = by_topo order contributors;
             variant_owner = (case adders of [] \<Rightarrow> None | (bk, _) # _ \<Rightarrow> Some bk)
         in (map (\<lambda>(_, i). \<lparr>rm_idx = i, rm_enum_name = enum_name, rm_op_kind = OkAddEnumVariant variant\<rparr>)
               (filter (\<lambda>(bucket, _). variant_owner \<noteq> Some bucket) adders),
             (case variant_enum_owner ctx enum_name of
                None \<Rightarrow> []
              | Some ob \<Rightarrow> map (\<lambda>(bucket, _). (bucket, app ob)) (filter (\<lambda>(bucket, _). bucket \<noteq> ob) adders)))))"

definition reconcile_db ::
  "(BucketKey, string list) btree \<Rightarrow> string \<Rightarrow> DBContext \<Rightarrow>
   (ComposeError + RemoveOp list \<times> (BucketKey \<times> string) list) option" where
  "reconcile_db fk_cross_deps db ctx =
     (let names = bs_collect (map snd (bt_keys (add_enum_ops ctx) @ bt_keys (drop_enum_ops ctx)));
          apps = involved_apps ctx;
          db_deps = filter (\<lambda>(bk, _). database bk = db) fk_cross_deps
      in case (if length apps > 1 then order_buckets db apps db_deps else Some (Inr apps)) of
           None \<Rightarrow> None
         | Some (Inl chain) \<Rightarrow> Some (Inl (CrossBucketForeignKeyCycle db chain))
         | Some (Inr order) \<Rightarrow>
             (let adds = map (reconcile_adds order ctx) names;
                  variants = map (reconcile_variant order ctx) (add_enum_variant_ops ctx)
              in Some (Inr (concat (map fst adds) @ concat (map (reconcile_drops order ctx) names) @ concat (map fst variants),
                            concat (map snd adds) @ concat (map snd variants)))))"

fun reconcile_dbs ::
  "(string \<Rightarrow> (ComposeError + RemoveOp list \<times> (BucketKey \<times> string) list) option) \<Rightarrow> string list \<Rightarrow>
   (ComposeError + RemoveOp list \<times> (BucketKey \<times> string) list) option" where
  "reconcile_dbs f [] = Some (Inr ([], []))"
| "reconcile_dbs f (db # dbs) =
     (case f db of
        None \<Rightarrow> None
      | Some (Inl e) \<Rightarrow> Some (Inl e)
      | Some (Inr (removes, edges)) \<Rightarrow>
          (case reconcile_dbs f dbs of
             None \<Rightarrow> None
           | Some (Inl e) \<Rightarrow> Some (Inl e)
           | Some (Inr (removes', edges')) \<Rightarrow> Some (Inr (removes @ removes', edges @ edges'))))"

definition removed_by :: "RemoveOp \<Rightarrow> SchemaOperation \<Rightarrow> bool" where
  "removed_by rm op =
     (case (rm_op_kind rm, op) of
        (OkAddEnum, AddEnum e) \<Rightarrow> e_name e = rm_enum_name rm
      | (OkDropEnum, DropEnum n) \<Rightarrow> n = rm_enum_name rm
      | (OkAddEnumVariant variant, AddEnumVariant enum_name v _) \<Rightarrow> enum_name = rm_enum_name rm \<and> v = variant
      | _ \<Rightarrow> False)"

text \<open>One pass of \<open>retain\<close> per removal; the indices are those of deltas.\<close>

definition apply_removal :: "RemoveOp \<Rightarrow> SchemaDelta list \<Rightarrow> SchemaDelta list" where
  "apply_removal rm deltas =
     deltas[rm_idx rm := (let delta = deltas ! rm_idx rm
       in delta\<lparr>d_operations := filter (\<lambda>op. \<not> removed_by rm op) (d_operations delta)\<rparr>)]"

definition reconcile_enum_ops_across_buckets ::
  "SchemaDelta list \<Rightarrow> (BucketKey, AppliedSchema) btree \<Rightarrow> (BucketKey, AppliedSchema) btree \<Rightarrow>
   (BucketKey, string list) btree \<Rightarrow>
   (ComposeError + SchemaDelta list \<times> (BucketKey, string list) btree) option" where
  "reconcile_enum_ops_across_buckets deltas models snapshots fk_cross_deps =
     (case reconcile_dbs (\<lambda>db. reconcile_db fk_cross_deps db (db_context deltas models snapshots db))
             (bs_collect (map (\<lambda>delta. database (d_bucket delta)) deltas)) of
        None \<Rightarrow> None
      | Some (Inl e) \<Rightarrow> Some (Inl e)
      | Some (Inr (removes, edges)) \<Rightarrow>
          Some (Inr (fold apply_removal removes deltas,
                     fold (\<lambda>(bucket, a). extend_entry bucket [a]) edges [])))"

section \<open>What removals leave\<close>

lemma apply_removals_length [simp]: "length (fold apply_removal rms ds) = length ds"
  by (induction rms arbitrary: ds) (simp_all add: apply_removal_def)

lemma apply_removals_nth:
  assumes "i < length ds"
  shows "fold apply_removal rms ds ! i
    = (ds ! i)\<lparr>d_operations := filter (\<lambda>op. \<forall>r\<in>set rms. \<not> (rm_idx r = i \<and> removed_by r op)) (d_operations (ds ! i))\<rparr>"
  using assms
proof (induction rms arbitrary: ds)
  case (Cons r rms)
  have "apply_removal r ds ! i = (ds ! i)\<lparr>d_operations :=
      filter (\<lambda>op. \<not> (rm_idx r = i \<and> removed_by r op)) (d_operations (ds ! i))\<rparr>"
    using Cons.prems by (cases "rm_idx r = i") (simp_all add: apply_removal_def Let_def)
  moreover have "i < length (apply_removal r ds)" using Cons.prems by (simp add: apply_removal_def)
  ultimately show ?case using Cons.IH [of "apply_removal r ds"] by (simp add: conj_commute)
qed simp

section \<open>What the context holds\<close>

definition names_in :: "(BucketKey, AppliedSchema) btree \<Rightarrow> BucketKey \<Rightarrow> string set" where
  "names_in schemas k = (case bt_get schemas k of Some s \<Rightarrow> set (bt_keys (s_enums s)) | None \<Rightarrow> {})"

lemma enum_names_in_members:
  assumes "bt_ok schemas"
  shows "sets_ok (enum_names_in db schemas)"
    and "members (enum_names_in db schemas) k = (if database k = db then names_in schemas k else {})"
proof -
  let ?xs = "concat (map (\<lambda>(bucket, schema).
    if database bucket = db then map (Pair bucket) (bt_keys (s_enums schema)) else []) schemas)"
  have split: "(\<lambda>(bucket, name). extend_entry bucket [name]) = (\<lambda>x. extend_entry (fst x) [snd x])" by auto
  have image: "(\<Union>x\<in>{x \<in> X. fst x = k}. set [snd x]) = snd ` {x \<in> X. fst x = k}" for X :: "(BucketKey \<times> string) set"
    by auto
  note fold = fold_extend [OF sets_ok_Nil, of fst "\<lambda>x. [snd x]" ?xs k, unfolded image]
  show "sets_ok (enum_names_in db schemas)"
    unfolding enum_names_in_def split by (rule conjunct1 [OF fold])
  have "members (enum_names_in db schemas) k = snd ` {x \<in> set ?xs. fst x = k}"
    unfolding enum_names_in_def split using conjunct2 [OF fold] by simp
  also have "\<dots> = {n. database k = db \<and> (\<exists>s. (k, s) \<in> set schemas \<and> n \<in> set (bt_keys (s_enums s)))}"
    by (force split: if_splits)
  also have "\<dots> = (if database k = db then names_in schemas k else {})"
    by (auto simp: bt.entries_get [OF assms] names_in_def split: option.splits)
  finally show "members (enum_names_in db schemas) k = (if database k = db then names_in schemas k else {})" .
qed

lemma indexed_ops_iff:
  "(i, b, op) \<in> set (indexed_ops db deltas) \<longleftrightarrow>
    i < length deltas \<and> d_bucket (deltas ! i) = b \<and> database b = db \<and> op \<in> set (d_operations (deltas ! i))"
proof -
  have "(i, b, op) \<in> set (indexed_ops db deltas) \<longleftrightarrow>
    (\<exists>delta. (i, delta) \<in> set (enumerate 0 deltas) \<and> d_bucket delta = b \<and> database b = db \<and> op \<in> set (d_operations delta))"
    by (auto simp: indexed_ops_def split: if_splits)
  then show ?thesis by (auto simp: in_set_enumerate_eq)
qed

lemma note_op_sels [simp]:
  "projected_enums (note_op i b op ctx) = projected_enums ctx"
  "snapshot_enums (note_op i b op ctx) = snapshot_enums ctx"
  "add_enum_ops (note_op i b op ctx) = (case op of AddEnum e \<Rightarrow> bt_put (b, e_name e) i (add_enum_ops ctx) | _ \<Rightarrow> add_enum_ops ctx)"
  "drop_enum_ops (note_op i b op ctx) = (case op of DropEnum n \<Rightarrow> push_entry (b, n) i (drop_enum_ops ctx) | _ \<Rightarrow> drop_enum_ops ctx)"
  "add_enum_variant_ops (note_op i b op ctx)
    = (case op of AddEnumVariant n v _ \<Rightarrow> push_entry (n, v) (b, i) (add_enum_variant_ops ctx) | _ \<Rightarrow> add_enum_variant_ops ctx)"
  by (simp_all add: note_op_def split: SchemaOperation.split)

definition the_adds :: "(nat \<times> BucketKey \<times> SchemaOperation) list \<Rightarrow> ((BucketKey \<times> string) \<times> nat) list" where
  "the_adds = List.map_filter (\<lambda>(i, b, op). case op of AddEnum e \<Rightarrow> Some ((b, e_name e), i) | _ \<Rightarrow> None)"

definition the_drops :: "(nat \<times> BucketKey \<times> SchemaOperation) list \<Rightarrow> ((BucketKey \<times> string) \<times> nat) list" where
  "the_drops = List.map_filter (\<lambda>(i, b, op). case op of DropEnum n \<Rightarrow> Some ((b, n), i) | _ \<Rightarrow> None)"

definition the_variants :: "(nat \<times> BucketKey \<times> SchemaOperation) list \<Rightarrow> ((string \<times> string) \<times> BucketKey \<times> nat) list" where
  "the_variants = List.map_filter (\<lambda>(i, b, op). case op of AddEnumVariant n v _ \<Rightarrow> Some ((n, v), (b, i)) | _ \<Rightarrow> None)"

lemma fold_note_op:
  "projected_enums (fold (\<lambda>(i, b, op). note_op i b op) xs ctx) = projected_enums ctx"
  "snapshot_enums (fold (\<lambda>(i, b, op). note_op i b op) xs ctx) = snapshot_enums ctx"
  "add_enum_ops (fold (\<lambda>(i, b, op). note_op i b op) xs ctx) = fold (\<lambda>(k, i). bt_put k i) (the_adds xs) (add_enum_ops ctx)"
  "drop_enum_ops (fold (\<lambda>(i, b, op). note_op i b op) xs ctx) = fold (\<lambda>(k, i). push_entry k i) (the_drops xs) (drop_enum_ops ctx)"
  "add_enum_variant_ops (fold (\<lambda>(i, b, op). note_op i b op) xs ctx)
    = fold (\<lambda>(k, i). push_entry k i) (the_variants xs) (add_enum_variant_ops ctx)"
  by (induction xs arbitrary: ctx)
    (auto simp: the_adds_def the_drops_def the_variants_def List.map_filter_simps split: SchemaOperation.splits)

lemma push_entries:
  assumes "bt_ok m"
  shows "bt_ok (fold (\<lambda>(k, v). push_entry k v) kvs m)
    \<and> entry_of (fold (\<lambda>(k, v). push_entry k v) kvs m) k = entry_of m k @ map snd (filter (\<lambda>kv. fst kv = k) kvs)
    \<and> (bt_get (fold (\<lambda>(k, v). push_entry k v) kvs m) k = None \<longleftrightarrow> bt_get m k = None \<and> k \<notin> fst ` set kvs)"
  using assms
proof (induction kvs arbitrary: m)
  case (Cons kv kvs)
  obtain j v where kv: "kv = (j, v)" by (cases kv)
  have "bt_ok (push_entry j v m)" using Cons.prems by (simp add: push_entry_def bt.ok_put)
  from Cons.IH [OF this] Cons.prems show ?case
    by (auto simp: kv push_entry_def bt.get_put)
qed simp

lemma bt_puts:
  assumes "bt_ok m"
  shows "bt_ok (fold (\<lambda>(k, v). bt_put k v) kvs m) \<and> bt_get (fold (\<lambda>(k, v). bt_put k v) kvs m) k
    = (case map_of (rev kvs) k of Some v \<Rightarrow> Some v | None \<Rightarrow> bt_get m k)"
  using assms
proof (induction kvs arbitrary: m)
  case (Cons kv kvs)
  obtain j v where kv: "kv = (j, v)" by (cases kv)
  have "bt_ok (bt_put j v m)" using Cons.prems by (simp add: bt.ok_put)
  from Cons.IH [OF this] Cons.prems show ?case
    by (auto simp: kv bt.get_put map_add_def split: option.splits)
qed simp

lemma the_adds_iff: "((b, e), i) \<in> set (the_adds xs) \<longleftrightarrow> (\<exists>en. (i, b, AddEnum en) \<in> set xs \<and> e_name en = e)"
  by (force simp: the_adds_def set_map_filter split: SchemaOperation.splits)

lemma the_drops_iff: "((b, n), i) \<in> set (the_drops xs) \<longleftrightarrow> (i, b, DropEnum n) \<in> set xs"
  by (force simp: the_drops_def set_map_filter split: SchemaOperation.splits)

lemma the_variants_iff: "((n, v), (b, i)) \<in> set (the_variants xs) \<longleftrightarrow> (\<exists>a. (i, b, AddEnumVariant n v a) \<in> set xs)"
  by (force simp: the_variants_def set_map_filter split: SchemaOperation.splits)

section \<open>The contributors of an enum\<close>

definition adds_enum :: "string \<Rightarrow> SchemaDelta \<Rightarrow> bool" where
  "adds_enum e delta \<longleftrightarrow> (\<exists>en. AddEnum en \<in> set (d_operations delta) \<and> e_name en = e)"

definition drops_enum :: "string \<Rightarrow> SchemaDelta \<Rightarrow> bool" where
  "drops_enum e delta \<longleftrightarrow> DropEnum e \<in> set (d_operations delta)"

definition adds_variant :: "string \<Rightarrow> string \<Rightarrow> SchemaDelta \<Rightarrow> bool" where
  "adds_variant e v delta \<longleftrightarrow> (\<exists>a. AddEnumVariant e v a \<in> set (d_operations delta))"

text \<open>The indices of the deltas of one database that satisfy a predicate.\<close>

definition deltas_where :: "(SchemaDelta \<Rightarrow> bool) \<Rightarrow> string \<Rightarrow> SchemaDelta list \<Rightarrow> nat set" where
  "deltas_where P db deltas = {i. i < length deltas \<and> database (d_bucket (deltas ! i)) = db \<and> P (deltas ! i)}"

lemma bucket_index:
  assumes "distinct (map d_bucket deltas)" "i < length deltas" "j < length deltas"
    "d_bucket (deltas ! i) = d_bucket (deltas ! j)"
  shows "i = j"
  using assms by (metis length_map nth_eq_iff_index_eq nth_map)

lemma context_adds:
  assumes "distinct (map d_bucket deltas)"
  shows "bt_ok (add_enum_ops (db_context deltas models snapshots db))"
    and "bt_get (add_enum_ops (db_context deltas models snapshots db)) (b, e) = Some i
      \<longleftrightarrow> i \<in> deltas_where (adds_enum e) db deltas \<and> d_bucket (deltas ! i) = b"
proof -
  let ?kvs = "the_adds (indexed_ops db deltas)"
  have eq: "add_enum_ops (db_context deltas models snapshots db) = fold (\<lambda>(k, i). bt_put k i) ?kvs []"
    by (simp add: db_context_def fold_note_op)
  show "bt_ok (add_enum_ops (db_context deltas models snapshots db))"
    unfolding eq using bt_puts [OF bt_ok_Nil] by blast
  have mem: "((b, e), j) \<in> set ?kvs \<longleftrightarrow> j \<in> deltas_where (adds_enum e) db deltas \<and> d_bucket (deltas ! j) = b" for j
    by (auto simp: the_adds_iff indexed_ops_iff deltas_where_def adds_enum_def)
  have "map_of (rev ?kvs) (b, e) = Some i \<longleftrightarrow> ((b, e), i) \<in> set ?kvs"
  proof
    assume "((b, e), i) \<in> set ?kvs"
    moreover from last_entry [OF this] obtain j where "map_of (rev ?kvs) (b, e) = Some j" "((b, e), j) \<in> set ?kvs" by blast
    moreover have "i = j" using calculation(1,3) bucket_index [OF assms, of i j] unfolding mem
      by (auto simp: deltas_where_def)
    ultimately show "map_of (rev ?kvs) (b, e) = Some i" by simp
  qed (metis map_of_SomeD set_rev)
  then show "bt_get (add_enum_ops (db_context deltas models snapshots db)) (b, e) = Some i
      \<longleftrightarrow> i \<in> deltas_where (adds_enum e) db deltas \<and> d_bucket (deltas ! i) = b"
    unfolding eq mem [symmetric] using bt_puts [OF bt_ok_Nil, of ?kvs "(b, e)"] by (auto simp: bt_get_def split: option.splits)
qed

lemma adders_result:
  fixes deltas models snapshots db e
  defines "A \<equiv> enum_adders (db_context deltas models snapshots db) e"
  assumes "distinct (map d_bucket deltas)"
  shows "distinct A" and "set A = (\<lambda>i. (d_bucket (deltas ! i), i)) ` deltas_where (adds_enum e) db deltas"
proof -
  let ?m = "add_enum_ops (db_context deltas models snapshots db)"
  note m = context_adds [OF assms(2), of models snapshots db]
  have "distinct ?m" using bt_ok_distinct [OF m(1)] distinct_map by blast
  then show "distinct A" unfolding A_def enum_adders_def
    by (auto simp: distinct_map inj_on_def)
  have "(b, i) \<in> set A \<longleftrightarrow> ((b, e), i) \<in> set ?m" for b i
    unfolding A_def enum_adders_def by force
  then have "(b, i) \<in> set A \<longleftrightarrow> i \<in> deltas_where (adds_enum e) db deltas \<and> d_bucket (deltas ! i) = b" for b i
    by (simp add: bt.entries_get [OF m(1)] m(2))
  then show "set A = (\<lambda>i. (d_bucket (deltas ! i), i)) ` deltas_where (adds_enum e) db deltas" by auto
qed

text \<open>The names a delta drops, each once as the differ emits them.\<close>

definition dropped_names :: "SchemaDelta \<Rightarrow> string list" where
  "dropped_names delta = List.map_filter (\<lambda>op. case op of DropEnum n \<Rightarrow> Some n | _ \<Rightarrow> None) (d_operations delta)"

lemma the_drops_append: "the_drops (xs @ ys) = the_drops xs @ the_drops ys"
  by (simp add: the_drops_def List.map_filter_def)

lemma the_drops_Nil [simp]: "the_drops [] = []"
  by (simp add: the_drops_def List.map_filter_simps)

lemma the_drops_one:
  "the_drops (map (\<lambda>op. (i, b, op)) ops)
    = map (\<lambda>n. ((b, n), i)) (List.map_filter (\<lambda>op. case op of DropEnum n \<Rightarrow> Some n | _ \<Rightarrow> None) ops)"
  by (induction ops) (auto simp: the_drops_def List.map_filter_simps split: SchemaOperation.splits)

definition ops_from :: "string \<Rightarrow> nat \<Rightarrow> SchemaDelta list \<Rightarrow> (nat \<times> BucketKey \<times> SchemaOperation) list" where
  "ops_from db n deltas =
     concat (map (\<lambda>(i, delta).
       if database (d_bucket delta) = db then map (\<lambda>op. (i, d_bucket delta, op)) (d_operations delta) else [])
       (enumerate n deltas))"

lemma ops_from_Cons:
  "ops_from db n (d # ds)
    = (if database (d_bucket d) = db then map (\<lambda>op. (n, d_bucket d, op)) (d_operations d) else []) @ ops_from db (Suc n) ds"
  by (simp add: ops_from_def)

lemma distinct_drops_from:
  assumes "\<forall>delta\<in>set deltas. distinct (dropped_names delta)"
  shows "distinct (the_drops (ops_from db n deltas)) \<and> (\<forall>x\<in>set (the_drops (ops_from db n deltas)). n \<le> snd x)"
  using assms
proof (induction deltas arbitrary: n)
  case Nil
  then show ?case by (simp add: ops_from_def the_drops_def List.map_filter_simps)
next
  case (Cons d ds)
  define xs where "xs = the_drops (if database (d_bucket d) = db then map (\<lambda>op. (n, d_bucket d, op)) (d_operations d) else [])"
  have eq: "the_drops (ops_from db n (d # ds)) = xs @ the_drops (ops_from db (Suc n) ds)"
    by (simp add: ops_from_Cons the_drops_append xs_def)
  have "distinct (dropped_names d)" using Cons.prems by simp
  then have xs: "distinct xs" "\<forall>x\<in>set xs. snd x = n"
    by (auto simp: xs_def the_drops_one dropped_names_def distinct_map inj_on_def)
  from Cons.IH [of "Suc n"] Cons.prems xs show ?case unfolding eq by fastforce
qed

lemma distinct_the_drops:
  assumes "\<forall>delta\<in>set deltas. distinct (dropped_names delta)"
  shows "distinct (the_drops (indexed_ops db deltas))"
  using distinct_drops_from [OF assms, of db 0] by (simp add: indexed_ops_def ops_from_def)

lemma distinct_concat_entries:
  assumes "distinct (map fst m)" "\<forall>(k, s)\<in>set m. distinct s"
  shows "distinct (concat (map (\<lambda>(k, s). map (Pair k) s) m))"
  using assms by (induction m) (auto simp: distinct_map inj_on_def image_iff)

lemma droppers_result:
  fixes deltas models snapshots db e
  defines "A \<equiv> enum_droppers (db_context deltas models snapshots db) e"
  assumes "distinct (map d_bucket deltas)" "\<forall>delta\<in>set deltas. distinct (dropped_names delta)"
  shows "distinct A" and "set A = (\<lambda>i. (d_bucket (deltas ! i), i)) ` deltas_where (drops_enum e) db deltas"
proof -
  let ?kvs = "the_drops (indexed_ops db deltas)"
  define m where "m = drop_enum_ops (db_context deltas models snapshots db)"
  have eq: "m = fold (\<lambda>(k, i). push_entry k i) ?kvs []"
    by (simp add: m_def db_context_def fold_note_op)
  have ok: "bt_ok m" and get: "entry_of m k = map snd (filter (\<lambda>kv. fst kv = k) ?kvs)" for k
    unfolding eq using push_entries [OF bt_ok_Nil, of ?kvs k] by (simp_all add: bt_get_def)
  have entry: "s = map snd (filter (\<lambda>kv. fst kv = k) ?kvs)" if "(k, s) \<in> set m" for k s
    using that get [of k] by (simp add: bt.entries_get [OF ok])
  have kvs: "distinct ?kvs" by (rule distinct_the_drops [OF assms(3)])
  have A: "A = concat (map (\<lambda>(b, s). map (Pair b) s) (map (\<lambda>((b, _), s). (b, s)) (filter (\<lambda>((_, n), _). n = e) m)))"
    unfolding A_def m_def enum_droppers_def map_map
    by (intro arg_cong [of _ _ concat] map_cong refl) (simp add: split_beta)
  show "distinct A" unfolding A
  proof (rule distinct_concat_entries)
    have "distinct (filter (\<lambda>k. snd k = e) (map fst m))" using bt_ok_distinct [OF ok] by simp
    moreover have "filter (\<lambda>k. snd k = e) (map fst m) = map fst (filter (\<lambda>((_, n), _). n = e) m)"
      by (induction m) auto
    ultimately have "distinct (map fst (filter (\<lambda>((_, n), _). n = e) m))" by simp
    then show "distinct (map fst (map (\<lambda>((b, _), s). (b, s)) (filter (\<lambda>((_, n), _). n = e) m)))"
      by (auto simp: distinct_map inj_on_def)
    have "distinct s" if "(k, s) \<in> set m" for k s
      unfolding entry [OF that] using kvs by (auto simp: distinct_map inj_on_def)
    then show "\<forall>(k, s)\<in>set (map (\<lambda>((b, _), s). (b, s)) (filter (\<lambda>((_, n), _). n = e) m)). distinct s" by auto
  qed
  have mem: "((b, e), i) \<in> set ?kvs \<longleftrightarrow> i \<in> deltas_where (drops_enum e) db deltas \<and> d_bucket (deltas ! i) = b" for b i
    by (auto simp: the_drops_iff indexed_ops_iff deltas_where_def drops_enum_def)
  have "(b, i) \<in> set A \<longleftrightarrow> ((b, e), i) \<in> set ?kvs" for b i
  proof -
    have "(b, i) \<in> set A \<longleftrightarrow> (\<exists>s. ((b, e), s) \<in> set m \<and> i \<in> set s)" unfolding A by force
    also have "\<dots> \<longleftrightarrow> i \<in> set (entry_of m (b, e))"
      by (cases "bt_get m (b, e)") (auto simp: bt.entries_get [OF ok])
    also have "\<dots> \<longleftrightarrow> ((b, e), i) \<in> set ?kvs" unfolding get by force
    finally show ?thesis .
  qed
  then show "set A = (\<lambda>i. (d_bucket (deltas ! i), i)) ` deltas_where (drops_enum e) db deltas"
    unfolding mem by auto
qed

section \<open>One operation per enum\<close>

lemma set_by_topo [simp]: "set (by_topo order xs) = set xs" "distinct (by_topo order xs) = distinct xs"
  "by_topo order xs = [] \<longleftrightarrow> xs = []"
  by (simp_all add: by_topo_def flip: set_empty)

lemma by_topo_Nil [simp]: "by_topo order [] = []"
  by (simp add: by_topo_def)

text \<open>Deltas that hold the enum operations of the differ.\<close>

definition differ_enum_ops ::
  "(BucketKey, AppliedSchema) btree \<Rightarrow> (BucketKey, AppliedSchema) btree \<Rightarrow> SchemaDelta list \<Rightarrow> bool" where
  "differ_enum_ops models snapshots deltas \<longleftrightarrow>
     distinct (map d_bucket deltas)
     \<and> (\<forall>delta\<in>set deltas. distinct (dropped_names delta))
     \<and> (\<forall>k e. (\<exists>delta\<in>set deltas. d_bucket delta = k \<and> adds_enum e delta) \<longleftrightarrow> e \<in> names_in models k - names_in snapshots k)
     \<and> (\<forall>k e. (\<exists>delta\<in>set deltas. d_bucket delta = k \<and> drops_enum e delta) \<longleftrightarrow> e \<in> names_in snapshots k - names_in models k)"

definition names_of_db :: "(BucketKey, AppliedSchema) btree \<Rightarrow> string \<Rightarrow> string set" where
  "names_of_db schemas db = (\<Union>k\<in>{k. database k = db}. names_in schemas k)"

lemma context_names:
  assumes "bt_ok models" "bt_ok snapshots"
  shows "list_ex (\<lambda>names. e \<in> set names) (bt_values (projected_enums (db_context deltas models snapshots db)))
      \<longleftrightarrow> e \<in> names_of_db models db"
    and "(\<exists>names. (k, names) \<in> set (snapshot_enums (db_context deltas models snapshots db)) \<and> e \<in> set names)
      \<longleftrightarrow> database k = db \<and> e \<in> names_in snapshots k"
proof -
  have entries: "(\<exists>names. (k, names) \<in> set (enum_names_in db schemas) \<and> e \<in> set names)
      \<longleftrightarrow> database k = db \<and> e \<in> names_in schemas k" if "bt_ok schemas" for schemas k
  proof -
    have "bt_ok (enum_names_in db schemas)" using enum_names_in_members(1) [OF that] by (simp add: sets_ok_def)
    then have "(\<exists>names. (k, names) \<in> set (enum_names_in db schemas) \<and> e \<in> set names) \<longleftrightarrow> e \<in> members (enum_names_in db schemas) k"
      by (auto simp: bt.entries_get members_def split: option.splits)
    then show ?thesis by (simp add: enum_names_in_members(2) [OF that])
  qed
  have "list_ex (\<lambda>names. e \<in> set names) (bt_values (enum_names_in db models))
    \<longleftrightarrow> (\<exists>k names. (k, names) \<in> set (enum_names_in db models) \<and> e \<in> set names)"
    by (force simp: list_ex_iff bt_values_def)
  then show "list_ex (\<lambda>names. e \<in> set names) (bt_values (projected_enums (db_context deltas models snapshots db)))
      \<longleftrightarrow> e \<in> names_of_db models db"
    using entries [OF assms(1)] by (auto simp: db_context_def fold_note_op names_of_db_def)
  show "(\<exists>names. (k, names) \<in> set (snapshot_enums (db_context deltas models snapshots db)) \<and> e \<in> set names)
      \<longleftrightarrow> database k = db \<and> e \<in> names_in snapshots k"
    using entries [OF assms(2)] by (simp add: db_context_def fold_note_op)
qed

lemma snapshot_owner:
  assumes "bt_ok models" "bt_ok snapshots" "adders \<noteq> []" "\<forall>(k, i)\<in>set adders. e \<notin> names_in snapshots k"
  shows "has_snapshot_owner (db_context deltas models snapshots db) e adders \<longleftrightarrow> e \<in> names_of_db snapshots db"
proof -
  let ?S = "snapshot_enums (db_context deltas models snapshots db)"
  have other: "(\<exists>x\<in>set ?S. fst x \<noteq> k \<and> e \<in> set (snd x)) \<longleftrightarrow> (\<exists>s. s \<noteq> k \<and> database s = db \<and> e \<in> names_in snapshots s)" for k
    unfolding context_names(2) [OF assms(1,2), of _ deltas db e, symmetric] by (auto simp: Bex_def)
  have "has_snapshot_owner (db_context deltas models snapshots db) e adders
    \<longleftrightarrow> (\<exists>a\<in>set adders. \<exists>x\<in>set ?S. fst x \<noteq> fst a \<and> e \<in> set (snd x))"
    by (simp add: has_snapshot_owner_def list_ex_iff split_beta)
  also have "\<dots> \<longleftrightarrow> (\<exists>a\<in>set adders. \<exists>s. s \<noteq> fst a \<and> database s = db \<and> e \<in> names_in snapshots s)"
    by (simp only: other)
  also have "\<dots> \<longleftrightarrow> e \<in> names_of_db snapshots db"
  proof
    assume "e \<in> names_of_db snapshots db"
    then obtain s where s: "database s = db" "e \<in> names_in snapshots s" by (auto simp: names_of_db_def)
    obtain a where a: "a \<in> set adders" using assms(3) by (cases adders) auto
    then have "e \<notin> names_in snapshots (fst a)" using assms(4) by auto
    with s have "s \<noteq> fst a" by auto
    with s a show "\<exists>a\<in>set adders. \<exists>s. s \<noteq> fst a \<and> database s = db \<and> e \<in> names_in snapshots s" by blast
  qed (auto simp: names_of_db_def)
  finally show ?thesis .
qed

section \<open>The removals of one database\<close>

lemma reconcile_db_parts:
  assumes "reconcile_db deps db ctx = Some (Inr (rms, edges))"
  obtains order where
    "\<And>r e. r \<in> set rms \<and> rm_op_kind r = OkAddEnum \<and> rm_enum_name r = e \<longleftrightarrow> r \<in> set (fst (reconcile_adds order ctx e))"
    "\<And>r e. r \<in> set rms \<and> rm_op_kind r = OkDropEnum \<and> rm_enum_name r = e \<longleftrightarrow> r \<in> set (reconcile_drops order ctx e)"
    "\<And>r e v. r \<in> set rms \<and> rm_op_kind r = OkAddEnumVariant v \<and> rm_enum_name r = e
      \<longleftrightarrow> r \<in> (\<Union>cs\<in>{cs. ((e, v), cs) \<in> set (add_enum_variant_ops ctx)}. set (fst (reconcile_variant order ctx ((e, v), cs))))"
    "\<And>e. set (snd (reconcile_adds order ctx e)) \<subseteq> set edges"
proof -
  let ?names = "bs_collect (map snd (bt_keys (add_enum_ops ctx) @ bt_keys (drop_enum_ops ctx)))"
  obtain order where rms: "rms = concat (map fst (map (reconcile_adds order ctx) ?names))
      @ concat (map (reconcile_drops order ctx) ?names) @ concat (map fst (map (reconcile_variant order ctx) (add_enum_variant_ops ctx)))"
    and edges: "edges = concat (map snd (map (reconcile_adds order ctx) ?names))
      @ concat (map snd (map (reconcile_variant order ctx) (add_enum_variant_ops ctx)))"
    using assms by (auto simp: reconcile_db_def Let_def split: option.splits sum.splits if_splits)
  have kinds: "r \<in> set (fst (reconcile_adds order ctx n)) \<Longrightarrow> rm_op_kind r = OkAddEnum \<and> rm_enum_name r = n"
    "r \<in> set (reconcile_drops order ctx n) \<Longrightarrow> rm_op_kind r = OkDropEnum \<and> rm_enum_name r = n"
    "r \<in> set (fst (reconcile_variant order ctx ((n, v), cs))) \<Longrightarrow> rm_op_kind r = OkAddEnumVariant v \<and> rm_enum_name r = n"
    for r n v cs
    by (auto simp: reconcile_adds_def reconcile_drops_def reconcile_variant_def Let_def split: list.splits if_splits option.splits)
  have adders: "reconcile_adds order ctx e = ([], [])" if "e \<notin> set ?names" for e
  proof -
    have "enum_adders ctx e = []" using that
      by (force simp: enum_adders_def bt_keys_def filter_empty_conv)
    then show ?thesis by (simp add: reconcile_adds_def Let_def)
  qed
  have droppers: "reconcile_drops order ctx e = []" if "e \<notin> set ?names" for e
  proof -
    have "filter (\<lambda>((_, n), _). n = e) (drop_enum_ops ctx) = []" using that
      by (force simp: bt_keys_def filter_empty_conv)
    then show ?thesis by (simp add: reconcile_drops_def enum_droppers_def)
  qed
  define A where "A e = set (fst (reconcile_adds order ctx e))" for e
  define D where "D e = set (reconcile_drops order ctx e)" for e
  define V where "V e v = (\<Union>cs\<in>{cs. ((e, v), cs) \<in> set (add_enum_variant_ops ctx)}. set (fst (reconcile_variant order ctx ((e, v), cs))))" for e v
  have in_variants: "(\<exists>x\<in>set (add_enum_variant_ops ctx). r \<in> set (fst (reconcile_variant order ctx x))) \<longleftrightarrow> (\<exists>e v. r \<in> V e v)" for r
    unfolding V_def by (auto 4 4)
  have mem: "r \<in> set rms \<longleftrightarrow> (\<exists>n\<in>set ?names. r \<in> A n) \<or> (\<exists>n\<in>set ?names. r \<in> D n) \<or> (\<exists>e v. r \<in> V e v)" for r
    unfolding in_variants [symmetric] by (simp add: rms A_def D_def) blast
  have kindA: "r \<in> A n \<Longrightarrow> rm_op_kind r = OkAddEnum \<and> rm_enum_name r = n" for r n
    using kinds(1) by (simp add: A_def)
  have kindD: "r \<in> D n \<Longrightarrow> rm_op_kind r = OkDropEnum \<and> rm_enum_name r = n" for r n
    using kinds(2) by (simp add: D_def)
  have kindV: "r \<in> V n v \<Longrightarrow> rm_op_kind r = OkAddEnumVariant v \<and> rm_enum_name r = n" for r n v
    using kinds(3) by (auto simp: V_def)
  have out: "A e = {}" "D e = {}" if "e \<notin> set ?names" for e
    using adders [OF that] droppers [OF that] by (simp_all add: A_def D_def)
  have r1: "r \<in> set rms \<and> rm_op_kind r = OkAddEnum \<and> rm_enum_name r = e \<longleftrightarrow> r \<in> A e" for r e
    using mem [of r] kindA [of r] kindD [of r] kindV [of r] out(1) [of e] by (metis OpKind.distinct(1,3) empty_iff)
  have r2: "r \<in> set rms \<and> rm_op_kind r = OkDropEnum \<and> rm_enum_name r = e \<longleftrightarrow> r \<in> D e" for r e
    using mem [of r] kindA [of r] kindD [of r] kindV [of r] out(2) [of e] by (metis OpKind.distinct(1,5) empty_iff)
  have r3: "r \<in> set rms \<and> rm_op_kind r = OkAddEnumVariant v \<and> rm_enum_name r = e \<longleftrightarrow> r \<in> V e v" for r e v
    using mem [of r] kindA [of r] kindD [of r] kindV [of r] by (metis OpKind.distinct(3,5) OpKind.inject)
  have r4: "set (snd (reconcile_adds order ctx e)) \<subseteq> set edges" for e
    using adders [of e] unfolding edges by (cases "e \<in> set ?names") auto
  show thesis
    by (rule that [of order, OF r1 [unfolded A_def] r2 [unfolded D_def] r3 [unfolded V_def] r4])
qed

lemma reconcile_dbs_result:
  "reconcile_dbs f dbs = Some (Inr (rms, edges)) \<Longrightarrow>
    (\<forall>db\<in>set dbs. \<exists>rs es. f db = Some (Inr (rs, es)) \<and> set rs \<subseteq> set rms \<and> set es \<subseteq> set edges)
    \<and> (\<forall>r\<in>set rms. \<exists>db\<in>set dbs. \<exists>rs es. f db = Some (Inr (rs, es)) \<and> r \<in> set rs)"
proof (induction dbs arbitrary: rms edges)
  case (Cons db dbs)
  then obtain rs es rms' edges' where f: "f db = Some (Inr (rs, es))"
    and rest: "reconcile_dbs f dbs = Some (Inr (rms', edges'))" and eq: "rms = rs @ rms'" "edges = es @ edges'"
    by (auto split: option.splits sum.splits prod.splits)
  from Cons.IH [OF rest] f show ?case unfolding eq by fastforce
qed simp

lemma adds_removed:
  "rm_idx ` set (fst (reconcile_adds order ctx e))
    = (if has_snapshot_owner ctx e (by_topo order (enum_adders ctx e)) then snd ` set (enum_adders ctx e)
       else snd ` set (tl (by_topo order (enum_adders ctx e))))"
proof (cases "by_topo order (enum_adders ctx e)")
  case Nil
  then show ?thesis by (simp add: reconcile_adds_def Let_def)
next
  case (Cons a rest)
  then have "set (enum_adders ctx e) = set (a # rest)" by (metis set_by_topo(1))
  with Cons show ?thesis by (simp add: reconcile_adds_def Let_def image_image split_beta)
qed

lemma drops_removed:
  assumes "bt_ok models" "bt_ok snapshots" and ctx: "ctx = db_context deltas models snapshots db"
  shows "rm_idx ` set (reconcile_drops order ctx e)
    = (if e \<in> names_of_db models db then snd ` set (enum_droppers ctx e)
       else snd ` set (butlast (by_topo order (enum_droppers ctx e))))"
  unfolding ctx reconcile_drops_def Let_def context_names(1) [OF assms(1,2)]
  by (auto simp: image_image split_beta)

text \<open>Of a list of distinct indices, all or all but one are removed.\<close>

lemma keep_one:
  assumes "distinct A" "set A = (\<lambda>i. (f i, i)) ` I"
  shows "snd ` set A = I"
    and "A \<noteq> [] \<Longrightarrow> \<exists>i. I - snd ` set (tl A) = {i}"
    and "A \<noteq> [] \<Longrightarrow> \<exists>i. I - snd ` set (butlast A) = {i}"
proof -
  show eq: "snd ` set A = I" using assms(2) by force
  have inj: "inj_on snd (set A)" using assms(2) by (auto simp: inj_on_def)
  show "\<exists>i. I - snd ` set (tl A) = {i}" if "A \<noteq> []"
  proof -
    obtain a B where A: "A = a # B" using \<open>A \<noteq> []\<close> by (cases A) auto
    have "snd a \<notin> snd ` set B" using inj assms(1) unfolding A by (auto simp: inj_on_def)
    then show ?thesis using eq unfolding A by auto
  qed
  show "\<exists>i. I - snd ` set (butlast A) = {i}" if "A \<noteq> []"
  proof -
    obtain B a where A: "A = B @ [a]" using \<open>A \<noteq> []\<close> by (cases A rule: rev_cases) auto
    have "snd a \<notin> snd ` set B" using inj assms(1) unfolding A by (auto simp: inj_on_def)
    then show ?thesis using eq unfolding A by auto
  qed
qed

definition idx_of :: "RemoveOp list \<Rightarrow> OpKind \<Rightarrow> string \<Rightarrow> nat set" where
  "idx_of rms k e = rm_idx ` {r \<in> set rms. rm_op_kind r = k \<and> rm_enum_name r = e}"

lemma removed_where:
  "deltas_where (adds_enum e) db (fold apply_removal rms deltas) = deltas_where (adds_enum e) db deltas - idx_of rms OkAddEnum e"
  "deltas_where (drops_enum e) db (fold apply_removal rms deltas) = deltas_where (drops_enum e) db deltas - idx_of rms OkDropEnum e"
  "deltas_where (adds_variant e v) db (fold apply_removal rms deltas)
    = deltas_where (adds_variant e v) db deltas - idx_of rms (OkAddEnumVariant v) e"
proof -
  have by_add: "removed_by r (AddEnum en) \<longleftrightarrow> rm_op_kind r = OkAddEnum \<and> rm_enum_name r = e_name en" for r en
    by (auto simp: removed_by_def split: OpKind.split)
  have by_drop: "removed_by r (DropEnum n) \<longleftrightarrow> rm_op_kind r = OkDropEnum \<and> rm_enum_name r = n" for r n
    by (auto simp: removed_by_def split: OpKind.split)
  have by_variant: "removed_by r (AddEnumVariant n w a) \<longleftrightarrow> rm_op_kind r = OkAddEnumVariant w \<and> rm_enum_name r = n" for r n w a
    by (auto simp: removed_by_def split: OpKind.split)
  show "deltas_where (adds_enum e) db (fold apply_removal rms deltas) = deltas_where (adds_enum e) db deltas - idx_of rms OkAddEnum e"
    by (force simp: deltas_where_def adds_enum_def apply_removals_nth by_add idx_of_def)
  show "deltas_where (drops_enum e) db (fold apply_removal rms deltas) = deltas_where (drops_enum e) db deltas - idx_of rms OkDropEnum e"
    by (auto simp: deltas_where_def drops_enum_def apply_removals_nth by_drop idx_of_def)
  show "deltas_where (adds_variant e v) db (fold apply_removal rms deltas)
    = deltas_where (adds_variant e v) db deltas - idx_of rms (OkAddEnumVariant v) e"
    by (auto simp: deltas_where_def adds_variant_def apply_removals_nth by_variant idx_of_def)
qed

text \<open>The removals that hit the deltas of one database are those of its context.\<close>

lemma removals_in_db:
  assumes "bt_ok models" "bt_ok snapshots" "distinct (map d_bucket deltas)" "\<forall>delta\<in>set deltas. distinct (dropped_names delta)"
    and "reconcile_db deps db (db_context deltas models snapshots db) = Some (Inr (rs, es))"
  shows "idx_of rs OkAddEnum e \<subseteq> deltas_where (adds_enum e) db deltas"
    and "idx_of rs OkDropEnum e \<subseteq> deltas_where (drops_enum e) db deltas"
proof -
  let ?ctx = "db_context deltas models snapshots db"
  from reconcile_db_parts [OF assms(5)] obtain order where
    r: "\<And>r e. r \<in> set rs \<and> rm_op_kind r = OkAddEnum \<and> rm_enum_name r = e \<longleftrightarrow> r \<in> set (fst (reconcile_adds order ?ctx e))"
    "\<And>r e. r \<in> set rs \<and> rm_op_kind r = OkDropEnum \<and> rm_enum_name r = e \<longleftrightarrow> r \<in> set (reconcile_drops order ?ctx e)"
    by metis
  have "set (tl xs) \<subseteq> set xs" "set (butlast xs) \<subseteq> set xs" for xs :: "(BucketKey \<times> nat) list"
    by (auto dest: in_set_butlastD list.set_sel(2) intro: list.set_sel(2))
  then have parts: "set (tl (by_topo order xs)) \<subseteq> set xs" "set (butlast (by_topo order xs)) \<subseteq> set xs" for xs
    by (metis set_by_topo(1))+
  have "idx_of rs OkAddEnum e = rm_idx ` set (fst (reconcile_adds order ?ctx e))"
    using r(1) unfolding idx_of_def by blast
  also have "\<dots> \<subseteq> snd ` set (enum_adders ?ctx e)"
    unfolding adds_removed using parts(1) [of "enum_adders ?ctx e"] by auto
  also have "\<dots> = deltas_where (adds_enum e) db deltas"
    by (rule keep_one(1) [OF adders_result [OF assms(3)]])
  finally show "idx_of rs OkAddEnum e \<subseteq> deltas_where (adds_enum e) db deltas" .
  have "idx_of rs OkDropEnum e = rm_idx ` set (reconcile_drops order ?ctx e)"
    using r(2) unfolding idx_of_def by blast
  also have "\<dots> \<subseteq> snd ` set (enum_droppers ?ctx e)"
    unfolding drops_removed [OF assms(1,2) refl] using parts(2) [of "enum_droppers ?ctx e"] by auto
  also have "\<dots> = deltas_where (drops_enum e) db deltas"
    by (rule keep_one(1) [OF droppers_result [OF assms(3,4)]])
  finally show "idx_of rs OkDropEnum e \<subseteq> deltas_where (drops_enum e) db deltas" .
qed

lemma deltas_where_one_db: "i \<in> deltas_where P db deltas \<Longrightarrow> i \<in> deltas_where P db' deltas \<Longrightarrow> db = db'"
  by (simp add: deltas_where_def)

lemma reconcile_removals:
  assumes "bt_ok models" "bt_ok snapshots" "distinct (map d_bucket deltas)" "\<forall>delta\<in>set deltas. distinct (dropped_names delta)"
    and rec: "reconcile_enum_ops_across_buckets deltas models snapshots deps = Some (Inr (deltas', edges))"
    and db: "db \<in> (\<lambda>delta. database (d_bucket delta)) ` set deltas"
  obtains rms order where "deltas' = fold apply_removal rms deltas"
    "\<And>e. deltas_where (adds_enum e) db deltas \<inter> idx_of rms OkAddEnum e
      = rm_idx ` set (fst (reconcile_adds order (db_context deltas models snapshots db) e))"
    "\<And>e. deltas_where (drops_enum e) db deltas \<inter> idx_of rms OkDropEnum e
      = rm_idx ` set (reconcile_drops order (db_context deltas models snapshots db) e)"
    "\<And>e b a. (b, a) \<in> set (snd (reconcile_adds order (db_context deltas models snapshots db) e)) \<Longrightarrow> a \<in> members edges b"
proof -
  let ?ctx = "\<lambda>db. db_context deltas models snapshots db"
  let ?f = "\<lambda>db. reconcile_db deps db (?ctx db)"
  obtain rms es where dbs: "reconcile_dbs ?f (bs_collect (map (\<lambda>delta. database (d_bucket delta)) deltas)) = Some (Inr (rms, es))"
    and deltas': "deltas' = fold apply_removal rms deltas" and edges: "edges = fold (\<lambda>(bucket, a). extend_entry bucket [a]) es []"
    using rec by (auto simp: reconcile_enum_ops_across_buckets_def split: option.splits sum.splits prod.splits)
  from reconcile_dbs_result [OF dbs] db obtain rs es1 where
    one: "?f db = Some (Inr (rs, es1))" "set rs \<subseteq> set rms" "set es1 \<subseteq> set es" by fastforce
  from reconcile_db_parts [OF one(1)] obtain order where
    r: "\<And>r e. r \<in> set rs \<and> rm_op_kind r = OkAddEnum \<and> rm_enum_name r = e \<longleftrightarrow> r \<in> set (fst (reconcile_adds order (?ctx db) e))"
    "\<And>r e. r \<in> set rs \<and> rm_op_kind r = OkDropEnum \<and> rm_enum_name r = e \<longleftrightarrow> r \<in> set (reconcile_drops order (?ctx db) e)"
    "\<And>e. set (snd (reconcile_adds order (?ctx db) e)) \<subseteq> set es1"
    by metis
  note inside = removals_in_db [OF assms(1-4)]
  have others: "\<exists>db' rs' es'. ?f db' = Some (Inr (rs', es')) \<and> r \<in> set rs'" if "r \<in> set rms" for r
    using reconcile_dbs_result [OF dbs] that by blast
  have sub: "idx_of rs k e \<subseteq> idx_of rms k e" for k e using one(2) by (auto simp: idx_of_def)
  have local: "deltas_where P db deltas \<inter> idx_of rms k e = idx_of rs k e"
    if inside: "\<And>db' rs' es'. ?f db' = Some (Inr (rs', es')) \<Longrightarrow> idx_of rs' k e \<subseteq> deltas_where P db' deltas" for P k e
  proof
    show "deltas_where P db deltas \<inter> idx_of rms k e \<subseteq> idx_of rs k e"
    proof
      fix i assume i: "i \<in> deltas_where P db deltas \<inter> idx_of rms k e"
      then obtain x where x: "x \<in> set rms" "rm_idx x = i" "rm_op_kind x = k" "rm_enum_name x = e" by (auto simp: idx_of_def)
      obtain db' rs' es' where o: "?f db' = Some (Inr (rs', es'))" "x \<in> set rs'" using others [OF x(1)] by blast
      then have i': "i \<in> idx_of rs' k e" using x by (auto simp: idx_of_def)
      then have "i \<in> deltas_where P db' deltas" using inside [OF o(1)] by blast
      then have "db' = db" using i deltas_where_one_db by blast
      with o(1) one(1) i' show "i \<in> idx_of rs k e" by simp
    qed
  qed (use inside [OF one(1)] sub in blast)
  have 1: "deltas_where (adds_enum e) db deltas \<inter> idx_of rms OkAddEnum e
      = rm_idx ` set (fst (reconcile_adds order (?ctx db) e))" for e
  proof -
    have "{r \<in> set rs. rm_op_kind r = OkAddEnum \<and> rm_enum_name r = e} = set (fst (reconcile_adds order (?ctx db) e))"
      using r(1) [of _ e] by auto
    then show ?thesis using local [where P = "adds_enum e" and k = OkAddEnum and e = e, OF inside(1)] by (simp add: idx_of_def)
  qed
  have 2: "deltas_where (drops_enum e) db deltas \<inter> idx_of rms OkDropEnum e
      = rm_idx ` set (reconcile_drops order (?ctx db) e)" for e
  proof -
    have "{r \<in> set rs. rm_op_kind r = OkDropEnum \<and> rm_enum_name r = e} = set (reconcile_drops order (?ctx db) e)"
      using r(2) [of _ e] by auto
    then show ?thesis using local [where P = "drops_enum e" and k = OkDropEnum and e = e, OF inside(2)] by (simp add: idx_of_def)
  qed
  have split: "(\<lambda>(bucket, a). extend_entry bucket [a]) = (\<lambda>x. extend_entry (fst x) [snd x])" by auto
  have 3: "a \<in> members edges b" if "(b, a) \<in> set (snd (reconcile_adds order (?ctx db) e))" for e b a
  proof -
    have "(b, a) \<in> set es" using that r(3) one(3) by blast
    then show ?thesis
      using fold_extend [OF sets_ok_Nil, of fst "\<lambda>x. [snd x]" es b] unfolding edges split by force
  qed
  show thesis by (rule that [OF deltas' 1 2 3])
qed

lemma reconcile_buckets:
  assumes "reconcile_enum_ops_across_buckets deltas models snapshots deps = Some (Inr (deltas', edges))"
  shows "map d_bucket deltas' = map d_bucket deltas"
proof -
  obtain rms where "deltas' = fold apply_removal rms deltas"
    using assms by (auto simp: reconcile_enum_ops_across_buckets_def split: option.splits sum.splits prod.splits)
  then show ?thesis by (intro nth_equalityI) (simp_all add: apply_removals_nth)
qed

text \<open>
  The deltas come from a diff against \<open>diffed\<close>, the snapshots with their apps renamed, while the
  reconciliation looks at the snapshots as they are.
\<close>

theorem shared_enums_once:
  assumes ok: "bt_ok models" "bt_ok snapshots" and differ: "differ_enum_ops models diffed deltas"
    and same: "\<And>db. names_of_db diffed db = names_of_db snapshots db"
    and fresh: "\<And>k. e \<in> names_in models k - names_in diffed k \<Longrightarrow> e \<notin> names_in snapshots k"
    and rec: "reconcile_enum_ops_across_buckets deltas models snapshots deps = Some (Inr (deltas', edges))"
  shows "card (deltas_where (adds_enum e) db deltas') = (if e \<in> names_of_db models db - names_of_db snapshots db then 1 else 0)
    \<and> card (deltas_where (drops_enum e) db deltas') = (if e \<in> names_of_db snapshots db - names_of_db models db then 1 else 0)
    \<and> (\<forall>i\<in>deltas_where (adds_enum e) db deltas. \<forall>j\<in>deltas_where (adds_enum e) db deltas'. i \<noteq> j \<longrightarrow>
        app (d_bucket (deltas ! j)) \<in> members edges (d_bucket (deltas ! i)))"
proof (cases "db \<in> (\<lambda>delta. database (d_bucket delta)) ` set deltas")
  case False
  have buckets: "length deltas' = length deltas" "\<And>i. i < length deltas \<Longrightarrow> d_bucket (deltas' ! i) = d_bucket (deltas ! i)"
    using reconcile_buckets [OF rec] by (metis length_map) (metis reconcile_buckets [OF rec] length_map nth_map)
  have "deltas_where P db deltas' = {}" "deltas_where P db deltas = {}" for P
    using False by (auto simp: deltas_where_def buckets)
  moreover have "e \<notin> names_of_db models db - names_of_db snapshots db" "e \<notin> names_of_db snapshots db - names_of_db models db"
    using False differ unfolding same [symmetric] by (fastforce simp: differ_enum_ops_def names_of_db_def)+
  ultimately show ?thesis by simp
next
  case True
  let ?ctx = "db_context deltas models snapshots db"
  let ?I = "deltas_where (adds_enum e) db deltas" and ?J = "deltas_where (drops_enum e) db deltas"
  have distinct: "distinct (map d_bucket deltas)" "\<forall>delta\<in>set deltas. distinct (dropped_names delta)"
    using differ by (simp_all add: differ_enum_ops_def)
  obtain rms order where deltas': "deltas' = fold apply_removal rms deltas"
    and adds: "?I \<inter> idx_of rms OkAddEnum e = rm_idx ` set (fst (reconcile_adds order ?ctx e))"
    and drops: "?J \<inter> idx_of rms OkDropEnum e = rm_idx ` set (reconcile_drops order ?ctx e)"
    and edge: "\<And>b a. (b, a) \<in> set (snd (reconcile_adds order ?ctx e)) \<Longrightarrow> a \<in> members edges b"
    by (rule reconcile_removals [OF ok distinct rec True]) blast
  define A where "A = by_topo order (enum_adders ?ctx e)"
  define D where "D = by_topo order (enum_droppers ?ctx e)"
  have A: "distinct A" "set A = (\<lambda>i. (d_bucket (deltas ! i), i)) ` ?I"
    using adders_result [OF distinct(1)] by (simp_all add: A_def)
  have D: "distinct D" "set D = (\<lambda>i. (d_bucket (deltas ! i), i)) ` ?J"
    using droppers_result [OF distinct] by (simp_all add: D_def)
  have "e \<in> names_in models (d_bucket (deltas ! i)) - names_in diffed (d_bucket (deltas ! i))" if "i \<in> ?I" for i
    using that differ nth_mem [of i deltas] unfolding differ_enum_ops_def deltas_where_def by blast
  then have I: "e \<in> names_in models (d_bucket (deltas ! i))" "e \<notin> names_in snapshots (d_bucket (deltas ! i))" if "i \<in> ?I" for i
    using that fresh by blast+
  have J: "e \<notin> names_in models (d_bucket (deltas ! i))" "e \<in> names_in diffed (d_bucket (deltas ! i))" if "i \<in> ?J" for i
    using that differ nth_mem [of i deltas] unfolding differ_enum_ops_def deltas_where_def by blast+
  have I_empty: "?I \<noteq> {}" if e: "e \<in> names_of_db models db - names_of_db snapshots db"
  proof -
    obtain k where "database k = db" "e \<in> names_in models k - names_in diffed k"
      using e unfolding same [symmetric] by (auto simp: names_of_db_def)
    moreover from this(2) obtain d where "d \<in> set deltas" "d_bucket d = k" "adds_enum e d"
      using differ unfolding differ_enum_ops_def by blast
    ultimately show ?thesis by (force simp: deltas_where_def in_set_conv_nth)
  qed
  have J_empty: "?J \<noteq> {}" if e: "e \<in> names_of_db snapshots db - names_of_db models db"
  proof -
    obtain k where "database k = db" "e \<in> names_in diffed k - names_in models k"
      using e unfolding same [symmetric] by (auto simp: names_of_db_def)
    moreover from this(2) obtain d where "d \<in> set deltas" "d_bucket d = k" "drops_enum e d"
      using differ unfolding differ_enum_ops_def by blast
    ultimately show ?thesis by (force simp: deltas_where_def in_set_conv_nth)
  qed
  have add_idx: "deltas_where (adds_enum e) db deltas' = ?I - rm_idx ` set (fst (reconcile_adds order ?ctx e))"
    using adds unfolding deltas' removed_where by blast
  have drop_idx: "deltas_where (drops_enum e) db deltas' = ?J - rm_idx ` set (reconcile_drops order ?ctx e)"
    using drops unfolding deltas' removed_where by blast
  have "(if e \<in> names_of_db models db - names_of_db snapshots db
      then \<exists>i. deltas_where (adds_enum e) db deltas' = {i} else deltas_where (adds_enum e) db deltas' = {})
    \<and> (\<forall>i\<in>?I. \<forall>j\<in>deltas_where (adds_enum e) db deltas'. i \<noteq> j \<longrightarrow> app (d_bucket (deltas ! j)) \<in> members edges (d_bucket (deltas ! i)))"
  proof (cases "?I = {}")
    case True
    with I_empty show ?thesis unfolding add_idx by auto
  next
    case False
    then have "A \<noteq> []" using A(2) by auto
    have proj: "e \<in> names_of_db models db" using False I(1) by (force simp: names_of_db_def deltas_where_def)
    have owner: "has_snapshot_owner ?ctx e A \<longleftrightarrow> e \<in> names_of_db snapshots db"
      by (rule snapshot_owner [OF ok \<open>A \<noteq> []\<close>]) (use A(2) I(2) in auto)
    show ?thesis
    proof (cases "e \<in> names_of_db snapshots db")
      case True
      then have "deltas_where (adds_enum e) db deltas' = {}"
        unfolding add_idx adds_removed using owner keep_one(1) [OF A] by (simp add: A_def)
      with True show ?thesis by simp
    next
      case False
      then have rest: "deltas_where (adds_enum e) db deltas' = ?I - snd ` set (tl A)"
        unfolding add_idx adds_removed using owner by (simp add: A_def)
      then have one: "\<exists>i. deltas_where (adds_enum e) db deltas' = {i}" using keep_one(2) [OF A \<open>A \<noteq> []\<close>] by simp
      have "app (d_bucket (deltas ! j)) \<in> members edges (d_bucket (deltas ! i))"
        if ij: "i \<in> ?I" "j \<in> deltas_where (adds_enum e) db deltas'" "i \<noteq> j" for i j
      proof -
        obtain a B where AB: "A = a # B" using \<open>A \<noteq> []\<close> by (cases A) auto
        have pairs: "x \<in> set A \<Longrightarrow> x = (d_bucket (deltas ! snd x), snd x)" for x using A(2) by auto
        have all: "?I = insert (snd a) (snd ` set B)" using keep_one(1) [OF A] by (simp add: AB)
        have "j = snd a" using ij(2) unfolding rest AB all by auto
        moreover from this have "i \<in> snd ` set B" using ij(1,3) unfolding all by auto
        ultimately have "j = snd a" "i \<in> snd ` set B" .
        then obtain b where b: "b \<in> set B" "snd b = i" by blast
        have "snd (reconcile_adds order ?ctx e) = map (\<lambda>x. (fst x, app (fst a))) B"
          using owner False unfolding reconcile_adds_def A_def [symmetric] AB by (simp add: Let_def split_beta)
        moreover have "fst b = d_bucket (deltas ! i)" using pairs [of b] b unfolding AB by (metis fst_conv list.set_intros(2))
        ultimately have "(d_bucket (deltas ! i), app (fst a)) \<in> set (snd (reconcile_adds order ?ctx e))"
          using b(1) by force
        moreover have "fst a = d_bucket (deltas ! j)" using pairs [of a] AB \<open>j = snd a\<close> by (metis fst_conv list.set_intros(1))
        ultimately show ?thesis using edge by simp
      qed
      with one proj False show ?thesis by simp
    qed
  qed
  moreover have "if e \<in> names_of_db snapshots db - names_of_db models db
      then \<exists>i. deltas_where (drops_enum e) db deltas' = {i} else deltas_where (drops_enum e) db deltas' = {}"
  proof (cases "?J = {}")
    case True
    with J_empty show ?thesis unfolding drop_idx by auto
  next
    case False
    then have "D \<noteq> []" using D(2) by auto
    have snap: "e \<in> names_of_db snapshots db"
      using False J(2) unfolding same [symmetric] by (force simp: names_of_db_def deltas_where_def)
    have "snd ` set (enum_droppers ?ctx e) = ?J" using keep_one(1) [OF D] by (simp add: D_def)
    then show ?thesis
      using keep_one(3) [OF D \<open>D \<noteq> []\<close>] snap unfolding drop_idx drops_removed [OF ok refl] by (auto simp: D_def)
  qed
  ultimately show ?thesis by (auto split: if_splits)
qed

end
