(* ===== verification/Compose.thy ===== *)
theory Compose
  imports Compose_Enums
begin

text \<open>
  The decisions of \<open>compose\<close> in \<open>djogi/src/migrate/compose.rs\<close>: which deltas become migrations,
  in which cases it refuses, what each migration depends on, and which snapshots it advances on
  the way. Writing the files of a migration is not modelled; the snapshots it writes before the
  last checks are part of the result.
\<close>

record AppLifecycle =
  al_label :: string
  al_database :: string
  al_renamed_from :: "string option"
  al_tombstone :: bool

record ComposeRequest =
  cq_models :: "(BucketKey, AppliedSchema) btree"
  cq_snapshots :: "(BucketKey, AppliedSchema) btree"
  cq_apps :: "AppLifecycle list"
  cq_allow_destructive :: bool
  cq_pk_flip_join_table_option :: "PkFlipJoinTableOption option"

section \<open>Before the diff\<close>

definition remap_snapshots_for_renames ::
  "(BucketKey, AppliedSchema) btree \<Rightarrow> AppLifecycle list \<Rightarrow> (BucketKey, AppliedSchema) btree" where
  "remap_snapshots_for_renames snapshots apps =
     (let rename_map = bt_collect (List.map_filter (\<lambda>a.
            map_option (\<lambda>old. ((al_database a, old), al_label a)) (al_renamed_from a)) apps)
      in if rename_map = [] then snapshots
         else bt_collect (map (\<lambda>(key, schema).
            case bt_get rename_map (database key, app key) of
              Some new_label \<Rightarrow>
                (BucketKey (database key) new_label,
                 schema\<lparr>s_registered_apps := map (\<lambda>entry. if entry = app key then new_label else entry)
                    (s_registered_apps schema)\<rparr>)
            | None \<Rightarrow> (key, schema)) snapshots))"

definition has_models :: "(BucketKey, AppliedSchema) btree \<Rightarrow> BucketKey \<Rightarrow> bool" where
  "has_models schemas bucket = (case bt_get schemas bucket of Some s \<Rightarrow> s_models s \<noteq> [] | None \<Rightarrow> False)"

definition tombstone_error :: "ComposeRequest \<Rightarrow> ComposeError option" where
  "tombstone_error req =
     (if cq_allow_destructive req then None
      else map_option (\<lambda>a. TombstonedAppRequiresAllowDestructive (al_label a) (al_database a))
        (find (\<lambda>a. al_tombstone a
           \<and> (has_models (cq_models req) (BucketKey (al_database a) (al_label a))
              \<or> has_models (cq_snapshots req) (BucketKey (al_database a) (al_label a)))) (cq_apps req)))"

definition linkage_error :: "ComposeRequest \<Rightarrow> (BucketKey, AppliedSchema) btree \<Rightarrow> ComposeError option" where
  "linkage_error req snapshots_for_diff =
     map_option (\<lambda>(bucket, _). LinkageDropWithoutModels (app bucket) (database bucket))
       (find (\<lambda>(bucket, snap). s_models snap \<noteq> []
          \<and> \<not> list_ex (\<lambda>a. al_tombstone a \<and> al_database a = database bucket \<and> al_label a = app bucket) (cq_apps req)
          \<and> \<not> has_models (cq_models req) bucket) snapshots_for_diff)"

section \<open>The deltas\<close>

fun insert_first :: "BucketKey \<Rightarrow> SchemaOperation \<Rightarrow> SchemaDelta list \<Rightarrow> SchemaDelta list" where
  "insert_first bucket op [] = []"
| "insert_first bucket op (delta # deltas) =
     (if d_bucket delta = bucket then delta\<lparr>d_operations := op # d_operations delta\<rparr> # deltas
      else delta # insert_first bucket op deltas)"

definition inject_renames :: "AppLifecycle list \<Rightarrow> SchemaDelta list \<Rightarrow> SchemaDelta list" where
  "inject_renames apps deltas =
     fold (\<lambda>a deltas.
       case al_renamed_from a of
         None \<Rightarrow> deltas
       | Some prior_label \<Rightarrow>
           insert_first (BucketKey (al_database a) (al_label a)) (RenameApp prior_label (al_label a)) deltas) apps deltas"

definition effective :: "SchemaDelta \<Rightarrow> bool" where
  "effective delta \<longleftrightarrow> d_operations delta \<noteq> [] \<or> d_classification delta \<noteq> NoOp"

definition reclassify :: "SchemaDelta list \<Rightarrow> SchemaDelta list" where
  "reclassify = map (\<lambda>delta. delta\<lparr>d_classification := classify (d_operations delta)\<rparr>)"

definition add_edges ::
  "(BucketKey, string list) btree \<Rightarrow> (BucketKey, string list) btree \<Rightarrow> (BucketKey, string list) btree" where
  "add_edges enum_edges cross_deps = fold (\<lambda>(bucket, deps). extend_entry bucket deps) enum_edges cross_deps"

section \<open>The last checks\<close>

definition gate :: "bool \<Rightarrow> SchemaDelta \<Rightarrow> ComposeError option" where
  "gate allow_destructive delta =
     (case d_classification delta of
        ClsUnsupported reason \<Rightarrow> Some (UnsupportedDelta (d_bucket delta) reason)
      | Destructive \<Rightarrow>
          if allow_destructive then None else Some (DestructiveRequiresAllowDestructive (d_bucket delta) Destructive)
      | Lossy \<Rightarrow>
          if allow_destructive then None else Some (DestructiveRequiresAllowDestructive (d_bucket delta) Lossy)
      | _ \<Rightarrow> None)"

fun first_error :: "('a \<Rightarrow> ComposeError option) \<Rightarrow> 'a list \<Rightarrow> ComposeError option" where
  "first_error f [] = None"
| "first_error f (x # xs) = (case f x of Some e \<Rightarrow> Some e | None \<Rightarrow> first_error f xs)"

text \<open>The apps with a delta, per database.\<close>

definition effective_apps :: "SchemaDelta list \<Rightarrow> (string, string list) btree" where
  "effective_apps deltas = fold (\<lambda>delta. extend_entry (database (d_bucket delta)) [app (d_bucket delta)]) deltas []"

fun check_orders ::
  "(BucketKey, string list) btree \<Rightarrow> (string \<times> string list) list \<Rightarrow> ComposeError option option" where
  "check_orders cross_deps [] = Some None"
| "check_orders cross_deps ((db, apps) # rest) =
     (case order_buckets db apps cross_deps of
        None \<Rightarrow> None
      | Some (Inl chain) \<Rightarrow> Some (Some (CrossBucketForeignKeyCycle db chain))
      | Some (Inr _) \<Rightarrow> check_orders cross_deps rest)"

definition depends_on_map ::
  "SchemaDelta list \<Rightarrow> (BucketKey, string list) btree \<Rightarrow> (BucketKey, string list) btree \<Rightarrow> (BucketKey, string list) btree" where
  "depends_on_map deltas cross_deps enum_edges =
     fold (\<lambda>(bucket, deps). extend_entry bucket deps) enum_edges
       (map (\<lambda>(key, targets).
          (key, filter (\<lambda>t. t \<in> set (case bt_get (effective_apps deltas) (database key) of Some s \<Rightarrow> s | None \<Rightarrow> [])) targets))
          cross_deps)"

section \<open>Composing\<close>

record ComposePlan =
  cp_deltas :: "SchemaDelta list"
  cp_depends_on :: "(BucketKey, string list) btree"
  cp_converged :: "BucketKey list"

definition empty_schema_for :: "string \<Rightarrow> BucketKey \<Rightarrow> AppliedSchema" where
  "empty_schema_for version bucket =
     \<lparr>s_djogi_version = version, s_enums = [], s_format_version = SNAPSHOT_FORMAT_VERSION, s_generated_at = ''1970-01-01T00:00:00Z'',
      s_indexes = [], s_models = [], s_registered_apps = [app bucket]\<rparr>"

definition converged_snapshot :: "string \<Rightarrow> ComposeRequest \<Rightarrow> BucketKey \<Rightarrow> AppliedSchema" where
  "converged_snapshot version req bk =
     (case bt_get (cq_models req) bk of Some s \<Rightarrow> s | None \<Rightarrow> empty_schema_for version bk)"

text \<open>The diff with renames, or the error before it; \<^const>\<open>None\<close> is a failing \<open>expect\<close>.\<close>

definition compose_diff :: "ComposeRequest \<Rightarrow> (ComposeError + SchemaDelta list) option" where
  "compose_diff req =
     (case tombstone_error req of
        Some e \<Rightarrow> Some (Inl e)
      | None \<Rightarrow>
          let snapshots_for_diff = remap_snapshots_for_renames (cq_snapshots req) (cq_apps req)
          in case linkage_error req snapshots_for_diff of
               Some e \<Rightarrow> Some (Inl e)
             | None \<Rightarrow>
                 (case diff_bucket_maps snapshots_for_diff (cq_models req) of
                    None \<Rightarrow> None
                  | Some (Inl e) \<Rightarrow> Some (Inl (ComposeDiff e))
                  | Some (Inr deltas) \<Rightarrow>
                      map_option (\<lambda>ds. Inr (inject_renames (cq_apps req) ds))
                        (case cq_pk_flip_join_table_option req of
                           None \<Rightarrow> Some deltas
                         | Some opt \<Rightarrow> apply_pk_flip_join_table_option deltas opt)))"

text \<open>
  The rest, for the deltas that have work. \<open>phase_zero\<close> says whether the bootstrap migration was
  emitted by this run. The first component is the snapshots written to disk.
\<close>

definition compose_effective ::
  "string \<Rightarrow> bool \<Rightarrow> ComposeRequest \<Rightarrow> SchemaDelta list \<Rightarrow>
   ((BucketKey \<times> AppliedSchema) list \<times> (ComposeError + ComposePlan)) option" where
  "compose_effective version phase_zero req deltas =
     (let cross_deps = cross_bucket_dependencies deltas (table_to_bucket_index (cq_models req));
          buckets_with_ops = bs_collect (map d_bucket (filter (\<lambda>d. d_operations d \<noteq> []) deltas))
      in case reconcile_enum_ops_across_buckets deltas (cq_models req) (cq_snapshots req) cross_deps of
           None \<Rightarrow> None
         | Some (Inl e) \<Rightarrow> Some ([], Inl e)
         | Some (Inr (reconciled, enum_edges)) \<Rightarrow>
             let cross_deps = add_edges enum_edges cross_deps;
                 remaining = filter effective (reclassify reconciled);
                 converged = filter (\<lambda>bk. bk \<notin> d_bucket ` set remaining) buckets_with_ops;
                 writes = map (\<lambda>bk. (bk, converged_snapshot version req bk)) converged
             in if remaining = []
                then Some (writes, if phase_zero \<or> converged \<noteq> []
                       then Inr \<lparr>cp_deltas = [], cp_depends_on = [], cp_converged = converged\<rparr>
                       else Inl NothingToCompose)
                else case first_error (gate (cq_allow_destructive req)) remaining of
                       Some e \<Rightarrow> Some (writes, Inl e)
                     | None \<Rightarrow>
                         map_option (\<lambda>err. (writes, case err of
                             Some e \<Rightarrow> Inl e
                           | None \<Rightarrow> Inr \<lparr>cp_deltas = remaining,
                                          cp_depends_on = depends_on_map remaining cross_deps enum_edges,
                                          cp_converged = converged\<rparr>))
                           (check_orders cross_deps (effective_apps remaining)))"

definition compose_plan ::
  "string \<Rightarrow> bool \<Rightarrow> ComposeRequest \<Rightarrow>
   ((BucketKey \<times> AppliedSchema) list \<times> (ComposeError + ComposePlan)) option" where
  "compose_plan version phase_zero req =
     (case compose_diff req of
        None \<Rightarrow> None
      | Some (Inl e) \<Rightarrow> Some ([], Inl e)
      | Some (Inr deltas) \<Rightarrow>
          let work = filter effective deltas
          in if work = []
             then Some ([], if phase_zero then Inr \<lparr>cp_deltas = [], cp_depends_on = [], cp_converged = []\<rparr>
                        else Inl NothingToCompose)
             else compose_effective version phase_zero req work)"

end
