(* ===== verification/Diff_Enums.thy ===== *)
theory Diff_Enums
  imports Compose_Enums Sql_Props
begin

text \<open>
  The enum operations of the differ's deltas: which enums each bucket adds and drops. The other
  passes, moves, flips and renames leave them alone.
\<close>

definition enum_op :: "SchemaOperation \<Rightarrow> bool" where
  "enum_op op = (case op of AddEnum _ \<Rightarrow> True | DropEnum _ \<Rightarrow> True | AddEnumVariant _ _ _ \<Rightarrow> True | _ \<Rightarrow> False)"

lemma enum_op_simps [simp]:
  "enum_op (AddEnum e)" "enum_op (DropEnum n)" "enum_op (AddEnumVariant n v a)"
  "\<not> enum_op (DropTable t)" "\<not> enum_op (AddTable x)" "\<not> enum_op (RenameTable n n')"
  "\<not> enum_op (AddColumn n c)" "\<not> enum_op (DropColumn n n')" "\<not> enum_op (RenameColumn n n' n'')"
  "\<not> enum_op (AlterColumn n n' ch)" "\<not> enum_op (AddForeignKey n n' fk)" "\<not> enum_op (DropForeignKey n n' fk)"
  "\<not> enum_op (AddIndex i)" "\<not> enum_op (DropIndex i)"
  "\<not> enum_op (AddExclusionConstraint n x')" "\<not> enum_op (DropExclusionConstraint n n' x')"
  "\<not> enum_op (PkTypeFlip n k k')" "\<not> enum_op (PkTypeFlipGroup g)" "\<not> enum_op (PkTypeFlipMultiGroup gs)"
  "\<not> enum_op (RenameApp n n')" "\<not> enum_op (MoveModelBetweenApps n n' n'')"
  "\<not> enum_op (SetTableComment n o1 o2)" "\<not> enum_op (SetStorageParams n o1 o2)" "\<not> enum_op (SetTablespace n o1 o2)"
  "\<not> enum_op (Unsupported r)"
  by (simp_all add: enum_op_def)

abbreviation no_enums :: "SchemaOperation list \<Rightarrow> bool" where
  "no_enums ops \<equiv> list_all (\<lambda>op. \<not> enum_op op) ops"

lemma emit_alter_no_enums: "no_enums (emit_alter_column p b a)"
  by (auto simp: emit_alter_column_def foreign_key_changes_def list_all_iff split: option.splits if_splits)

lemma diff_columns_no_enums: "no_enums (fst (diff_columns_in_table b a))"
  unfolding diff_columns_in_table_def Let_def fst_conv
  by (simp add: list_all_rules emit_alter_no_enums split: option.split)

lemma diff_exclusions_no_enums: "no_enums (diff_exclusion_constraints_in_table b a)"
  unfolding diff_exclusion_constraints_in_table_def Let_def
  by (simp add: list_all_rules split: option.split)

lemma diff_table_pair_no_enums: "no_enums (diff_table_pair b a m)"
proof -
  have "no_enums (diff_pk_in_table b a renames)" for renames
    unfolding diff_pk_in_table_def Let_def by (simp del: append_Cons)
  moreover have "no_enums (diff_app_move_in_table b a)" "no_enums (diff_table_metadata_in_table b a)"
    by (simp_all add: diff_app_move_in_table_def diff_table_metadata_in_table_def)
  ultimately show ?thesis
    using diff_columns_no_enums diff_exclusions_no_enums by (simp add: diff_table_pair_def list_all_rules)
qed

lemma filter_no_enums: "no_enums ops \<Longrightarrow> filter enum_op ops = []"
  by (induction ops) auto

lemma diff_schemas_enums:
  "filter enum_op (d_operations (diff_schemas b a k)) = (if schema_eq b a then [] else filter enum_op (diff_enums b a))"
proof -
  have "no_enums (diff_tables b a T ds)" for T ds
    unfolding diff_tables_def by (simp add: list_all_rules diff_table_pair_no_enums split: option.split)
  moreover have "no_enums (diff_indexes b a T)" for T
    unfolding diff_indexes_def Let_def by (simp add: list_all_rules split: option.split)
  ultimately show ?thesis by (simp add: diff_schemas_def Let_def filter_no_enums)
qed

text \<open>One bucket's enum operations survive moves and promotion.\<close>

lemma bucket_delta_enums:
  assumes "bucket_delta before after bucket = Some (Inr \<delta>)"
  shows "filter enum_op (d_operations \<delta>)
    = filter enum_op (d_operations (diff_schemas (bucket_schema before bucket) (bucket_schema after bucket) bucket))"
proof -
  obtain gs where ops: "d_operations \<delta> = filter not_pk_flip (bucket_operations before after bucket) @ map PkTypeFlipGroup gs"
    using bucket_delta_ops(1) [OF assms] by blast
  have "enum_op op \<Longrightarrow> not_pk_flip op" "enum_op op \<Longrightarrow> keep_unmoved ms bucket op" for op ms
    by (cases op; simp add: not_pk_flip_def keep_unmoved_def)+
  then have "filter enum_op (filter not_pk_flip (filter (keep_unmoved ms bucket) xs)) = filter enum_op xs" for ms xs
    by (induction xs) auto
  moreover have "filter enum_op (map PkTypeFlipGroup gs) = []" by (simp add: filter_no_enums list_all_rules)
  moreover have "filter enum_op (filter not_pk_flip (move_operations ms bucket)) = []" for ms
    by (simp add: move_operations_def filter_empty_conv)
  ultimately show ?thesis unfolding ops bucket_operations_def by simp
qed

lemma variant_ops:
  "AddEnum en \<notin> set (added_variants n us vs)" "DropEnum m \<notin> set (added_variants n us vs)"
  "AddEnum en \<notin> set (removed_variants n us vs)" "DropEnum m \<notin> set (removed_variants n us vs)"
  by (auto simp: added_variants_def removed_variants_def split: if_splits)

definition enum_piece :: "AppliedSchema \<Rightarrow> string \<Rightarrow> EnumSchema \<Rightarrow> SchemaOperation list" where
  "enum_piece b name ae =
     (case bt_get (s_enums b) name of
        None \<Rightarrow> [AddEnum ae]
      | Some be \<Rightarrow>
          if be = ae then []
          else added_variants name (e_variants be) (e_variants ae) @ removed_variants name (e_variants be) (e_variants ae))"

lemma diff_enums_pieces:
  "diff_enums b a = concat (map (\<lambda>(name, ae). enum_piece b name ae) (s_enums a))
     @ map DropEnum (filter (\<lambda>name. \<not> bt_has (s_enums a) name) (bt_keys (s_enums b)))"
  by (simp add: diff_enums_def enum_piece_def)

lemma enum_piece_ops:
  "AddEnum en \<in> set (enum_piece b n ae) \<longleftrightarrow> bt_get (s_enums b) n = None \<and> ae = en"
  "DropEnum m \<notin> set (enum_piece b n ae)"
  by (auto simp: enum_piece_def variant_ops split: option.splits)

lemma diff_enums_add:
  "AddEnum en \<in> set (diff_enums b a) \<longleftrightarrow> (\<exists>n. (n, en) \<in> set (s_enums a) \<and> bt_get (s_enums b) n = None)"
  unfolding diff_enums_pieces by (force simp: enum_piece_ops)

lemma diff_enums_adds:
  assumes "schema_ok a"
  shows "(\<exists>en. AddEnum en \<in> set (diff_enums b a) \<and> e_name en = e)
    \<longleftrightarrow> e \<in> set (bt_keys (s_enums a)) \<and> e \<notin> set (bt_keys (s_enums b))"
proof -
  have name: "(n, en) \<in> set (s_enums a) \<Longrightarrow> n = e_name en" for n en using assms by (auto simp: schema_ok_def)
  have "(\<exists>en. AddEnum en \<in> set (diff_enums b a) \<and> e_name en = e)
      \<longleftrightarrow> (\<exists>en. (e, en) \<in> set (s_enums a)) \<and> bt_get (s_enums b) e = None"
  proof
    assume "\<exists>en. AddEnum en \<in> set (diff_enums b a) \<and> e_name en = e"
    then obtain en n where "(n, en) \<in> set (s_enums a)" "bt_get (s_enums b) n = None" "e_name en = e"
      by (auto simp: diff_enums_add)
    moreover from this have "n = e" using name by simp
    ultimately show "(\<exists>en. (e, en) \<in> set (s_enums a)) \<and> bt_get (s_enums b) e = None" by auto
  next
    assume "(\<exists>en. (e, en) \<in> set (s_enums a)) \<and> bt_get (s_enums b) e = None"
    then obtain en where en: "(e, en) \<in> set (s_enums a)" "bt_get (s_enums b) e = None" by auto
    with name [OF en(1)] show "\<exists>en. AddEnum en \<in> set (diff_enums b a) \<and> e_name en = e"
      by (auto simp: diff_enums_add)
  qed
  moreover have "(\<exists>en. (e, en) \<in> set (s_enums a)) \<longleftrightarrow> e \<in> set (bt_keys (s_enums a))"
    by (force simp: bt_keys_def)
  ultimately show ?thesis by (simp add: bt_keys_bt_get)
qed

definition drops_of :: "SchemaOperation list \<Rightarrow> string list" where
  "drops_of ops = List.map_filter (\<lambda>op. case op of DropEnum n \<Rightarrow> Some n | _ \<Rightarrow> None) ops"

lemma drops_of_append: "drops_of (xs @ ys) = drops_of xs @ drops_of ys"
  by (simp add: drops_of_def List.map_filter_def)

lemma set_drops_of: "n \<in> set (drops_of ops) \<longleftrightarrow> DropEnum n \<in> set ops"
  by (induction ops) (auto simp: drops_of_def List.map_filter_simps split: SchemaOperation.splits)

lemma drops_of_none: "(\<And>n. DropEnum n \<notin> set ops) \<Longrightarrow> drops_of ops = []"
  using set_drops_of [of _ ops] by (metis list.set_intros(1) neq_Nil_conv)

lemma drops_of_DropEnum: "drops_of (map DropEnum ns) = ns"
  by (induction ns) (simp_all add: drops_of_def List.map_filter_simps)

lemma drops_of_filter: "drops_of (filter enum_op ops) = drops_of ops"
  by (induction ops) (auto simp: drops_of_def List.map_filter_simps enum_op_def split: SchemaOperation.splits)

lemma drops_of_Nil [simp]: "drops_of [] = []"
  by (simp add: drops_of_def List.map_filter_simps)

lemma diff_enums_drops:
  "drops_of (diff_enums b a) = filter (\<lambda>name. \<not> bt_has (s_enums a) name) (bt_keys (s_enums b))"
  unfolding diff_enums_pieces drops_of_append drops_of_DropEnum
  by (subst drops_of_none) (auto simp: enum_piece_ops)

section \<open>The deltas of all buckets\<close>

definition schemas_ok :: "(BucketKey, AppliedSchema) btree \<Rightarrow> bool" where
  "schemas_ok schemas \<longleftrightarrow> bt_ok schemas \<and> (\<forall>s\<in>set (bt_values schemas). schema_ok s)"

lemma bucket_schema_ok: "schemas_ok schemas \<Longrightarrow> schema_ok (bucket_schema schemas k)"
  using schema_ok_empty by (fastforce simp: schemas_ok_def bucket_schema_def bt_values_def bt_get_def dest: map_of_SomeD split: option.splits)

lemma names_in_bucket: "names_in schemas k = set (bt_keys (s_enums (bucket_schema schemas k)))"
  by (simp add: names_in_def bucket_schema_def empty_schema_def bt_keys_def split: option.split)

text \<open>Operations other than those on enums do not matter, nor do deltas without enum operations.\<close>

lemma enum_view:
  "adds_enum e delta \<longleftrightarrow> (\<exists>en. AddEnum en \<in> set (filter enum_op (d_operations delta)) \<and> e_name en = e)"
  "drops_enum e delta \<longleftrightarrow> e \<in> set (drops_of (filter enum_op (d_operations delta)))"
  "dropped_names delta = drops_of (filter enum_op (d_operations delta))"
  by (simp_all add: adds_enum_def drops_enum_def dropped_names_def drops_of_filter set_drops_of drops_of_def [symmetric])

lemma bucket_delta_view:
  assumes "schemas_ok before" "schemas_ok after" "bucket_delta before after k = Some (Inr \<delta>)"
  shows "adds_enum e \<delta> \<longleftrightarrow> e \<in> names_in after k - names_in before k"
    and "drops_enum e \<delta> \<longleftrightarrow> e \<in> names_in before k - names_in after k"
    and "distinct (dropped_names \<delta>)"
proof -
  let ?b = "bucket_schema before k" and ?a = "bucket_schema after k"
  have ok: "schema_ok ?b" "schema_ok ?a" using assms(1,2) bucket_schema_ok by blast+
  have view: "filter enum_op (d_operations \<delta>) = (if schema_eq ?b ?a then [] else filter enum_op (diff_enums ?b ?a))"
    using bucket_delta_enums [OF assms(3)] by (simp add: diff_schemas_enums)
  have same: "schema_eq ?b ?a \<Longrightarrow> s_enums ?b = s_enums ?a" by (simp add: schema_eq_def)
  show "adds_enum e \<delta> \<longleftrightarrow> e \<in> names_in after k - names_in before k"
    unfolding enum_view view names_in_bucket using same diff_enums_adds [OF ok(2), of ?b e] by auto
  show "drops_enum e \<delta> \<longleftrightarrow> e \<in> names_in before k - names_in after k"
    unfolding enum_view view names_in_bucket using same
    by (auto simp: drops_of_filter diff_enums_drops bt_has_iff)
  have "distinct (bt_keys (s_enums ?b))" using ok(1) by (simp add: schema_ok_def bt_ok_distinct bt_keys_def)
  then show "distinct (dropped_names \<delta>)"
    unfolding enum_view view by (simp add: drops_of_filter diff_enums_drops)
qed

text \<open>Two lists of deltas with the same buckets and the same enum operations.\<close>

definition same_enums :: "SchemaDelta \<Rightarrow> SchemaDelta \<Rightarrow> bool" where
  "same_enums d d' \<longleftrightarrow> d_bucket d = d_bucket d' \<and> filter enum_op (d_operations d) = filter enum_op (d_operations d')"

lemma same_enums_view:
  assumes "same_enums d d'"
  shows "adds_enum e d = adds_enum e d'" "drops_enum e d = drops_enum e d'" "dropped_names d = dropped_names d'"
  using assms by (simp_all add: same_enums_def enum_view)

lemma no_enum_view:
  assumes "d_operations d = []"
  shows "\<not> adds_enum e d" "\<not> drops_enum e d"
  using assms by (simp_all add: adds_enum_def drops_enum_def)

lemma diff_bucket_maps_enums:
  assumes ok: "schemas_ok before" "schemas_ok after" and diff: "diff_bucket_maps before after = Some (Inr deltas)"
    and same: "list_all2 same_enums deltas deltas'" and keep: "\<And>d. d_operations d \<noteq> [] \<Longrightarrow> P d"
  shows "differ_enum_ops after before (filter P deltas')"
proof -
  let ?ks = "bs_collect (bt_keys before @ bt_keys after)"
  have deltas: "map d_bucket deltas = ?ks" "\<And>\<delta>. \<delta> \<in> set deltas \<Longrightarrow> bucket_delta before after (d_bucket \<delta>) = Some (Inr \<delta>)"
    using bucket_deltas_result diff by (auto simp: diff_bucket_maps_def)
  have buckets: "map d_bucket deltas' = ?ks"
    using same unfolding deltas(1) [symmetric]
    by (induction rule: list_all2_induct) (simp_all add: same_enums_def)
  have one: "adds_enum e d \<longleftrightarrow> e \<in> names_in after (d_bucket d) - names_in before (d_bucket d)"
    "drops_enum e d \<longleftrightarrow> e \<in> names_in before (d_bucket d) - names_in after (d_bucket d)"
    "distinct (dropped_names d)" if d: "d \<in> set deltas'" for d e
  proof -
    obtain i where i: "i < length deltas" "d = deltas' ! i" using d list_all2_lengthD [OF same] by (auto simp: in_set_conv_nth)
    then obtain \<delta> where \<delta>: "\<delta> \<in> set deltas" "same_enums \<delta> d" using list_all2_nthD [OF same i(1)] nth_mem by metis
    note view = bucket_delta_view [OF ok deltas(2) [OF \<delta>(1)]]
    have b: "d_bucket d = d_bucket \<delta>" using \<delta>(2) by (simp add: same_enums_def)
    show "adds_enum e d \<longleftrightarrow> e \<in> names_in after (d_bucket d) - names_in before (d_bucket d)"
      "drops_enum e d \<longleftrightarrow> e \<in> names_in before (d_bucket d) - names_in after (d_bucket d)"
      "distinct (dropped_names d)"
      unfolding b same_enums_view [OF \<delta>(2), symmetric] by (rule view)+
  qed
  have exists: "\<exists>d\<in>set deltas'. d_bucket d = k" if "e \<in> names_in after k \<union> names_in before k" for k e
  proof -
    have "k \<in> set ?ks" using that by (auto simp: names_in_def bt_keys_bt_get split: option.splits)
    then have "k \<in> d_bucket ` set deltas'" using buckets by (metis set_map)
    then show ?thesis by auto
  qed
  have "distinct (map d_bucket deltas')" unfolding buckets using bs_ok_collect [of "bt_keys before @ bt_keys after"] by (simp add: bs_ok_def strict_sorted_iff)
  then have "distinct (map d_bucket (filter P deltas'))" by (rule distinct_map_filter)
  moreover have "\<forall>d\<in>set (filter P deltas'). distinct (dropped_names d)" using one(3) by auto
  moreover have "(\<exists>d\<in>set (filter P deltas'). d_bucket d = k \<and> adds_enum e d) \<longleftrightarrow> e \<in> names_in after k - names_in before k" for k e
  proof
    assume "e \<in> names_in after k - names_in before k"
    moreover from this obtain d where "d \<in> set deltas'" "d_bucket d = k" using exists by blast
    moreover have "P d" using keep no_enum_view(1) [of d e] one(1) [of d e] calculation by blast
    ultimately show "\<exists>d\<in>set (filter P deltas'). d_bucket d = k \<and> adds_enum e d" using one(1) by auto
  qed (use one(1) in auto)
  moreover have "(\<exists>d\<in>set (filter P deltas'). d_bucket d = k \<and> drops_enum e d) \<longleftrightarrow> e \<in> names_in before k - names_in after k" for k e
  proof
    assume "e \<in> names_in before k - names_in after k"
    moreover from this obtain d where "d \<in> set deltas'" "d_bucket d = k" using exists by blast
    moreover have "P d" using keep no_enum_view(2) [of d e] one(2) [of d e] calculation by blast
    ultimately show "\<exists>d\<in>set (filter P deltas'). d_bucket d = k \<and> drops_enum e d" using one(2) by auto
  qed (use one(2) in auto)
  ultimately show ?thesis unfolding differ_enum_ops_def by blast
qed

end
