(* ===== verification/Compose_Props.thy ===== *)
theory Compose_Props
  imports Compose Diff_Enums
begin

text \<open>
  What the composer promises: what it lets through without permission, the order and the
  dependencies it records, and one operation per shared enum.
\<close>

section \<open>The gate\<close>

definition harmless_op :: "SchemaOperation \<Rightarrow> bool" where
  "harmless_op op \<longleftrightarrow> severity_of op = SevAdditive \<or> severity_of op = SevReversible"

lemma classify_unsupported: "classify ops = ClsUnsupported r \<Longrightarrow> \<exists>r. Unsupported r \<in> set ops"
  using first_unsupported_Some by (fastforce simp: classify_def severity_class_def split: if_splits option.splits Severity.splits)

lemma classify_harmless:
  assumes "\<forall>r. Unsupported r \<notin> set ops" "\<not> list_ex is_pk_flip_op ops"
  shows "classify ops \<in> {NoOp, Additive, Reversible} \<longleftrightarrow> (\<forall>op\<in>set ops. harmless_op op)"
    and "classify ops \<in> {NoOp, Additive, Reversible, Destructive, Lossy}"
proof -
  have none: "first_unsupported ops = None" using assms(1) by (simp add: first_unsupported_None)
  have all: "severity_class s \<in> {NoOp, Additive, Reversible, Destructive, Lossy}" for s
    by (cases s) (simp_all add: severity_class_def)
  show "classify ops \<in> {NoOp, Additive, Reversible, Destructive, Lossy}"
    using all none assms(2) by (simp add: classify_def)
  show "classify ops \<in> {NoOp, Additive, Reversible} \<longleftrightarrow> (\<forall>op\<in>set ops. harmless_op op)"
  proof (cases "ops = []")
    case False
    have rank: "severity_class s \<in> {NoOp, Additive, Reversible} \<longleftrightarrow> s \<le> SevReversible"
      "harmless_op op \<longleftrightarrow> severity_of op \<le> SevReversible" for s op
      by (cases s; simp add: severity_class_def less_eq_Severity_def)
        (cases "severity_of op"; simp add: harmless_op_def less_eq_Severity_def)
    have "Max (severity_of ` set ops) \<le> SevReversible \<longleftrightarrow> (\<forall>op\<in>set ops. severity_of op \<le> SevReversible)"
      using False by (subst Max_le_iff) auto
    then show ?thesis unfolding classify_plain [OF False none assms(2)] rank by blast
  qed (simp add: classify_def)
qed

lemma gate_accepts:
  assumes "d_classification delta = classify (d_operations delta)"
  shows "gate allow delta = None \<longleftrightarrow> (\<forall>r. Unsupported r \<notin> set (d_operations delta))
      \<and> (allow \<or> list_ex is_pk_flip_op (d_operations delta) \<or> (\<forall>op\<in>set (d_operations delta). harmless_op op))"
proof (cases "\<forall>r. Unsupported r \<notin> set (d_operations delta)")
  case False
  then have "d_operations delta \<noteq> []" "first_unsupported (d_operations delta) \<noteq> None" by (auto simp: first_unsupported_None)
  then obtain r where "classify (d_operations delta) = ClsUnsupported r" by (auto simp: classify_def)
  with False assms show ?thesis by (simp add: gate_def)
next
  case True
  show ?thesis
  proof (cases "list_ex is_pk_flip_op (d_operations delta)")
    case flip: True
    then have "d_operations delta \<noteq> []" "first_unsupported (d_operations delta) = None"
      using True by (auto simp: first_unsupported_None)
    with True flip assms show ?thesis by (simp add: gate_def classify_def)
  next
    case False
    from classify_harmless [OF True False] True False assms show ?thesis by (auto simp: gate_def)
  qed
qed

text \<open>
  C36: a delta passes the gate exactly when it holds nothing unsupported and
  either destruction is permitted, or every operation is harmless, or some operation is a
  primary-key flip: a flip takes any drop beside it through the gate.
\<close>

theorem gate_accepts_iff:
  assumes "d_classification delta = classify (d_operations delta)"
  shows "gate allow delta = None \<longleftrightarrow> (\<forall>r. Unsupported r \<notin> set (d_operations delta))
      \<and> (allow \<or> list_ex is_pk_flip_op (d_operations delta) \<or> (\<forall>op\<in>set (d_operations delta). harmless_op op))"
  by (rule gate_accepts [OF assms])

theorem gate_accepts_iff_witness:
  "gate False \<lparr>d_bucket = BucketKey ''main'' ''shop'', d_operations = [DropTable ''orders'', PkTypeFlip ''users'' Serial HeerId],
     d_classification = ClsPkTypeFlip True False\<rparr> = None"
  by (subst gate_accepts_iff) (simp_all add: classify_def)

section \<open>Enum operations of the effective deltas\<close>

lemma list_all2_same_refl: "list_all2 same_enums ds ds"
  by (simp add: list_all2_same same_enums_def)

lemma same_enums_trans: "list_all2 same_enums ds ds' \<Longrightarrow> list_all2 same_enums ds' ds'' \<Longrightarrow> list_all2 same_enums ds ds''"
  by (rule list_all2_trans) (simp_all add: same_enums_def)

lemma set_option_enums: "filter enum_op (map (set_option opt) ops) = filter enum_op ops"
proof (induction ops)
  case (Cons op ops)
  then show ?case by (cases op) (simp_all add: set_option_def)
qed simp

lemma merge_clusters_enums:
  "merge_clusters cs ops gs = Inr (kept, multi) \<Longrightarrow> filter enum_op kept = filter enum_op ops"
proof (induction cs ops gs rule: merge_clusters.induct)
  case (2 root members clusters ops gs)
  have "enum_op op \<Longrightarrow> \<not> is_member_group ms op" for op ms by (cases op) (simp_all add: is_member_group_def)
  then have "filter enum_op (filter (\<lambda>op. \<not> is_member_group ms op) ops) = filter enum_op ops" for ms
    by (induction ops) auto
  with 2 show ?case by (auto simp: Let_def split: if_splits option.splits)
qed simp

lemma merge_deltas_enums: "merge_deltas ds = Some ds' \<Longrightarrow> list_all2 same_enums ds ds'"
proof (induction ds arbitrary: ds')
  case (Cons d ds)
  then obtain ops rest where ops: "merge_cross_flipping_groups_into_multi (d_operations d) = Some (Inr ops)"
    and rest: "merge_deltas ds = Some rest" "ds' = d\<lparr>d_operations := ops\<rparr> # rest"
    by (auto split: option.splits sum.splits)
  have "filter enum_op ops = filter enum_op (d_operations d)"
    using ops merge_clusters_enums by (auto simp: merge_cross_flipping_groups_into_multi_def filter_empty_conv
      split: option.splits sum.splits prod.splits)
  with Cons.IH [OF rest(1)] show ?case by (simp add: rest(2) same_enums_def)
qed simp

lemma apply_option_enums:
  assumes "apply_pk_flip_join_table_option ds opt = Some ds'"
  shows "list_all2 same_enums ds ds'"
proof -
  let ?ds = "map (\<lambda>d. d\<lparr>d_operations := map (set_option opt) (d_operations d)\<rparr>) ds"
  have 1: "list_all2 same_enums ds ?ds"
    by (simp add: list_all2_map2 list_all2_same same_enums_def set_option_enums)
  moreover have "list_all2 same_enums ?ds ds'"
    using assms merge_deltas_enums list_all2_same_refl by (auto simp: apply_pk_flip_join_table_option_def Let_def split: if_splits)
  ultimately show ?thesis by (rule same_enums_trans)
qed

lemma inject_renames_enums: "list_all2 same_enums ds (inject_renames apps ds)"
proof -
  have first: "list_all2 same_enums ds (insert_first k (RenameApp a b) ds)" for k a b ds
    by (induction ds) (auto simp: same_enums_def list_all2_same)
  show ?thesis unfolding inject_renames_def
  proof (induction apps arbitrary: ds)
    case Nil
    show ?case by (simp add: list_all2_same_refl)
  next
    case (Cons a apps)
    have "list_all2 same_enums ds (case al_renamed_from a of None \<Rightarrow> ds
      | Some prior \<Rightarrow> insert_first (BucketKey (al_database a) (al_label a)) (RenameApp prior (al_label a)) ds)"
      by (simp add: first list_all2_same_refl split: option.split)
    from same_enums_trans [OF this Cons.IH] show ?case by simp
  qed
qed

text \<open>The bucket of a snapshot once the apps are renamed, and the snapshots the differ sees.\<close>

definition app_renames :: "AppLifecycle list \<Rightarrow> (string \<times> string, string) btree" where
  "app_renames apps =
     bt_collect (List.map_filter (\<lambda>a. map_option (\<lambda>old. ((al_database a, old), al_label a)) (al_renamed_from a)) apps)"

definition renamed_bucket :: "AppLifecycle list \<Rightarrow> BucketKey \<Rightarrow> BucketKey" where
  "renamed_bucket apps key =
     (case bt_get (app_renames apps) (database key, app key) of
        Some new_label \<Rightarrow> BucketKey (database key) new_label
      | None \<Rightarrow> key)"

abbreviation diffed_snapshots :: "ComposeRequest \<Rightarrow> (BucketKey, AppliedSchema) btree" where
  "diffed_snapshots req \<equiv> remap_snapshots_for_renames (cq_snapshots req) (cq_apps req)"

text \<open>No two snapshots get the same bucket, and no models stand in a bucket that was renamed away.\<close>

definition renames_apart :: "ComposeRequest \<Rightarrow> bool" where
  "renames_apart req \<longleftrightarrow>
     distinct (map (renamed_bucket (cq_apps req)) (bt_keys (cq_snapshots req)))
     \<and> list_all (\<lambda>k. renamed_bucket (cq_apps req) k = k \<or> bt_get (cq_models req) k = None) (bt_keys (cq_snapshots req))"

lemma database_renamed [simp]: "database (renamed_bucket apps k) = database k"
  by (simp add: renamed_bucket_def split: option.split)

lemma schema_ok_apps [simp]: "schema_ok (s\<lparr>s_registered_apps := x\<rparr>) = schema_ok s"
  by (simp add: schema_ok_def)

lemma remapped_snapshots:
  assumes ok: "schemas_ok S" and apart: "distinct (map (renamed_bucket apps) (bt_keys S))"
  shows "schemas_ok (remap_snapshots_for_renames S apps)"
    and "bt_get S k = Some s \<Longrightarrow> names_in (remap_snapshots_for_renames S apps) (renamed_bucket apps k) = names_in S k"
    and "e \<in> names_in (remap_snapshots_for_renames S apps) k' \<Longrightarrow> \<exists>k s. bt_get S k = Some s \<and> k' = renamed_bucket apps k"
proof -
  define f :: "BucketKey \<times> AppliedSchema \<Rightarrow> BucketKey \<times> AppliedSchema" where "f = (\<lambda>(key, schema). case bt_get (app_renames apps) (database key, app key) of
      Some new_label \<Rightarrow> (BucketKey (database key) new_label,
        schema\<lparr>s_registered_apps := map (\<lambda>entry. if entry = app key then new_label else entry) (s_registered_apps schema)\<rparr>)
    | None \<Rightarrow> (key, schema))"
  let ?S' = "remap_snapshots_for_renames S apps"
  have f: "fst (f (k, s)) = renamed_bucket apps k" "s_enums (snd (f (k, s))) = s_enums s"
    "schema_ok (snd (f (k, s))) = schema_ok s" for k s
    by (simp_all add: f_def renamed_bucket_def split: option.split)
  have remap: "?S' = (if app_renames apps = [] then S else bt_collect (map f S))"
    by (simp add: remap_snapshots_for_renames_def app_renames_def f_def Let_def)
  have bt: "bt_ok S" using ok by (simp add: schemas_ok_def)
  have bt': "bt_ok ?S'" using bt by (simp add: remap bt.ok_collect)
  have keys: "map fst (map f S) = map (renamed_bucket apps) (bt_keys S)"
    using f(1) by (auto simp: bt_keys_def)
  have "map f S = S" if "app_renames apps = []"
    using that by (intro map_idI) (simp add: f_def bt_get_def split_beta)
  then have get: "bt_get ?S' = map_of (map f S)"
    using bt.get_collect_distinct [of "map f S"] apart unfolding remap keys
    by (auto simp: fun_eq_iff bt_get_map_of)
  have origin: "\<exists>k s. bt_get S k = Some s \<and> k' = renamed_bucket apps k \<and> x = snd (f (k, s))" if "bt_get ?S' k' = Some x" for k' x
  proof -
    have "(k', x) \<in> set (map f S)" using that unfolding get by (rule map_of_SomeD)
    then obtain k s where ks: "(k, s) \<in> set S" "(k', x) = f (k, s)" by auto
    moreover from ks(2) have "k' = renamed_bucket apps k" "x = snd (f (k, s))"
      using f(1) [of k s] by (metis fst_conv, metis snd_conv)
    ultimately show ?thesis using bt.entries_get [OF bt] by blast
  qed
  have "schema_ok x" if "(k, x) \<in> set ?S'" for k x
  proof -
    obtain k0 s where "bt_get S k0 = Some s" "x = snd (f (k0, s))"
      using origin bt.entries_get [OF bt'] \<open>(k, x) \<in> set ?S'\<close> by blast
    then show ?thesis using ok f(3) by (force simp: schemas_ok_def bt_values_def bt.entries_get [OF bt, symmetric])
  qed
  then show "schemas_ok ?S'" using bt' by (auto simp: schemas_ok_def bt_values_def)
  show "names_in ?S' (renamed_bucket apps k) = names_in S k" if s: "bt_get S k = Some s"
  proof -
    have "f (k, s) \<in> set (map f S)" using s bt.entries_get [OF bt] by simp
    then have "map_of (map f S) (fst (f (k, s))) = Some (snd (f (k, s)))"
      using apart [folded keys] by (intro map_of_is_SomeI) simp_all
    then show ?thesis using s f(1,2) [of k s] by (simp add: names_in_def get)
  qed
  show "\<exists>k s. bt_get S k = Some s \<and> k' = renamed_bucket apps k" if "e \<in> names_in ?S' k'"
    using that origin by (force simp: names_in_def split: option.splits)
qed

text \<open>What the reconciliation needs to know of the snapshots it looks at.\<close>

lemma renamed_names:
  assumes "schemas_ok (cq_snapshots req)" "renames_apart req"
  shows "names_of_db (diffed_snapshots req) db = names_of_db (cq_snapshots req) db"
    and "e \<in> names_in (cq_models req) k - names_in (diffed_snapshots req) k \<Longrightarrow> e \<notin> names_in (cq_snapshots req) k"
proof -
  let ?S = "cq_snapshots req" and ?S' = "diffed_snapshots req" and ?r = "renamed_bucket (cq_apps req)"
  have apart: "distinct (map ?r (bt_keys ?S))" using assms(2) by (simp add: renames_apart_def)
  note same = remapped_snapshots(2) [OF assms(1) apart] and old = remapped_snapshots(3) [OF assms(1) apart]
  have held: "\<exists>s. bt_get ?S k = Some s" if "e \<in> names_in ?S k" for e k
    using that by (auto simp: names_in_def split: option.splits)
  show "names_of_db ?S' db = names_of_db ?S db"
  proof (intro set_eqI iffI)
    fix e assume "e \<in> names_of_db ?S' db"
    then obtain k' where k': "database k' = db" "e \<in> names_in ?S' k'" by (auto simp: names_of_db_def)
    with old obtain k s where "bt_get ?S k = Some s" "k' = ?r k" by blast
    with k' same [of k s] show "e \<in> names_of_db ?S db" by (auto simp: names_of_db_def)
  next
    fix e assume "e \<in> names_of_db ?S db"
    then obtain k where k: "database k = db" "e \<in> names_in ?S k" by (auto simp: names_of_db_def)
    with held same have "e \<in> names_in ?S' (?r k)" by metis
    with k(1) show "e \<in> names_of_db ?S' db" unfolding names_of_db_def by (intro UN_I [of "?r k"]) simp_all
  qed
  show "e \<notin> names_in ?S k" if new: "e \<in> names_in (cq_models req) k - names_in ?S' k"
  proof
    assume e: "e \<in> names_in ?S k"
    with held obtain s where s: "bt_get ?S k = Some s" by blast
    then have "k \<in> set (bt_keys ?S)" by (force simp: bt_keys_def bt_get_def dest: map_of_SomeD)
    moreover have "bt_get (cq_models req) k \<noteq> None" using new by (auto simp: names_in_def split: option.splits)
    ultimately have "?r k = k" using assms(2) by (auto simp: renames_apart_def list_all_iff)
    with same [OF s] e new show False by simp
  qed
qed

lemma compose_diff_enums:
  assumes ok: "schemas_ok (cq_models req)" "schemas_ok (cq_snapshots req)" and apart: "renames_apart req"
    and "compose_diff req = Some (Inr deltas)"
  shows "differ_enum_ops (cq_models req) (diffed_snapshots req) (filter effective deltas)"
proof -
  have ok': "schemas_ok (diffed_snapshots req)"
    using remapped_snapshots(1) [OF ok(2)] apart by (simp add: renames_apart_def)
  obtain ds ds' where diff: "diff_bucket_maps (diffed_snapshots req) (cq_models req) = Some (Inr ds)"
    and opt: "(case cq_pk_flip_join_table_option req of None \<Rightarrow> Some ds | Some opt \<Rightarrow> apply_pk_flip_join_table_option ds opt) = Some ds'"
    and deltas: "deltas = inject_renames (cq_apps req) ds'"
    using assms(4) unfolding compose_diff_def Let_def by (auto split: option.splits sum.splits)
  have "list_all2 same_enums ds ds'"
    using opt apply_option_enums list_all2_same_refl by (auto split: option.splits)
  then have "list_all2 same_enums ds deltas" unfolding deltas
    by (rule same_enums_trans [OF _ inject_renames_enums])
  from diff_bucket_maps_enums [OF ok' ok(1) diff this] show ?thesis by (simp add: effective_def)
qed

section \<open>What a plan holds\<close>

text \<open>A plan with deltas comes from the last branch; without deltas nothing was left to do.\<close>

lemma compose_effective_parts:
  assumes "compose_effective version pz req deltas = Some (writes, Inr plan)"
  shows "\<exists>reconciled enum_edges.
    reconcile_enum_ops_across_buckets deltas (cq_models req) (cq_snapshots req)
       (cross_bucket_dependencies deltas (table_to_bucket_index (cq_models req))) = Some (Inr (reconciled, enum_edges))
    \<and> cp_deltas plan = filter effective (reclassify reconciled)
    \<and> (cp_deltas plan \<noteq> [] \<longrightarrow>
       first_error (gate (cq_allow_destructive req)) (cp_deltas plan) = None
       \<and> check_orders (add_edges enum_edges (cross_bucket_dependencies deltas (table_to_bucket_index (cq_models req))))
           (effective_apps (cp_deltas plan)) = Some None
       \<and> cp_depends_on plan = depends_on_map (cp_deltas plan)
           (add_edges enum_edges (cross_bucket_dependencies deltas (table_to_bucket_index (cq_models req)))) enum_edges)"
  using assms unfolding compose_effective_def Let_def
  by (auto split: option.splits sum.splits prod.splits if_splits)

lemma compose_plan_parts:
  assumes "compose_plan version pz req = Some (writes, Inr plan)"
  shows "\<exists>deltas. compose_diff req = Some (Inr deltas)
    \<and> (filter effective deltas = [] \<and> cp_deltas plan = []
      \<or> compose_effective version pz req (filter effective deltas) = Some (writes, Inr plan))"
  using assms unfolding compose_plan_def Let_def
  by (auto split: option.splits sum.splits if_splits)

lemma first_error_None: "first_error f xs = None \<longleftrightarrow> (\<forall>x\<in>set xs. f x = None)"
  by (induction xs) (auto split: option.splits)

text \<open>
  C11: without permission, a composed migration drops nothing and adds no column that
  existing rows cannot fill, unless it flips a primary key; and no migration holds a change
  the differ could not lower.
\<close>

theorem composed_is_permitted:
  assumes "compose_plan version pz req = Some (writes, Inr plan)" and "delta \<in> set (cp_deltas plan)"
  shows "d_classification delta = classify (d_operations delta)
    \<and> (\<forall>r. Unsupported r \<notin> set (d_operations delta))
    \<and> (cq_allow_destructive req \<or> list_ex is_pk_flip_op (d_operations delta) \<or> (\<forall>op\<in>set (d_operations delta). harmless_op op))"
proof -
  have "cp_deltas plan \<noteq> []" using assms(2) by auto
  with compose_plan_parts [OF assms(1)] obtain deltas where
    "compose_effective version pz req (filter effective deltas) = Some (writes, Inr plan)" by blast
  then obtain reconciled edges where parts: "cp_deltas plan = filter effective (reclassify reconciled)"
    "cp_deltas plan \<noteq> [] \<longrightarrow> first_error (gate (cq_allow_destructive req)) (cp_deltas plan) = None"
    using compose_effective_parts by blast
  have cls: "d_classification delta = classify (d_operations delta)"
    using assms(2) parts(1) by (auto simp: reclassify_def)
  have "cp_deltas plan \<noteq> []" using assms(2) by auto
  then have "gate (cq_allow_destructive req) delta = None"
    using parts(2) assms(2) by (simp add: first_error_None)
  then show ?thesis using cls gate_accepts [OF cls] by blast
qed

section \<open>The recorded order\<close>

lemma extend_all:
  assumes "sets_ok m"
  shows "sets_ok (fold (\<lambda>(k, xs). extend_entry k xs) kvs m)
    \<and> members (fold (\<lambda>(k, xs). extend_entry k xs) kvs m) j = members m j \<union> (\<Union>(k, xs)\<in>{x \<in> set kvs. fst x = j}. set xs)"
proof -
  have eq: "(\<lambda>(k, xs). extend_entry k xs) = (\<lambda>x. extend_entry (fst x) (snd x))" by auto
  show ?thesis unfolding eq using fold_extend [OF assms, of fst snd kvs j] by (simp add: split_beta)
qed

lemma members_entries: "bt_ok m \<Longrightarrow> (\<Union>(k, xs)\<in>{x \<in> set m. fst x = j}. set xs) = members m j"
  by (auto simp: members_def bt.entries_get split: option.splits)

lemma add_edges_members:
  assumes "sets_ok edges" "sets_ok deps"
  shows "sets_ok (add_edges edges deps)" "members (add_edges edges deps) k = members deps k \<union> members edges k"
proof -
  have "bt_ok edges" using assms(1) by (simp add: sets_ok_def)
  with extend_all [OF assms(2), of edges k] show "sets_ok (add_edges edges deps)"
    "members (add_edges edges deps) k = members deps k \<union> members edges k"
    unfolding add_edges_def by (simp_all add: members_entries)
qed

lemma effective_apps_members:
  "sets_ok (effective_apps deltas)"
  "members (effective_apps deltas) db = (\<lambda>d. app (d_bucket d)) ` {d \<in> set deltas. database (d_bucket d) = db}"
  using fold_extend [OF sets_ok_Nil, of "\<lambda>d. database (d_bucket d)" "\<lambda>d. [app (d_bucket d)]" deltas db]
  by (auto simp: effective_apps_def)

lemma reconcile_edges_ok:
  assumes "reconcile_enum_ops_across_buckets deltas models snapshots deps = Some (Inr (deltas', edges))"
  shows "sets_ok edges"
proof -
  have split: "(\<lambda>(bucket, a). extend_entry bucket [a]) = (\<lambda>x. extend_entry (fst x) [snd x])" by auto
  obtain es where es: "edges = fold (\<lambda>x. extend_entry (fst x) [snd x]) es []"
    using assms unfolding reconcile_enum_ops_across_buckets_def split by (auto split: option.splits sum.splits prod.splits)
  show ?thesis unfolding es by (rule conjunct1 [OF fold_extend [OF sets_ok_Nil]])
qed

lemma reconcile_ops_subset:
  assumes "reconcile_enum_ops_across_buckets deltas models snapshots deps = Some (Inr (deltas', edges))" "d' \<in> set deltas'"
  shows "\<exists>d\<in>set deltas. d_bucket d' = d_bucket d \<and> set (d_operations d') \<subseteq> set (d_operations d)"
proof -
  obtain rms where "deltas' = fold apply_removal rms deltas"
    using assms(1) by (auto simp: reconcile_enum_ops_across_buckets_def split: option.splits sum.splits prod.splits)
  then show ?thesis using assms(2) by (fastforce simp: in_set_conv_nth apply_removals_nth)
qed

lemma check_orders_passed:
  "check_orders deps entries = Some None \<Longrightarrow> (db, apps) \<in> set entries \<Longrightarrow> \<exists>out. order_buckets db apps deps = Some (Inr out)"
  by (induction deps entries rule: check_orders.induct) (auto split: option.splits sum.splits)

lemma members_waits_for:
  "waits_for db buckets deps a = set buckets \<inter> members deps (BucketKey db a)"
  by (auto simp: waits_for_def members_def split: option.splits)

lemma filtered_entries:
  assumes "sets_ok m"
  shows "sets_ok (map (\<lambda>(k, xs). (k, filter (P k) xs)) m)"
    and "members (map (\<lambda>(k, xs). (k, filter (P k) xs)) m) k = {x \<in> members m k. P k x}"
proof -
  have fst: "map fst (map (\<lambda>(k, xs). (k, filter (P k) xs)) m) = map fst m" by (simp add: split_beta comp_def)
  have get: "bt_get (map (\<lambda>(k, xs). (k, filter (P k) xs)) m) j = map_option (filter (P j)) (bt_get m j)" for j
    by (induction m) (auto simp: bt_get_def)
  show "sets_ok (map (\<lambda>(k, xs). (k, filter (P k) xs)) m)"
    using assms unfolding sets_ok_def bt_ok_def fst get by (auto simp: bs_ok_def sorted_wrt_filter)
  show "members (map (\<lambda>(k, xs). (k, filter (P k) xs)) m) k = {x \<in> members m k. P k x}"
    by (auto simp: members_def get split: option.splits)
qed

lemma depends_on_members:
  assumes "sets_ok deps" "sets_ok edges"
  shows "members (depends_on_map deltas deps edges) k = members deps k \<inter> members (effective_apps deltas) (database k) \<union> members edges k"
proof -
  let ?P = "\<lambda>key t. t \<in> set (case bt_get (effective_apps deltas) (database key) of Some s \<Rightarrow> s | None \<Rightarrow> [])"
  have P: "?P key t \<longleftrightarrow> t \<in> members (effective_apps deltas) (database key)" for key t
    by (simp add: members_def split: option.split)
  have eq: "depends_on_map deltas deps edges = fold (\<lambda>(bucket, deps). extend_entry bucket deps) edges
      (map (\<lambda>(k, xs). (k, filter (\<lambda>t. t \<in> members (effective_apps deltas) (database k)) xs)) deps)"
    unfolding depends_on_map_def P by (rule refl)
  have "bt_ok edges" using assms(2) by (simp add: sets_ok_def)
  with extend_all [OF filtered_entries(1) [OF assms(1), of "\<lambda>k t. t \<in> members (effective_apps deltas) (database k)"], of edges k]
  show ?thesis unfolding eq filtered_entries(2) [OF assms(1)] by (auto simp: members_entries)
qed

text \<open>
  The tables a statement needs: those of the foreign keys it creates. A delta refers to a bucket
  that alone holds a table it needs.
\<close>

inductive needs_table :: "SchemaOperation \<Rightarrow> string \<Rightarrow> bool" where
  new_table: "\<lbrakk>col \<in> set (t_columns table); c_foreign_key col = Some fk\<rbrakk> \<Longrightarrow> needs_table (AddTable table) (fk_ref_table fk)"
| new_column: "c_foreign_key col = Some fk \<Longrightarrow> needs_table (AddColumn table_name col) (fk_ref_table fk)"
| new_key: "needs_table (AddForeignKey table_name col_name fk) (fk_ref_table fk)"

inductive_simps needs_table_simps [simp]:
  "needs_table (AddTable table) t" "needs_table (AddColumn table_name col) t" "needs_table (AddForeignKey table_name col_name fk) t"

lemma fk_target_tables_needed: "t \<in> set (fk_target_tables op) \<longleftrightarrow> needs_table op t"
  by (cases op) (auto simp: fk_target_tables_def set_map_filter elim: needs_table.cases split: option.splits)

definition refers_to :: "(BucketKey, AppliedSchema) btree \<Rightarrow> SchemaDelta \<Rightarrow> BucketKey \<Rightarrow> bool" where
  "refers_to models delta owner \<longleftrightarrow>
     owner \<noteq> d_bucket delta \<and> database owner = database (d_bucket delta)
     \<and> (\<exists>op\<in>set (d_operations delta). \<exists>t schema. needs_table op t
          \<and> bt_get models owner = Some schema \<and> bt_has (s_models schema) t
          \<and> (\<forall>k s. bt_get models k = Some s \<longrightarrow> database k = database owner \<longrightarrow> bt_has (s_models s) t \<longrightarrow> k = owner))"

text \<open>
  C10: the apps of each database in a plan have an order in which a bucket that a migration refers
  to comes before it, and the migration records that bucket's app as a dependency. Referring
  means creating a foreign key to a table that this other bucket, and no other bucket of the
  database, holds; buckets outside the plan have nothing to be ordered.
\<close>

theorem composed_order_exists:
  assumes "bt_ok (cq_models req)" and plan: "compose_plan version pz req = Some (writes, Inr plan)"
  shows "\<exists>out. distinct out \<and> set out = (\<lambda>d. app (d_bucket d)) ` {d \<in> set (cp_deltas plan). database (d_bucket d) = db}
    \<and> (\<forall>delta\<in>{d \<in> set (cp_deltas plan). database (d_bucket d) = db}. \<forall>owner\<in>d_bucket ` set (cp_deltas plan).
        refers_to (cq_models req) delta owner \<longrightarrow>
        app owner \<in> members (cp_depends_on plan) (d_bucket delta)
        \<and> (\<exists>p q. out = p @ app (d_bucket delta) # q \<and> app owner \<in> set p))"
proof (cases "cp_deltas plan = []")
  case True
  show ?thesis by (rule exI [of _ "[]"]) (simp add: True)
next
  case False
  let ?index = "table_to_bucket_index (cq_models req)"
  from compose_plan_parts [OF plan] False obtain deltas where
    eff: "compose_effective version pz req (filter effective deltas) = Some (writes, Inr plan)" by blast
  define work where "work = filter effective deltas"
  obtain reconciled enum_edges where
    rec: "reconcile_enum_ops_across_buckets work (cq_models req) (cq_snapshots req) (cross_bucket_dependencies work ?index)
      = Some (Inr (reconciled, enum_edges))"
    and cp: "cp_deltas plan = filter effective (reclassify reconciled)"
    and orders: "check_orders (add_edges enum_edges (cross_bucket_dependencies work ?index)) (effective_apps (cp_deltas plan)) = Some None"
    and deps: "cp_depends_on plan = depends_on_map (cp_deltas plan) (add_edges enum_edges (cross_bucket_dependencies work ?index)) enum_edges"
    using compose_effective_parts [OF eff, folded work_def] False by blast
  define edges where "edges = add_edges enum_edges (cross_bucket_dependencies work ?index)"
  note ee = reconcile_edges_ok [OF rec]
  note cd = members_cross_dependencies [of work ?index]
  note em = add_edges_members [OF ee cd(1), folded edges_def]
  note dm = depends_on_members [OF em(1) ee, of "cp_deltas plan", folded edges_def]
  define B where "B = members (effective_apps (cp_deltas plan)) db"
  have B: "B = (\<lambda>d. app (d_bucket d)) ` {d \<in> set (cp_deltas plan). database (d_bucket d) = db}"
    unfolding B_def by (rule effective_apps_members(2))
  show ?thesis
  proof (cases "bt_get (effective_apps (cp_deltas plan)) db")
    case None
    then have "B = {}" by (simp add: B_def members_def)
    then have none: "{d \<in> set (cp_deltas plan). database (d_bucket d) = db} = {}" unfolding B by auto
    show ?thesis by (rule exI [of _ "[]"]) (simp add: none)
  next
    case (Some apps)
    note ok = effective_apps_members(1) [of "cp_deltas plan"]
    have apps: "bs_ok apps" "set apps = B" "(db, apps) \<in> set (effective_apps (cp_deltas plan))"
      using ok Some by (auto simp: sets_ok_def B_def members_def bt.entries_get)
    obtain out' where out': "order_buckets db apps edges = Some (Inr out')"
      using check_orders_passed [OF orders apps(3)] by (auto simp: edges_def)
    have "\<forall>targets\<in>set (bt_values edges). bs_ok targets"
      using em(1) by (auto simp: sets_ok_def bt_values_def bt.entries_get)
    from order_buckets_result [OF apps(1) this, of db] obtain out where
      least: "least_first (waits_for db apps edges) B out" and "set out = B - waiting_forever (waits_for db apps edges) B"
      and "order_buckets db apps edges = Some (if waiting_forever (waits_for db apps edges) B = {} then Inr out
         else Inl (sorted_list_of_set (waiting_forever (waits_for db apps edges) B)))"
      unfolding apps(2) by blast
    with out' have set: "set out = B" by (auto split: if_splits)
    have before: "app owner \<in> members (cp_depends_on plan) (d_bucket delta)
        \<and> (\<exists>p q. out = p @ app (d_bucket delta) # q \<and> app owner \<in> set p)"
      if delta: "delta \<in> set (cp_deltas plan)" "database (d_bucket delta) = db"
        and owner_in: "owner \<in> d_bucket ` set (cp_deltas plan)" and refers: "refers_to (cq_models req) delta owner" for delta owner
    proof -
      obtain op table schema where h: "owner \<noteq> d_bucket delta" "database owner = db" "op \<in> set (d_operations delta)"
        "table \<in> set (fk_target_tables op)" "bt_get (cq_models req) owner = Some schema" "bt_has (s_models schema) table"
        "\<And>k s. bt_get (cq_models req) k = Some s \<Longrightarrow> database k = database owner \<Longrightarrow> bt_has (s_models s) table \<Longrightarrow> k = owner"
        using refers delta(2) unfolding refers_to_def fk_target_tables_needed [symmetric] by blast
      have key: "d_bucket delta = BucketKey db (app (d_bucket delta))" using delta(2) by (cases "d_bucket delta") simp
      obtain d' where "d' \<in> set reconciled" "d_bucket delta = d_bucket d'" "d_operations delta = d_operations d'"
        using delta(1) unfolding cp by (auto simp: reclassify_def)
      then obtain d where d: "d \<in> set work" "d_bucket d = d_bucket delta" "op \<in> set (d_operations d)"
        using reconcile_ops_subset [OF rec] h(3) by (metis subsetD)
      have "bt_get ?index (db, table) = Some owner"
        using table_to_bucket_index_get [OF assms(1) h(5,6,7)] h(2) by simp
      then have "app owner \<in> set (delta_targets ?index d)"
        unfolding delta_targets_iff using d h(1,4) delta(2) by auto
      then have edge: "app owner \<in> members edges (d_bucket delta)"
        unfolding em(2) cd(2) using d(1,2) by auto
      have owner: "app owner \<in> B" using h(2) owner_in unfolding B by auto
      have "app (d_bucket delta) \<in> set out" using delta unfolding set B by auto
      then obtain p q where out: "out = p @ app (d_bucket delta) # q" by (auto dest: split_list)
      with least have "waits_for db apps edges (app (d_bucket delta)) \<subseteq> set p" unfolding least_first_def by blast
      moreover have "app owner \<in> waits_for db apps edges (app (d_bucket delta))"
        using edge owner unfolding members_waits_for apps(2) key [symmetric] by blast
      moreover have "app owner \<in> members (cp_depends_on plan) (d_bucket delta)"
        unfolding deps [folded edges_def] dm delta(2) using edge owner by (simp add: B_def)
      ultimately show ?thesis using out by blast
    qed
    show ?thesis
    proof (intro exI [of _ out] conjI)
      show "distinct out" by (rule least_first_distinct [OF least])
      show "set out = (\<lambda>d. app (d_bucket d)) ` {d \<in> set (cp_deltas plan). database (d_bucket d) = db}" using set B by simp
    qed (use before in blast)
  qed
qed

section \<open>Shared enums\<close>

lemma card_deltas_where:
  assumes "distinct (map d_bucket ds)"
  shows "card {d \<in> set ds. database (d_bucket d) = db \<and> P d} = card (deltas_where P db ds)"
proof -
  have "{d \<in> set ds. database (d_bucket d) = db \<and> P d} = (!) ds ` deltas_where P db ds"
    by (auto simp: deltas_where_def in_set_conv_nth)
  moreover have "inj_on ((!) ds) (deltas_where P db ds)"
    using assms by (intro inj_on_nth) (auto simp: deltas_where_def distinct_map)
  ultimately show ?thesis by (simp add: card_image)
qed

lemma reclassified_view:
  assumes "\<And>d c. P (d\<lparr>d_classification := c\<rparr>) = P d" "\<And>d. P d \<Longrightarrow> d_operations d \<noteq> []" "distinct (map d_bucket ds)"
  shows "card {d \<in> set (filter effective (reclassify ds)). database (d_bucket d) = db \<and> P d} = card (deltas_where P db ds)"
    and "d \<in> set (filter effective (reclassify ds)) \<Longrightarrow> P d \<Longrightarrow> database (d_bucket d) = db \<Longrightarrow>
      \<exists>j\<in>deltas_where P db ds. d_bucket (ds ! j) = d_bucket d"
proof -
  let ?f = "\<lambda>d. d\<lparr>d_classification := classify (d_operations d)\<rparr>"
  have view: "{d \<in> set (filter effective (reclassify ds)). database (d_bucket d) = db \<and> P d}
      = ?f ` {d \<in> set ds. database (d_bucket d) = db \<and> P d}" (is "?L = ?f ` ?R")
  proof
    show "?L \<subseteq> ?f ` ?R"
    proof
      fix x assume "x \<in> ?L"
      then obtain d where "d \<in> set ds" "x = ?f d" "database (d_bucket x) = db" "P x" by (auto simp: reclassify_def)
      moreover from this have "P d" using assms(1) [where d = d] by metis
      ultimately show "x \<in> ?f ` ?R" by simp
    qed
    show "?f ` ?R \<subseteq> ?L"
    proof
      fix x assume "x \<in> ?f ` ?R"
      then obtain d where d: "d \<in> set ds" "x = ?f d" "database (d_bucket d) = db" "P d" by blast
      then have "P x" "d_operations x \<noteq> []" using assms(1) [where d = d] assms(2) [where d = d] by simp_all
      with d show "x \<in> ?L" by (simp add: reclassify_def effective_def)
    qed
  qed
  have "inj_on ?f (set ds)"
  proof (rule inj_onI)
    fix x y assume "x \<in> set ds" "y \<in> set ds" "?f x = ?f y"
    then have "d_bucket x = d_bucket y" by (metis SchemaDelta.simps(1) SchemaDelta.surjective SchemaDelta.update_convs(3))
    then show "x = y" using assms(3) \<open>x \<in> set ds\<close> \<open>y \<in> set ds\<close> by (metis distinct_map inj_onD)
  qed
  then have "inj_on ?f {d \<in> set ds. database (d_bucket d) = db \<and> P d}" by (rule inj_on_subset) auto
  then show "card {d \<in> set (filter effective (reclassify ds)). database (d_bucket d) = db \<and> P d} = card (deltas_where P db ds)"
    unfolding view card_deltas_where [OF assms(3), symmetric] by (rule card_image)
  show "\<exists>j\<in>deltas_where P db ds. d_bucket (ds ! j) = d_bucket d"
    if h: "d \<in> set (filter effective (reclassify ds))" "P d" "database (d_bucket d) = db"
  proof -
    obtain j where j: "j < length ds" "d = ?f (ds ! j)" using h(1) by (auto simp: reclassify_def in_set_conv_nth)
    moreover from this have "P (ds ! j)" using h(2) assms(1) by metis
    ultimately show ?thesis using h(3) by (intro bexI [of _ j]) (simp_all add: deltas_where_def)
  qed
qed

lemma composed_enums:
  assumes ok: "schemas_ok (cq_models req)" "schemas_ok (cq_snapshots req)"
    and apart: "renames_apart req"
    and plan: "compose_plan version pz req = Some (writes, Inr plan)"
  shows "card {d \<in> set (cp_deltas plan). database (d_bucket d) = db \<and> adds_enum e d}
      = (if e \<in> names_of_db (cq_models req) db - names_of_db (cq_snapshots req) db then 1 else 0)"
    and "card {d \<in> set (cp_deltas plan). database (d_bucket d) = db \<and> drops_enum e d}
      = (if e \<in> names_of_db (cq_snapshots req) db - names_of_db (cq_models req) db then 1 else 0)"
    and "e \<in> names_in (cq_models req) k - names_in (diffed_snapshots req) k \<Longrightarrow> delta \<in> set (cp_deltas plan) \<Longrightarrow> adds_enum e delta \<Longrightarrow>
      database (d_bucket delta) = database k \<Longrightarrow> d_bucket delta \<noteq> k \<Longrightarrow> app (d_bucket delta) \<in> members (cp_depends_on plan) k"
proof -
  from compose_plan_parts [OF plan] obtain deltas where diff: "compose_diff req = Some (Inr deltas)"
    and rest: "filter effective deltas = [] \<and> cp_deltas plan = []
      \<or> compose_effective version pz req (filter effective deltas) = Some (writes, Inr plan)" by blast
  define work where "work = filter effective deltas"
  have differ: "differ_enum_ops (cq_models req) (diffed_snapshots req) work"
    unfolding work_def by (rule compose_diff_enums [OF ok apart diff])
  note names = renamed_names [OF ok(2) apart]
  have bts: "bt_ok (cq_models req)" "bt_ok (cq_snapshots req)" using ok by (simp_all add: schemas_ok_def)
  have upd: "adds_enum e (d\<lparr>d_classification := c\<rparr>) = adds_enum e d" "drops_enum e (d\<lparr>d_classification := c\<rparr>) = drops_enum e d"
    "adds_enum e d \<Longrightarrow> d_operations d \<noteq> []" "drops_enum e d \<Longrightarrow> d_operations d \<noteq> []" for d c
    by (auto simp: adds_enum_def drops_enum_def)
  consider "work = []" "cp_deltas plan = []" | "compose_effective version pz req work = Some (writes, Inr plan)"
    using rest unfolding work_def by blast
  then have "card {d \<in> set (cp_deltas plan). database (d_bucket d) = db \<and> adds_enum e d}
      = (if e \<in> names_of_db (cq_models req) db - names_of_db (cq_snapshots req) db then 1 else 0)
    \<and> card {d \<in> set (cp_deltas plan). database (d_bucket d) = db \<and> drops_enum e d}
      = (if e \<in> names_of_db (cq_snapshots req) db - names_of_db (cq_models req) db then 1 else 0)
    \<and> (e \<in> names_in (cq_models req) k - names_in (diffed_snapshots req) k \<longrightarrow> delta \<in> set (cp_deltas plan) \<longrightarrow> adds_enum e delta \<longrightarrow>
      database (d_bucket delta) = database k \<longrightarrow> d_bucket delta \<noteq> k \<longrightarrow> app (d_bucket delta) \<in> members (cp_depends_on plan) k)"
  proof cases
    case 1
    then have "names_in (cq_models req) j - names_in (diffed_snapshots req) j = {}"
      "names_in (diffed_snapshots req) j - names_in (cq_models req) j = {}" for j
      using differ unfolding differ_enum_ops_def by auto
    then have "e \<notin> names_of_db (cq_models req) db - names_of_db (cq_snapshots req) db"
      "e \<notin> names_of_db (cq_snapshots req) db - names_of_db (cq_models req) db"
      unfolding names(1) [symmetric] unfolding names_of_db_def by blast+
    with 1(2) show ?thesis by simp
  next
    case 2
    let ?deps = "cross_bucket_dependencies work (table_to_bucket_index (cq_models req))"
    obtain reconciled edges where
      rec: "reconcile_enum_ops_across_buckets work (cq_models req) (cq_snapshots req) ?deps = Some (Inr (reconciled, edges))"
      and cp: "cp_deltas plan = filter effective (reclassify reconciled)"
      and deps: "cp_deltas plan \<noteq> [] \<Longrightarrow> cp_depends_on plan = depends_on_map (cp_deltas plan) (add_edges edges ?deps) edges"
      using compose_effective_parts [OF 2] by blast
    note once = shared_enums_once [OF bts differ names rec]
    have distinct: "distinct (map d_bucket work)" using differ by (simp add: differ_enum_ops_def)
    then have distinct': "distinct (map d_bucket reconciled)" by (simp add: reconcile_buckets [OF rec])
    have dep: "app (d_bucket delta) \<in> members (cp_depends_on plan) k"
      if h: "e \<in> names_in (cq_models req) k - names_in (diffed_snapshots req) k" "delta \<in> set (cp_deltas plan)" "adds_enum e delta"
        "database (d_bucket delta) = database k" "d_bucket delta \<noteq> k"
    proof -
      obtain j where j: "j \<in> deltas_where (adds_enum e) (database k) reconciled" "d_bucket (reconciled ! j) = d_bucket delta"
        using reclassified_view(2) [where P = "adds_enum e", OF upd(1,3) distinct' h(2) [unfolded cp] h(3) h(4)] by blast
      obtain d where "d \<in> set work" "d_bucket d = k" "adds_enum e d"
        using differ h(1) unfolding differ_enum_ops_def by blast
      then obtain i where i: "i \<in> deltas_where (adds_enum e) (database k) work" "d_bucket (work ! i) = k"
        by (auto simp: deltas_where_def in_set_conv_nth)
      have "j < length work" "d_bucket (work ! j) = d_bucket delta"
        using j reconcile_buckets [OF rec] by (auto simp: deltas_where_def) (metis length_map, metis length_map nth_map)
      moreover from this have "i \<noteq> j" using i(2) h(5) by auto
      ultimately have "app (d_bucket delta) \<in> members edges k"
        using once [of e "database k"] i j(1) by force
      moreover have "cp_deltas plan \<noteq> []" using h(2) by auto
      ultimately show ?thesis
        using depends_on_members [OF add_edges_members(1) reconcile_edges_ok [OF rec]] reconcile_edges_ok [OF rec]
          members_cross_dependencies(1) by (subst deps) auto
    qed
    have "card {d \<in> set (cp_deltas plan). database (d_bucket d) = db \<and> adds_enum e d} = card (deltas_where (adds_enum e) db reconciled)"
      unfolding cp by (rule reclassified_view(1) [OF upd(1,3) distinct'])
    moreover have "card {d \<in> set (cp_deltas plan). database (d_bucket d) = db \<and> drops_enum e d} = card (deltas_where (drops_enum e) db reconciled)"
      unfolding cp by (rule reclassified_view(1) [OF upd(2,4) distinct'])
    ultimately show ?thesis using once [of e db] dep by simp
  qed
  then show "card {d \<in> set (cp_deltas plan). database (d_bucket d) = db \<and> adds_enum e d}
      = (if e \<in> names_of_db (cq_models req) db - names_of_db (cq_snapshots req) db then 1 else 0)"
    and "card {d \<in> set (cp_deltas plan). database (d_bucket d) = db \<and> drops_enum e d}
      = (if e \<in> names_of_db (cq_snapshots req) db - names_of_db (cq_models req) db then 1 else 0)"
    and "e \<in> names_in (cq_models req) k - names_in (diffed_snapshots req) k \<Longrightarrow> delta \<in> set (cp_deltas plan) \<Longrightarrow> adds_enum e delta \<Longrightarrow>
      database (d_bucket delta) = database k \<Longrightarrow> d_bucket delta \<noteq> k \<Longrightarrow> app (d_bucket delta) \<in> members (cp_depends_on plan) k"
    by blast+
qed

text \<open>
  C9: take well-formed models and snapshots and app renames that keep apart (no two snapshots get
  the same bucket, no models stand in a bucket that was renamed away). Over all migrations
  composed for a database, an enum that is new to the database is created exactly once and an
  enum no app of it uses any more is dropped exactly once, however many apps share it; nothing
  else is created or dropped. Every other app that starts to use the enum depends on the app
  that creates it.
\<close>

theorem composed_enums_once:
  assumes "schemas_ok (cq_models req)" "schemas_ok (cq_snapshots req)"
    and "renames_apart req"
    and "compose_plan version pz req = Some (writes, Inr plan)"
  shows "card {d \<in> set (cp_deltas plan). database (d_bucket d) = db \<and> adds_enum e d}
      = (if e \<in> names_of_db (cq_models req) db - names_of_db (cq_snapshots req) db then 1 else 0)
    \<and> card {d \<in> set (cp_deltas plan). database (d_bucket d) = db \<and> drops_enum e d}
      = (if e \<in> names_of_db (cq_snapshots req) db - names_of_db (cq_models req) db then 1 else 0)
    \<and> (\<forall>k delta. e \<in> names_in (cq_models req) k - names_in (diffed_snapshots req) k \<longrightarrow> delta \<in> set (cp_deltas plan) \<longrightarrow>
        adds_enum e delta \<longrightarrow> database (d_bucket delta) = database k \<longrightarrow> d_bucket delta \<noteq> k \<longrightarrow>
        app (d_bucket delta) \<in> members (cp_depends_on plan) k)"
  using composed_enums [OF assms] by blast

section \<open>Composing again after a refusal\<close>

lemma no_renames: "\<forall>a\<in>set apps. al_renamed_from a = None \<Longrightarrow> renamed_bucket apps = id"
proof -
  assume "\<forall>a\<in>set apps. al_renamed_from a = None"
  then have "List.map_filter (\<lambda>a. map_option (\<lambda>old. ((al_database a, old), al_label a)) (al_renamed_from a)) apps = []"
    by (induction apps) (simp_all add: List.map_filter_simps)
  then show ?thesis by (simp add: fun_eq_iff renamed_bucket_def app_renames_def bt_collect_def bt_get_def)
qed

lemma bt_keys_distinct: "bt_ok m \<Longrightarrow> distinct (bt_keys m)"
  using bt_ok_distinct by (simp add: bt_keys_def)

definition write_snapshots ::
  "(BucketKey \<times> AppliedSchema) list \<Rightarrow> (BucketKey, AppliedSchema) btree \<Rightarrow> (BucketKey, AppliedSchema) btree" where
  "write_snapshots writes snapshots = fold (\<lambda>(k, s). bt_put k s) writes snapshots"

lemma written_snapshots:
  assumes "compose_plan version pz req = Some (writes, result)" "(k, s) \<in> set writes"
  shows "s = converged_snapshot version req k"
proof -
  have "\<exists>bks. writes = map (\<lambda>bk. (bk, converged_snapshot version req bk)) bks"
    if "compose_effective version pz req work = Some (writes, result)" for work
    using that unfolding compose_effective_def Let_def by (auto split: option.splits sum.splits prod.splits if_splits)
  then have "\<exists>bks. writes = map (\<lambda>bk. (bk, converged_snapshot version req bk)) bks"
    using assms(1) unfolding compose_plan_def Let_def by (auto split: option.splits sum.splits if_splits)
  then show ?thesis using assms(2) by auto
qed

lemma write_snapshots_get:
  assumes "bt_ok snapshots"
  shows "bt_ok (write_snapshots writes snapshots)"
    and "bt_get (write_snapshots writes snapshots) k = Some s \<Longrightarrow> (k, s) \<in> set writes \<or> bt_get snapshots k = Some s"
    and "(k, s) \<in> set writes \<Longrightarrow> \<exists>s'. (k, s') \<in> set writes \<and> bt_get (write_snapshots writes snapshots) k = Some s'"
proof -
  note puts = bt_puts [OF assms, of writes k, folded write_snapshots_def]
  show "bt_ok (write_snapshots writes snapshots)" using puts by blast
  show "(k, s) \<in> set writes \<or> bt_get snapshots k = Some s" if "bt_get (write_snapshots writes snapshots) k = Some s"
    using that puts by (auto split: option.splits dest: map_of_SomeD)
  show "\<exists>s'. (k, s') \<in> set writes \<and> bt_get (write_snapshots writes snapshots) k = Some s'" if "(k, s) \<in> set writes"
    using last_entry [OF that] puts by auto
qed

text \<open>
  C37: a refused composition has already advanced the snapshots of the buckets whose
  operations were all duplicates. Composing the same request again at once, now with permission
  and in both cases without app renames, takes the enums of those buckets for existing: no
  migration creates them, although none did before.
\<close>

theorem refused_compose_loses_enum:
  assumes ok: "schemas_ok (cq_models req)" "schemas_ok (cq_snapshots req)"
    and same_apps: "\<forall>a\<in>set (cq_apps req). al_renamed_from a = None"
    and refused: "compose_plan version pz req = Some (writes, Inl err)" and "k \<in> fst ` set writes"
    and again: "compose_plan version' pz' (req\<lparr>cq_snapshots := write_snapshots writes (cq_snapshots req), cq_allow_destructive := True\<rparr>)
      = Some (writes', Inr plan)"
    and new: "e \<in> names_in (cq_models req) k"
  shows "\<not> (\<exists>d\<in>set (cp_deltas plan). database (d_bucket d) = database k \<and> adds_enum e d)"
proof -
  let ?snaps = "write_snapshots writes (cq_snapshots req)"
  have bt: "bt_ok (cq_snapshots req)" using ok(2) by (simp add: schemas_ok_def)
  obtain s where s: "(k, s) \<in> set writes" "bt_get ?snaps k = Some s"
    using write_snapshots_get(3) [OF bt] assms(5) by force
  have "set (bt_keys (s_enums s)) = names_in (cq_models req) k"
    using written_snapshots [OF refused s(1)]
    by (simp add: converged_snapshot_def names_in_def empty_schema_for_def bt_keys_def split: option.splits)
  then have old: "e \<in> names_of_db ?snaps (database k)"
    using new s(2) by (auto simp: names_of_db_def names_in_def)
  have "schema_ok (empty_schema_for version j)" for j by (simp add: schema_ok_def empty_schema_for_def)
  then have written: "schema_ok x" if "(j, x) \<in> set writes" for j x
    using written_snapshots [OF refused that] ok(1)
    by (auto simp: converged_snapshot_def schemas_ok_def bt_values_def bt_get_def dest!: map_of_SomeD split: option.splits)
  have apart: "renames_apart (req\<lparr>cq_snapshots := ?snaps, cq_allow_destructive := True\<rparr>)"
    using no_renames [OF same_apps] bt_keys_distinct [OF write_snapshots_get(1) [OF bt]]
    by (simp add: renames_apart_def list_all_iff)
  have "schemas_ok ?snaps"
  proof -
    have "schema_ok x" if "(j, x) \<in> set ?snaps" for j x
    proof -
      have "bt_get ?snaps j = Some x" using that bt.entries_get [OF write_snapshots_get(1) [OF bt]] by blast
      from write_snapshots_get(2) [OF bt this] written ok(2) show ?thesis
        by (auto simp: schemas_ok_def bt_values_def bt_get_def dest!: map_of_SomeD)
    qed
    then show ?thesis using write_snapshots_get(1) [OF bt] by (auto simp: schemas_ok_def bt_values_def)
  qed
  then have "card {d \<in> set (cp_deltas plan). database (d_bucket d) = database k \<and> adds_enum e d} = 0"
    using composed_enums(1) [OF _ _ apart again] ok(1) old by simp
  moreover have "finite {d \<in> set (cp_deltas plan). database (d_bucket d) = database k \<and> adds_enum e d}" by simp
  ultimately show ?thesis by (simp only: card_eq_0_iff) blast
qed

end
