(* ===== verification/Compose_Witness.thy ===== *)
theory Compose_Witness
  imports Compose_Props
begin

text \<open>
  Concrete compositions: two apps of one database that start to share an enum, and two new apps
  of which the first refers to a table of the second.
\<close>

definition enum_schema :: "string list \<Rightarrow> AppliedSchema" where
  "enum_schema names = empty_schema\<lparr>s_enums := map (\<lambda>n. (n, \<lparr>e_name = n, e_variants = [''x'']\<rparr>)) names\<rparr>"

definition sample_request :: ComposeRequest where
  "sample_request =
     \<lparr>cq_models = [(BucketKey ''main'' ''a'', enum_schema [''color'']), (BucketKey ''main'' ''b'', enum_schema [''color''])],
      cq_snapshots = [(BucketKey ''main'' ''a'', enum_schema [''old''])],
      cq_apps = [], cq_allow_destructive = False, cq_pk_flip_join_table_option = None\<rparr>"

definition refused_writes :: "(BucketKey \<times> AppliedSchema) list" where
  "refused_writes = [(BucketKey ''main'' ''b'', enum_schema [''color''])]"

lemma sample_refused:
  "compose_plan ''1'' False sample_request
    = Some (refused_writes, Inl (DestructiveRequiresAllowDestructive (BucketKey ''main'' ''a'') Destructive))"
  by code_simp

definition sample_plan :: ComposePlan where
  "sample_plan =
     \<lparr>cp_deltas = [\<lparr>d_bucket = BucketKey ''main'' ''a'',
         d_operations = [AddEnum \<lparr>e_name = ''color'', e_variants = [''x'']\<rparr>, DropEnum ''old''], d_classification = Destructive\<rparr>],
      cp_depends_on = [(BucketKey ''main'' ''a'', []), (BucketKey ''main'' ''b'', [''a''])],
      cp_converged = [BucketKey ''main'' ''b'']\<rparr>"

lemma sample_composed:
  "compose_plan ''1'' False (sample_request\<lparr>cq_allow_destructive := True\<rparr>) = Some (refused_writes, Inr sample_plan)"
  by code_simp

definition second_plan :: ComposePlan where
  "second_plan =
     \<lparr>cp_deltas = [\<lparr>d_bucket = BucketKey ''main'' ''a'', d_operations = [DropEnum ''old''], d_classification = Destructive\<rparr>],
      cp_depends_on = [(BucketKey ''main'' ''a'', [])], cp_converged = []\<rparr>"

lemma sample_again:
  "compose_plan ''1'' False (sample_request\<lparr>cq_snapshots := write_snapshots refused_writes (cq_snapshots sample_request),
     cq_allow_destructive := True\<rparr>) = Some ([], Inr second_plan)"
  by code_simp

lemma sample_ok:
  "schemas_ok (cq_models sample_request)" "schemas_ok (cq_snapshots sample_request)"
  "\<forall>a\<in>set (cq_apps sample_request). al_renamed_from a = None"
  by code_simp+

theorem composed_is_permitted_witness:
  "d_classification (hd (cp_deltas sample_plan)) = classify (d_operations (hd (cp_deltas sample_plan)))
    \<and> (\<forall>r. Unsupported r \<notin> set (d_operations (hd (cp_deltas sample_plan))))"
proof -
  have "hd (cp_deltas sample_plan) \<in> set (cp_deltas sample_plan)" by (simp add: sample_plan_def)
  from composed_is_permitted [OF sample_composed this] show ?thesis by blast
qed

text \<open>The same two apps, the first of them renamed since its snapshot.\<close>

definition renamed_request :: ComposeRequest where
  "renamed_request =
     sample_request\<lparr>cq_snapshots := [(BucketKey ''main'' ''c'', enum_schema [''old''])],
       cq_apps := [\<lparr>al_label = ''a'', al_database = ''main'', al_renamed_from = Some ''c'', al_tombstone = False\<rparr>],
       cq_allow_destructive := True\<rparr>"

definition renamed_plan :: ComposePlan where
  "renamed_plan =
     sample_plan\<lparr>cp_deltas := [\<lparr>d_bucket = BucketKey ''main'' ''a'',
       d_operations = [RenameApp ''c'' ''a'', AddEnum \<lparr>e_name = ''color'', e_variants = [''x'']\<rparr>, DropEnum ''old''],
       d_classification = Destructive\<rparr>]\<rparr>"

lemma renamed_composed: "compose_plan ''1'' False renamed_request = Some (refused_writes, Inr renamed_plan)"
  by code_simp

theorem composed_enums_once_witness:
  "card {d \<in> set (cp_deltas renamed_plan). database (d_bucket d) = ''main'' \<and> adds_enum ''color'' d} = 1"
proof -
  have ok: "schemas_ok (cq_models renamed_request)" "schemas_ok (cq_snapshots renamed_request)" "renames_apart renamed_request"
    by code_simp+
  have "''color'' \<in> names_of_db (cq_models renamed_request) ''main'' - names_of_db (cq_snapshots renamed_request) ''main''"
    by (auto simp: names_of_db_def names_in_def renamed_request_def sample_request_def enum_schema_def bt_get_def bt_keys_def
        split: option.splits if_splits)
  then show ?thesis
    using composed_enums_once [OF ok renamed_composed, of "''main''" "''color''"] by simp
qed

theorem refused_compose_loses_enum_witness:
  "\<not> (\<exists>d\<in>set (cp_deltas second_plan). database (d_bucket d) = ''main'' \<and> adds_enum ''color'' d)"
proof -
  have "BucketKey ''main'' ''b'' \<in> fst ` set refused_writes" by (simp add: refused_writes_def)
  moreover have "''color'' \<in> names_in (cq_models sample_request) (BucketKey ''main'' ''b'')" by code_simp
  ultimately show ?thesis
    using refused_compose_loses_enum [OF sample_ok sample_refused _ sample_again, of "BucketKey ''main'' ''b''" "''color''"] by simp
qed

section \<open>A label taken again\<close>

text \<open>
  \<^const>\<open>renames_apart\<close> is needed: the reconciliation looks at the snapshots before the renames. An
  app is renamed and a new app takes its old label; both use the enum the renamed app has had
  since its snapshot. The new app's migration creates the enum again.
\<close>

definition reused_request :: ComposeRequest where
  "reused_request =
     sample_request\<lparr>cq_snapshots := [(BucketKey ''main'' ''a'', enum_schema [''color''])],
       cq_apps := [\<lparr>al_label = ''b'', al_database = ''main'', al_renamed_from = Some ''a'', al_tombstone = False\<rparr>]\<rparr>"

lemma reused_label_creates_again:
  "compose_plan ''1'' False reused_request = Some ([], Inr
     \<lparr>cp_deltas =
        [\<lparr>d_bucket = BucketKey ''main'' ''a'', d_operations = [AddEnum \<lparr>e_name = ''color'', e_variants = [''x'']\<rparr>],
          d_classification = Additive\<rparr>,
         \<lparr>d_bucket = BucketKey ''main'' ''b'', d_operations = [RenameApp ''a'' ''b''], d_classification = Reversible\<rparr>],
      cp_depends_on = [(BucketKey ''main'' ''a'', []), (BucketKey ''main'' ''b'', [])], cp_converged = []\<rparr>)"
  by code_simp

section \<open>A reference between apps\<close>

definition plain_column :: "string \<Rightarrow> string option \<Rightarrow> ColumnSchema" where
  "plain_column name target =
     \<lparr>c_check = None, c_codec = None, c_comment = None, c_default_sql = None,
      c_foreign_key = map_option (\<lambda>t. \<lparr>fk_deferrable = False, fk_initially_deferred = False,
        fk_on_delete = OnDeleteSchema.Cascade, fk_ref_column = ''id'', fk_ref_table = t\<rparr>) target,
      c_generated = None, c_identity = None, c_index_type = None, c_indexed = False, c_max_length = None,
      c_name = name, c_nullable = False, c_on_delete = None, c_outbox_exclude = False, c_rationale = None,
      c_relation_kind = None, c_renamed_from = None, c_sequence_within = None, c_sql_type = ''BIGINT'',
      c_unique = False, c_type_change_using = None\<rparr>"

definition plain_table :: "string \<Rightarrow> ColumnSchema list \<Rightarrow> TableSchema" where
  "plain_table name columns =
     \<lparr>t_app = None, t_columns = columns, t_exclusion_constraints = [], t_fts = None, t_is_through = False,
      t_moved_from_app = None, t_partition = None, t_primary_key = \<lparr>pk_columns = [''id''], pk_kind = PkKindSchema.Serial\<rparr>,
      t_rationale = None, t_renamed_from = None, t_rls_enabled = False, t_storage_params = None, t_table = name,
      t_table_comment = None, t_tablespace = None, t_tenant_key = None\<rparr>"

definition post_table :: TableSchema where
  "post_table = plain_table ''post'' [plain_column ''id'' None, plain_column ''author'' (Some ''user'')]"

definition user_table :: TableSchema where
  "user_table = plain_table ''user'' [plain_column ''id'' None]"

definition blog_request :: ComposeRequest where
  "blog_request =
     \<lparr>cq_models = [(BucketKey ''main'' ''blog'', empty_schema\<lparr>s_models := [(''post'', post_table)]\<rparr>),
                   (BucketKey ''main'' ''users'', empty_schema\<lparr>s_models := [(''user'', user_table)]\<rparr>)],
      cq_snapshots = [], cq_apps = [], cq_allow_destructive = False, cq_pk_flip_join_table_option = None\<rparr>"

definition blog_delta :: SchemaDelta where
  "blog_delta = \<lparr>d_bucket = BucketKey ''main'' ''blog'', d_operations = [AddTable post_table], d_classification = Additive\<rparr>"

definition blog_plan :: ComposePlan where
  "blog_plan =
     \<lparr>cp_deltas = [blog_delta,
        \<lparr>d_bucket = BucketKey ''main'' ''users'', d_operations = [AddTable user_table], d_classification = Additive\<rparr>],
      cp_depends_on = [(BucketKey ''main'' ''blog'', [''users'']), (BucketKey ''main'' ''users'', [])],
      cp_converged = []\<rparr>"

lemma blog_composed: "compose_plan ''1'' False blog_request = Some ([], Inr blog_plan)"
  by code_simp

lemma blog_refers: "refers_to (cq_models blog_request) blog_delta (BucketKey ''main'' ''users'')"
proof -
  have "needs_table (AddTable post_table) ''user''"
    unfolding fk_target_tables_needed [symmetric] by code_simp
  moreover have "bt_has [(''user'', user_table)] ''user''" "\<not> bt_has [(''post'', post_table)] ''user''" by code_simp+
  ultimately show ?thesis
    by (auto simp: refers_to_def blog_delta_def blog_request_def bt_get_def simp del: needs_table_simps
        intro!: exI [of _ "''user''"] split: if_splits)
qed

theorem composed_order_exists_witness:
  "\<exists>out. distinct out \<and> set out = {''blog'', ''users''} \<and> (\<exists>p q. out = p @ ''blog'' # q \<and> ''users'' \<in> set p)"
proof -
  let ?ds = "{d \<in> set (cp_deltas blog_plan). database (d_bucket d) = ''main''}"
  have ok: "bt_ok (cq_models blog_request)" by code_simp
  have ds: "?ds = set (cp_deltas blog_plan)" by (auto simp: blog_plan_def blog_delta_def)
  have apps: "(\<lambda>d. app (d_bucket d)) ` ?ds = {''blog'', ''users''}"
    unfolding ds by (simp add: blog_plan_def blog_delta_def)
  have blog: "blog_delta \<in> ?ds" unfolding ds by (simp add: blog_plan_def)
  have name: "app (d_bucket blog_delta) = ''blog''" by (simp add: blog_delta_def)
  have users: "BucketKey ''main'' ''users'' \<in> d_bucket ` set (cp_deltas blog_plan)" by (simp add: blog_plan_def)
  obtain out where out: "distinct out" "set out = (\<lambda>d. app (d_bucket d)) ` ?ds"
    and after: "\<forall>delta\<in>?ds. \<forall>owner\<in>d_bucket ` set (cp_deltas blog_plan). refers_to (cq_models blog_request) delta owner \<longrightarrow>
        app owner \<in> members (cp_depends_on blog_plan) (d_bucket delta) \<and> (\<exists>p q. out = p @ app (d_bucket delta) # q \<and> app owner \<in> set p)"
    using composed_order_exists [OF ok blog_composed, of "''main''"] by blast
  from after [rule_format, OF blog users blog_refers] out show ?thesis unfolding apps name by auto
qed

end
