(* ===== verification/Spec2Isabelle.thy ===== *)
theory Spec2Isabelle
  imports Witnesses Flip_Witness Ewkb_Props Query_Regroup Query_Like Compose_Witness
begin

text \<open>
  \<^bold>\<open>A model of djogi's migration engine and of its predicates.\<close>

  djogi is an object-relational mapper for Rust on PostgreSQL. Its core logic is the migration
  engine, a pipeline over an owned schema model, and the query builder, which turns typed
  predicates into SQL. The migration engine:

  \<^item> the macros project the Rust models to an \<open>AppliedSchema\<close> (\<open>migrate/schema.rs\<close>);
  \<^item> the differ (\<open>migrate/diff.rs\<close>) compares the applied schema with the projected one and
    produces a delta: a list of operations with a classification, in one bucket per database
    and app; changes of primary-key kind are promoted to groups with everything that refers to
    the changed key;
  \<^item> the emitter (\<open>migrate/sql.rs\<close>) lowers one operation to forward SQL, rollback SQL and a
    warning when the rollback loses data;
  \<^item> the planner (\<open>migrate/segment.rs\<close>) orders the operations by phase, sorts new tables by
    their references, and cuts the lowered statements into transactional and
    non-transactional segments; a primary-key flip brings segments of its own
    (\<open>migrate/pk_flip.rs\<close>), which build a shadow column beside the key and beside every
    reference to it and swap them in one transaction;
  \<^item> the composer (\<open>migrate/compose.rs\<close>) takes the buckets that changed, of all apps of a
    database, settles renames, tombstones and the apps that share an enum, refuses what is
    destructive without permission, and orders the apps by what their migrations refer to;
  \<^item> the online classifier (\<open>live_migrate/classify.rs\<close>, \<open>migrate/pg_volatility.rs\<close>) decides
    which operations may run on a live database;
  \<^item> a live migration is a plan (\<open>live_migrate/plan.rs\<close>) whose progress is a row of the table
    \<open>djogi_live_plans\<close> (\<open>live_migrate/state.rs\<close>).

  The query side: a predicate (\<open>query/q.rs\<close>) combines portable predicates of another crate,
  conditions (\<open>query/condition.rs\<close>) and expressions (\<open>expr/node.rs\<close>). Its emitters
  (\<open>query/sql.rs\<close>, \<open>query/portable.rs\<close>, \<open>expr/sql.rs\<close>) append text and bind values to an
  accumulator (\<open>pg/accumulator.rs\<close>), which numbers the placeholders. Column names are checked
  at compile time (\<open>ident.rs\<close>) and pushed unquoted. Geometry values travel as extended
  well-known binary (\<open>geo/ewkb.rs\<close>).

  \<^bold>\<open>Theories.\<close> All paths are under \<open>djogi/src/\<close>.

  \<^item> \<^verbatim>\<open>Prelude\<close>: Rust's ordered maps and sets as sorted association lists (\<open>bt_...\<close>, \<open>bs_...\<close>),
    the locales of an ordered map, of an equality and of a label table, with their facts.
  \<^item> \<^verbatim>\<open>Rust_Str\<close>: \<open>str\<close> and \<open>u8\<close> operations on UTF-8 byte strings. Strings are lists of bytes.
  \<^item> \<^verbatim>\<open>Schema\<close>: the records and enums of \<open>schema.rs\<close>, one field per field, and the hand-written
    equality that ignores the operator's cast hint.
  \<^item> \<^verbatim>\<open>Diff_Types\<close>, \<^verbatim>\<open>Diff_Table\<close>, \<^verbatim>\<open>Diff_Schema\<close>: the operations, severities and the differ,
    pass by pass; \<^verbatim>\<open>Keyed_Diff\<close> the locale of a diff keyed by name, interpreted for indexes and
    exclusion constraints; \<^verbatim>\<open>Ddl_Spec\<close> what the column operations do to a table's columns;
    \<^verbatim>\<open>Diff_Silent\<close> what the differ does not see.
  \<^item> \<^verbatim>\<open>Pk_Promote\<close>: promotion of primary-key flips, moves between apps, the bucket diff;
    \<^verbatim>\<open>Pk_Cluster\<close>: union-find clusters of flipping parents and their merge.
  \<^item> \<^verbatim>\<open>Sql_Text\<close>, \<^verbatim>\<open>Sql_Emit\<close>: quoting, derived names, storage parameters, and one definition per
    emitter of \<open>sql.rs\<close>; \<^verbatim>\<open>Sql_Lex\<close> a lexer of what PostgreSQL reads back; \<^verbatim>\<open>Sql_Props\<close>,
    \<^verbatim>\<open>Storage_Params\<close> their properties.
  \<^item> \<^verbatim>\<open>Toposort\<close>, \<^verbatim>\<open>Segment\<close>: \<open>toposort_add_tables\<close>, \<open>order_operations\<close>, \<open>plan_delta\<close>.
  \<^item> \<^verbatim>\<open>Pk_Flip\<close>: the builders of a flip's segments; a statement is a value with a text, so
    that it can also be run. \<^verbatim>\<open>Flip_Catalog\<close> runs statements on a catalog of columns, keys,
    constraints, indexes and triggers, failing where PostgreSQL fails; \<^verbatim>\<open>Flip_Sites\<close>,
    \<^verbatim>\<open>Flip_Stages\<close>, \<^verbatim>\<open>Flip_Run\<close> take a whole flip through it, stage by stage;
    \<^verbatim>\<open>Flip_Props\<close>, \<^verbatim>\<open>Flip_Undo\<close> what a flip leaves behind, and its rollback.
  \<^item> \<^verbatim>\<open>Compose_Order\<close>: the order of the buckets and the dependencies between them;
    \<^verbatim>\<open>Compose_Enums\<close>: enums shared by the apps of a database, and who creates and drops them;
    \<^verbatim>\<open>Compose\<close>: renames, tombstones, the gate, the loops over the buckets and the snapshots they
    write; \<^verbatim>\<open>Diff_Enums\<close>: the enum operations of the differ; \<^verbatim>\<open>Compose_Props\<close>,
    \<^verbatim>\<open>Compose_Witness\<close> the properties of a composed plan.
  \<^item> \<^verbatim>\<open>Volatility\<close>, \<^verbatim>\<open>Online_Class\<close>: the two classifiers of the live path.
  \<^item> \<^verbatim>\<open>Live_Plan\<close>, \<^verbatim>\<open>Live_State\<close>: plans and the state table, the latter as a step relation with
    its reachable tables.
  \<^item> \<^verbatim>\<open>Result\<close>, \<^verbatim>\<open>Ewkb\<close>, \<^verbatim>\<open>Ewkb_Props\<close>: fallible computations, the geometry codec and its laws.
  \<^item> \<^verbatim>\<open>Accumulator\<close>: an emitter is the list of its calls on the accumulator; what building and
    splicing make of them. \<^verbatim>\<open>Ident\<close>: the identifier checks, while compiling and while running, and the
    server's rules for names.
  \<^item> \<^verbatim>\<open>Query_Ast\<close>, \<^verbatim>\<open>Query_Emit\<close>, \<^verbatim>\<open>Query_Pred\<close>: the trees of expressions, conditions and
    predicates, their operators, and one definition per emitter.
  \<^item> \<^verbatim>\<open>Query_Lex\<close>, \<^verbatim>\<open>Query_Read\<close>: the server's side, a lexer and the operator precedences of
    PostgreSQL as a grammar with one reading per text; \<^verbatim>\<open>Query_Says\<close>, \<^verbatim>\<open>Query_Told\<close> what a list
    of calls says in that grammar, emitter by emitter; \<^verbatim>\<open>Query_Trees\<close>, \<^verbatim>\<open>Query_Typed\<close> the tree an
    expression stands for and the expressions that are read as it; \<^verbatim>\<open>Query_Cond\<close>,
    \<^verbatim>\<open>Query_Where\<close> the same for conditions and predicates; \<^verbatim>\<open>Query_Regroup\<close> the comparisons that
    are not.
  \<^item> \<^verbatim>\<open>Query_Meaning\<close>: three-valued truth of a predicate, its operators, elided filters and the
    bridge from predicates to conditions; \<^verbatim>\<open>Query_Like\<close> the server's pattern matching and what
    escaping makes of a literal.
  \<^item> \<^verbatim>\<open>Witnesses\<close>, \<^verbatim>\<open>Flip_Witness\<close>: concrete inputs for every property with a hypothesis.

  \<^bold>\<open>What is shown.\<close> Running the differ's operations on the old columns, indexes and
  constraints ends in the new ones; a harmless classification loses no table and no column; the
  rollback SQL of an operation is the forward SQL of its inverse, for the operations listed
  there, and a drop without a warning comes back; quoted text cannot break out of its quotes, and
  what the server makes of it is stated; lowering fails on exactly the stated inputs, and panics
  on the differ's output only in a debug build, on a stated change; created tables never refer to a missing one,
  whatever cycles a batch has; a plan holds exactly the lowered operations in phase order;
  promotion accounts for every referring column once, and clusters are the connected components
  of the shared join tables; a flip whose references sit in tables of their own runs to its end
  and leaves exactly the stated catalog, its preparation can be rolled back, and what it breaks
  is named: a second reference from one table, a flip back, the keys of join tables; ordering
  the apps always returns, and a composed plan creates a shared enum once, holds nothing
  unsupported, is destructive only with permission or beside a flip of a key, and has every app after the
  apps it refers to; a type change let through online keeps every value; the verdicts
  are monotone in the table's size; state updates touch one row and rows read back as written.
  The text of an expression or predicate of the covered fragment has one reading by the server's
  grammar, and it is the tree the caller built with every value in its place; the fragment asks
  that operands are of the kind their operator takes, and a nested comparison outside it is
  shown to be regrouped. Operators on predicates, with their flattening, are the connectives of
  three-valued logic; a filter that is left out is true; an escaped pattern matches its literal.
  Splicing accumulators is replaying their calls, when these push no placeholders as text;
  decoders accept exactly the buffers that begin with an encoding (for points, that are one), and
  encoders fill what they reserve. The identifier checks accept the same names, and which.

  \<^bold>\<open>Errors, panics and bounds.\<close> A \<open>Result\<close> is a sum with the error on the left. A function that
  can panic (\<open>unreachable!\<close>, \<open>panic!\<close>) returns an option with the panic as \<^const>\<open>None\<close>. A debug
  assertion of the SQL emitter panics when the parameter \<open>build\<close> says that debug assertions are
  compiled in; the one of the expression emitter, which no caller outside the crate can reach,
  always. Loops whose end is not structural are
  functions with a measure, or, for the pointer chase of union-find, a partial function with a
  proof that it returns. The closure of promoted parents runs for the 64 rounds of the source
  and one more, which reports the error. Plan ids, counters and row estimates are machine words.

  \<^bold>\<open>Parameters.\<close> \<open>build\<close> holds what the compiler fixes: the standard library's \<open>DefaultHasher\<close>, whose
  algorithm Rust leaves open, and whether debug assertions are compiled in; the validity of a plan id (an external crate) is a parameter of the row decoder. The
  composer's \<open>version\<close> is the version of the package, set by the build, and \<open>phase_zero\<close> says
  whether the database's preparatory migration was written. The
  portable predicates come from the crate \<open>sassi\<close>: its smart constructors and the emitters its
  field values carry are parameters of the predicate emitters. The precedences of
  \<^verbatim>\<open>Query_Read\<close> are those of the PostgreSQL manual, section 4.1.6.

  \<^bold>\<open>Not modelled.\<close> Of the query builder, the typed front end, which only builds the trees above,
  and the statement builders around a WHERE clause (joins, grouping, set operations, common table
  expressions); the build is the one without the spatial, trigram and network features. The
  procedural macros; the command line and the runner (files, locks, database sessions); pool,
  transactions, cache and outbox (asynchronous input and output); concurrent sessions on the
  state table; of a flip, the runner's expansion of a partition's leaves, and the catalog run of
  self references, partitions and clusters; of the composer, rendering a migration's files,
  writing them, detecting edits by hand and removing files after a failure; the replay of
  recorded plans.
\<close>

end
